(* ===== verification/Prelude.thy ===== *)
theory Prelude
  imports Complex_Main "HOL-Library.AList" "HOL-Library.Multiset" "HOL-Library.Sublist"
begin

text \<open>
  Shared vocabulary of the development: results that carry an error, the insertion-ordered
  \<open>Map\<close> of JavaScript as an association list, bounded scans (a loop that pushes matching items
  and stops at a limit), stable sorting by sequence number, and the \<open>named_theorems\<close>
  collections the component theories fill.
\<close>

named_theorems map_simps "facts about insertion-ordered maps"
named_theorems step_simps "characteristic equations of successful operations"
named_theorems inv_intros "preservation of component invariants"

section \<open>Results\<close>

text \<open>A throwing function returns \<open>Inl\<close> of its error or \<open>Inr\<close> of its value.\<close>

type_synonym ('e, 'a) result = "'e + 'a"

definition bind_result :: "('e, 'a) result \<Rightarrow> ('a \<Rightarrow> ('e, 'b) result) \<Rightarrow> ('e, 'b) result" where
  "bind_result r f = (case r of Inl e \<Rightarrow> Inl e | Inr x \<Rightarrow> f x)"

lemma bind_result_simps [simp]:
  "bind_result (Inl e) f = Inl e"
  "bind_result (Inr x) f = f x"
  by (simp_all add: bind_result_def)

lemma bind_result_Inr_iff:
  "bind_result r f = Inr y \<longleftrightarrow> (\<exists>x. r = Inr x \<and> f x = Inr y)"
  by (cases r) auto

lemma bind_result_InrE [elim]:
  assumes "bind_result r f = Inr y"
  obtains x where "r = Inr x" "f x = Inr y"
  using assms by (auto simp: bind_result_Inr_iff)

lemma bind_result_Inl_iff:
  "bind_result r f = Inl e \<longleftrightarrow> r = Inl e \<or> (\<exists>x. r = Inr x \<and> f x = Inl e)"
  by (cases r) auto

text \<open>A \<open>for\<close> loop over a list whose body may throw.\<close>

fun fold_result :: "('a \<Rightarrow> 's \<Rightarrow> ('e, 's) result) \<Rightarrow> 'a list \<Rightarrow> 's \<Rightarrow> ('e, 's) result" where
  "fold_result f [] s = Inr s"
| "fold_result f (x # xs) s = bind_result (f x s) (fold_result f xs)"

lemma fold_result_append:
  "fold_result f (xs @ ys) s = bind_result (fold_result f xs s) (fold_result f ys)"
  by (induction xs arbitrary: s) (auto simp: bind_result_def split: sum.splits)

lemma fold_result_snoc:
  "fold_result f (xs @ [x]) s = bind_result (fold_result f xs s) (f x)"
  by (induction xs arbitrary: s) (auto simp: bind_result_def split: sum.splits)

lemma fold_result_invariant:
  assumes "fold_result f xs s = Inr t" "P s"
    and "\<And>x u v. x \<in> set xs \<Longrightarrow> P u \<Longrightarrow> f x u = Inr v \<Longrightarrow> P v"
  shows "P t"
  using assms
  by (induction xs arbitrary: s) (auto simp: bind_result_Inr_iff)

text \<open>Guards: an early \<open>throw\<close> when the condition fails.\<close>

definition guard_result :: "bool \<Rightarrow> 'e \<Rightarrow> ('e, unit) result" where
  "guard_result b e = (if b then Inr () else Inl e)"

lemma guard_result_simps [simp]:
  "guard_result True e = Inr ()"
  "guard_result False e = Inl e"
  "guard_result b e = Inr u \<longleftrightarrow> b"
  "guard_result b e = Inl e' \<longleftrightarrow> \<not> b \<and> e' = e"
  by (auto simp: guard_result_def)

section \<open>Steps on a world\<close>

text \<open>Steps that may fail and change a world \<open>'w\<close>, in sequence.\<close>

type_synonym ('w, 'e, 'a) io = "'w \<Rightarrow> ('e, 'a) result \<times> 'w"

definition io_return :: "'a \<Rightarrow> ('w, 'e, 'a) io" where
  "io_return x w = (Inr x, w)"

definition io_throw :: "'e \<Rightarrow> ('w, 'e, 'a) io" where
  "io_throw e w = (Inl e, w)"

definition io_bind :: "('w, 'e, 'a) io \<Rightarrow> ('a \<Rightarrow> ('w, 'e, 'b) io) \<Rightarrow> ('w, 'e, 'b) io" where
  "io_bind f g w = (case f w of (Inl e, w1) \<Rightarrow> (Inl e, w1) | (Inr x, w1) \<Rightarrow> g x w1)"

definition io_result :: "('e, 'a) result \<Rightarrow> ('w, 'e, 'a) io" where
  "io_result r w = (r, w)"

lemma io_bind_cases:
  assumes "io_bind f g w = (r, w2)"
  obtains (failed) e where "f w = (Inl e, w2)" "r = Inl e"
  | (ok) x w1 where "f w = (Inr x, w1)" "g x w1 = (r, w2)"
  using assms by (auto simp: io_bind_def split: prod.splits sum.splits)

section \<open>Strings and numbers\<close>

text \<open>
  Template literals print integers in decimal. \<open>js_join\<close> is \<open>Array.prototype.join\<close>.
\<close>

abbreviation newline :: string where
  "newline \<equiv> [CHR 0x0A]"

definition digit_char :: "nat \<Rightarrow> char" where
  "digit_char d = char_of (48 + d)"

fun string_of_nat :: "nat \<Rightarrow> string" where
  "string_of_nat n =
     (if n < 10 then [digit_char n] else string_of_nat (n div 10) @ [digit_char (n mod 10)])"

declare string_of_nat.simps [simp del]

definition string_of_int :: "int \<Rightarrow> string" where
  "string_of_int i = (if i < 0 then ''-'' @ string_of_nat (nat (- i)) else string_of_nat (nat i))"

text \<open>Decimal printing is injective and prints digits only, after at most one sign.\<close>

definition nat_of_digits :: "string \<Rightarrow> nat" where
  "nat_of_digits = foldl (\<lambda>n c. 10 * n + (of_char c - 48)) 0"

lemma nat_of_string_of_nat: "nat_of_digits (string_of_nat n) = n"
proof (induction n rule: string_of_nat.induct)
  case (1 n)
  then show ?case
    by (subst string_of_nat.simps) (auto simp: nat_of_digits_def digit_char_def)
qed

lemma string_of_nat_digits: "set (string_of_nat n) \<subseteq> digit_char ` {..<10}"
proof (induction n rule: string_of_nat.induct)
  case (1 n)
  then show ?case
    by (subst string_of_nat.simps) auto
qed

lemma digit_char_neq: "d < 10 \<Longrightarrow> of_char c < (48::nat) \<Longrightarrow> digit_char d \<noteq> c"
proof
  assume "d < 10" "of_char c < (48::nat)" "digit_char d = c"
  then have "of_char c = (48 + d) mod 256" by (auto simp: digit_char_def)
  with \<open>d < 10\<close> \<open>of_char c < (48::nat)\<close> show False by simp
qed

lemma string_of_nat_no: "of_char c < (48::nat) \<Longrightarrow> c \<notin> set (string_of_nat n)"
  using string_of_nat_digits[of n] digit_char_neq by blast

lemma string_of_int_inj: "string_of_int i = string_of_int j \<Longrightarrow> i = j"
proof -
  have sign: "CHR ''-'' \<notin> set (string_of_nat n)" for n
    by (rule string_of_nat_no) simp
  assume eq: "string_of_int i = string_of_int j"
  then have "i < 0 \<longleftrightarrow> j < 0"
    using sign by (auto simp: string_of_int_def split: if_splits) (metis list.set_intros(1))+
  then have "string_of_nat (nat \<bar>i\<bar>) = string_of_nat (nat \<bar>j\<bar>)"
    using eq by (auto simp: string_of_int_def split: if_splits)
  then have "nat \<bar>i\<bar> = nat \<bar>j\<bar>"
    by (metis nat_of_string_of_nat)
  with \<open>i < 0 \<longleftrightarrow> j < 0\<close> show ?thesis by auto
qed

lemma string_of_int_no_nul: "CHR 0x00 \<notin> set (string_of_int i)"
  by (auto simp: string_of_int_def string_of_nat_no)

text \<open>Keys of two parts joined by a separator the second part lacks.\<close>

lemma append_separator_inj:
  assumes "a @ [c] @ x = b @ [c] @ y" "c \<notin> set x" "c \<notin> set y"
  shows "a = b \<and> x = y"
proof -
  have "takeWhile (\<lambda>d. d \<noteq> c) (rev (a @ [c] @ x)) = rev x" if "c \<notin> set x" for a x :: "'a list"
    using that by (subst rev_append, subst rev_append, subst append_assoc, subst takeWhile_append2) auto
  from this[OF assms(2), of a] this[OF assms(3), of b] assms(1) have "rev x = rev y" by metis
  with assms(1) show ?thesis by simp
qed

fun js_join :: "'a list \<Rightarrow> 'a list list \<Rightarrow> 'a list" where
  "js_join sep [] = []"
| "js_join sep [x] = x"
| "js_join sep (x # y # zs) = x @ sep @ js_join sep (y # zs)"

text \<open>A string in a condition is true unless it is empty; an absent one is false.\<close>

definition truthy_string :: "string option \<Rightarrow> bool" where
  "truthy_string s \<longleftrightarrow> (case s of None \<Rightarrow> False | Some t \<Rightarrow> t \<noteq> [])"

lemma truthy_string_simps [simp]:
  "\<not> truthy_string None"
  "truthy_string (Some t) \<longleftrightarrow> t \<noteq> []"
  by (simp_all add: truthy_string_def)

section \<open>Insertion-ordered maps\<close>

text \<open>
  A JavaScript \<open>Map\<close> iterates in insertion order; \<open>set\<close> on a present key keeps its
  position, \<open>delete\<close> removes it. \<open>AList.update\<close> and \<open>AList.delete\<close> are exactly these.
\<close>

type_synonym ('k, 'v) js_map = "('k \<times> 'v) list"

abbreviation map_get :: "('k, 'v) js_map \<Rightarrow> 'k \<Rightarrow> 'v option" where
  "map_get m k \<equiv> map_of m k"

abbreviation map_has :: "('k, 'v) js_map \<Rightarrow> 'k \<Rightarrow> bool" where
  "map_has m k \<equiv> map_of m k \<noteq> None"

abbreviation map_set :: "'k \<Rightarrow> 'v \<Rightarrow> ('k, 'v) js_map \<Rightarrow> ('k, 'v) js_map" where
  "map_set k v m \<equiv> AList.update k v m"

abbreviation map_delete :: "'k \<Rightarrow> ('k, 'v) js_map \<Rightarrow> ('k, 'v) js_map" where
  "map_delete k m \<equiv> AList.delete k m"

lemma map_get_set [simp, map_simps]:
  "map_get (map_set k v m) k' = (if k' = k then Some v else map_get m k')"
  by (simp add: update_conv')

lemma map_get_delete [simp, map_simps]:
  "map_get (map_delete k m) k' = (if k' = k then None else map_get m k')"
  by (simp add: delete_conv')

lemma map_set_new [map_simps]:
  "map_get m k = None \<Longrightarrow> map_set k v m = m @ [(k, v)]"
  by (induction m) (auto split: if_splits)

lemma fst_set_map_set [simp]: "fst ` set (map_set k v m) = insert k (fst ` set m)"
  by (simp add: dom_update)

lemma distinct_map_set [simp]:
  "distinct (map fst m) \<Longrightarrow> distinct (map fst (map_set k v m))"
  by (rule distinct_update)

lemma distinct_map_delete [simp]:
  "distinct (map fst m) \<Longrightarrow> distinct (map fst (map_delete k m))"
  by (rule distinct_delete)

text \<open>Building a map from a list of pairs, later pairs winning (the \<open>Map\<close> constructor).\<close>

definition map_from :: "('k \<times> 'v) list \<Rightarrow> ('k, 'v) js_map" where
  "map_from kvs = fold (\<lambda>(k, v). map_set k v) kvs []"

lemma map_get_fold_set:
  "map_get (fold (\<lambda>(k, v). map_set k v) kvs m) k =
     (case map_of (rev kvs) k of None \<Rightarrow> map_get m k | Some v \<Rightarrow> Some v)"
  by (induction kvs arbitrary: m) (auto simp: map_add_def split: option.splits)

lemma map_get_from: "map_get (map_from kvs) k = map_of (rev kvs) k"
  by (simp add: map_from_def map_get_fold_set split: option.splits)

lemma map_from_distinct:
  "distinct (map fst kvs) \<Longrightarrow> map_from kvs = kvs"
proof (induction kvs rule: rev_induct)
  case Nil
  then show ?case by (simp add: map_from_def)
next
  case (snoc kv kvs)
  then have "map_from kvs = kvs" and "map_get kvs (fst kv) = None"
    by (auto simp: map_of_eq_None_iff)
  then show ?case
    by (cases kv) (simp add: map_from_def map_set_new)
qed

section \<open>Bounded scans\<close>

text \<open>
  The search loops push each matching item and break once \<open>limit\<close> results are collected;
  the limit is checked after each push, so the limit (when present) is positive.
\<close>

fun scan_limit :: "('a \<Rightarrow> bool) \<Rightarrow> nat option \<Rightarrow> 'a list \<Rightarrow> 'a list \<Rightarrow> 'a list" where
  "scan_limit p bound [] acc = acc"
| "scan_limit p bound (x # xs) acc =
     (if p x then
        (let acc' = acc @ [x] in
         if bound = Some (length acc') then acc' else scan_limit p bound xs acc')
      else scan_limit p bound xs acc)"

definition take_opt :: "nat option \<Rightarrow> 'a list \<Rightarrow> 'a list" where
  "take_opt bound xs = (case bound of None \<Rightarrow> xs | Some n \<Rightarrow> take n xs)"

lemma scan_limit_eq:
  assumes "\<And>n. bound = Some n \<Longrightarrow> length acc < n"
  shows "scan_limit p bound xs acc = acc @ take_opt (map_option (\<lambda>n. n - length acc) bound) (filter p xs)"
  using assms
proof (induction xs arbitrary: acc)
  case Nil
  then show ?case by (cases bound) (simp_all add: take_opt_def)
next
  case (Cons x xs)
  show ?case
  proof (cases "p x \<and> bound = Some (Suc (length acc))")
    case True
    then show ?thesis by (simp add: take_opt_def)
  next
    case False
    then have "p x \<Longrightarrow> bound = Some n \<Longrightarrow> length (acc @ [x]) < n" for n
      using Cons.prems[of n] by auto
    with False Cons.IH[of acc] Cons.IH[of "acc @ [x]"] Cons.prems show ?thesis
      by (cases bound) (auto simp: take_opt_def Suc_diff_Suc take_Cons' Let_def)
  qed
qed

corollary scan_limit_start:
  assumes "bound \<noteq> Some 0"
  shows "scan_limit p bound xs [] = take_opt bound (filter p xs)"
  using assms by (subst scan_limit_eq) (auto simp: take_opt_def split: option.splits)

section \<open>Sorting by sequence number\<close>

text \<open>
  \<open>Array.prototype.sort\<close> with \<open>left.seq - right.seq\<close> is a stable sort on the key, which is
  \<open>sort_key\<close>. Where the keys are distinct the result does not depend on the input order.
\<close>

lemma sort_key_cong_mset:
  fixes f :: "'a \<Rightarrow> 'b::linorder"
  assumes eq: "mset xs = mset ys" and dist: "distinct (map f xs)"
  shows "sort_key f xs = sort_key f ys"
proof -
  have st: "set ys = set xs"
    using eq by (metis set_mset_mset)
  have "mset (map f ys) = mset (map f xs)"
    using eq by simp
  then have dist': "distinct (map f ys)"
    using dist mset_eq_imp_distinct_iff by blast
  have sorted_distinct: "distinct (map f (sort_key f zs))" if "distinct (map f zs)" for zs
    using that by (simp add: distinct_map)
  show ?thesis
  proof (rule map_sorted_distinct_set_unique[where f = f])
    show "inj_on f (set (sort_key f xs) \<union> set (sort_key f ys))"
      using dist st by (simp add: distinct_map)
  qed (use st dist dist' sorted_distinct in auto)
qed

text \<open>What stands before an element in the sorted list is what has a smaller key.\<close>

lemma sort_key_prefix:
  assumes dist: "distinct (map f xs)" and split: "sort_key f xs = pre @ r # post"
  shows "pre = sort_key f (filter (\<lambda>x. f x < f r) xs)"
proof -
  have "sorted_wrt (<) (map f (sort_key f xs))"
    using dist by (simp add: strict_sorted_iff distinct_map)
  then have less: "\<forall>x \<in> set pre. f x < f r" "\<forall>x \<in> set post. f r < f x" "sorted (map f pre)"
    unfolding split by (auto simp: sorted_wrt_append strict_sorted_iff)
  have "filter (\<lambda>x. f x < f r) (pre @ r # post) = pre"
    using less by (auto simp: filter_id_conv filter_empty_conv dest: less_asym)
  then have "filter (\<lambda>x. f x < f r) (sort_key f xs) = pre"
    by (simp only: split)
  then show ?thesis
    by (simp add: filter_sort)
qed

end
