(* ===== verification/Messages.thy ===== *)
theory Messages
  imports Prelude
begin

text \<open>
  The messages of a conversation: the provider-facing \<open>Message\<close> union of
  \<open>packages/ai/src/types.ts\<close>, the harness messages of
  \<open>packages/agent/src/harness/messages.ts\<close>, and the conversion from the second to the first
  (\<open>convertToLlm\<close>). Interfaces are records, unions are datatypes with one constructor per
  \<open>role\<close> or \<open>type\<close>; an optional field is an \<open>option\<close>. Token counts are \<open>int\<close>; costs and JSON
  numbers, which the modelled code only stores and adds, are exact rationals, so the rounding
  of IEEE addition is not modelled.
\<close>

section \<open>JSON payloads and content blocks\<close>

datatype json =
    JNull
  | JBool bool
  | JNum rat
  | JStr string
  | JArr "json list"
  | JObj "(string \<times> json) list"

record tool_call =
  tc_id :: string
  tc_name :: string
  tc_arguments :: "(string \<times> json) list"
  tc_thoughtSignature :: "string option"
  tc_namespace :: "string option"

datatype content_block =
    Text string "string option"
  | Thinking string "string option" "bool option"
  | Image string string
  | ToolCall tool_call

datatype body = Body_String string | Body_Blocks "content_block list"

section \<open>Provider messages\<close>

record usage_cost =
  uc_input :: rat
  uc_output :: rat
  uc_cacheRead :: rat
  uc_cacheWrite :: rat
  uc_total :: rat

record usage =
  us_input :: int
  us_output :: int
  us_cacheRead :: int
  us_cacheWrite :: int
  us_cacheWrite1h :: "int option"
  us_reasoning :: "int option"
  us_totalTokens :: int
  us_cost :: usage_cost

datatype stop_reason =
    SR_pending | SR_stop | SR_length | SR_toolUse | SR_error | SR_aborted | SR_deferred

record deferred_handle =
  dh_provider :: string
  dh_modelId :: string
  dh_api :: string
  dh_id :: string
  dh_expiresAt :: "int option"
  dh_pollAfterMs :: "int option"
  dh_data :: "json option"

record user_message =
  um_content :: body
  um_timestamp :: int

record developer_message =
  dm_content :: body
  dm_addedToolNames :: "string list option"
  dm_timestamp :: int

record assistant_message =
  am_content :: "content_block list"
  am_api :: string
  am_provider :: string
  am_model :: string
  am_responseModel :: "string option"
  am_responseId :: "string option"
  am_diagnostics :: "json option"
  am_usage :: usage
  am_stopReason :: stop_reason
  am_deferred :: "deferred_handle option"
  am_errorMessage :: "string option"
  am_errorCode :: "string option"
  am_errorStatus :: "int option"
  am_rawStopReason :: "string option"
  am_endTurn :: "bool option"
  am_timestamp :: int

record tool_result_message =
  tr_toolCallId :: string
  tr_toolName :: string
  tr_content :: "content_block list"
  tr_details :: "json option"
  tr_usage :: "usage option"
  tr_addedToolNames :: "string list option"
  tr_isError :: bool
  tr_timestamp :: int

datatype message =
    UserMsg user_message
  | DeveloperMsg developer_message
  | AssistantMsg assistant_message
  | ToolResultMsg tool_result_message

section \<open>Harness messages\<close>

record bash_execution_message =
  be_command :: string
  be_output :: string
  be_exitCode :: "int option"
  be_cancelled :: bool
  be_truncated :: bool
  be_fullOutputPath :: "string option"
  be_timestamp :: int
  be_excludeFromContext :: bool

record custom_message =
  cm_customType :: string
  cm_content :: body
  cm_display :: bool
  cm_details :: "json option"
  cm_timestamp :: int

record branch_summary_message =
  bs_summary :: string
  bs_fromId :: string
  bs_timestamp :: int

record compaction_summary_message =
  cs_summary :: string
  cs_tokensBefore :: int
  cs_timestamp :: int

datatype agent_message =
    Llm message
  | BashExecution bash_execution_message
  | Custom custom_message
  | BranchSummary branch_summary_message
  | CompactionSummary compaction_summary_message

text \<open>
  The role tag, and the summary constructors. The source also accepts a date string as the
  timestamp; every modelled caller passes the number of an entry, which is kept as it is.
\<close>

datatype role =
    R_user | R_developer | R_assistant | R_toolResult
  | R_bashExecution | R_custom | R_branchSummary | R_compactionSummary

fun message_role :: "agent_message \<Rightarrow> role" where
  "message_role (Llm (UserMsg _)) = R_user"
| "message_role (Llm (DeveloperMsg _)) = R_developer"
| "message_role (Llm (AssistantMsg _)) = R_assistant"
| "message_role (Llm (ToolResultMsg _)) = R_toolResult"
| "message_role (BashExecution _) = R_bashExecution"
| "message_role (Custom _) = R_custom"
| "message_role (BranchSummary _) = R_branchSummary"
| "message_role (CompactionSummary _) = R_compactionSummary"

definition createBranchSummaryMessage :: "string \<Rightarrow> string \<Rightarrow> int \<Rightarrow> agent_message" where
  "createBranchSummaryMessage summary fromId timestamp =
     BranchSummary \<lparr>bs_summary = summary, bs_fromId = fromId, bs_timestamp = timestamp\<rparr>"

definition createCompactionSummaryMessage :: "string \<Rightarrow> int \<Rightarrow> int \<Rightarrow> agent_message" where
  "createCompactionSummaryMessage summary tokensBefore timestamp =
     CompactionSummary
       \<lparr>cs_summary = summary, cs_tokensBefore = tokensBefore, cs_timestamp = timestamp\<rparr>"

definition createCustomMessage ::
  "string \<Rightarrow> body \<Rightarrow> bool \<Rightarrow> json option \<Rightarrow> int \<Rightarrow> agent_message" where
  "createCustomMessage customType content display details timestamp =
     Custom \<lparr>cm_customType = customType, cm_content = content, cm_display = display,
       cm_details = details, cm_timestamp = timestamp\<rparr>"

section \<open>Text of a content\<close>

fun block_text :: "content_block \<Rightarrow> string option" where
  "block_text (Text t _) = Some t"
| "block_text _ = None"

fun contentText :: "body \<Rightarrow> string \<Rightarrow> string" where
  "contentText (Body_String s) sep = s"
| "contentText (Body_Blocks bs) sep = js_join sep (List.map_filter block_text bs)"

section \<open>Conversion to provider messages\<close>

definition COMPACTION_SUMMARY_PREFIX :: string where
  "COMPACTION_SUMMARY_PREFIX =
     ''The conversation history before this point was compacted into the following summary:''
     @ newline @ newline @ ''<summary>'' @ newline"

definition COMPACTION_SUMMARY_SUFFIX :: string where
  "COMPACTION_SUMMARY_SUFFIX = newline @ ''</summary>''"

definition BRANCH_SUMMARY_PREFIX :: string where
  "BRANCH_SUMMARY_PREFIX =
     ''The following is a summary of a branch that this conversation came back from:''
     @ newline @ newline @ ''<summary>'' @ newline"

definition BRANCH_SUMMARY_SUFFIX :: string where
  "BRANCH_SUMMARY_SUFFIX = ''</summary>''"

definition bashExecutionToText :: "bash_execution_message \<Rightarrow> string" where
  "bashExecutionToText m =
     ''Ran `'' @ be_command m @ ''`'' @ newline
     @ (if be_output m \<noteq> [] then ''```'' @ newline @ be_output m @ newline @ ''```''
        else ''(no output)'')
     @ (if be_cancelled m then newline @ newline @ ''(command cancelled)''
        else case be_exitCode m of
          None \<Rightarrow> []
        | Some c \<Rightarrow>
            if c \<noteq> 0 then newline @ newline @ ''Command exited with code '' @ string_of_int c
            else [])
     @ (if be_truncated m \<and> truthy_string (be_fullOutputPath m)
        then newline @ newline @ ''[Output truncated. Full output: ''
             @ the (be_fullOutputPath m) @ '']''
        else [])"

definition text_user_message :: "string \<Rightarrow> int \<Rightarrow> message" where
  "text_user_message t timestamp =
     UserMsg \<lparr>um_content = Body_Blocks [Text t None], um_timestamp = timestamp\<rparr>"

fun convert_message :: "agent_message \<Rightarrow> message option" where
  "convert_message (BashExecution m) =
     (if be_excludeFromContext m then None
      else Some (text_user_message (bashExecutionToText m) (be_timestamp m)))"
| "convert_message (Custom m) =
     Some (DeveloperMsg
       \<lparr>dm_content = (case cm_content m of
            Body_String s \<Rightarrow> Body_Blocks [Text s None]
          | Body_Blocks bs \<Rightarrow> Body_Blocks bs),
        dm_addedToolNames = None, dm_timestamp = cm_timestamp m\<rparr>)"
| "convert_message (BranchSummary m) =
     Some (text_user_message
       (BRANCH_SUMMARY_PREFIX @ bs_summary m @ BRANCH_SUMMARY_SUFFIX) (bs_timestamp m))"
| "convert_message (CompactionSummary m) =
     Some (text_user_message
       (COMPACTION_SUMMARY_PREFIX @ cs_summary m @ COMPACTION_SUMMARY_SUFFIX) (cs_timestamp m))"
| "convert_message (Llm m) = Some m"

definition convertToLlm :: "agent_message list \<Rightarrow> message list" where
  "convertToLlm messages = List.map_filter convert_message messages"

lemma convertToLlm_append: "convertToLlm (xs @ ys) = convertToLlm xs @ convertToLlm ys"
  by (induction xs) (simp_all add: convertToLlm_def map_filter_simps split: option.splits)

lemma convertToLlm_Llm: "convertToLlm (map Llm ms) = ms"
  by (induction ms) (simp_all add: convertToLlm_def map_filter_simps)

lemma convertToLlm_length:
  "length (convertToLlm ms) =
     length (filter (\<lambda>m. case m of BashExecution b \<Rightarrow> \<not> be_excludeFromContext b | _ \<Rightarrow> True) ms)"
proof (induction ms)
  case Nil
  then show ?case by (simp add: convertToLlm_def map_filter_simps)
next
  case (Cons m ms)
  then show ?case
    by (cases m rule: convert_message.cases) (simp_all add: convertToLlm_def map_filter_simps)
qed

end
