(* ===== verification/Session_Types.thy ===== *)
theory Session_Types
  imports Messages
begin

text \<open>
  The durable data of a session, from \<open>packages/agent/src/harness/session/types.ts\<close>: tree
  entries, lane records, queries, log items, fork options and errors. A \<open>ProvisionedEntry\<close> is
  an entry without the three fields the storage assigns, and a \<open>NewRecord\<close> a record without
  the two it assigns; here \<open>entry\<close> and \<open>lane_record\<close> extend the smaller records, so the
  \<open>Omit\<close> of the source is \<open>truncate\<close>. Numbers a caller passes in a query are rationals: the
  source checks \<open>Number.isInteger\<close> itself.
\<close>

section \<open>Entries\<close>

datatype entry_type =
    ET_message | ET_model_change | ET_thinking_level_change | ET_active_tools_change
  | ET_compaction | ET_branch_summary | ET_custom

record compaction_data =
  cd_summary :: string
  cd_retainedTail :: "agent_message list"
  cd_tokensBefore :: int
  cd_details :: "json option"
  cd_usage :: "usage option"

record branch_summary_data =
  bd_fromId :: string
  bd_summary :: string
  bd_details :: "json option"
  bd_usage :: "usage option"

datatype entry_body =
    E_message agent_message bool
  | E_model_change string string
  | E_thinking_level_change string
  | E_active_tools_change "string list"
  | E_compaction compaction_data
  | E_branch_summary branch_summary_data
  | E_custom string "json option"

record provisioned_entry =
  en_id :: string
  en_body :: entry_body

record entry = provisioned_entry +
  en_seq :: nat
  en_parentId :: "string option"
  en_timestamp :: int

fun body_type :: "entry_body \<Rightarrow> entry_type" where
  "body_type (E_message _ _) = ET_message"
| "body_type (E_model_change _ _) = ET_model_change"
| "body_type (E_thinking_level_change _) = ET_thinking_level_change"
| "body_type (E_active_tools_change _) = ET_active_tools_change"
| "body_type (E_compaction _) = ET_compaction"
| "body_type (E_branch_summary _) = ET_branch_summary"
| "body_type (E_custom _ _) = ET_custom"

abbreviation entry_type_of :: "'a provisioned_entry_scheme \<Rightarrow> entry_type" where
  "entry_type_of e \<equiv> body_type (en_body e)"

section \<open>Lane records\<close>

record run_intent =
  ri_originalPrompt :: "agent_message list"
  ri_initialMessages :: "provisioned_entry list"
  ri_systemPromptOverride :: "string option"
  ri_resumeData :: "(string \<times> json) list option"

record compaction_intent =
  ci_customInstructions :: "string option"
  ci_resultEntryId :: string

record navigation_intent =
  ni_targetId :: "string option"
  ni_summarize :: bool
  ni_customInstructions :: "string option"
  ni_label :: "string option"
  ni_summaryEntryId :: "string option"

datatype intent =
    Run run_intent
  | Compaction compaction_intent
  | Navigation navigation_intent

datatype operation_kind = OK_run | OK_compaction | OK_navigation

fun intent_kind :: "intent \<Rightarrow> operation_kind" where
  "intent_kind (Run _) = OK_run"
| "intent_kind (Compaction _) = OK_compaction"
| "intent_kind (Navigation _) = OK_navigation"

datatype outcome = O_completed | O_aborted | O_failed | O_declined

text \<open>
  The reducer re-checks the reason of an attempt read from disk, so a value outside the three
  reasons is representable.
\<close>

datatype compaction_reason = CR_manual | CR_threshold | CR_overflow | CR_other json

datatype step_kind = S_assistant | S_compaction | S_branch_summary

record step_attempt =
  sa_runId :: string
  sa_step :: step_kind
  sa_attempt :: int
  sa_resultEntryId :: string
  sa_compactionReason :: "compaction_reason option"

datatype replay = Replay_never | Replay_safe

record tool_started =
  ts_runId :: string
  ts_assistantEntryId :: string
  ts_toolIndex :: int
  ts_toolCallId :: string
  ts_toolName :: string
  ts_effectiveArgs :: "(string \<times> json) list"
  ts_resultEntryId :: string
  ts_replay :: replay

datatype queue = Q_steer | Q_followUp | Q_nextRun

record queue_enqueued =
  qe_queue :: queue
  qe_runId :: "string option"
  qe_target :: provisioned_entry

datatype llm_cause = LC_assistant | LC_compaction | LC_branch_summary | LC_deferred_fetch

datatype usage_cause =
    UC_llm llm_cause string string int stop_reason
  | UC_tool string string string
  | UC_hook string string
  | UC_adjustment "string option" "string option" "json option"

datatype record_body =
    RB_operation_started "string option" intent
  | RB_abort_requested string
  | RB_operation_finished string outcome "(string \<times> string) option"
  | RB_step_attempt step_attempt
  | RB_tool_started tool_started
  | RB_queue_enqueued queue_enqueued
  | RB_queue_cancelled "string option" string
  | RB_write_deferred string provisioned_entry
  | RB_usage usage usage_cause

record new_record =
  rc_id :: string
  rc_lane :: string
  rc_body :: record_body

record lane_record = new_record +
  rc_seq :: nat
  rc_timestamp :: int

datatype record_type =
    RT_operation_started | RT_abort_requested | RT_operation_finished | RT_step_attempt
  | RT_tool_started | RT_queue_enqueued | RT_queue_cancelled | RT_write_deferred | RT_usage

fun record_body_type :: "record_body \<Rightarrow> record_type" where
  "record_body_type (RB_operation_started _ _) = RT_operation_started"
| "record_body_type (RB_abort_requested _) = RT_abort_requested"
| "record_body_type (RB_operation_finished _ _ _) = RT_operation_finished"
| "record_body_type (RB_step_attempt _) = RT_step_attempt"
| "record_body_type (RB_tool_started _) = RT_tool_started"
| "record_body_type (RB_queue_enqueued _) = RT_queue_enqueued"
| "record_body_type (RB_queue_cancelled _ _) = RT_queue_cancelled"
| "record_body_type (RB_write_deferred _ _) = RT_write_deferred"
| "record_body_type (RB_usage _ _) = RT_usage"

abbreviation record_type_of :: "'a new_record_scheme \<Rightarrow> record_type" where
  "record_type_of r \<equiv> record_body_type (rc_body r)"

text \<open>The \<open>runId\<close> property of a record, absent from an operation's own start.\<close>

fun usage_runId :: "usage_cause \<Rightarrow> string option" where
  "usage_runId (UC_llm _ run _ _ _) = Some run"
| "usage_runId (UC_tool run _ _) = Some run"
| "usage_runId (UC_hook run _) = Some run"
| "usage_runId (UC_adjustment run _ _) = run"

fun usage_entryId :: "usage_cause \<Rightarrow> string option" where
  "usage_entryId (UC_llm _ _ e _ _) = Some e"
| "usage_entryId (UC_tool _ e _) = Some e"
| "usage_entryId (UC_hook _ e) = Some e"
| "usage_entryId (UC_adjustment _ e _) = e"

fun body_runId :: "record_body \<Rightarrow> string option" where
  "body_runId (RB_operation_started _ _) = None"
| "body_runId (RB_abort_requested run) = Some run"
| "body_runId (RB_operation_finished run _ _) = Some run"
| "body_runId (RB_step_attempt s) = Some (sa_runId s)"
| "body_runId (RB_tool_started t) = Some (ts_runId t)"
| "body_runId (RB_queue_enqueued q) = qe_runId q"
| "body_runId (RB_queue_cancelled run _) = run"
| "body_runId (RB_write_deferred run _) = Some run"
| "body_runId (RB_usage _ c) = usage_runId c"

abbreviation record_runId :: "'a new_record_scheme \<Rightarrow> string option" where
  "record_runId r \<equiv> body_runId (rc_body r)"

section \<open>Queries, log items, forks\<close>

datatype entry_order = NewestFirst | OldestFirst

record entry_query =
  eq_type :: "entry_type option"
  eq_customType :: "string option"
  eq_order :: "entry_order option"
  eq_limit :: "rat option"
  eq_cursor :: "rat option"

record branch_bounds =
  bb_stopAtType :: "entry_type option"
  bb_stopAtId :: "string option"

record record_query =
  rq_lane :: "string option"
  rq_type :: "record_type option"
  rq_runId :: "string option"
  rq_operationKind :: "operation_kind option"
  rq_afterSeq :: "rat option"
  rq_order :: "entry_order option"
  rq_limit :: "rat option"

record session_metadata =
  sm_id :: string
  sm_createdAt :: int
  sm_parentSessionId :: "string option"

record session_stats =
  st_messageCount :: nat
  st_cachedTokens :: int
  st_uncachedTokens :: int
  st_totalTokens :: int
  st_costTotal :: rat

type_synonym lane_pointer = "string \<times> string option"

datatype log_item =
    LI_entry nat entry
  | LI_record nat lane_record
  | LI_lane nat string "string option"
  | LI_name nat "string option"
  | LI_label nat string "string option"

fun log_item_seq :: "log_item \<Rightarrow> nat" where
  "log_item_seq (LI_entry n _) = n"
| "log_item_seq (LI_record n _) = n"
| "log_item_seq (LI_lane n _ _) = n"
| "log_item_seq (LI_name n _) = n"
| "log_item_seq (LI_label n _ _) = n"

record log_options =
  lo_afterSeq :: "rat option"
  lo_limit :: "rat option"

datatype fork_position = Before | At

datatype fork_options = Fork_Tree | Fork_Branch "string option" "fork_position option"

section \<open>Errors\<close>

datatype session_error_code =
    SE_not_found | SE_already_exists | SE_invalid_entry | SE_invalid_payload
  | SE_invalid_lane | SE_invalid_query | SE_invalid_fork_target | SE_storage

datatype session_error = SessionError (error_code: session_error_code) (error_message: string)

end
