(* ===== verification/Session_State.thy ===== *)
theory Session_State
  imports Session_Types
begin

text \<open>
  The in-memory state every session storage drives:
  \<open>packages/agent/src/harness/session/state.ts\<close>. A mutation is validated against the state and
  either rejected, leaving the state as it was, or applied to the entry tree, the record log,
  the lanes, the open operations, the log and the statistics at once. The queries, the walk
  from an entry to the root and the construction of a fork follow.

  \<open>Session_Invariant\<close> and \<open>Session_Branch\<close> prove what holds of these definitions.
\<close>

section \<open>State and mutations\<close>

datatype session_mutation =
    Mut_entry "string option" entry
  | Mut_record lane_record
  | Mut_lane nat string "string option"
  | Mut_name nat "string option"
  | Mut_label nat string "string option"

fun mutation_seq :: "session_mutation \<Rightarrow> nat" where
  "mutation_seq (Mut_entry _ e) = en_seq e"
| "mutation_seq (Mut_record r) = rc_seq r"
| "mutation_seq (Mut_lane n _ _) = n"
| "mutation_seq (Mut_name n _) = n"
| "mutation_seq (Mut_label n _ _) = n"

record session_state =
  ss_sequence :: nat
  ss_usedIds :: "string set"
  ss_entries :: "entry list"
  ss_entriesById :: "(string, entry) js_map"
  ss_records :: "lane_record list"
  ss_openOperationsByLane :: "(string, (string, lane_record) js_map) js_map"
  ss_lanes :: "(string, string option) js_map"
  ss_log :: "log_item list"
  ss_stats :: session_stats
  ss_name :: "string option"
  ss_labels :: "(string, string) js_map"

definition initial_state :: session_state where
  "initial_state =
     \<lparr>ss_sequence = 0, ss_usedIds = {}, ss_entries = [], ss_entriesById = [], ss_records = [],
      ss_openOperationsByLane = [], ss_lanes = [(''main'', None)], ss_log = [],
      ss_stats = \<lparr>st_messageCount = 0, st_cachedTokens = 0, st_uncachedTokens = 0,
        st_totalTokens = 0, st_costTotal = 0\<rparr>,
      ss_name = None, ss_labels = []\<rparr>"

definition nextSequence :: "session_state \<Rightarrow> nat" where
  "nextSequence s = ss_sequence s + 1"

definition getLanes :: "session_state \<Rightarrow> lane_pointer list" where
  "getLanes s = ss_lanes s"

definition invalidMutation :: "string \<Rightarrow> (session_error, 'a) result" where
  "invalidMutation msg =
     Inl (SessionError SE_invalid_entry (''Invalid session mutation: '' @ msg))"

definition requireLane :: "session_state \<Rightarrow> string \<Rightarrow> (session_error, string option) result" where
  "requireLane s lane =
     (case map_get (ss_lanes s) lane of
        None \<Rightarrow> Inl (SessionError SE_invalid_lane (''Lane not found: '' @ lane))
      | Some leaf \<Rightarrow> Inr leaf)"

definition validateNewLane :: "session_state \<Rightarrow> string \<Rightarrow> (session_error, unit) result" where
  "validateNewLane s lane =
     guard_result (\<not> map_has (ss_lanes s) lane)
       (SessionError SE_already_exists (''Lane already exists: '' @ lane))"

definition validateTarget :: "session_state \<Rightarrow> string option \<Rightarrow> (session_error, unit) result" where
  "validateTarget s target =
     (case target of
        None \<Rightarrow> Inr ()
      | Some t \<Rightarrow> guard_result (map_has (ss_entriesById s) t)
          (SessionError SE_not_found (''Entry not found: '' @ t)))"

definition validateUnusedId :: "session_state \<Rightarrow> string \<Rightarrow> (session_error, unit) result" where
  "validateUnusedId s i =
     guard_result (i \<notin> ss_usedIds s)
       (SessionError SE_already_exists (''Session id already exists: '' @ i))"

section \<open>Applying a mutation\<close>

definition bump_messages :: "entry \<Rightarrow> session_stats \<Rightarrow> session_stats" where
  "bump_messages e st =
     (if entry_type_of e = ET_message then st\<lparr>st_messageCount := st_messageCount st + 1\<rparr> else st)"

definition bump_usage :: "lane_record \<Rightarrow> session_stats \<Rightarrow> session_stats" where
  "bump_usage r st =
     (case rc_body r of
        RB_usage u _ \<Rightarrow>
          st\<lparr>st_cachedTokens := st_cachedTokens st + us_cacheRead u,
             st_uncachedTokens := st_uncachedTokens st + (us_input u + us_cacheWrite u),
             st_totalTokens := st_totalTokens st + us_totalTokens u,
             st_costTotal := st_costTotal st + uc_total (us_cost u)\<rparr>
      | _ \<Rightarrow> st)"

definition dangling :: "(string, 'v) js_map \<Rightarrow> string option \<Rightarrow> bool" where
  "dangling m k = (case k of None \<Rightarrow> False | Some i \<Rightarrow> \<not> map_has m i)"

lemma dangling_iff: "dangling m k \<longleftrightarrow> (\<exists>i. k = Some i \<and> \<not> map_has m i)"
  by (cases k) (simp_all add: dangling_def)

definition apply_entry ::
  "string option \<Rightarrow> entry \<Rightarrow> session_state \<Rightarrow> (session_error, session_state) result" where
  "apply_entry lane e s =
     (if en_id e \<in> ss_usedIds s then invalidMutation (''contains duplicate id '' @ en_id e)
      else if dangling (ss_lanes s) lane
        then invalidMutation (''references missing lane '' @ the lane)
      else if (case lane of None \<Rightarrow> False | Some l \<Rightarrow> en_parentId e \<noteq> the (map_get (ss_lanes s) l))
        then invalidMutation ''does not chain to the lane leaf''
      else if dangling (ss_entriesById s) (en_parentId e)
        then invalidMutation (''references missing parent '' @ the (en_parentId e))
      else Inr (s\<lparr>
        ss_sequence := en_seq e,
        ss_usedIds := insert (en_id e) (ss_usedIds s),
        ss_entries := ss_entries s @ [e],
        ss_entriesById := map_set (en_id e) e (ss_entriesById s),
        ss_lanes := (case lane of None \<Rightarrow> ss_lanes s
          | Some l \<Rightarrow> map_set l (Some (en_id e)) (ss_lanes s)),
        ss_log := ss_log s @ [LI_entry (en_seq e) e],
        ss_stats := bump_messages e (ss_stats s)\<rparr>))"

definition update_open_operations ::
  "lane_record \<Rightarrow> (string, (string, lane_record) js_map) js_map
    \<Rightarrow> (string, (string, lane_record) js_map) js_map" where
  "update_open_operations r opens =
     (case rc_body r of
        RB_operation_started _ _ \<Rightarrow>
          (let ops = (case map_get opens (rc_lane r) of None \<Rightarrow> [] | Some m \<Rightarrow> m)
           in map_set (rc_lane r) (map_set (rc_id r) r ops) opens)
      | RB_operation_finished run _ _ \<Rightarrow>
          (case map_get opens (rc_lane r) of
             None \<Rightarrow> opens
           | Some m \<Rightarrow> map_set (rc_lane r) (map_delete run m) opens)
      | _ \<Rightarrow> opens)"

definition apply_record ::
  "lane_record \<Rightarrow> session_state \<Rightarrow> (session_error, session_state) result" where
  "apply_record r s =
     (if \<not> map_has (ss_lanes s) (rc_lane r)
        then invalidMutation (''references missing lane '' @ rc_lane r)
      else if rc_id r \<in> ss_usedIds s
        then invalidMutation (''contains duplicate id '' @ rc_id r)
      else Inr (s\<lparr>
        ss_sequence := rc_seq r,
        ss_usedIds := insert (rc_id r) (ss_usedIds s),
        ss_records := ss_records s @ [r],
        ss_openOperationsByLane := update_open_operations r (ss_openOperationsByLane s),
        ss_log := ss_log s @ [LI_record (rc_seq r) r],
        ss_stats := bump_usage r (ss_stats s)\<rparr>))"

fun applyMutation ::
  "session_mutation \<Rightarrow> session_state \<Rightarrow> (session_error, session_state) result" where
  "applyMutation m s =
     (if mutation_seq m \<noteq> ss_sequence s + 1
        then invalidMutation (''has non-consecutive seq '' @ string_of_nat (mutation_seq m))
      else (case m of
        Mut_entry lane e \<Rightarrow> apply_entry lane e s
      | Mut_record r \<Rightarrow> apply_record r s
      | Mut_lane n lane leaf \<Rightarrow>
          if dangling (ss_entriesById s) leaf
            then invalidMutation (''references missing lane target '' @ the leaf)
          else Inr (s\<lparr>ss_sequence := n, ss_lanes := map_set lane leaf (ss_lanes s),
            ss_log := ss_log s @ [LI_lane n lane leaf]\<rparr>)
      | Mut_name n nm \<Rightarrow>
          Inr (s\<lparr>ss_sequence := n, ss_name := nm, ss_log := ss_log s @ [LI_name n nm]\<rparr>)
      | Mut_label n target label \<Rightarrow>
          if \<not> map_has (ss_entriesById s) target
            then invalidMutation (''references missing label target '' @ target)
          else Inr (s\<lparr>ss_sequence := n,
            ss_labels := (case label of None \<Rightarrow> map_delete target (ss_labels s)
              | Some l \<Rightarrow> map_set target l (ss_labels s)),
            ss_log := ss_log s @ [LI_label n target label]\<rparr>)))"

declare applyMutation.simps [simp del]

section \<open>Queries\<close>

definition is_integer :: "rat \<Rightarrow> bool" where
  "is_integer q \<longleftrightarrow> of_int \<lfloor>q\<rfloor> = q"

definition assertValidLimit :: "rat option \<Rightarrow> (session_error, unit) result" where
  "assertValidLimit limit =
     guard_result (case limit of None \<Rightarrow> True | Some q \<Rightarrow> is_integer q \<and> 0 < q)
       (SessionError SE_invalid_query ''limit must be a positive integer'')"

definition assertValidCursor :: "rat option \<Rightarrow> (session_error, unit) result" where
  "assertValidCursor afterSeq =
     guard_result (case afterSeq of None \<Rightarrow> True | Some q \<Rightarrow> is_integer q \<and> 0 \<le> q)
       (SessionError SE_invalid_query ''cursor sequence must be a non-negative integer'')"

text \<open>A validated limit as the natural number the result lengths are compared with.\<close>

definition limit_nat :: "rat option \<Rightarrow> nat option" where
  "limit_nat limit = map_option (\<lambda>q. nat \<lfloor>q\<rfloor>) limit"

definition ordered :: "'a list \<Rightarrow> entry_order option \<Rightarrow> 'a list" where
  "ordered items ord = (if ord = Some OldestFirst then items else rev items)"

definition getEntry :: "session_state \<Rightarrow> string \<Rightarrow> entry option" where
  "getEntry s i = map_get (ss_entriesById s) i"

definition matchesEntryQuery :: "entry \<Rightarrow> entry_query \<Rightarrow> bool" where
  "matchesEntryQuery e q \<longleftrightarrow>
     (case eq_type q of None \<Rightarrow> True | Some t \<Rightarrow> entry_type_of e = t) \<and>
     (case eq_customType q of None \<Rightarrow> True
      | Some c \<Rightarrow> (case en_body e of E_custom ct _ \<Rightarrow> ct = c | _ \<Rightarrow> False)) \<and>
     (case eq_cursor q of None \<Rightarrow> True
      | Some a \<Rightarrow> (if eq_order q = Some OldestFirst then of_nat (en_seq e) > a
                   else of_nat (en_seq e) < a))"

definition matchesRecordQuery :: "lane_record \<Rightarrow> record_query \<Rightarrow> bool" where
  "matchesRecordQuery r q \<longleftrightarrow>
     (case rq_lane q of None \<Rightarrow> True | Some l \<Rightarrow> rc_lane r = l) \<and>
     (case rq_type q of None \<Rightarrow> True | Some t \<Rightarrow> record_type_of r = t) \<and>
     (case rq_runId q of None \<Rightarrow> True
      | Some run \<Rightarrow> (case rc_body r of RB_operation_started _ _ \<Rightarrow> rc_id r = run
                     | _ \<Rightarrow> record_runId r = Some run)) \<and>
     (case rq_operationKind q of None \<Rightarrow> True
      | Some k \<Rightarrow> (case rc_body r of RB_operation_started _ i \<Rightarrow> intent_kind i = k | _ \<Rightarrow> False)) \<and>
     (case rq_afterSeq q of None \<Rightarrow> True | Some a \<Rightarrow> of_nat (rc_seq r) > a)"

definition findEntries :: "session_state \<Rightarrow> entry_query \<Rightarrow> (session_error, entry list) result" where
  "findEntries s q =
     bind_result (assertValidLimit (eq_limit q)) (\<lambda>_.
     bind_result (assertValidCursor (eq_cursor q)) (\<lambda>_.
     Inr (scan_limit (\<lambda>e. matchesEntryQuery e q) (limit_nat (eq_limit q))
            (ordered (ss_entries s) (eq_order q)) [])))"

definition findRecords ::
  "session_state \<Rightarrow> record_query \<Rightarrow> (session_error, lane_record list) result" where
  "findRecords s q =
     bind_result (assertValidLimit (rq_limit q)) (\<lambda>_.
     bind_result (assertValidCursor (rq_afterSeq q)) (\<lambda>_.
     Inr (scan_limit (\<lambda>r. matchesRecordQuery r q) (limit_nat (rq_limit q))
            (ordered (ss_records s) (rq_order q)) [])))"

definition findOpenOperations ::
  "session_state \<Rightarrow> string \<Rightarrow> rat option \<Rightarrow> (session_error, lane_record list) result" where
  "findOpenOperations s lane limit =
     bind_result (assertValidLimit limit) (\<lambda>_.
     (let opens = (case map_get (ss_openOperationsByLane s) lane of
            None \<Rightarrow> [] | Some m \<Rightarrow> rev (map snd m))
      in Inr (take_opt (limit_nat limit) opens)))"

definition getLog :: "session_state \<Rightarrow> log_options \<Rightarrow> (session_error, log_item list) result" where
  "getLog s opts =
     bind_result (assertValidLimit (lo_limit opts)) (\<lambda>_.
     bind_result (assertValidCursor (lo_afterSeq opts)) (\<lambda>_.
     Inr (scan_limit
            (\<lambda>i. case lo_afterSeq opts of None \<Rightarrow> True | Some a \<Rightarrow> \<not> of_nat (log_item_seq i) \<le> a)
            (limit_nat (lo_limit opts)) (ss_log s) [])))"

definition getName :: "session_state \<Rightarrow> string option" where
  "getName s = ss_name s"

definition getLabel :: "session_state \<Rightarrow> string \<Rightarrow> string option" where
  "getLabel s i = map_get (ss_labels s) i"

definition getStats :: "session_state \<Rightarrow> session_stats" where
  "getStats s = ss_stats s"

section \<open>Walking to the root\<close>

text \<open>
  The generator \<open>walkToRoot\<close> is the list of entries it yields together with the error that ends
  it, if any. A missing first entry is \<open>not_found\<close>, a missing parent \<open>invalid_entry\<close>. It ends:
  the ids stored in the map and not yet visited decrease with every step.
\<close>

definition stops_walk :: "branch_bounds \<Rightarrow> entry \<Rightarrow> bool" where
  "stops_walk b e \<longleftrightarrow> Some (en_id e) = bb_stopAtId b \<or> Some (entry_type_of e) = bb_stopAtType b"

definition no_bounds :: branch_bounds where
  "no_bounds = \<lparr>bb_stopAtType = None, bb_stopAtId = None\<rparr>"

function walk_from ::
  "(string, entry) js_map \<Rightarrow> branch_bounds \<Rightarrow> session_error_code \<Rightarrow> string list \<Rightarrow> string
    \<Rightarrow> entry list \<times> session_error option" where
  "walk_from m b missing visited key =
     (case map_get m key of
        None \<Rightarrow> ([], Some (SessionError missing (''Entry not found: '' @ key)))
      | Some cur \<Rightarrow>
          if en_id cur \<in> set visited
            then ([], Some (SessionError SE_invalid_entry
                    (''Session branch contains a cycle at '' @ en_id cur)))
          else if stops_walk b cur then ([cur], None)
          else (case en_parentId cur of
              None \<Rightarrow> ([cur], None)
            | Some p \<Rightarrow> (case walk_from m b SE_invalid_entry (en_id cur # visited) p of
                (es, err) \<Rightarrow> (cur # es, err))))"
  by pat_completeness auto
termination
proof (relation "measure (\<lambda>(m, b, missing, visited, key). card (en_id ` snd ` set m - set visited))")
  fix m :: "(string, entry) js_map" and b missing visited key cur p
  assume "map_get m key = Some cur" and "en_id cur \<notin> set visited"
  then have "en_id cur \<in> en_id ` snd ` set m - set visited"
    by (force dest: map_of_SomeD)
  moreover have "en_id ` snd ` set m - set (en_id cur # visited)
      = (en_id ` snd ` set m - set visited) - {en_id cur}"
    by auto
  ultimately have "card (en_id ` snd ` set m - set (en_id cur # visited))
      < card (en_id ` snd ` set m - set visited)"
    by (metis card_Diff1_less finite_Diff finite_imageI finite_set)
  then show "((m, b, SE_invalid_entry, en_id cur # visited, p), (m, b, missing, visited, key))
      \<in> measure (\<lambda>(m, b, missing, visited, key). card (en_id ` snd ` set m - set visited))"
    by (simp only: in_measure case_prod_conv)
qed simp

declare walk_from.simps [simp del]

definition walkToRoot ::
  "session_state \<Rightarrow> string option \<Rightarrow> branch_bounds \<Rightarrow> entry list \<times> session_error option" where
  "walkToRoot s start b =
     (case start of None \<Rightarrow> ([], None)
      | Some k \<Rightarrow> walk_from (ss_entriesById s) b SE_not_found [] k)"

text \<open>
  The newest-first consumer pulls one entry at a time and stops at the limit, so an error
  behind the limit is never reached; the oldest-first one drains the walk before it reverses.
\<close>

fun scan_newest ::
  "entry_query \<Rightarrow> nat option \<Rightarrow> entry list \<Rightarrow> session_error option \<Rightarrow> entry list
    \<Rightarrow> (session_error, entry list) result" where
  "scan_newest q limit [] err acc = (case err of Some e \<Rightarrow> Inl e | None \<Rightarrow> Inr acc)"
| "scan_newest q limit (e # es) err acc =
     (let acc' = (if matchesEntryQuery e q then acc @ [e] else acc) in
      if limit = Some (length acc') then Inr acc' else scan_newest q limit es err acc')"

fun scan_oldest ::
  "entry_query \<Rightarrow> branch_bounds \<Rightarrow> nat option \<Rightarrow> entry list \<Rightarrow> entry list \<Rightarrow> entry list" where
  "scan_oldest q b limit [] acc = acc"
| "scan_oldest q b limit (e # es) acc =
     (let acc' = (if matchesEntryQuery e q then acc @ [e] else acc) in
      if stops_walk b e \<or> limit = Some (length acc') then acc'
      else scan_oldest q b limit es acc')"

definition findEntriesOnBranch ::
  "session_state \<Rightarrow> entry_query \<Rightarrow> branch_bounds \<Rightarrow> string \<Rightarrow> (session_error, entry list) result" where
  "findEntriesOnBranch s q b start =
     bind_result (assertValidLimit (eq_limit q)) (\<lambda>_.
     bind_result (assertValidCursor (eq_cursor q)) (\<lambda>_.
     if eq_order q = Some OldestFirst then
       (case walkToRoot s (Some start) no_bounds of
          (es, Some e) \<Rightarrow> Inl e
        | (es, None) \<Rightarrow> Inr (scan_oldest q b (limit_nat (eq_limit q)) (rev es) []))
     else
       (case walkToRoot s (Some start) b of
          (es, err) \<Rightarrow> scan_newest q (limit_nat (eq_limit q)) es err [])))"

section \<open>Forks\<close>

definition oldest_first :: entry_query where
  "oldest_first = \<lparr>eq_type = None, eq_customType = None, eq_order = Some OldestFirst,
     eq_limit = None, eq_cursor = None\<rparr>"

definition fork_target ::
  "session_state \<Rightarrow> string option \<Rightarrow> fork_position option \<Rightarrow> (session_error, string option) result" where
  "fork_target s entryId position =
     bind_result (case entryId of Some i \<Rightarrow> Inr (Some i) | None \<Rightarrow> requireLane s ''main'')
       (\<lambda>selected. case selected of
          None \<Rightarrow> Inr None
        | Some i \<Rightarrow> (case getEntry s i of
            None \<Rightarrow> Inl (SessionError SE_invalid_fork_target
              (''Fork target is not a message entry: '' @ i))
          | Some e \<Rightarrow>
              if entry_type_of e \<noteq> ET_message
                then Inl (SessionError SE_invalid_fork_target
                  (''Fork target is not a message entry: '' @ i))
              else (case (case position of Some p \<Rightarrow> p
                      | None \<Rightarrow> if entryId = None then At else Before) of
                  At \<Rightarrow> Inr (Some (en_id e))
                | Before \<Rightarrow> Inr (en_parentId e))))"

definition fork_source ::
  "session_state \<Rightarrow> fork_options \<Rightarrow> (session_error, entry list \<times> lane_pointer list) result" where
  "fork_source s opts =
     (case opts of
        Fork_Tree \<Rightarrow>
          bind_result (findEntries s oldest_first) (\<lambda>es. Inr (es, getLanes s))
      | Fork_Branch entryId position \<Rightarrow>
          bind_result (fork_target s entryId position) (\<lambda>target.
          bind_result (case target of None \<Rightarrow> Inr []
              | Some t \<Rightarrow> findEntriesOnBranch s oldest_first no_bounds t)
            (\<lambda>es. Inr (es, [(''main'', target)]))))"

fun number_entries :: "nat \<Rightarrow> entry list \<Rightarrow> session_mutation list" where
  "number_entries n [] = []"
| "number_entries n (e # es) = Mut_entry None (e\<lparr>en_seq := n\<rparr>) # number_entries (Suc n) es"

fun number_lanes :: "nat \<Rightarrow> lane_pointer list \<Rightarrow> session_mutation list" where
  "number_lanes n [] = []"
| "number_lanes n ((lane, leaf) # ls) = Mut_lane n lane leaf # number_lanes (Suc n) ls"

fun number_labels ::
  "(string, string) js_map \<Rightarrow> nat \<Rightarrow> entry list \<Rightarrow> session_mutation list" where
  "number_labels labels n [] = []"
| "number_labels labels n (e # es) =
     (case map_get labels (en_id e) of
        None \<Rightarrow> number_labels labels n es
      | Some l \<Rightarrow> Mut_label n (en_id e) (Some l) # number_labels labels (Suc n) es)"

definition createForkMutations ::
  "session_state \<Rightarrow> fork_options \<Rightarrow> (session_error, session_mutation list) result" where
  "createForkMutations s opts =
     bind_result (fork_source s opts) (\<lambda>(copied, lanes).
       (let es = number_entries 1 copied;
            n1 = 1 + length copied;
            ls = number_lanes n1 lanes;
            n2 = n1 + length lanes;
            ns = (case ss_name s of None \<Rightarrow> [] | Some nm \<Rightarrow> [Mut_name n2 (Some nm)]);
            n3 = n2 + length ns
        in Inr (es @ ls @ ns @ number_labels (ss_labels s) n3 copied)))"

end
