(* ===== verification/Session_Invariant.thy ===== *)
theory Session_Invariant
  imports Session_State
begin

text \<open>
  The invariant of the session state and its preservation by every mutation: consecutive
  sequence numbers, unique ids, parents that precede their children, lanes that point at
  entries, open operations that are the started and not yet finished ones, and statistics that
  are the totals of the recorded entries and usages.
\<close>

section \<open>The invariant\<close>

definition has_id :: "entry list \<Rightarrow> string \<Rightarrow> bool" where
  "has_id es i \<longleftrightarrow> i \<in> en_id ` set es"

definition parents_earlier :: "entry list \<Rightarrow> bool" where
  "parents_earlier es \<longleftrightarrow>
     (\<forall>e \<in> set es. \<forall>p. en_parentId e = Some p \<longrightarrow>
        (\<exists>e' \<in> set es. en_id e' = p \<and> en_seq e' < en_seq e))"

definition tree_ok :: "session_state \<Rightarrow> bool" where
  "tree_ok s \<longleftrightarrow>
     distinct (map en_id (ss_entries s)) \<and>
     sorted_wrt (<) (map en_seq (ss_entries s)) \<and>
     (\<forall>e \<in> set (ss_entries s). en_seq e \<le> ss_sequence s) \<and>
     ss_entriesById s = map (\<lambda>e. (en_id e, e)) (ss_entries s) \<and>
     parents_earlier (ss_entries s)"

definition records_ok :: "session_state \<Rightarrow> bool" where
  "records_ok s \<longleftrightarrow>
     distinct (map rc_id (ss_records s)) \<and>
     sorted_wrt (<) (map rc_seq (ss_records s)) \<and>
     (\<forall>r \<in> set (ss_records s). rc_seq r \<le> ss_sequence s \<and> map_has (ss_lanes s) (rc_lane r))"

definition ids_ok :: "session_state \<Rightarrow> bool" where
  "ids_ok s \<longleftrightarrow>
     ss_usedIds s = en_id ` set (ss_entries s) \<union> rc_id ` set (ss_records s) \<and>
     en_id ` set (ss_entries s) \<inter> rc_id ` set (ss_records s) = {}"

definition lanes_ok :: "session_state \<Rightarrow> bool" where
  "lanes_ok s \<longleftrightarrow>
     distinct (map fst (ss_lanes s)) \<and>
     (\<exists>leaf rest. ss_lanes s = (''main'', leaf) # rest) \<and>
     (\<forall>lane i. map_get (ss_lanes s) lane = Some (Some i) \<longrightarrow> has_id (ss_entries s) i)"

fun starts_operation :: "lane_record \<Rightarrow> bool" where
  "starts_operation r = (record_type_of r = RT_operation_started)"

definition finishes_operation :: "lane_record \<Rightarrow> string \<Rightarrow> bool" where
  "finishes_operation r i \<longleftrightarrow> (case rc_body r of RB_operation_finished run _ _ \<Rightarrow> run = i | _ \<Rightarrow> False)"

text \<open>
  The operations of a lane that are open after a list of records: started there and not
  finished by a later record of that lane, in the order they were started.
\<close>

definition open_records :: "lane_record list \<Rightarrow> string \<Rightarrow> lane_record list" where
  "open_records rs lane =
     filter (\<lambda>r. starts_operation r \<and> rc_lane r = lane \<and>
       \<not> (\<exists>f \<in> set rs. rc_lane f = lane \<and> finishes_operation f (rc_id r) \<and> rc_seq r < rc_seq f)) rs"

definition lane_opens :: "session_state \<Rightarrow> string \<Rightarrow> (string, lane_record) js_map" where
  "lane_opens s lane = (case map_get (ss_openOperationsByLane s) lane of None \<Rightarrow> [] | Some m \<Rightarrow> m)"

definition opens_ok :: "session_state \<Rightarrow> bool" where
  "opens_ok s \<longleftrightarrow>
     (\<forall>lane. lane_opens s lane = map (\<lambda>r. (rc_id r, r)) (open_records (ss_records s) lane))"

fun log_entry :: "log_item \<Rightarrow> entry option" where
  "log_entry (LI_entry _ e) = Some e"
| "log_entry _ = None"

fun log_record :: "log_item \<Rightarrow> lane_record option" where
  "log_record (LI_record _ r) = Some r"
| "log_record _ = None"

definition log_ok :: "session_state \<Rightarrow> bool" where
  "log_ok s \<longleftrightarrow>
     map log_item_seq (ss_log s) = [1..<Suc (ss_sequence s)] \<and>
     List.map_filter log_entry (ss_log s) = ss_entries s \<and>
     List.map_filter log_record (ss_log s) = ss_records s"

definition total_stats :: "entry list \<Rightarrow> lane_record list \<Rightarrow> session_stats" where
  "total_stats es rs =
     (let us = List.map_filter (\<lambda>r. case rc_body r of RB_usage u _ \<Rightarrow> Some u | _ \<Rightarrow> None) rs
      in \<lparr>st_messageCount = length (filter (\<lambda>e. entry_type_of e = ET_message) es),
          st_cachedTokens = sum_list (map us_cacheRead us),
          st_uncachedTokens = sum_list (map (\<lambda>u. us_input u + us_cacheWrite u) us),
          st_totalTokens = sum_list (map us_totalTokens us),
          st_costTotal = sum_list (map (\<lambda>u. uc_total (us_cost u)) us)\<rparr>)"

definition stats_ok :: "session_state \<Rightarrow> bool" where
  "stats_ok s \<longleftrightarrow> ss_stats s = total_stats (ss_entries s) (ss_records s)"

definition labels_ok :: "session_state \<Rightarrow> bool" where
  "labels_ok s \<longleftrightarrow>
     distinct (map fst (ss_labels s)) \<and>
     (\<forall>i. map_has (ss_labels s) i \<longrightarrow> has_id (ss_entries s) i)"

definition wf_state :: "session_state \<Rightarrow> bool" where
  "wf_state s \<longleftrightarrow>
     tree_ok s \<and> records_ok s \<and> ids_ok s \<and> lanes_ok s \<and> opens_ok s \<and> log_ok s \<and>
     stats_ok s \<and> labels_ok s"

lemmas wf_defs =
  tree_ok_def records_ok_def ids_ok_def lanes_ok_def opens_ok_def log_ok_def stats_ok_def
  labels_ok_def

lemma wf_stateD:
  assumes "wf_state s"
  shows "tree_ok s" "records_ok s" "ids_ok s" "lanes_ok s" "opens_ok s" "log_ok s"
    "stats_ok s" "labels_ok s"
  using assms by (simp_all add: wf_state_def)

lemma wf_initial: "wf_state initial_state"
  by (simp add: wf_state_def wf_defs initial_state_def parents_earlier_def open_records_def
      lane_opens_def total_stats_def map_filter_simps)

text \<open>The id map is the entry list, keyed by id.\<close>

lemma map_of_by_id:
  "distinct (map en_id es) \<Longrightarrow>
     map_of (map (\<lambda>e. (en_id e, e)) es) i = Some e \<longleftrightarrow> e \<in> set es \<and> en_id e = i"
  by (induction es) (auto simp: rev_image_eqI)

lemma map_of_by_id_None:
  "map_of (map (\<lambda>e. (en_id e, e)) es) i = None \<longleftrightarrow> \<not> has_id es i"
  by (auto simp: has_id_def map_of_eq_None_iff image_iff)

lemma getEntry_iff:
  "wf_state s \<Longrightarrow> getEntry s i = Some e \<longleftrightarrow> e \<in> set (ss_entries s) \<and> en_id e = i"
  by (simp add: getEntry_def wf_state_def tree_ok_def map_of_by_id)

lemma has_entry_iff:
  "wf_state s \<Longrightarrow> map_has (ss_entriesById s) i \<longleftrightarrow> has_id (ss_entries s) i"
  by (simp add: wf_state_def tree_ok_def map_of_by_id_None)

section \<open>What a successful mutation did\<close>

lemma apply_entry_Inr:
  "apply_entry lane e s = Inr t \<longleftrightarrow>
     en_id e \<notin> ss_usedIds s \<and>
     (\<forall>l. lane = Some l \<longrightarrow> map_get (ss_lanes s) l = Some (en_parentId e)) \<and>
     (\<forall>p. en_parentId e = Some p \<longrightarrow> map_has (ss_entriesById s) p) \<and>
     t = s\<lparr>ss_sequence := en_seq e,
        ss_usedIds := insert (en_id e) (ss_usedIds s),
        ss_entries := ss_entries s @ [e],
        ss_entriesById := map_set (en_id e) e (ss_entriesById s),
        ss_lanes := (case lane of None \<Rightarrow> ss_lanes s
          | Some l \<Rightarrow> map_set l (Some (en_id e)) (ss_lanes s)),
        ss_log := ss_log s @ [LI_entry (en_seq e) e],
        ss_stats := bump_messages e (ss_stats s)\<rparr>"
  by (cases lane) (auto simp: apply_entry_def invalidMutation_def dangling_iff)

lemma apply_record_Inr:
  "apply_record r s = Inr t \<longleftrightarrow>
     map_has (ss_lanes s) (rc_lane r) \<and> rc_id r \<notin> ss_usedIds s \<and>
     t = s\<lparr>ss_sequence := rc_seq r,
        ss_usedIds := insert (rc_id r) (ss_usedIds s),
        ss_records := ss_records s @ [r],
        ss_openOperationsByLane := update_open_operations r (ss_openOperationsByLane s),
        ss_log := ss_log s @ [LI_record (rc_seq r) r],
        ss_stats := bump_usage r (ss_stats s)\<rparr>"
  by (auto simp: apply_record_def invalidMutation_def)

lemma applyMutation_seq: "applyMutation m s = Inr t \<Longrightarrow> mutation_seq m = Suc (ss_sequence s)"
  by (auto simp: applyMutation.simps invalidMutation_def split: if_splits)

lemma applyMutation_entry:
  "applyMutation (Mut_entry lane e) s = Inr t \<longleftrightarrow>
     en_seq e = Suc (ss_sequence s) \<and> apply_entry lane e s = Inr t"
  by (auto simp: applyMutation.simps invalidMutation_def)

lemma applyMutation_record:
  "applyMutation (Mut_record r) s = Inr t \<longleftrightarrow>
     rc_seq r = Suc (ss_sequence s) \<and> apply_record r s = Inr t"
  by (auto simp: applyMutation.simps invalidMutation_def)

lemma applyMutation_lane:
  "applyMutation (Mut_lane n lane leaf) s = Inr t \<longleftrightarrow>
     n = Suc (ss_sequence s) \<and> (\<forall>i. leaf = Some i \<longrightarrow> map_has (ss_entriesById s) i) \<and>
     t = s\<lparr>ss_sequence := n, ss_lanes := map_set lane leaf (ss_lanes s),
           ss_log := ss_log s @ [LI_lane n lane leaf]\<rparr>"
  by (auto simp: applyMutation.simps invalidMutation_def dangling_iff)

lemma applyMutation_name:
  "applyMutation (Mut_name n nm) s = Inr t \<longleftrightarrow>
     n = Suc (ss_sequence s) \<and>
     t = s\<lparr>ss_sequence := n, ss_name := nm, ss_log := ss_log s @ [LI_name n nm]\<rparr>"
  by (auto simp: applyMutation.simps invalidMutation_def)

lemma applyMutation_label:
  "applyMutation (Mut_label n target label) s = Inr t \<longleftrightarrow>
     n = Suc (ss_sequence s) \<and> map_has (ss_entriesById s) target \<and>
     t = s\<lparr>ss_sequence := n,
           ss_labels := (case label of None \<Rightarrow> map_delete target (ss_labels s)
             | Some l \<Rightarrow> map_set target l (ss_labels s)),
           ss_log := ss_log s @ [LI_label n target label]\<rparr>"
  by (auto simp: applyMutation.simps invalidMutation_def)

lemmas applyMutation_Inr =
  applyMutation_entry applyMutation_record applyMutation_lane applyMutation_name
  applyMutation_label apply_entry_Inr apply_record_Inr

section \<open>Preservation\<close>

lemma has_id_append [simp]: "has_id (es @ [e]) i \<longleftrightarrow> has_id es i \<or> i = en_id e"
  by (auto simp: has_id_def)

lemma map_filter_snoc:
  "List.map_filter f (xs @ [x]) =
     List.map_filter f xs @ (case f x of None \<Rightarrow> [] | Some y \<Rightarrow> [y])"
  by (induction xs) (simp_all add: map_filter_simps split: option.splits)

lemma used_not_entry:
  "ids_ok s \<Longrightarrow> i \<notin> ss_usedIds s \<Longrightarrow> \<not> has_id (ss_entries s) i"
  by (simp add: ids_ok_def has_id_def)

lemma parents_earlier_snoc:
  assumes "parents_earlier es" "\<forall>x \<in> set es. en_seq x < en_seq e"
    and "\<And>p. en_parentId e = Some p \<Longrightarrow> has_id es p"
  shows "parents_earlier (es @ [e])"
  unfolding parents_earlier_def
proof (intro ballI allI impI)
  fix x p
  assume x: "x \<in> set (es @ [e])" and p: "en_parentId x = Some p"
  show "\<exists>e' \<in> set (es @ [e]). en_id e' = p \<and> en_seq e' < en_seq x"
  proof (cases "x \<in> set es")
    case True
    with assms(1) p obtain e' where "e' \<in> set es" "en_id e' = p" "en_seq e' < en_seq x"
      unfolding parents_earlier_def by blast
    then show ?thesis by auto
  next
    case False
    with x have "x = e" by simp
    with assms(3) p have "has_id es p" by simp
    with assms(2) \<open>x = e\<close> show ?thesis by (auto simp: has_id_def)
  qed
qed

lemma tree_ok_entry:
  assumes "tree_ok s" "ids_ok s" "en_seq e = Suc (ss_sequence s)" "apply_entry lane e s = Inr t"
  shows "tree_ok t"
proof -
  have es: "ss_entries t = ss_entries s @ [e]" "ss_sequence t = en_seq e"
    "ss_entriesById t = map_set (en_id e) e (ss_entriesById s)"
    "en_id e \<notin> ss_usedIds s"
    "\<And>p. en_parentId e = Some p \<Longrightarrow> map_has (ss_entriesById s) p"
    using assms(4) by (auto simp: apply_entry_Inr)
  have fresh: "\<not> has_id (ss_entries s) (en_id e)"
    using assms(2) es(4) by (rule used_not_entry)
  have by_id: "ss_entriesById s = map (\<lambda>e. (en_id e, e)) (ss_entries s)"
    using assms(1) by (simp add: tree_ok_def)
  then have new: "map_get (ss_entriesById s) (en_id e) = None"
    using fresh by (simp add: map_of_by_id_None)
  have later: "\<forall>x \<in> set (ss_entries s). en_seq x < en_seq e"
    using assms(1,3) by (auto simp: tree_ok_def less_Suc_eq_le)
  have parents: "parents_earlier (ss_entries s @ [e])"
  proof (rule parents_earlier_snoc[OF _ later])
    show "parents_earlier (ss_entries s)" using assms(1) by (simp add: tree_ok_def)
    show "has_id (ss_entries s) p" if "en_parentId e = Some p" for p
      using es(5)[OF that] by_id map_of_by_id_None by metis
  qed
  show ?thesis
    unfolding tree_ok_def es(1-3)
    using assms(1) fresh later parents new
    by (auto simp: tree_ok_def has_id_def sorted_wrt_append map_set_new less_imp_le)
qed

lemma records_ok_record:
  assumes "records_ok s" "ids_ok s" "rc_seq r = Suc (ss_sequence s)" "apply_record r s = Inr t"
  shows "records_ok t"
  using assms
  by (auto simp: records_ok_def ids_ok_def apply_record_Inr sorted_wrt_append less_Suc_eq_le
      le_SucI)

lemma ids_ok_entry: "ids_ok s \<Longrightarrow> apply_entry lane e s = Inr t \<Longrightarrow> ids_ok t"
  by (auto simp: ids_ok_def apply_entry_Inr)

lemma ids_ok_record: "ids_ok s \<Longrightarrow> apply_record r s = Inr t \<Longrightarrow> ids_ok t"
  by (auto simp: ids_ok_def apply_record_Inr)

lemma map_set_head:
  "m = (k0, v0) # rest \<Longrightarrow> \<exists>v' rest'. map_set k v m = (k0, v') # rest'"
  by simp

lemma lanes_ok_set:
  assumes "lanes_ok s" "\<And>i. leaf = Some i \<Longrightarrow> has_id es i"
    and "\<And>i. has_id (ss_entries s) i \<Longrightarrow> has_id es i"
    and "ss_lanes t = map_set lane leaf (ss_lanes s)" "ss_entries t = es"
  shows "lanes_ok t"
  using assms unfolding lanes_ok_def by (auto split: if_splits)

lemma lanes_ok_entry:
  assumes "lanes_ok s" "apply_entry lane e s = Inr t"
  shows "lanes_ok t"
proof (cases lane)
  case None
  with assms show ?thesis by (auto simp: lanes_ok_def apply_entry_Inr)
next
  case (Some l)
  show ?thesis
    by (rule lanes_ok_set[OF assms(1), where leaf = "Some (en_id e)" and lane = l
          and es = "ss_entries s @ [e]"])
      (use assms(2) Some in \<open>auto simp: apply_entry_Inr\<close>)
qed

lemma total_stats_entry:
  "total_stats (es @ [e]) rs = bump_messages e (total_stats es rs)"
  by (simp add: total_stats_def bump_messages_def Let_def)

lemma total_stats_record:
  "total_stats es (rs @ [r]) = bump_usage r (total_stats es rs)"
  by (cases "rc_body r") (simp_all add: total_stats_def bump_usage_def Let_def map_filter_snoc)

lemma stats_ok_entry: "stats_ok s \<Longrightarrow> apply_entry lane e s = Inr t \<Longrightarrow> stats_ok t"
  by (auto simp: stats_ok_def apply_entry_Inr total_stats_entry)

lemma stats_ok_record: "stats_ok s \<Longrightarrow> apply_record r s = Inr t \<Longrightarrow> stats_ok t"
  by (auto simp: stats_ok_def apply_record_Inr total_stats_record)

lemma open_records_snoc:
  assumes "\<forall>x \<in> set rs. rc_seq x < rc_seq r"
  shows "open_records (rs @ [r]) lane =
     filter (\<lambda>x. \<not> (rc_lane r = lane \<and> finishes_operation r (rc_id x))) (open_records rs lane)
     @ (if starts_operation r \<and> rc_lane r = lane then [r] else [])"
proof -
  have last: "\<not> (\<exists>f \<in> set (rs @ [r]). rc_lane f = lane \<and> finishes_operation f (rc_id r)
      \<and> rc_seq r < rc_seq f)"
    using assms by (auto dest: less_asym)
  have init: "filter (\<lambda>x. starts_operation x \<and> rc_lane x = lane \<and>
        \<not> (\<exists>f \<in> set (rs @ [r]). rc_lane f = lane \<and> finishes_operation f (rc_id x)
             \<and> rc_seq x < rc_seq f)) rs
    = filter (\<lambda>x. \<not> (rc_lane r = lane \<and> finishes_operation r (rc_id x))) (open_records rs lane)"
    unfolding open_records_def filter_filter using assms by (intro filter_cong) auto
  show ?thesis
    unfolding open_records_def filter_append init[unfolded open_records_def]
    using last by simp
qed

lemma map_delete_by_id:
  "map_delete i (map (\<lambda>r. (rc_id r, r)) xs) = map (\<lambda>r. (rc_id r, r)) (filter (\<lambda>r. rc_id r \<noteq> i) xs)"
  by (induction xs) (auto simp: AList.delete_eq)

lemma lane_opens_update:
  "(case map_get (update_open_operations r opens) lane of None \<Rightarrow> [] | Some m \<Rightarrow> m) =
     (let old = (case map_get opens lane of None \<Rightarrow> [] | Some m \<Rightarrow> m) in
      if rc_lane r \<noteq> lane then old
      else (case rc_body r of
          RB_operation_started _ _ \<Rightarrow> map_set (rc_id r) r old
        | RB_operation_finished run _ _ \<Rightarrow> map_delete run old
        | _ \<Rightarrow> old))"
  by (auto simp: update_open_operations_def Let_def split: record_body.splits option.splits)

lemma finishes_operation_simps:
  "rc_body r = RB_operation_finished run oc err \<Longrightarrow> finishes_operation r i \<longleftrightarrow> run = i"
  "record_type_of r \<noteq> RT_operation_finished \<Longrightarrow> \<not> finishes_operation r i"
  by (auto simp: finishes_operation_def split: record_body.splits)

lemma opens_ok_record:
  assumes "opens_ok s" "ids_ok s" "records_ok s" "rc_seq r = Suc (ss_sequence s)"
    and "apply_record r s = Inr t"
  shows "opens_ok t"
  unfolding opens_ok_def
proof
  fix lane
  let ?old = "open_records (ss_records s) lane"
  have t: "ss_records t = ss_records s @ [r]"
    "ss_openOperationsByLane t = update_open_operations r (ss_openOperationsByLane s)"
    "rc_id r \<notin> ss_usedIds s"
    using assms(5) by (auto simp: apply_record_Inr)
  have later: "\<forall>x \<in> set (ss_records s). rc_seq x < rc_seq r"
    using assms(3,4) by (auto simp: records_ok_def less_Suc_eq_le)
  have old: "lane_opens s lane = map (\<lambda>r. (rc_id r, r)) ?old"
    using assms(1) by (simp add: opens_ok_def)
  have "rc_id r \<notin> rc_id ` set (ss_records s)"
    using t(3) assms(2) by (auto simp: ids_ok_def)
  then have fresh: "map_get (lane_opens s lane) (rc_id r) = None"
    unfolding old by (auto simp: map_of_eq_None_iff open_records_def)
  have new: "lane_opens t lane =
     (if rc_lane r \<noteq> lane then lane_opens s lane
      else (case rc_body r of
          RB_operation_started _ _ \<Rightarrow> map_set (rc_id r) r (lane_opens s lane)
        | RB_operation_finished run _ _ \<Rightarrow> map_delete run (lane_opens s lane)
        | _ \<Rightarrow> lane_opens s lane))"
    unfolding lane_opens_def t(2) lane_opens_update Let_def by (rule refl)
  show "lane_opens t lane = map (\<lambda>r. (rc_id r, r)) (open_records (ss_records t) lane)"
    unfolding t(1) open_records_snoc[OF later] new map_set_new[OF fresh]
    unfolding old map_delete_by_id
    by (cases "rc_body r")
      (auto simp: finishes_operation_simps intro!: filter_cong arg_cong[where f = "map _"])
qed

lemma log_ok_step:
  assumes "log_ok s" "ss_log t = ss_log s @ [i]" "log_item_seq i = Suc (ss_sequence s)"
    and "ss_sequence t = Suc (ss_sequence s)"
    and "ss_entries t = ss_entries s @ (case log_entry i of None \<Rightarrow> [] | Some e \<Rightarrow> [e])"
    and "ss_records t = ss_records s @ (case log_record i of None \<Rightarrow> [] | Some r \<Rightarrow> [r])"
  shows "log_ok t"
  using assms by (simp add: log_ok_def map_filter_snoc)

text \<open>
  A mutation other than an entry or a record touches neither list, so only the lanes, labels
  and log need an argument.
\<close>

lemma wf_state_other:
  assumes wf: "wf_state s"
    and same: "ss_usedIds t = ss_usedIds s" "ss_entries t = ss_entries s"
      "ss_entriesById t = ss_entriesById s" "ss_records t = ss_records s"
      "ss_openOperationsByLane t = ss_openOperationsByLane s" "ss_stats t = ss_stats s"
    and seq: "ss_sequence t = Suc (ss_sequence s)"
    and log: "ss_log t = ss_log s @ [i]" "log_item_seq i = Suc (ss_sequence s)"
      "log_entry i = None" "log_record i = None"
    and lanes: "lanes_ok t" "\<And>l. map_has (ss_lanes s) l \<Longrightarrow> map_has (ss_lanes t) l"
    and labels: "labels_ok t"
  shows "wf_state t"
proof -
  note ok = wf_stateD[OF wf]
  have "log_ok t"
    by (rule log_ok_step[OF ok(6) log(1,2) seq]) (simp_all add: same log)
  moreover have "tree_ok t" "ids_ok t" "stats_ok t" "opens_ok t"
    using ok(1,3,5,7) by (auto simp: wf_defs lane_opens_def same seq le_SucI)
  moreover have "records_ok t"
    using ok(2) lanes(2) by (auto simp: records_ok_def same seq le_SucI)
  ultimately show ?thesis
    using lanes labels by (simp add: wf_state_def)
qed

lemma wf_state_entry:
  assumes wf: "wf_state s" and m: "applyMutation (Mut_entry lane e) s = Inr t"
  shows "wf_state t"
proof -
  note ok = wf_stateD[OF wf]
  from m have seq: "en_seq e = Suc (ss_sequence s)" and ap: "apply_entry lane e s = Inr t"
    by (simp_all add: applyMutation_entry)
  have "records_ok t"
    using ok(2) ap seq by (auto simp: records_ok_def apply_entry_Inr le_SucI split: option.splits)
  moreover have "opens_ok t"
    using ok(5) ap by (auto simp: opens_ok_def apply_entry_Inr lane_opens_def)
  moreover have "labels_ok t"
    using ok(8) ap by (auto simp: labels_ok_def apply_entry_Inr)
  moreover have "log_ok t"
    by (rule log_ok_step[OF ok(6), where i = "LI_entry (en_seq e) e"])
      (use ap seq in \<open>auto simp: apply_entry_Inr\<close>)
  ultimately show ?thesis
    using tree_ok_entry[OF ok(1,3) seq ap] ids_ok_entry[OF ok(3) ap]
      lanes_ok_entry[OF ok(4) ap] stats_ok_entry[OF ok(7) ap]
    by (simp add: wf_state_def)
qed

lemma wf_state_record:
  assumes wf: "wf_state s" and m: "applyMutation (Mut_record r) s = Inr t"
  shows "wf_state t"
proof -
  note ok = wf_stateD[OF wf]
  from m have seq: "rc_seq r = Suc (ss_sequence s)" and ap: "apply_record r s = Inr t"
    by (simp_all add: applyMutation_record)
  have "tree_ok t" "lanes_ok t" "labels_ok t"
    using ok(1,4,8) ap seq by (auto simp: wf_defs apply_record_Inr le_SucI)
  moreover have "log_ok t"
    by (rule log_ok_step[OF ok(6), where i = "LI_record (rc_seq r) r"])
      (use ap seq in \<open>auto simp: apply_record_Inr\<close>)
  ultimately show ?thesis
    using records_ok_record[OF ok(2,3) seq ap] ids_ok_record[OF ok(3) ap]
      opens_ok_record[OF ok(5,3,2) seq ap] stats_ok_record[OF ok(7) ap]
    by (simp add: wf_state_def)
qed

lemma wf_state_mutation [inv_intros]:
  assumes wf: "wf_state s" and m: "applyMutation m s = Inr t"
  shows "wf_state t"
proof (cases m)
  case (Mut_entry lane e)
  with assms show ?thesis by (blast intro: wf_state_entry)
next
  case (Mut_record r)
  with assms show ?thesis by (blast intro: wf_state_record)
next
  case (Mut_lane n lane leaf)
  with m have n: "n = Suc (ss_sequence s)"
    and leaf: "\<And>i. leaf = Some i \<Longrightarrow> map_has (ss_entriesById s) i"
    and t: "t = s\<lparr>ss_sequence := n, ss_lanes := map_set lane leaf (ss_lanes s),
        ss_log := ss_log s @ [LI_lane n lane leaf]\<rparr>"
    by (auto simp: applyMutation_lane)
  have "lanes_ok t"
    by (rule lanes_ok_set[OF wf_stateD(4)[OF wf], where leaf = leaf and lane = lane
          and es = "ss_entries s"])
      (use leaf has_entry_iff[OF wf] t in auto)
  note lanes = this
  show ?thesis
    by (rule wf_state_other[OF wf])
      (use t n lanes wf_stateD(8)[OF wf] in \<open>auto simp: labels_ok_def\<close>)
next
  case (Mut_name n nm)
  with m have t: "n = Suc (ss_sequence s)"
    "t = s\<lparr>ss_sequence := n, ss_name := nm, ss_log := ss_log s @ [LI_name n nm]\<rparr>"
    by (auto simp: applyMutation_name)
  show ?thesis
    by (rule wf_state_other[OF wf])
      (use t wf_stateD(4,8)[OF wf] in \<open>auto simp: labels_ok_def lanes_ok_def\<close>)
next
  case (Mut_label n target label)
  with m have t: "n = Suc (ss_sequence s)" "map_has (ss_entriesById s) target"
    "t = s\<lparr>ss_sequence := n,
        ss_labels := (case label of None \<Rightarrow> map_delete target (ss_labels s)
          | Some l \<Rightarrow> map_set target l (ss_labels s)),
        ss_log := ss_log s @ [LI_label n target label]\<rparr>"
    by (auto simp: applyMutation_label)
  have "has_id (ss_entries s) target"
    using t(2) has_entry_iff[OF wf] by blast
  moreover have "map_has (ss_labels t) i \<Longrightarrow> map_has (ss_labels s) i \<or> i = target" for i
    using t(3) by (cases label; cases "i = target") simp_all
  moreover have "ss_entries t = ss_entries s" "distinct (map fst (ss_labels t))"
    using t(3) wf_stateD(8)[OF wf] by (cases label; simp add: labels_ok_def)+
  ultimately have "labels_ok t"
    using wf_stateD(8)[OF wf] unfolding labels_ok_def by metis
  note labels = this
  show ?thesis
    by (rule wf_state_other[OF wf])
      (use t labels wf_stateD(4)[OF wf] in \<open>auto simp: lanes_ok_def\<close>)
qed

lemma wf_state_mutations:
  "fold_result applyMutation ms s = Inr t \<Longrightarrow> wf_state s \<Longrightarrow> wf_state t"
  by (erule fold_result_invariant[where P = wf_state]) (auto intro: wf_state_mutation)

end
