(* ===== verification/Session_Branch.thy ===== *)
theory Session_Branch
  imports Session_Invariant
begin

text \<open>
  Branches and forks of a well-formed session: the walk from any entry ends at a root without
  an error, branch queries are filters of that walk, and replaying the mutations of a fork on
  an empty session succeeds and rebuilds the copied entries, lanes, name and labels.
\<close>

section \<open>The walk\<close>

fun take_until :: "('a \<Rightarrow> bool) \<Rightarrow> 'a list \<Rightarrow> 'a list" where
  "take_until p [] = []"
| "take_until p (x # xs) = (if p x then [x] else x # take_until p xs)"

fun root_path :: "entry list \<Rightarrow> bool" where
  "root_path [] = False"
| "root_path [e] = (en_parentId e = None)"
| "root_path (e # e' # es) = (en_parentId e = Some (en_id e') \<and> root_path (e' # es))"

lemma root_path_Cons:
  "root_path (e # es) \<longleftrightarrow>
     (case es of [] \<Rightarrow> en_parentId e = None
      | e' # _ \<Rightarrow> en_parentId e = Some (en_id e') \<and> root_path es)"
  by (cases es) simp_all

text \<open>
  The path exists and does not depend on the bounds, on the ids visited before (all of them
  later than the entry) or on the error a missing key would give.
\<close>

lemma walk_from_ok:
  assumes wf: "wf_state s" and "e \<in> set (ss_entries s)"
  shows "\<exists>path. path \<noteq> [] \<and> hd path = e \<and> root_path path \<and> set path \<subseteq> set (ss_entries s) \<and>
     sorted_wrt (>) (map en_seq path) \<and>
     (\<forall>b missing visited.
        (\<forall>v \<in> set visited. \<exists>x \<in> set (ss_entries s). en_id x = v \<and> en_seq e < en_seq x) \<longrightarrow>
        walk_from (ss_entriesById s) b missing visited (en_id e)
          = (take_until (stops_walk b) path, None))"
  using assms(2)
proof (induction "en_seq e" arbitrary: e rule: less_induct)
  case less
  have tree: "tree_ok s" using wf by (simp add: wf_state_def)
  have get: "map_get (ss_entriesById s) (en_id x) = Some x" if "x \<in> set (ss_entries s)" for x
    using getEntry_iff[OF wf, of "en_id x" x] that by (simp add: getEntry_def)
  have same: "x = y" if "x \<in> set (ss_entries s)" "y \<in> set (ss_entries s)" "en_id x = en_id y" for x y
    using get that by (metis option.inject)
  have walk_here: "walk_from (ss_entriesById s) b missing visited (en_id e) =
      (if en_id e \<in> set visited
         then ([], Some (SessionError SE_invalid_entry
                (''Session branch contains a cycle at '' @ en_id e)))
       else if stops_walk b e then ([e], None)
       else (case en_parentId e of
           None \<Rightarrow> ([e], None)
         | Some p \<Rightarrow>
             (case walk_from (ss_entriesById s) b SE_invalid_entry (en_id e # visited) p of
               (es, err) \<Rightarrow> (e # es, err))))" for b missing visited
    by (subst walk_from.simps) (simp only: get[OF less.prems] option.case)
  have unvisited: "en_id e \<notin> set visited"
    if "\<forall>v \<in> set visited. \<exists>x \<in> set (ss_entries s). en_id x = v \<and> en_seq e < en_seq x"
    for visited
    using that same less.prems by blast
  show ?case
  proof (cases "en_parentId e")
    case None
    have "walk_from (ss_entriesById s) b missing visited (en_id e)
        = (take_until (stops_walk b) [e], None)"
      if "\<forall>v \<in> set visited. \<exists>x \<in> set (ss_entries s). en_id x = v \<and> en_seq e < en_seq x"
      for b missing visited
      using unvisited[OF that] None by (simp add: walk_here)
    with None less.prems show ?thesis by (intro exI[of _ "[e]"]) simp
  next
    case (Some p)
    with tree less.prems obtain e' where e': "e' \<in> set (ss_entries s)" "en_id e' = p"
      "en_seq e' < en_seq e"
      unfolding tree_ok_def parents_earlier_def by blast
    from less.hyps[OF e'(3,1)] obtain path where path: "path \<noteq> []" "hd path = e'"
      "root_path path" "set path \<subseteq> set (ss_entries s)" "sorted_wrt (>) (map en_seq path)"
      and walk: "\<And>b missing visited.
        (\<forall>v \<in> set visited. \<exists>x \<in> set (ss_entries s). en_id x = v \<and> en_seq e' < en_seq x) \<Longrightarrow>
        walk_from (ss_entriesById s) b missing visited (en_id e')
          = (take_until (stops_walk b) path, None)"
      by blast
    have "walk_from (ss_entriesById s) b missing visited (en_id e)
        = (take_until (stops_walk b) (e # path), None)"
      if v: "\<forall>v \<in> set visited. \<exists>x \<in> set (ss_entries s). en_id x = v \<and> en_seq e < en_seq x"
      for b missing visited
    proof -
      have "\<forall>v \<in> set (en_id e # visited).
          \<exists>x \<in> set (ss_entries s). en_id x = v \<and> en_seq e' < en_seq x"
        using v e'(3) less.prems by (auto intro: less_trans)
      from walk[OF this] show ?thesis
        using unvisited[OF v] Some by (simp add: walk_here e'(2))
    qed
    moreover have "root_path (e # path)"
      using path(1-3) Some e'(2) by (cases path) simp_all
    moreover have "sorted_wrt (>) (map en_seq (e # path))"
    proof -
      have "\<forall>n \<in> set (map en_seq path). n \<le> en_seq e'"
        using path(1,2,5) by (cases path) (auto simp: less_imp_le)
      with path(5) e'(3) show ?thesis by auto
    qed
    ultimately show ?thesis
      using path(4) less.prems by (intro exI[of _ "e # path"]) simp
  qed
qed

definition ancestry :: "session_state \<Rightarrow> string \<Rightarrow> entry list" where
  "ancestry s i = fst (walkToRoot s (Some i) no_bounds)"

lemma take_until_never: "(\<And>x. x \<in> set xs \<Longrightarrow> \<not> p x) \<Longrightarrow> take_until p xs = xs"
  by (induction xs) auto

lemma stops_no_bounds [simp]: "\<not> stops_walk no_bounds e"
  by (simp add: stops_walk_def no_bounds_def)

lemma ancestry_ok:
  assumes wf: "wf_state s" and e: "getEntry s i = Some e"
  shows "ancestry s i \<noteq> []" "hd (ancestry s i) = e" "root_path (ancestry s i)"
    "set (ancestry s i) \<subseteq> set (ss_entries s)"
    "sorted_wrt (>) (map en_seq (ancestry s i))"
    "walkToRoot s (Some i) b = (take_until (stops_walk b) (ancestry s i), None)"
proof -
  from e have mem: "e \<in> set (ss_entries s)" and i: "en_id e = i"
    using getEntry_iff[OF wf] by auto
  from walk_from_ok[OF wf mem] obtain path where path: "path \<noteq> []" "hd path = e"
    "root_path path" "set path \<subseteq> set (ss_entries s)" "sorted_wrt (>) (map en_seq path)"
    and walk: "\<And>b missing. walk_from (ss_entriesById s) b missing [] (en_id e)
        = (take_until (stops_walk b) path, None)"
    by (metis (no_types, lifting) empty_iff empty_set)
  have walk': "walkToRoot s (Some i) b = (take_until (stops_walk b) path, None)" for b
    using walk i by (simp add: walkToRoot_def)
  then have anc: "ancestry s i = path"
    by (simp add: ancestry_def take_until_never)
  show "ancestry s i \<noteq> []" "hd (ancestry s i) = e" "root_path (ancestry s i)"
    "set (ancestry s i) \<subseteq> set (ss_entries s)"
    "sorted_wrt (>) (map en_seq (ancestry s i))"
    "walkToRoot s (Some i) b = (take_until (stops_walk b) (ancestry s i), None)"
    using path walk' anc by simp_all
qed

lemma root_path_unique:
  "root_path p \<Longrightarrow> root_path q \<Longrightarrow> hd p = hd q \<Longrightarrow> inj_on en_id S \<Longrightarrow>
     set p \<subseteq> S \<Longrightarrow> set q \<subseteq> S \<Longrightarrow> p = q"
proof (induction p arbitrary: q)
  case (Cons x p)
  then obtain y q' where q: "q = y # q'" by (cases q) auto
  with Cons.prems have y: "y = x" by simp
  show ?case
  proof (cases p)
    case Nil
    then show ?thesis using Cons.prems(1,2) q y by (cases q') auto
  next
    case (Cons a p')
    with Cons.prems q y obtain b q'' where q': "q' = b # q''" by (cases q') auto
    have "en_id a = en_id b" using Cons.prems(1,2) q q' y Cons by simp
    then have "a = b"
      using Cons.prems(4-6) q q' Cons by (auto simp: inj_on_def)
    then have "p = q'"
      using Cons.IH[of q'] Cons.prems q q' Cons y by simp
    then show ?thesis using q y by simp
  qed
qed simp

lemma ancestry_unique:
  assumes wf: "wf_state s" and p: "root_path p" "set p \<subseteq> set (ss_entries s)" "en_id (hd p) = i"
  shows "ancestry s i = p"
proof -
  have "p \<noteq> []" using p(1) by auto
  then have "hd p \<in> set (ss_entries s)" using p(2) hd_in_set[of p] by blast
  then have e: "getEntry s i = Some (hd p)"
    using p(3) by (simp add: getEntry_iff[OF wf])
  have "inj_on en_id (set (ss_entries s))"
    using wf_stateD(1)[OF wf] by (simp add: tree_ok_def distinct_map)
  from root_path_unique[OF ancestry_ok(3)[OF wf e] p(1) _ this ancestry_ok(4)[OF wf e] p(2)]
  show ?thesis using ancestry_ok(2)[OF wf e] by simp
qed

text \<open>Appending leaves every branch as it was and puts the new entry on the branch of its parent.\<close>

lemma ancestry_append:
  assumes wf: "wf_state s" and wf': "wf_state t" and es: "ss_entries t = ss_entries s @ [e]"
  shows "getEntry s i = Some x \<Longrightarrow> ancestry t i = ancestry s i"
    and "ancestry t (en_id e) = e # (case en_parentId e of None \<Rightarrow> [] | Some p \<Rightarrow> ancestry s p)"
proof -
  have sub: "set (ancestry s i) \<subseteq> set (ss_entries t)" if "getEntry s i = Some x" for i x
    using ancestry_ok(4)[OF wf that] es by auto
  show "getEntry s i = Some x \<Longrightarrow> ancestry t i = ancestry s i"
    by (rule ancestry_unique[OF wf' ancestry_ok(3)[OF wf] sub])
      (auto simp: ancestry_ok(2)[OF wf] getEntry_iff[OF wf])
  have "root_path (e # (case en_parentId e of None \<Rightarrow> [] | Some p \<Rightarrow> ancestry s p)) \<and>
      set (e # (case en_parentId e of None \<Rightarrow> [] | Some p \<Rightarrow> ancestry s p)) \<subseteq> set (ss_entries t)"
  proof (cases "en_parentId e")
    case None
    then show ?thesis using es by simp
  next
    case (Some p)
    have "parents_earlier (ss_entries t)" and srt: "sorted_wrt (<) (map en_seq (ss_entries t))"
      using wf_stateD(1)[OF wf'] by (simp_all add: tree_ok_def)
    then obtain e' where "e' \<in> set (ss_entries t)" "en_id e' = p" "en_seq e' < en_seq e"
      using Some es unfolding parents_earlier_def by auto
    then have "e' \<in> set (ss_entries s) \<and> en_id e' = p" using es by auto
    then have p: "getEntry s p = Some e'" by (simp add: getEntry_iff[OF wf])
    obtain as where as: "ancestry s p = e' # as"
      using ancestry_ok(1,2)[OF wf p] by (cases "ancestry s p") auto
    show ?thesis
      using Some sub[OF p] es as ancestry_ok(3)[OF wf p] \<open>en_id e' = p\<close> by (auto simp: root_path_Cons)
  qed
  then show "ancestry t (en_id e) = e # (case en_parentId e of None \<Rightarrow> [] | Some p \<Rightarrow> ancestry s p)"
    using ancestry_unique[OF wf'] by simp
qed

section \<open>Branch queries\<close>

lemma scan_newest_eq:
  assumes "\<And>n. bound = Some n \<Longrightarrow> length acc < n"
  shows "scan_newest q bound es None acc =
     Inr (acc @ take_opt (map_option (\<lambda>n. n - length acc) bound) (filter (\<lambda>e. matchesEntryQuery e q) es))"
  using assms
proof (induction es arbitrary: acc)
  case Nil
  then show ?case by (cases bound) (simp_all add: take_opt_def)
next
  case (Cons e es)
  let ?p = "\<lambda>e. matchesEntryQuery e q"
  show ?case
  proof (cases "?p e \<and> bound = Some (Suc (length acc))")
    case True
    then show ?thesis by (simp add: take_opt_def)
  next
    case False
    then have "?p e \<Longrightarrow> bound = Some n \<Longrightarrow> length (acc @ [e]) < n" for n
      using Cons.prems[of n] by auto
    moreover have "bound \<noteq> Some (length acc)"
      using Cons.prems by blast
    ultimately show ?thesis
      using False Cons.IH[of acc] Cons.IH[of "acc @ [e]"] Cons.prems
      by (cases bound) (auto simp: take_opt_def Suc_diff_Suc take_Cons' Let_def)
  qed
qed

lemma scan_oldest_eq:
  assumes "\<And>n. bound = Some n \<Longrightarrow> length acc < n"
  shows "scan_oldest q b bound es acc =
     acc @ take_opt (map_option (\<lambda>n. n - length acc) bound)
       (filter (\<lambda>e. matchesEntryQuery e q) (take_until (stops_walk b) es))"
  using assms
proof (induction es arbitrary: acc)
  case Nil
  then show ?case by (cases bound) (simp_all add: take_opt_def)
next
  case (Cons e es)
  let ?p = "\<lambda>e. matchesEntryQuery e q"
  have ne: "bound \<noteq> Some (length acc)"
    using Cons.prems by blast
  show ?case
  proof (cases "?p e \<and> bound = Some (Suc (length acc))")
    case True
    then show ?thesis by (simp add: take_opt_def)
  next
    case False
    then have "?p e \<Longrightarrow> bound = Some n \<Longrightarrow> length (acc @ [e]) < n" for n
      using Cons.prems[of n] by auto
    then show ?thesis
      using False ne Cons.IH[of acc] Cons.IH[of "acc @ [e]"] Cons.prems
      by (cases bound) (auto simp: take_opt_def Suc_diff_Suc take_Cons' Let_def)
  qed
qed

lemma limit_nat_positive:
  "assertValidLimit l = Inr u \<Longrightarrow> limit_nat l = Some n \<Longrightarrow> 0 < n"
  by (auto simp: assertValidLimit_def limit_nat_def is_integer_def split: option.splits)

lemma findEntriesOnBranch_spec:
  assumes wf: "wf_state s" and e: "getEntry s start = Some e"
    and lmt: "assertValidLimit (eq_limit q) = Inr ()"
    and cur: "assertValidCursor (eq_cursor q) = Inr ()"
  shows "findEntriesOnBranch s q b start = Inr (take_opt (limit_nat (eq_limit q))
     (filter (\<lambda>e. matchesEntryQuery e q) (take_until (stops_walk b)
       (if eq_order q = Some OldestFirst then rev (ancestry s start) else ancestry s start))))"
proof -
  have pos: "\<And>n. limit_nat (eq_limit q) = Some n \<Longrightarrow> length [] < n"
    using limit_nat_positive[OF lmt] by simp
  have "take_until (stops_walk no_bounds) (ancestry s start) = ancestry s start"
    by (rule take_until_never) simp
  then show ?thesis
    using ancestry_ok(6)[OF wf e] scan_newest_eq[OF pos] scan_oldest_eq[OF pos]
    by (simp add: findEntriesOnBranch_def lmt cur option.map_ident)
qed

section \<open>Replaying a fork\<close>

text \<open>An entry up to its sequence number, the one field a fork assigns anew.\<close>

definition unnumbered :: "entry \<Rightarrow> entry" where
  "unnumbered e = e\<lparr>en_seq := 0\<rparr>"

lemma unnumbered_seq [simp]: "unnumbered (e\<lparr>en_seq := n\<rparr>) = unnumbered e"
  by (simp add: unnumbered_def)

fun closed_under :: "string set \<Rightarrow> entry list \<Rightarrow> bool" where
  "closed_under K [] = True"
| "closed_under K (e # es) =
     ((case en_parentId e of None \<Rightarrow> True | Some p \<Rightarrow> p \<in> K) \<and> closed_under (insert (en_id e) K) es)"

lemma closed_under_append:
  "closed_under K (xs @ ys) \<longleftrightarrow> closed_under K xs \<and> closed_under (K \<union> en_id ` set xs) ys"
  by (induction xs arbitrary: K) auto

lemma closed_root_path: "root_path path \<Longrightarrow> closed_under {} (rev path)"
proof (induction path rule: root_path.induct)
  case (3 e e' es)
  then show ?case by (auto simp: closed_under_append)
qed simp_all

lemma closed_sorted:
  "sorted_wrt (<) (map en_seq es) \<Longrightarrow> parents_earlier es \<Longrightarrow> closed_under {} es"
proof (induction es rule: rev_induct)
  case Nil
  then show ?case by simp
next
  case (snoc e es)
  have old: "\<forall>x \<in> set es. en_seq x < en_seq e"
    using snoc.prems(1) by (simp add: sorted_wrt_append)
  have "\<exists>e' \<in> set es. en_id e' = p \<and> en_seq e' < en_seq x"
    if "x \<in> set (es @ [e])" "en_parentId x = Some p" for x p
  proof -
    from snoc.prems(2) that obtain e' where e': "e' \<in> set (es @ [e])" "en_id e' = p"
      "en_seq e' < en_seq x"
      unfolding parents_earlier_def by blast
    moreover have "en_seq x \<le> en_seq e"
      using that(1) old by (auto simp: less_imp_le)
    ultimately have "e' \<in> set es"
      by auto
    with e' show ?thesis by blast
  qed
  then have "parents_earlier es" "\<And>p. en_parentId e = Some p \<Longrightarrow> p \<in> en_id ` set es"
    by (auto simp: parents_earlier_def)
  with snoc show ?case
    by (auto simp: closed_under_append sorted_wrt_append split: option.splits)
qed

lemma replay_entries:
  assumes "wf_state u" "n = Suc (ss_sequence u)" "closed_under (en_id ` set (ss_entries u)) es"
    and "distinct (map en_id es)" "en_id ` set es \<inter> ss_usedIds u = {}"
  shows "\<exists>v. fold_result applyMutation (number_entries n es) u = Inr v \<and> wf_state v \<and>
     ss_sequence v = ss_sequence u + length es \<and>
     map unnumbered (ss_entries v) = map unnumbered (ss_entries u) @ map unnumbered es \<and>
     en_id ` set (ss_entries v) = en_id ` set (ss_entries u) \<union> en_id ` set es \<and>
     ss_records v = ss_records u \<and> ss_lanes v = ss_lanes u \<and> ss_name v = ss_name u \<and>
     ss_labels v = ss_labels u"
  using assms
proof (induction es arbitrary: n u)
  case Nil
  then show ?case by simp
next
  case (Cons e es)
  let ?e = "e\<lparr>en_seq := n\<rparr>"
  have "map_has (ss_entriesById u) p" if "en_parentId e = Some p" for p
    using Cons.prems(1,3) that has_entry_iff[OF Cons.prems(1)] by (simp add: has_id_def)
  with Cons.prems obtain v where v: "applyMutation (Mut_entry None ?e) u = Inr v"
    and f: "ss_sequence v = n" "ss_usedIds v = insert (en_id e) (ss_usedIds u)"
      "ss_entries v = ss_entries u @ [?e]" "ss_records v = ss_records u"
      "ss_lanes v = ss_lanes u" "ss_name v = ss_name u" "ss_labels v = ss_labels u"
    by (simp add: applyMutation_entry apply_entry_Inr)
  have "wf_state v" using Cons.prems(1) v by (rule wf_state_mutation)
  then have "\<exists>w. fold_result applyMutation (number_entries (Suc n) es) v = Inr w \<and> wf_state w \<and>
     ss_sequence w = ss_sequence v + length es \<and>
     map unnumbered (ss_entries w) = map unnumbered (ss_entries v) @ map unnumbered es \<and>
     en_id ` set (ss_entries w) = en_id ` set (ss_entries v) \<union> en_id ` set es \<and>
     ss_records w = ss_records v \<and> ss_lanes w = ss_lanes v \<and> ss_name w = ss_name v \<and>
     ss_labels w = ss_labels v"
    by (rule Cons.IH) (use Cons.prems f in auto)
  then show ?case
    using v f Cons.prems(2) by auto
qed

lemma replay_lanes:
  assumes "wf_state u" "n = Suc (ss_sequence u)"
    and "\<And>l i. (l, Some i) \<in> set ls \<Longrightarrow> has_id (ss_entries u) i"
  shows "\<exists>v. fold_result applyMutation (number_lanes n ls) u = Inr v \<and> wf_state v \<and>
     ss_sequence v = ss_sequence u + length ls \<and>
     ss_lanes v = fold (\<lambda>(k, x). map_set k x) ls (ss_lanes u) \<and>
     ss_entries v = ss_entries u \<and>
     ss_records v = ss_records u \<and> ss_name v = ss_name u \<and> ss_labels v = ss_labels u"
  using assms
proof (induction ls arbitrary: n u)
  case Nil
  then show ?case by simp
next
  case (Cons pointer ls)
  obtain l leaf where pointer: "pointer = (l, leaf)" by (cases pointer)
  have "map_has (ss_entriesById u) i" if "leaf = Some i" for i
    using Cons.prems(3)[of l i] that pointer has_entry_iff[OF Cons.prems(1)] by simp
  with Cons.prems(2) obtain v where v: "applyMutation (Mut_lane n l leaf) u = Inr v"
    and f: "ss_sequence v = n" "ss_lanes v = map_set l leaf (ss_lanes u)"
      "ss_entries v = ss_entries u" "ss_records v = ss_records u" "ss_name v = ss_name u"
      "ss_labels v = ss_labels u"
    by (simp add: applyMutation_lane)
  have "wf_state v" using Cons.prems(1) v by (rule wf_state_mutation)
  then have "\<exists>w. fold_result applyMutation (number_lanes (Suc n) ls) v = Inr w \<and> wf_state w \<and>
     ss_sequence w = ss_sequence v + length ls \<and>
     ss_lanes w = fold (\<lambda>(k, x). map_set k x) ls (ss_lanes v) \<and> ss_entries w = ss_entries v \<and>
     ss_records w = ss_records v \<and> ss_name w = ss_name v \<and> ss_labels w = ss_labels v"
    by (rule Cons.IH) (use Cons.prems(3) f in auto)
  then show ?case
    using v f Cons.prems(2) pointer by auto
qed

lemma replay_labels:
  assumes "wf_state u" "n = Suc (ss_sequence u)" "\<And>e. e \<in> set es \<Longrightarrow> has_id (ss_entries u) (en_id e)"
  shows "\<exists>v. fold_result applyMutation (number_labels labels n es) u = Inr v \<and> wf_state v \<and>
     ss_lanes v = ss_lanes u \<and> ss_entries v = ss_entries u \<and>
     ss_records v = ss_records u \<and> ss_name v = ss_name u \<and>
     (\<forall>i. getLabel v i = (if has_id es i \<and> map_get labels i \<noteq> None then map_get labels i
            else getLabel u i))"
  using assms
proof (induction es arbitrary: n u)
  case Nil
  then show ?case by (simp add: has_id_def)
next
  case (Cons e es)
  show ?case
  proof (cases "map_get labels (en_id e)")
    case None
    have "\<exists>v. fold_result applyMutation (number_labels labels n es) u = Inr v \<and> wf_state v \<and>
     ss_lanes v = ss_lanes u \<and> ss_entries v = ss_entries u \<and>
     ss_records v = ss_records u \<and> ss_name v = ss_name u \<and>
     (\<forall>i. getLabel v i = (if has_id es i \<and> map_get labels i \<noteq> None then map_get labels i
            else getLabel u i))"
      by (rule Cons.IH) (use Cons.prems in auto)
    with None show ?thesis by (auto simp: has_id_def)
  next
    case (Some l)
    have "map_has (ss_entriesById u) (en_id e)"
      using Cons.prems(3)[of e] has_entry_iff[OF Cons.prems(1)] by simp
    with Cons.prems(2) obtain v where v: "applyMutation (Mut_label n (en_id e) (Some l)) u = Inr v"
      and f: "ss_sequence v = n" "ss_labels v = map_set (en_id e) l (ss_labels u)"
        "ss_lanes v = ss_lanes u" "ss_entries v = ss_entries u" "ss_records v = ss_records u"
        "ss_name v = ss_name u"
      by (simp add: applyMutation_label)
    have "wf_state v" using Cons.prems(1) v by (rule wf_state_mutation)
    then have "\<exists>w. fold_result applyMutation (number_labels labels (Suc n) es) v = Inr w \<and>
     wf_state w \<and> ss_lanes w = ss_lanes v \<and> ss_entries w = ss_entries v \<and>
     ss_records w = ss_records v \<and> ss_name w = ss_name v \<and>
     (\<forall>i. getLabel w i = (if has_id es i \<and> map_get labels i \<noteq> None then map_get labels i
            else getLabel v i))"
      by (rule Cons.IH) (use Cons.prems(3) f in auto)
    with v f Some show ?thesis
      by (auto simp: getLabel_def has_id_def)
  qed
qed

text \<open>What a fork copies is a parent-closed list of entries and lanes that point into it.\<close>

definition fork_fits :: "entry list \<Rightarrow> lane_pointer list \<Rightarrow> bool" where
  "fork_fits copied lanes \<longleftrightarrow>
     closed_under {} copied \<and> distinct (map en_id copied) \<and>
     distinct (map fst lanes) \<and> (\<exists>leaf rest. lanes = (''main'', leaf) # rest) \<and>
     (\<forall>l i. (l, Some i) \<in> set lanes \<longrightarrow> has_id copied i)"

lemma fork_replay:
  assumes fits: "fork_fits copied lanes"
    and src: "fork_source s opts = Inr (copied, lanes)"
    and ms: "createForkMutations s opts = Inr ms"
  shows "\<exists>t. fold_result applyMutation ms initial_state = Inr t \<and> wf_state t \<and>
     map unnumbered (ss_entries t) = map unnumbered copied \<and> ss_records t = [] \<and>
     ss_lanes t = lanes \<and> ss_name t = ss_name s \<and>
     (\<forall>i. getLabel t i = (if has_id copied i then getLabel s i else None))"
proof -
  have init: "ss_sequence initial_state = 0" "ss_usedIds initial_state = {}"
    "ss_entries initial_state = []" "ss_records initial_state = []"
    "ss_lanes initial_state = [(''main'', None)]" "ss_name initial_state = None"
    "ss_labels initial_state = []"
    by (simp_all add: initial_state_def)
  have "\<exists>u. fold_result applyMutation (number_entries 1 copied) initial_state = Inr u \<and> wf_state u \<and>
     ss_sequence u = ss_sequence initial_state + length copied \<and>
     map unnumbered (ss_entries u) = map unnumbered (ss_entries initial_state) @ map unnumbered copied \<and>
     en_id ` set (ss_entries u) = en_id ` set (ss_entries initial_state) \<union> en_id ` set copied \<and>
     ss_records u = ss_records initial_state \<and> ss_lanes u = ss_lanes initial_state \<and>
     ss_name u = ss_name initial_state \<and> ss_labels u = ss_labels initial_state"
    by (rule replay_entries) (use fits init wf_initial in \<open>auto simp: fork_fits_def\<close>)
  then obtain u where u: "fold_result applyMutation (number_entries 1 copied) initial_state = Inr u"
    "wf_state u" "ss_sequence u = length copied" "map unnumbered (ss_entries u) = map unnumbered copied"
    "en_id ` set (ss_entries u) = en_id ` set copied" "ss_records u = []"
    "ss_lanes u = [(''main'', None)]" "ss_name u = None" "ss_labels u = []"
    by (auto simp: init)
  have "\<exists>v. fold_result applyMutation (number_lanes (1 + length copied) lanes) u = Inr v \<and> wf_state v \<and>
     ss_sequence v = ss_sequence u + length lanes \<and>
     ss_lanes v = fold (\<lambda>(k, x). map_set k x) lanes (ss_lanes u) \<and> ss_entries v = ss_entries u \<and>
     ss_records v = ss_records u \<and> ss_name v = ss_name u \<and> ss_labels v = ss_labels u"
    by (rule replay_lanes) (use u(2,3,5) fits in \<open>auto simp: fork_fits_def has_id_def\<close>)
  then obtain v where v: "fold_result applyMutation (number_lanes (1 + length copied) lanes) u = Inr v"
    "wf_state v" "ss_sequence v = length copied + length lanes"
    "ss_lanes v = fold (\<lambda>(k, x). map_set k x) lanes [(''main'', None)]" "ss_entries v = ss_entries u"
    "ss_records v = []" "ss_name v = None" "ss_labels v = []"
    by (auto simp: u)
  have lanes: "ss_lanes v = lanes"
  proof -
    from fits obtain leaf rest where l: "lanes = (''main'', leaf) # rest"
      and d: "distinct (map fst lanes)" by (auto simp: fork_fits_def)
    then show ?thesis
      using map_from_distinct[OF d] v(4) by (simp add: map_from_def)
  qed
  obtain ns where ns: "ns = (case ss_name s of None \<Rightarrow> []
    | Some nm \<Rightarrow> [Mut_name (1 + length copied + length lanes) (Some nm)])"
    by blast
  obtain w where w: "fold_result applyMutation ns v = Inr w" "wf_state w"
    "ss_sequence w = length copied + length lanes + length ns" "ss_lanes w = lanes"
    "ss_entries w = ss_entries u" "ss_records w = []" "ss_name w = ss_name s" "ss_labels w = []"
  proof (cases "ss_name s")
    case None
    with ns v lanes that[of v] show ?thesis by simp
  next
    case (Some nm)
    with v obtain w where *: "applyMutation (Mut_name (1 + length copied + length lanes) (Some nm)) v = Inr w"
      "w = v\<lparr>ss_sequence := 1 + length copied + length lanes, ss_name := Some nm,
        ss_log := ss_log v @ [LI_name (1 + length copied + length lanes) (Some nm)]\<rparr>"
      by (simp add: applyMutation_name)
    have "wf_state w" using v(2) *(1) by (rule wf_state_mutation)
    with ns * v lanes Some that[of w] show ?thesis by simp
  qed
  let ?n = "1 + length copied + length lanes + length ns"
  have "\<exists>t. fold_result applyMutation (number_labels (ss_labels s) ?n copied) w = Inr t \<and> wf_state t \<and>
     ss_lanes t = ss_lanes w \<and> ss_entries t = ss_entries w \<and>
     ss_records t = ss_records w \<and> ss_name t = ss_name w \<and>
     (\<forall>i. getLabel t i = (if has_id copied i \<and> map_get (ss_labels s) i \<noteq> None
            then map_get (ss_labels s) i else getLabel w i))"
    by (rule replay_labels) (use w u(5) in \<open>auto simp: has_id_def\<close>)
  then obtain t where t: "fold_result applyMutation (number_labels (ss_labels s) ?n copied) w = Inr t"
    "wf_state t" "ss_lanes t = lanes" "ss_entries t = ss_entries u" "ss_records t = []"
    "ss_name t = ss_name s"
    "\<forall>i. getLabel t i = (if has_id copied i then getLabel s i else None)"
    by (auto simp: w getLabel_def)
  have "ms = number_entries 1 copied @ number_lanes (1 + length copied) lanes @ ns
      @ number_labels (ss_labels s) ?n copied"
    using ms src by (simp add: createForkMutations_def ns Let_def cong: option.case_cong)
  then have "fold_result applyMutation ms initial_state = Inr t"
    by (simp only: fold_result_append bind_result_simps u(1) v(1) w(1) t(1))
  with t u(4) show ?thesis by auto
qed

lemma fork_source_tree: "fork_source s Fork_Tree = Inr (ss_entries s, ss_lanes s)"
proof -
  have "scan_limit (\<lambda>e. matchesEntryQuery e oldest_first) None (ss_entries s) []
      = take_opt None (filter (\<lambda>e. matchesEntryQuery e oldest_first) (ss_entries s))"
    by (rule scan_limit_start) simp
  also have "\<dots> = ss_entries s"
    by (simp add: take_opt_def matchesEntryQuery_def oldest_first_def)
  finally show ?thesis
    by (simp add: fork_source_def findEntries_def oldest_first_def assertValidLimit_def
        assertValidCursor_def limit_nat_def ordered_def getLanes_def)
qed

lemma fork_fits_tree: "wf_state s \<Longrightarrow> fork_fits (ss_entries s) (ss_lanes s)"
  by (auto simp: fork_fits_def wf_state_def tree_ok_def lanes_ok_def closed_sorted)

lemma branch_oldest:
  assumes wf: "wf_state s" and e: "getEntry s i = Some e"
  shows "findEntriesOnBranch s oldest_first no_bounds i = Inr (rev (ancestry s i))"
  by (subst findEntriesOnBranch_spec[OF wf e])
    (simp_all add: oldest_first_def assertValidLimit_def assertValidCursor_def limit_nat_def
      take_opt_def matchesEntryQuery_def take_until_never)

lemma distinct_ids_subset:
  "distinct (map en_id es) \<Longrightarrow> distinct xs \<Longrightarrow> set xs \<subseteq> set es \<Longrightarrow> distinct (map en_id xs)"
  by (auto simp: distinct_map intro: inj_on_subset)

lemma sorted_greater_distinct: "sorted_wrt (>) ns \<Longrightarrow> distinct (ns :: nat list)"
  by (induction ns) auto

lemma fork_fits_branch:
  assumes wf: "wf_state s" and e: "getEntry s i = Some e"
  shows "fork_fits (rev (ancestry s i)) [(''main'', Some i)]"
proof -
  note anc = ancestry_ok(1-5)[OF wf e]
  have "distinct (map en_seq (ancestry s i))"
    using anc(5) by (rule sorted_greater_distinct)
  then have "distinct (ancestry s i)"
    by (simp add: distinct_map)
  moreover have "distinct (map en_id (ss_entries s))"
    using wf unfolding wf_state_def tree_ok_def by metis
  ultimately have "distinct (map en_id (ancestry s i))"
    using anc(4) distinct_ids_subset by metis
  then have ids: "distinct (map en_id (rev (ancestry s i)))"
    by (simp flip: rev_map)
  have "e \<in> set (ancestry s i)"
    using hd_in_set[OF anc(1)] anc(2) by simp
  moreover have "en_id e = i"
    using e by (simp add: getEntry_iff[OF wf])
  ultimately have "has_id (rev (ancestry s i)) i"
    by (auto simp: has_id_def)
  with ids closed_root_path[OF anc(3)] show ?thesis
    by (simp add: fork_fits_def)
qed

lemma parent_exists:
  assumes wf: "wf_state s" and e: "getEntry s j = Some e" "en_parentId e = Some p"
  shows "\<exists>e'. getEntry s p = Some e'"
proof -
  have "e \<in> set (ss_entries s)" "parents_earlier (ss_entries s)"
    using e(1) getEntry_iff[OF wf] wf by (auto simp: wf_state_def tree_ok_def)
  with e(2) getEntry_iff[OF wf] show ?thesis
    unfolding parents_earlier_def by blast
qed

lemma fork_target_exists:
  assumes wf: "wf_state s" and target: "fork_target s i pos = Inr (Some t)"
  shows "\<exists>e. getEntry s t = Some e"
proof -
  from target obtain j e where e: "getEntry s j = Some e"
    and t: "t = en_id e \<or> en_parentId e = Some t"
    by (auto simp: fork_target_def elim!: bind_result_InrE
        split: option.splits if_splits fork_position.splits)
  have "getEntry s (en_id e) = Some e"
    using e getEntry_iff[OF wf] by simp
  with t parent_exists[OF wf e] show ?thesis by auto
qed

lemma fork_source_branch:
  assumes wf: "wf_state s" and src: "fork_source s (Fork_Branch i pos) = Inr (copied, lanes)"
  shows "fork_fits copied lanes \<and>
     (\<exists>target. lanes = [(''main'', target)] \<and>
       copied = (case target of None \<Rightarrow> [] | Some t \<Rightarrow> rev (ancestry s t)))"
proof -
  have fits: "fork_fits (case target of None \<Rightarrow> [] | Some t \<Rightarrow> rev (ancestry s t)) [(''main'', target)]
      \<and> bind_result (case target of None \<Rightarrow> Inr []
              | Some t \<Rightarrow> findEntriesOnBranch s oldest_first no_bounds t) f
        = f (case target of None \<Rightarrow> [] | Some t \<Rightarrow> rev (ancestry s t))"
    if "\<forall>t. target = Some t \<longrightarrow> (\<exists>e. getEntry s t = Some e)" for target
      and f :: "entry list \<Rightarrow> (session_error, entry list \<times> lane_pointer list) result"
    using that fork_fits_branch[OF wf] branch_oldest[OF wf]
    by (cases target) (auto simp: fork_fits_def)
  from src obtain target where "fork_target s i pos = Inr target"
    and target: "bind_result (case target of None \<Rightarrow> Inr []
        | Some t \<Rightarrow> findEntriesOnBranch s oldest_first no_bounds t)
       (\<lambda>es. Inr (es, [(''main'', target)])) = Inr (copied, lanes)"
    by (auto simp: fork_source_def elim!: bind_result_InrE)
  then have ex: "\<forall>t. target = Some t \<longrightarrow> (\<exists>e. getEntry s t = Some e)"
    using fork_target_exists[OF wf] by blast
  from target fits[OF ex, of "\<lambda>es. Inr (es, [(''main'', target)])"] show ?thesis
    by auto
qed

end
