(* ===== verification/Session_Storage.thy ===== *)
theory Session_Storage
  imports Session_Branch
begin

text \<open>
  The in-memory storage and repository of \<open>packages/agent/src/harness/session/memory.ts\<close>. Every
  storage operation validates its arguments, builds the mutation with the next sequence number
  and applies it. The clock (\<open>Date.now()\<close>) and the id generator (\<open>uuidv7()\<close>) are arguments.
  A repository maps session ids to storage objects that open \<open>Session\<close> handles share, so the
  storages live in a heap and the map holds addresses.
\<close>

section \<open>Storage operations\<close>

record mem_storage =
  ms_metadata :: session_metadata
  ms_state :: session_state

definition new_storage :: "session_metadata \<Rightarrow> mem_storage" where
  "new_storage md = \<lparr>ms_metadata = md, ms_state = initial_state\<rparr>"

definition createLane ::
  "string \<Rightarrow> string option \<Rightarrow> session_state \<Rightarrow> (session_error, session_state) result" where
  "createLane lane leaf s =
     bind_result (validateNewLane s lane) (\<lambda>_.
     bind_result (validateTarget s leaf) (\<lambda>_.
     applyMutation (Mut_lane (nextSequence s) lane leaf) s))"

definition moveLane ::
  "string \<Rightarrow> string option \<Rightarrow> session_state \<Rightarrow> (session_error, session_state) result" where
  "moveLane lane target s =
     bind_result (requireLane s lane) (\<lambda>_.
     bind_result (validateTarget s target) (\<lambda>_.
     applyMutation (Mut_lane (nextSequence s) lane target) s))"

definition appendEntry ::
  "provisioned_entry \<Rightarrow> string \<Rightarrow> int \<Rightarrow> session_state
    \<Rightarrow> (session_error, entry \<times> session_state) result" where
  "appendEntry newEntry lane now s =
     bind_result (requireLane s lane) (\<lambda>parentId.
     bind_result (validateUnusedId s (en_id newEntry)) (\<lambda>_.
     (let e = provisioned_entry.extend newEntry (entry.fields (nextSequence s) parentId now)
      in bind_result (applyMutation (Mut_entry (Some lane) e) s) (\<lambda>s'. Inr (e, s')))))"

definition appendRecord ::
  "new_record \<Rightarrow> int \<Rightarrow> session_state \<Rightarrow> (session_error, lane_record \<times> session_state) result" where
  "appendRecord newRecord now s =
     bind_result (requireLane s (rc_lane newRecord)) (\<lambda>_.
     bind_result (validateUnusedId s (rc_id newRecord)) (\<lambda>_.
     bind_result (findOpenOperations s (rc_lane newRecord) (Some 1)) (\<lambda>open_ops.
     if record_type_of newRecord = RT_operation_started \<and> open_ops \<noteq> []
       then Inl (SessionError SE_storage (''Lane '' @ rc_lane newRecord @
              '' already has an open operation '' @ rc_id (hd open_ops)))
     else (let r = new_record.extend newRecord (lane_record.fields (nextSequence s) now)
           in bind_result (applyMutation (Mut_record r) s) (\<lambda>s'. Inr (r, s'))))))"

definition setName :: "string option \<Rightarrow> session_state \<Rightarrow> (session_error, session_state) result" where
  "setName nm s = applyMutation (Mut_name (nextSequence s) nm) s"

definition setLabel ::
  "string \<Rightarrow> string option \<Rightarrow> session_state \<Rightarrow> (session_error, session_state) result" where
  "setLabel i label s =
     bind_result (validateTarget s (Some i)) (\<lambda>_.
     applyMutation (Mut_label (nextSequence s) i label) s)"

definition fork_storage ::
  "session_metadata \<Rightarrow> fork_options \<Rightarrow> mem_storage \<Rightarrow> (session_error, mem_storage) result" where
  "fork_storage md opts source =
     bind_result (createForkMutations (ms_state source) opts) (\<lambda>muts.
     bind_result (fold_result applyMutation muts (ms_state (new_storage md))) (\<lambda>s.
     Inr (new_storage md\<lparr>ms_state := s\<rparr>)))"

lemmas storage_op_defs =
  createLane_def moveLane_def appendEntry_def appendRecord_def setName_def setLabel_def

section \<open>When an operation succeeds\<close>

lemma requireLane_Inr: "requireLane s lane = Inr leaf \<longleftrightarrow> map_get (ss_lanes s) lane = Some leaf"
  by (auto simp: requireLane_def split: option.splits)

lemma validateUnusedId_Inr: "validateUnusedId s i = Inr u \<longleftrightarrow> i \<notin> ss_usedIds s"
  by (simp add: validateUnusedId_def guard_result_def)

lemma validateNewLane_Inr: "validateNewLane s lane = Inr u \<longleftrightarrow> \<not> map_has (ss_lanes s) lane"
  by (simp add: validateNewLane_def guard_result_def)

lemma validateTarget_Inr:
  "validateTarget s t = Inr u \<longleftrightarrow> (\<forall>i. t = Some i \<longrightarrow> map_has (ss_entriesById s) i)"
  by (cases t) (simp_all add: validateTarget_def guard_result_def)

lemmas validate_Inr =
  requireLane_Inr validateUnusedId_Inr validateNewLane_Inr validateTarget_Inr

lemma createLane_Inr:
  "createLane lane leaf s = Inr t \<longleftrightarrow>
     \<not> map_has (ss_lanes s) lane \<and> (\<forall>i. leaf = Some i \<longrightarrow> map_has (ss_entriesById s) i) \<and>
     t = s\<lparr>ss_sequence := Suc (ss_sequence s), ss_lanes := map_set lane leaf (ss_lanes s),
           ss_log := ss_log s @ [LI_lane (Suc (ss_sequence s)) lane leaf]\<rparr>"
  by (auto simp: createLane_def bind_result_Inr_iff validate_Inr applyMutation_lane nextSequence_def)

lemma moveLane_Inr:
  "moveLane lane leaf s = Inr t \<longleftrightarrow>
     map_has (ss_lanes s) lane \<and> (\<forall>i. leaf = Some i \<longrightarrow> map_has (ss_entriesById s) i) \<and>
     t = s\<lparr>ss_sequence := Suc (ss_sequence s), ss_lanes := map_set lane leaf (ss_lanes s),
           ss_log := ss_log s @ [LI_lane (Suc (ss_sequence s)) lane leaf]\<rparr>"
  by (auto simp: moveLane_def bind_result_Inr_iff validate_Inr applyMutation_lane nextSequence_def)

lemma setName_Inr:
  "setName nm s = Inr t \<longleftrightarrow>
     t = s\<lparr>ss_sequence := Suc (ss_sequence s), ss_name := nm,
           ss_log := ss_log s @ [LI_name (Suc (ss_sequence s)) nm]\<rparr>"
  by (auto simp: setName_def applyMutation_name nextSequence_def)

lemma setLabel_Inr:
  "setLabel i label s = Inr t \<longleftrightarrow>
     map_has (ss_entriesById s) i \<and>
     t = s\<lparr>ss_sequence := Suc (ss_sequence s),
           ss_labels := (case label of None \<Rightarrow> map_delete i (ss_labels s)
             | Some l \<Rightarrow> map_set i l (ss_labels s)),
           ss_log := ss_log s @ [LI_label (Suc (ss_sequence s)) i label]\<rparr>"
  by (auto simp: setLabel_def bind_result_Inr_iff validate_Inr applyMutation_label nextSequence_def)

lemma appendEntry_Inr:
  "appendEntry pe lane now s = Inr (e, t) \<longleftrightarrow>
     (\<exists>leaf. map_get (ss_lanes s) lane = Some leaf \<and> en_id pe \<notin> ss_usedIds s \<and>
       e = provisioned_entry.extend pe (entry.fields (Suc (ss_sequence s)) leaf now) \<and>
       applyMutation (Mut_entry (Some lane) e) s = Inr t)"
  by (auto simp: appendEntry_def bind_result_Inr_iff validate_Inr nextSequence_def Let_def)

lemma extend_entry_simps [simp]:
  "en_id (provisioned_entry.extend pe (entry.fields n p ts)) = en_id pe"
  "en_body (provisioned_entry.extend pe (entry.fields n p ts)) = en_body pe"
  "en_seq (provisioned_entry.extend pe (entry.fields n p ts)) = n"
  "en_parentId (provisioned_entry.extend pe (entry.fields n p ts)) = p"
  "en_timestamp (provisioned_entry.extend pe (entry.fields n p ts)) = ts"
  by (simp_all add: provisioned_entry.extend_def entry.fields_def)

lemma extend_record_simps [simp]:
  "rc_id (new_record.extend nr (lane_record.fields n ts)) = rc_id nr"
  "rc_lane (new_record.extend nr (lane_record.fields n ts)) = rc_lane nr"
  "rc_body (new_record.extend nr (lane_record.fields n ts)) = rc_body nr"
  "rc_seq (new_record.extend nr (lane_record.fields n ts)) = n"
  by (simp_all add: new_record.extend_def lane_record.fields_def)

text \<open>In a well-formed state the checks before the mutation are all that can fail.\<close>

lemma appendEntry_succeeds:
  assumes wf: "wf_state s" and lane: "map_get (ss_lanes s) lane = Some leaf"
    and fresh: "en_id pe \<notin> ss_usedIds s"
  shows "\<exists>t. appendEntry pe lane now s =
     Inr (provisioned_entry.extend pe (entry.fields (Suc (ss_sequence s)) leaf now), t)"
proof -
  have "\<forall>p. leaf = Some p \<longrightarrow> map_has (ss_entriesById s) p"
    using lane wf_stateD(4)[OF wf] has_entry_iff[OF wf] unfolding lanes_ok_def by metis
  with lane fresh show ?thesis
    by (auto simp: appendEntry_Inr applyMutation_entry apply_entry_Inr)
qed

lemma open_operations:
  assumes wf: "wf_state s"
  shows "findOpenOperations s lane None = Inr (rev (open_records (ss_records s) lane))"
    "findOpenOperations s lane (Some 1) = Inr (take 1 (rev (open_records (ss_records s) lane)))"
proof -
  have "lane_opens s lane = map (\<lambda>r. (rc_id r, r)) (open_records (ss_records s) lane)"
    using wf_stateD(5)[OF wf] unfolding opens_ok_def by metis
  then have "rev (map snd (lane_opens s lane)) = rev (open_records (ss_records s) lane)"
    by (simp add: comp_def)
  then show "findOpenOperations s lane None = Inr (rev (open_records (ss_records s) lane))"
    "findOpenOperations s lane (Some 1) = Inr (take 1 (rev (open_records (ss_records s) lane)))"
    by (auto simp: findOpenOperations_def assertValidLimit_def is_integer_def limit_nat_def take_opt_def
        lane_opens_def Let_def split: option.splits)
qed

lemma appendRecord_Inr:
  assumes wf: "wf_state s"
  shows "appendRecord nr now s = Inr (r, t) \<longleftrightarrow>
     map_has (ss_lanes s) (rc_lane nr) \<and> rc_id nr \<notin> ss_usedIds s \<and>
     (record_type_of nr = RT_operation_started \<longrightarrow> open_records (ss_records s) (rc_lane nr) = []) \<and>
     r = new_record.extend nr (lane_record.fields (Suc (ss_sequence s)) now) \<and>
     applyMutation (Mut_record r) s = Inr t"
  by (auto simp: appendRecord_def bind_result_Inr_iff validate_Inr open_operations[OF wf]
      nextSequence_def Let_def)

lemma appendRecord_succeeds:
  assumes wf: "wf_state s" and "map_has (ss_lanes s) (rc_lane nr)" and "rc_id nr \<notin> ss_usedIds s"
    and "record_type_of nr = RT_operation_started \<longrightarrow> open_records (ss_records s) (rc_lane nr) = []"
  shows "\<exists>r t. appendRecord nr now s = Inr (r, t)"
  using assms by (auto simp: appendRecord_Inr applyMutation_record apply_record_Inr)

section \<open>The storage invariant\<close>

text \<open>Beyond the state invariant, the storage operations keep one open operation per lane.\<close>

definition single_open :: "session_state \<Rightarrow> bool" where
  "single_open s \<longleftrightarrow> (\<forall>lane. length (open_records (ss_records s) lane) \<le> 1)"

lemma open_records_record:
  assumes wf: "wf_state s" and m: "applyMutation (Mut_record r) s = Inr t"
  shows "ss_records t = ss_records s @ [r]"
    and "open_records (ss_records t) lane =
      filter (\<lambda>x. \<not> (rc_lane r = lane \<and> finishes_operation r (rc_id x)))
        (open_records (ss_records s) lane)
      @ (if starts_operation r \<and> rc_lane r = lane then [r] else [])"
proof -
  show recs: "ss_records t = ss_records s @ [r]"
    using m by (auto simp: applyMutation_record apply_record_Inr)
  have "\<forall>x \<in> set (ss_records s). rc_seq x < rc_seq r"
    using m wf_stateD(2)[OF wf] by (auto simp: applyMutation_record records_ok_def)
  from open_records_snoc[OF this] show "open_records (ss_records t) lane =
      filter (\<lambda>x. \<not> (rc_lane r = lane \<and> finishes_operation r (rc_id x)))
        (open_records (ss_records s) lane)
      @ (if starts_operation r \<and> rc_lane r = lane then [r] else [])"
    by (simp add: recs)
qed

lemma single_open_appendRecord:
  assumes wf: "wf_state s" and one: "single_open s" and ap: "appendRecord nr now s = Inr (r, t)"
  shows "single_open t"
  unfolding single_open_def
proof
  fix lane
  from ap have m: "applyMutation (Mut_record r) s = Inr t"
    and r: "rc_lane r = rc_lane nr" "rc_body r = rc_body nr"
    and free: "record_type_of nr = RT_operation_started \<Longrightarrow>
      open_records (ss_records s) (rc_lane nr) = []"
    by (auto simp: appendRecord_Inr[OF wf])
  have "length (open_records (ss_records s) lane) \<le> 1"
    using one by (simp add: single_open_def)
  then show "length (open_records (ss_records t) lane) \<le> 1"
    unfolding open_records_record(2)[OF wf m]
    using r free by (cases "starts_operation r \<and> rc_lane r = lane")
      (auto intro: le_trans[OF length_filter_le])
qed

lemma appendEntry_Inr_records: "appendEntry pe lane now s = Inr (e, t) \<Longrightarrow> ss_records t = ss_records s"
  by (auto simp: appendEntry_Inr applyMutation_entry apply_entry_Inr)

lemma wf_storage_op:
  assumes wf: "wf_state s"
  shows "createLane lane leaf s = Inr t \<Longrightarrow> wf_state t"
    "moveLane lane leaf s = Inr t \<Longrightarrow> wf_state t"
    "appendEntry pe lane now s = Inr (e, t) \<Longrightarrow> wf_state t"
    "appendRecord nr now s = Inr (r, t) \<Longrightarrow> wf_state t"
    "setName nm s = Inr t \<Longrightarrow> wf_state t"
    "setLabel i label s = Inr t \<Longrightarrow> wf_state t"
  using wf_state_mutation[OF wf]
  by (auto simp: storage_op_defs Let_def bind_result_Inr_iff split: if_splits)

lemma fork_replay_any:
  assumes wf: "wf_state s" and muts: "createForkMutations s opts = Inr muts"
  shows "\<exists>copied lanes t. fork_source s opts = Inr (copied, lanes) \<and>
     fold_result applyMutation muts initial_state = Inr t \<and> wf_state t \<and>
     map unnumbered (ss_entries t) = map unnumbered copied \<and> ss_records t = [] \<and>
     ss_lanes t = lanes \<and> ss_name t = ss_name s \<and>
     (\<forall>i. getLabel t i = (if has_id copied i then getLabel s i else None))"
proof -
  from muts obtain copied lanes where src: "fork_source s opts = Inr (copied, lanes)"
    by (auto simp: createForkMutations_def elim!: bind_result_InrE)
  have "fork_fits copied lanes"
  proof (cases opts)
    case Fork_Tree
    then show ?thesis using src fork_fits_tree[OF wf] by (simp add: fork_source_tree)
  next
    case (Fork_Branch i pos)
    then show ?thesis using src fork_source_branch[OF wf] by metis
  qed
  from fork_replay[OF this src muts] src show ?thesis by blast
qed

text \<open>The states a storage reaches through its operations, a forked storage included.\<close>

inductive reachable :: "session_state \<Rightarrow> bool" where
  initial: "reachable initial_state"
| create_lane: "reachable s \<Longrightarrow> createLane lane leaf s = Inr t \<Longrightarrow> reachable t"
| move_lane: "reachable s \<Longrightarrow> moveLane lane leaf s = Inr t \<Longrightarrow> reachable t"
| append_entry: "reachable s \<Longrightarrow> appendEntry pe lane now s = Inr (e, t) \<Longrightarrow> reachable t"
| append_record: "reachable s \<Longrightarrow> appendRecord nr now s = Inr (r, t) \<Longrightarrow> reachable t"
| set_name: "reachable s \<Longrightarrow> setName nm s = Inr t \<Longrightarrow> reachable t"
| set_label: "reachable s \<Longrightarrow> setLabel i label s = Inr t \<Longrightarrow> reachable t"
| fork: "reachable s \<Longrightarrow> createForkMutations s opts = Inr muts \<Longrightarrow>
    fold_result applyMutation muts initial_state = Inr t \<Longrightarrow> reachable t"

lemma reachable_wf: "reachable s \<Longrightarrow> wf_state s"
  by (induction rule: reachable.induct)
    (auto intro: wf_initial wf_storage_op wf_state_mutations)

lemma reachable_single_open: "reachable s \<Longrightarrow> single_open s"
proof (induction rule: reachable.induct)
  case initial
  then show ?case by (simp add: single_open_def initial_state_def open_records_def)
next
  case (append_record s nr now r t)
  then show ?case using single_open_appendRecord[OF reachable_wf] by blast
next
  case (append_entry s pe lane now e t)
  then show ?case by (simp add: single_open_def appendEntry_Inr_records)
next
  case (fork s opts muts t)
  from fork_replay_any[OF reachable_wf[OF fork.hyps(1)] fork.hyps(2)] fork.hyps(3)
  have "ss_records t = []" by auto
  then show ?case by (simp add: single_open_def open_records_def)
qed (auto simp: single_open_def createLane_Inr moveLane_Inr setName_Inr setLabel_Inr)

section \<open>What the operations do\<close>

lemma appendEntry_effect:
  assumes wf: "wf_state s" and ap: "appendEntry pe lane now s = Inr (e, t)"
  shows "provisioned_entry.truncate e = provisioned_entry.truncate pe"
    and "map_get (ss_lanes s) lane = Some (en_parentId e)"
    and "en_seq e = Suc (ss_sequence s)"
    and "ss_entries t = ss_entries s @ [e]"
    and "ss_lanes t = map_set lane (Some (en_id e)) (ss_lanes s)"
    and "ancestry t (en_id e) = e # (case en_parentId e of None \<Rightarrow> [] | Some p \<Rightarrow> ancestry s p)"
    and "getEntry s i = Some x \<Longrightarrow> getEntry t i = Some x \<and> ancestry t i = ancestry s i"
proof -
  from ap have leaf: "map_get (ss_lanes s) lane = Some (en_parentId e)"
    and e: "provisioned_entry.truncate e = provisioned_entry.truncate pe"
      "en_seq e = Suc (ss_sequence s)"
    and m: "applyMutation (Mut_entry (Some lane) e) s = Inr t"
    by (auto simp: appendEntry_Inr provisioned_entry.truncate_def)
  show "provisioned_entry.truncate e = provisioned_entry.truncate pe"
    "map_get (ss_lanes s) lane = Some (en_parentId e)" "en_seq e = Suc (ss_sequence s)"
    by (fact e leaf)+
  from m show es: "ss_entries t = ss_entries s @ [e]"
    and "ss_lanes t = map_set lane (Some (en_id e)) (ss_lanes s)"
    by (auto simp: applyMutation_entry apply_entry_Inr)
  have wf': "wf_state t" using wf_state_mutation[OF wf m] .
  show "ancestry t (en_id e) = e # (case en_parentId e of None \<Rightarrow> [] | Some p \<Rightarrow> ancestry s p)"
    by (rule ancestry_append(2)[OF wf wf' es])
  show "getEntry t i = Some x \<and> ancestry t i = ancestry s i" if "getEntry s i = Some x"
    using ancestry_append(1)[OF wf wf' es that] that es
    by (simp add: getEntry_iff[OF wf] getEntry_iff[OF wf'])
qed

section \<open>The repository\<close>

record repo_state =
  rs_sessions :: "(string, nat) js_map"
  rs_heap :: "mem_storage list"

definition empty_repo :: repo_state where
  "empty_repo = \<lparr>rs_sessions = [], rs_heap = []\<rparr>"

definition session_exists :: "string \<Rightarrow> session_error" where
  "session_exists i = SessionError SE_already_exists (''Session already exists: '' @ i)"

definition requireStorage :: "repo_state \<Rightarrow> string \<Rightarrow> (session_error, nat) result" where
  "requireStorage r i =
     (case map_get (rs_sessions r) i of
        None \<Rightarrow> Inl (SessionError SE_not_found (''Session not found: '' @ i))
      | Some a \<Rightarrow> Inr a)"

definition allocate :: "string \<Rightarrow> mem_storage \<Rightarrow> repo_state \<Rightarrow> nat \<times> repo_state" where
  "allocate i st r =
     (length (rs_heap r),
      r\<lparr>rs_sessions := map_set i (length (rs_heap r)) (rs_sessions r), rs_heap := rs_heap r @ [st]\<rparr>)"

definition repo_create ::
  "string option \<Rightarrow> string option \<Rightarrow> string \<Rightarrow> int \<Rightarrow> repo_state
    \<Rightarrow> (session_error, nat \<times> repo_state) result" where
  "repo_create ident parent uuid now r =
     (let i = (case ident of Some i \<Rightarrow> i | None \<Rightarrow> uuid) in
      if map_has (rs_sessions r) i then Inl (session_exists i)
      else Inr (allocate i (new_storage \<lparr>sm_id = i, sm_createdAt = now, sm_parentSessionId = parent\<rparr>) r))"

definition repo_open :: "session_metadata \<Rightarrow> repo_state \<Rightarrow> (session_error, nat) result" where
  "repo_open md r = requireStorage r (sm_id md)"

definition repo_list :: "repo_state \<Rightarrow> session_metadata list" where
  "repo_list r = map (\<lambda>(i, a). ms_metadata (rs_heap r ! a)) (rs_sessions r)"

definition repo_delete :: "session_metadata \<Rightarrow> repo_state \<Rightarrow> repo_state" where
  "repo_delete md r = r\<lparr>rs_sessions := map_delete (sm_id md) (rs_sessions r)\<rparr>"

definition repo_fork ::
  "session_metadata \<Rightarrow> fork_options \<Rightarrow> string option \<Rightarrow> string option \<Rightarrow> string \<Rightarrow> int \<Rightarrow> repo_state
    \<Rightarrow> (session_error, nat \<times> repo_state) result" where
  "repo_fork source opts ident parent uuid now r =
     bind_result (requireStorage r (sm_id source)) (\<lambda>a.
     (let i = (case ident of Some i \<Rightarrow> i | None \<Rightarrow> uuid) in
      if map_has (rs_sessions r) i then Inl (session_exists i)
      else bind_result
        (fork_storage
          \<lparr>sm_id = i, sm_createdAt = now,
           sm_parentSessionId = Some (case parent of Some p \<Rightarrow> p | None \<Rightarrow> sm_id source)\<rparr>
          opts (rs_heap r ! a))
        (\<lambda>st. Inr (allocate i st r))))"

text \<open>
  Every id maps to a storage of the heap that carries that id, so two ids never share one.
\<close>

definition repo_ok :: "repo_state \<Rightarrow> bool" where
  "repo_ok r \<longleftrightarrow>
     distinct (map fst (rs_sessions r)) \<and>
     (\<forall>i a. map_get (rs_sessions r) i = Some a \<longrightarrow>
        a < length (rs_heap r) \<and> sm_id (ms_metadata (rs_heap r ! a)) = i) \<and>
     (\<forall>st \<in> set (rs_heap r). reachable (ms_state st))"

lemma repo_ok_empty: "repo_ok empty_repo"
  by (simp add: repo_ok_def empty_repo_def)

lemma repo_ok_allocate:
  assumes "repo_ok r" and "sm_id (ms_metadata st) = i" and "reachable (ms_state st)"
  shows "repo_ok (snd (allocate i st r))"
  using assms by (auto simp: repo_ok_def allocate_def nth_append less_SucI)

lemma fork_storage_reachable:
  assumes "fork_storage md opts source = Inr st" and "reachable (ms_state source)"
  shows "reachable (ms_state st) \<and> ms_metadata st = md"
  using assms by (auto simp: fork_storage_def new_storage_def elim!: bind_result_InrE intro: reachable.fork)

lemma repo_ok_storage:
  "repo_ok r \<Longrightarrow> requireStorage r i = Inr a \<Longrightarrow>
     a < length (rs_heap r) \<and> reachable (ms_state (rs_heap r ! a)) \<and>
     sm_id (ms_metadata (rs_heap r ! a)) = i"
  by (auto simp: requireStorage_def repo_ok_def split: option.splits)

lemma repo_ok_create: "repo_ok r \<Longrightarrow> repo_create ident parent uuid now r = Inr (a, r') \<Longrightarrow> repo_ok r'"
  by (auto simp: repo_create_def Let_def new_storage_def reachable.initial split: if_splits
      dest!: arg_cong[where f = snd] intro!: repo_ok_allocate)

lemma repo_ok_fork:
  assumes ok: "repo_ok r" and fk: "repo_fork source opts ident parent uuid now r = Inr (a, r')"
  shows "repo_ok r'"
proof -
  from fk obtain b i md st where b: "requireStorage r (sm_id source) = Inr b"
    and st: "fork_storage md opts (rs_heap r ! b) = Inr st" and i: "sm_id md = i"
    and r': "(a, r') = allocate i st r"
    by (auto simp: repo_fork_def Let_def elim!: bind_result_InrE split: if_splits)
  from fork_storage_reachable[OF st] repo_ok_storage[OF ok b] i
  have "sm_id (ms_metadata st) = i" "reachable (ms_state st)" by auto
  from repo_ok_allocate[OF ok this] r' show ?thesis by (metis snd_conv)
qed

lemma repo_ok_delete: "repo_ok r \<Longrightarrow> repo_ok (repo_delete md r)"
  by (auto simp: repo_ok_def repo_delete_def)

text \<open>The repository seen as what it is for its callers: the stored sessions by id, oldest first.\<close>

definition repo_view :: "repo_state \<Rightarrow> (string \<times> mem_storage) list" where
  "repo_view r = map (\<lambda>(i, a). (i, rs_heap r ! a)) (rs_sessions r)"

lemma repo_view_get: "map_of (repo_view r) i = map_option (\<lambda>a. rs_heap r ! a) (map_get (rs_sessions r) i)"
  by (simp add: repo_view_def map_of_map)

lemma repo_view_ids: "map fst (repo_view r) = map fst (rs_sessions r)"
  by (simp add: repo_view_def split_def)

lemma repo_view_allocate:
  assumes ok: "repo_ok r" and new: "map_get (rs_sessions r) i = None"
  shows "repo_view (snd (allocate i st r)) = repo_view r @ [(i, st)]"
proof -
  have "rs_heap r ! a = (rs_heap r @ [st]) ! a" if "(j, a) \<in> set (rs_sessions r)" for j a
    using ok that by (force simp: repo_ok_def nth_append)
  then show ?thesis
    using new by (auto simp: repo_view_def allocate_def map_set_new)
qed

text \<open>
  The new session: what a successful create or fork does to the repository.
\<close>

definition session_added ::
  "string \<Rightarrow> mem_storage \<Rightarrow> repo_state \<Rightarrow> nat \<Rightarrow> repo_state \<Rightarrow> bool" where
  "session_added i st r a r' \<longleftrightarrow>
     repo_ok r' \<and> repo_view r' = repo_view r @ [(i, st)] \<and> rs_heap r' = rs_heap r @ [st] \<and>
     (\<forall>md. repo_open md r' = (if sm_id md = i then Inr a else repo_open md r)) \<and>
     (\<forall>md. repo_open md r \<noteq> Inr a)"

lemma session_added_allocate:
  assumes ok: "repo_ok r" and new: "map_get (rs_sessions r) i = None"
    and st: "sm_id (ms_metadata st) = i" "reachable (ms_state st)" and al: "allocate i st r = (a, r')"
  shows "session_added i st r a r'"
proof -
  have "repo_ok r'" "repo_view r' = repo_view r @ [(i, st)]"
    using repo_ok_allocate[OF ok st] repo_view_allocate[OF ok new, of st] al by simp_all
  moreover have "repo_open md r \<noteq> Inr a" for md
    using repo_ok_storage[OF ok] al by (auto simp: allocate_def repo_open_def)
  ultimately show ?thesis
    using al by (auto simp: session_added_def allocate_def repo_open_def requireStorage_def)
qed

definition newest_first :: entry_query where
  "newest_first = \<lparr>eq_type = None, eq_customType = None, eq_order = None, eq_limit = None,
     eq_cursor = None\<rparr>"

lemma branch_newest:
  assumes "wf_state s" and "getEntry s i = Some e"
  shows "findEntriesOnBranch s newest_first no_bounds i = Inr (ancestry s i)"
  by (subst findEntriesOnBranch_spec[OF assms])
    (simp_all add: newest_first_def assertValidLimit_def assertValidCursor_def limit_nat_def
      take_opt_def matchesEntryQuery_def take_until_never)

definition branch_of :: "session_state \<Rightarrow> string option \<Rightarrow> (session_error, entry list) result" where
  "branch_of s leaf =
     (case leaf of None \<Rightarrow> Inr [] | Some i \<Rightarrow> findEntriesOnBranch s newest_first no_bounds i)"

lemma appendEntry_branch:
  assumes wf: "wf_state s" and ap: "appendEntry pe lane now s = Inr (e, t)"
  shows "branch_of t (Some (en_id e)) = bind_result (branch_of s (en_parentId e)) (\<lambda>old. Inr (e # old))"
proof -
  note eff = appendEntry_effect[OF wf ap]
  note wf' = wf_storage_op(3)[OF wf ap]
  have "getEntry t (en_id e) = Some e"
    using eff(4) by (simp add: getEntry_iff[OF wf'])
  note new = branch_newest[OF wf' this] eff(6)
  show ?thesis
  proof (cases "en_parentId e")
    case (Some p)
    then have "has_id (ss_entries s) p"
      using wf_stateD(4)[OF wf] eff(2) unfolding lanes_ok_def by metis
    then obtain x where "getEntry s p = Some x"
      using getEntry_iff[OF wf] unfolding has_id_def by (metis imageE)
    with Some new branch_newest[OF wf] show ?thesis by (simp add: branch_of_def)
  qed (simp add: new branch_of_def)
qed

text \<open>The open operations of a lane after a record, newest first.\<close>

definition opens_after :: "lane_record \<Rightarrow> lane_record list \<Rightarrow> lane_record list" where
  "opens_after r opens =
     (case rc_body r of
        RB_operation_started _ _ \<Rightarrow> r # opens
      | RB_operation_finished run _ _ \<Rightarrow> filter (\<lambda>x. run \<noteq> rc_id x) opens
      | _ \<Rightarrow> opens)"

lemma appendRecord_opens:
  assumes wf: "wf_state s" and ap: "appendRecord nr now s = Inr (r, t)"
  shows "findOpenOperations t lane None = bind_result (findOpenOperations s lane None)
     (\<lambda>opens. Inr (if lane = rc_lane nr then opens_after r opens else opens))"
proof -
  note wf' = wf_storage_op(4)[OF wf ap]
  from ap have m: "applyMutation (Mut_record r) s = Inr t" and lane: "rc_lane r = rc_lane nr"
    by (auto simp: appendRecord_Inr[OF wf])
  show ?thesis
    by (auto simp: open_operations(1)[OF wf] open_operations(1)[OF wf'] open_records_record(2)[OF wf m]
        lane opens_after_def finishes_operation_def simp flip: rev_filter split: record_body.splits)
qed

section \<open>A sample session\<close>

definition sample_entry :: "string \<Rightarrow> string \<Rightarrow> provisioned_entry" where
  "sample_entry i txt =
     \<lparr>en_id = i, en_body = E_message (Llm (UserMsg \<lparr>um_content = Body_String txt, um_timestamp = 0\<rparr>)) False\<rparr>"

fun append_all :: "(provisioned_entry \<times> string) list \<Rightarrow> session_state \<Rightarrow> session_state" where
  "append_all [] s = s"
| "append_all ((pe, lane) # ps) s =
     (case appendEntry pe lane 0 s of Inl _ \<Rightarrow> s | Inr (e, t) \<Rightarrow> append_all ps t)"

lemma reachable_append_all: "reachable s \<Longrightarrow> reachable (append_all ps s)"
proof (induction ps arbitrary: s)
  case (Cons p ps)
  obtain pe lane where p: "p = (pe, lane)" by (cases p)
  show ?case
    using Cons p by (auto split: sum.splits dest: reachable.append_entry)
qed simp

definition sample_session :: session_state where
  "sample_session = append_all
     [(sample_entry ''a'' ''hi'', ''main''), (sample_entry ''b'' ''again'', ''main'')] initial_state"

lemma sample_reachable: "reachable sample_session"
  unfolding sample_session_def by (intro reachable_append_all reachable.initial)

definition sample_md :: "string \<Rightarrow> session_metadata" where
  "sample_md i = \<lparr>sm_id = i, sm_createdAt = 0, sm_parentSessionId = None\<rparr>"

definition sample_repo :: repo_state where
  "sample_repo = snd (allocate ''u'' (new_storage (sample_md ''u''))
     (snd (allocate ''s'' \<lparr>ms_metadata = sample_md ''s'', ms_state = sample_session\<rparr> empty_repo)))"

lemma sample_repo_ok: "repo_ok sample_repo"
  unfolding sample_repo_def
  by (intro repo_ok_allocate repo_ok_empty)
    (simp_all add: sample_reachable new_storage_def sample_md_def reachable.initial)

section \<open>Properties\<close>

text \<open>
  C1: every state a session storage can reach by creating and moving lanes, appending entries and
  records, setting the name and labels, or forking is well formed: ids are unique across entries
  and records, sequence numbers grow, parents precede their children, every lane points at an
  existing entry, the log lists every item in order, the statistics are the totals of what was
  recorded, and no lane ever has two open operations.
\<close>

theorem reachable_session_ok:
  "reachable s \<Longrightarrow> wf_state s \<and> (\<forall>lane. length (open_records (ss_records s) lane) \<le> 1)"
  using reachable_wf reachable_single_open by (simp add: single_open_def)

theorem reachable_session_ok_witness:
  "wf_state sample_session \<and> (\<forall>lane. length (open_records (ss_records sample_session) lane) \<le> 1)"
  by (rule reachable_session_ok[OF sample_reachable])

text \<open>
  C2: appending an entry succeeds exactly when the lane exists and the id is new. The stored
  entry is the caller's, chained to the old leaf of the lane, with the next sequence number. The
  lane then points at it, the other lanes do not move, and the branch of the lane is the new
  entry in front of the old branch.
\<close>

theorem appendEntry_extends_branch:
  assumes "reachable s"
  shows "((\<exists>e t. appendEntry pe lane now s = Inr (e, t)) \<longleftrightarrow>
      map_has (ss_lanes s) lane \<and> en_id pe \<notin> ss_usedIds s) \<and>
    (\<forall>e t. appendEntry pe lane now s = Inr (e, t) \<longrightarrow>
      provisioned_entry.truncate e = provisioned_entry.truncate pe \<and>
      en_seq e = ss_sequence s + 1 \<and> map_get (ss_lanes s) lane = Some (en_parentId e) \<and>
      map_get (ss_lanes t) lane = Some (Some (en_id e)) \<and>
      (\<forall>l. l \<noteq> lane \<longrightarrow> map_get (ss_lanes t) l = map_get (ss_lanes s) l) \<and>
      branch_of t (Some (en_id e)) = bind_result (branch_of s (en_parentId e)) (\<lambda>old. Inr (e # old)))"
proof -
  note wf = reachable_wf[OF assms]
  show ?thesis
  proof (intro conjI allI impI)
    show "(\<exists>e t. appendEntry pe lane now s = Inr (e, t)) \<longleftrightarrow>
        map_has (ss_lanes s) lane \<and> en_id pe \<notin> ss_usedIds s"
      using appendEntry_succeeds[OF wf] by (auto simp: appendEntry_Inr)
  qed (auto simp: appendEntry_effect(1-3,5)[OF wf] appendEntry_branch[OF wf])
qed

theorem appendEntry_extends_branch_witness:
  "\<exists>e t. appendEntry (sample_entry ''c'' ''third'') ''main'' 7 sample_session = Inr (e, t) \<and>
     map_get (ss_lanes t) ''main'' = Some (Some (en_id e)) \<and>
     branch_of t (Some (en_id e)) = bind_result (branch_of sample_session (Some ''b'')) (\<lambda>old. Inr (e # old))"
proof -
  have leaf: "map_get (ss_lanes sample_session) ''main'' = Some (Some ''b'')"
    and fresh: "en_id (sample_entry ''c'' ''third'') \<notin> ss_usedIds sample_session"
    by code_simp+
  note here = appendEntry_extends_branch[OF sample_reachable,
      of "sample_entry ''c'' ''third''" "''main''" 7]
  from here leaf fresh obtain e t
    where ap: "appendEntry (sample_entry ''c'' ''third'') ''main'' 7 sample_session = Inr (e, t)"
    by blast
  with here leaf show ?thesis by auto
qed

text \<open>
  C3: appending a record succeeds exactly when its lane exists, its id is new and, for the start
  of an operation, the lane has no open operation; the record is stored at the end of the
  records. A start is then open, a finish closes the operation it names, and the open operations
  of the other lanes stay as they were.
\<close>

theorem appendRecord_one_open_operation:
  assumes "reachable s"
  shows "((\<exists>r t. appendRecord nr now s = Inr (r, t)) \<longleftrightarrow>
      map_has (ss_lanes s) (rc_lane nr) \<and> rc_id nr \<notin> ss_usedIds s \<and>
      (record_type_of nr = RT_operation_started \<longrightarrow> findOpenOperations s (rc_lane nr) None = Inr [])) \<and>
    (\<forall>r t lane. appendRecord nr now s = Inr (r, t) \<longrightarrow>
      ss_records t = ss_records s @ [r] \<and> new_record.truncate r = new_record.truncate nr \<and>
      findOpenOperations t lane None = bind_result (findOpenOperations s lane None)
        (\<lambda>opens. Inr (if lane = rc_lane nr then opens_after r opens else opens)))"
proof -
  note wf = reachable_wf[OF assms]
  have "(\<exists>r t. appendRecord nr now s = Inr (r, t)) \<longleftrightarrow>
      map_has (ss_lanes s) (rc_lane nr) \<and> rc_id nr \<notin> ss_usedIds s \<and>
      (record_type_of nr = RT_operation_started \<longrightarrow> findOpenOperations s (rc_lane nr) None = Inr [])"
    using appendRecord_succeeds[OF wf] by (auto simp: appendRecord_Inr[OF wf] open_operations(1)[OF wf])
  moreover have "ss_records t = ss_records s @ [r] \<and> new_record.truncate r = new_record.truncate nr"
    if "appendRecord nr now s = Inr (r, t)" for r t
    using that open_records_record(1)[OF wf]
    by (auto simp: appendRecord_Inr[OF wf] new_record.truncate_def)
  ultimately show ?thesis
    using appendRecord_opens[OF wf] by blast
qed

definition sample_start :: "string \<Rightarrow> new_record" where
  "sample_start i =
     \<lparr>rc_id = i, rc_lane = ''main'', rc_body = RB_operation_started None
       (Compaction \<lparr>ci_customInstructions = None, ci_resultEntryId = ''x''\<rparr>)\<rparr>"

theorem appendRecord_one_open_operation_witness:
  "\<exists>r t. appendRecord (sample_start ''op'') 7 sample_session = Inr (r, t) \<and>
     findOpenOperations t ''main'' None = Inr [r] \<and>
     \<not> (\<exists>r' t'. appendRecord (sample_start ''op2'') 8 t = Inr (r', t'))"
proof -
  have opens: "findOpenOperations sample_session ''main'' None = Inr []"
    and can: "map_has (ss_lanes sample_session) (rc_lane (sample_start ''op''))"
      "rc_id (sample_start ''op'') \<notin> ss_usedIds sample_session"
    by code_simp+
  note here = appendRecord_one_open_operation[OF sample_reachable, of "sample_start ''op''" 7]
  have "rc_lane (sample_start ''op'') = ''main''" by (simp add: sample_start_def)
  with here opens can obtain r t
    where ap: "appendRecord (sample_start ''op'') 7 sample_session = Inr (r, t)"
    by metis
  have "opens_after r [] = [r]"
    using ap by (auto simp: appendRecord_Inr[OF reachable_wf[OF sample_reachable]] opens_after_def sample_start_def)
  then have one: "findOpenOperations t ''main'' None = Inr [r]"
    using here ap opens by (auto simp: sample_start_def)
  have "reachable t" using ap reachable.append_record[OF sample_reachable] by blast
  from appendRecord_one_open_operation[OF this, of "sample_start ''op2''" 8] one ap show ?thesis
    by (auto simp: sample_start_def)
qed

text \<open>
  C4: a branch query with a valid limit and cursor, from an existing entry, never fails. There is
  one path from that entry through its parents to a root, and the answer is the matching entries
  of that path, from the entry towards the root or back, cut after the first entry that hits a
  bound and at the limit. From an unknown entry the query fails with \<open>not_found\<close>.
\<close>

theorem branch_query_is_filtered_path:
  assumes "reachable s" and "assertValidLimit (eq_limit q) = Inr ()"
    and "assertValidCursor (eq_cursor q) = Inr ()"
  shows "case getEntry s start of
      None \<Rightarrow> findEntriesOnBranch s q b start =
        Inl (SessionError SE_not_found (''Entry not found: '' @ start))
    | Some e \<Rightarrow> \<exists>path. root_path path \<and> hd path = e \<and> set path \<subseteq> set (ss_entries s) \<and>
        (\<forall>p. root_path p \<and> en_id (hd p) = start \<and> set p \<subseteq> set (ss_entries s) \<longrightarrow> p = path) \<and>
        findEntriesOnBranch s q b start =
          Inr (take_opt (limit_nat (eq_limit q))
            (filter (\<lambda>e. matchesEntryQuery e q) (take_until (stops_walk b)
              (if eq_order q = Some OldestFirst then rev path else path))))"
proof -
  note wf = reachable_wf[OF assms(1)]
  show ?thesis
  proof (cases "getEntry s start")
    case None
    then have "walk_from (ss_entriesById s) bs SE_not_found [] start =
        ([], Some (SessionError SE_not_found (''Entry not found: '' @ start)))" for bs
      by (subst walk_from.simps) (simp add: getEntry_def)
    with None show ?thesis
      by (simp add: findEntriesOnBranch_def assms(2,3) walkToRoot_def)
  next
    case (Some e)
    have unique: "\<forall>p. root_path p \<and> en_id (hd p) = start \<and> set p \<subseteq> set (ss_entries s) \<longrightarrow>
        p = ancestry s start"
      using ancestry_unique[OF wf, of _ start] by metis
    show ?thesis
      unfolding Some option.case
      by (rule exI[of _ "ancestry s start"])
        (intro conjI ancestry_ok(2-4)[OF wf Some] unique findEntriesOnBranch_spec[OF wf Some assms(2,3)])
  qed
qed

theorem branch_query_is_filtered_path_witness:
  "\<exists>path. root_path path \<and> en_id (hd path) = ''b'' \<and>
     findEntriesOnBranch sample_session (newest_first\<lparr>eq_limit := Some 2\<rparr>) no_bounds ''b''
       = Inr (take 2 (filter (\<lambda>e. matchesEntryQuery e (newest_first\<lparr>eq_limit := Some 2\<rparr>)) path))"
proof -
  have ok: "assertValidLimit (eq_limit (newest_first\<lparr>eq_limit := Some 2\<rparr>)) = Inr ()"
    "assertValidCursor (eq_cursor (newest_first\<lparr>eq_limit := Some 2\<rparr>)) = Inr ()"
    by (simp_all add: newest_first_def assertValidLimit_def assertValidCursor_def is_integer_def)
  have "map_option en_id (getEntry sample_session ''b'') = Some ''b''" by code_simp
  then obtain e where "getEntry sample_session ''b'' = Some e" "en_id e = ''b''" by auto
  with branch_query_is_filtered_path[OF sample_reachable ok, where start = "''b''" and b = no_bounds] show ?thesis
    by (auto simp: take_until_never newest_first_def limit_nat_def take_opt_def)
qed

text \<open>
  C5: forking the whole tree succeeds from every reachable state. Replaying the mutations on an
  empty session gives a well-formed session with the same entries in the same order (renumbered
  from 1), the same lanes, name and labels, and no records.
\<close>

theorem fork_tree_copies:
  assumes "reachable s"
  shows "\<exists>muts t. createForkMutations s Fork_Tree = Inr muts \<and>
     fold_result applyMutation muts initial_state = Inr t \<and> wf_state t \<and>
     map unnumbered (ss_entries t) = map unnumbered (ss_entries s) \<and> ss_records t = [] \<and>
     ss_lanes t = ss_lanes s \<and> getName t = getName s \<and> getLabel t = getLabel s"
proof -
  note wf = reachable_wf[OF assms]
  obtain muts where muts: "createForkMutations s Fork_Tree = Inr muts"
    by (auto simp: createForkMutations_def fork_source_tree Let_def)
  have "getLabel s i = None" if "\<not> has_id (ss_entries s) i" for i
    using that wf_stateD(8)[OF wf] unfolding labels_ok_def getLabel_def by blast
  then show ?thesis
    using fork_replay_any[OF wf muts] muts by (auto simp: fork_source_tree getName_def fun_eq_iff)
qed

theorem fork_tree_copies_witness:
  "\<exists>muts t. createForkMutations sample_session Fork_Tree = Inr muts \<and>
     fold_result applyMutation muts initial_state = Inr t \<and>
     map en_id (ss_entries t) = [''a'', ''b'']"
proof -
  have ids: "map en_id (ss_entries sample_session) = [''a'', ''b'']" by code_simp
  from fork_tree_copies[OF sample_reachable] obtain muts t
    where t: "createForkMutations sample_session Fork_Tree = Inr muts"
      "fold_result applyMutation muts initial_state = Inr t"
      "map unnumbered (ss_entries t) = map unnumbered (ss_entries sample_session)" by blast
  from arg_cong[OF t(3), of "map en_id"] have "map en_id (ss_entries t) = map en_id (ss_entries sample_session)"
    by (simp add: unnumbered_def comp_def)
  with t(1,2) ids show ?thesis by auto
qed

text \<open>
  C6: forking a branch copies exactly the path from the root to the fork target, which is the
  selected message itself or its parent, as the position says. The fork has the single lane
  \<open>main\<close> at that target, the name of the source, the labels of the copied entries only, and no
  records. Without an entry id, the leaf of \<open>main\<close> is selected.
\<close>

theorem fork_branch_copies:
  assumes "reachable s" and "createForkMutations s (Fork_Branch i pos) = Inr muts"
  shows "\<exists>target t. fork_target s i pos = Inr target \<and>
     fold_result applyMutation muts initial_state = Inr t \<and> wf_state t \<and>
     (case target of None \<Rightarrow> ss_entries t = []
      | Some x \<Rightarrow> \<exists>path. branch_of s (Some x) = Inr path \<and> root_path path \<and> en_id (hd path) = x \<and>
          map unnumbered (ss_entries t) = map unnumbered (rev path)) \<and>
     ss_records t = [] \<and> ss_lanes t = [(''main'', target)] \<and> getName t = getName s \<and>
     (\<forall>j. getLabel t j = (if has_id (ss_entries t) j then getLabel s j else None))"
proof -
  note wf = reachable_wf[OF assms(1)]
  from fork_replay_any[OF wf assms(2)] obtain copied lanes t where
    src: "fork_source s (Fork_Branch i pos) = Inr (copied, lanes)" and
    t: "fold_result applyMutation muts initial_state = Inr t" "wf_state t"
      "map unnumbered (ss_entries t) = map unnumbered copied" "ss_records t = []" "ss_lanes t = lanes"
      "ss_name t = ss_name s" "\<forall>i. getLabel t i = (if has_id copied i then getLabel s i else None)"
    by blast
  from fork_source_branch[OF wf src] obtain target where
    target: "lanes = [(''main'', target)]" "copied = (case target of None \<Rightarrow> [] | Some t \<Rightarrow> rev (ancestry s t))"
    by blast
  from src target(1) have ft: "fork_target s i pos = Inr target"
    by (auto simp: fork_source_def elim!: bind_result_InrE)
  have "map en_id (ss_entries t) = map en_id copied"
    using arg_cong[OF t(3), of "map en_id"] by (simp add: unnumbered_def comp_def)
  then have ids: "has_id (ss_entries t) j = has_id copied j" for j
    unfolding has_id_def by (metis list.set_map)
  show ?thesis
  proof (cases target)
    case None
    with t ft target ids show ?thesis by (auto simp: getName_def)
  next
    case (Some x)
    then obtain e where e: "getEntry s x = Some e"
      using fork_target_exists[OF wf] ft by blast
    then have "branch_of s (Some x) = Inr (ancestry s x)" "en_id (hd (ancestry s x)) = x"
      by (simp_all add: branch_of_def branch_newest[OF wf] ancestry_ok(2)[OF wf e] getEntry_iff[OF wf])
    with t ft target ids Some ancestry_ok(3)[OF wf e] show ?thesis by (auto simp: getName_def)
  qed
qed

theorem fork_branch_copies_witness:
  "\<exists>muts t. createForkMutations sample_session (Fork_Branch (Some ''b'') None) = Inr muts \<and>
     fold_result applyMutation muts initial_state = Inr t \<and> ss_lanes t = [(''main'', Some ''a'')]"
proof -
  have "\<not> Option.is_none (case createForkMutations sample_session (Fork_Branch (Some ''b'') None) of
      Inl _ \<Rightarrow> None | Inr m \<Rightarrow> Some m)" by code_simp
  then obtain muts where m: "createForkMutations sample_session (Fork_Branch (Some ''b'') None) = Inr muts"
    by (auto split: sum.splits)
  have "fork_target sample_session (Some ''b'') None = Inr (Some ''a'')" by code_simp
  with fork_branch_copies[OF sample_reachable m] m show ?thesis by auto
qed

text \<open>
  C7: the repository is a map from ids to sessions, kept in the order of their creation. Listing
  gives the metadata of every session, each under its own id. Opening gives the handle of exactly
  that session, or \<open>not_found\<close>. Creating fails with \<open>already_exists\<close> for a used id and otherwise
  adds an empty session with the given metadata. Forking fails with \<open>not_found\<close> for an unknown
  source, \<open>already_exists\<close> for a used id and the error of the fork options, and otherwise adds the
  replay of the fork of the source, whose parent is the given one or the source. A session that is
  added comes last, gets a handle no session has, and leaves every other handle, storage and
  listing as it was. Deleting removes exactly that id and no storage, so handles that were given
  out stay usable. Storages are values here: that every object is cloned on the way in and out
  (\<open>structuredClone\<close>) is what makes this faithful, and sharing between objects is not modelled.
\<close>

theorem repository_is_session_map:
  assumes ok: "repo_ok r"
  shows "distinct (map fst (repo_view r)) \<and>
    repo_list r = map (ms_metadata \<circ> snd) (repo_view r) \<and> map sm_id (repo_list r) = map fst (repo_view r) \<and>
    (case map_of (repo_view r) (sm_id md) of
       None \<Rightarrow> repo_open md r = Inl (SessionError SE_not_found (''Session not found: '' @ sm_id md))
     | Some st \<Rightarrow> \<exists>a < length (rs_heap r). repo_open md r = Inr a \<and> rs_heap r ! a = st) \<and>
    repo_ok (repo_delete md r) \<and> rs_heap (repo_delete md r) = rs_heap r \<and>
    repo_view (repo_delete md r) = filter (\<lambda>(i, _). i \<noteq> sm_id md) (repo_view r) \<and>
    (let i = (case ident of Some i \<Rightarrow> i | None \<Rightarrow> uuid);
         exists = i \<in> set (map fst (repo_view r));
         exists_error = Inl (SessionError SE_already_exists (''Session already exists: '' @ i))
     in (if exists then repo_create ident parent uuid now r = exists_error
         else \<exists>a r'. repo_create ident parent uuid now r = Inr (a, r') \<and>
           session_added i
             \<lparr>ms_metadata = \<lparr>sm_id = i, sm_createdAt = now, sm_parentSessionId = parent\<rparr>,
              ms_state = initial_state\<rparr> r a r') \<and>
        (case map_of (repo_view r) (sm_id md) of
           None \<Rightarrow> repo_fork md opts ident parent uuid now r =
             Inl (SessionError SE_not_found (''Session not found: '' @ sm_id md))
         | Some source \<Rightarrow>
             if exists then repo_fork md opts ident parent uuid now r = exists_error
             else (case createForkMutations (ms_state source) opts of
                 Inl e \<Rightarrow> repo_fork md opts ident parent uuid now r = Inl e
               | Inr muts \<Rightarrow> \<exists>a t r'. repo_fork md opts ident parent uuid now r = Inr (a, r') \<and>
                   fold_result applyMutation muts initial_state = Inr t \<and>
                   session_added i
                     \<lparr>ms_metadata = \<lparr>sm_id = i, sm_createdAt = now,
                        sm_parentSessionId = Some (case parent of Some p \<Rightarrow> p | None \<Rightarrow> sm_id md)\<rparr>,
                      ms_state = t\<rparr> r a r')))"
proof -
  have ids: "(i \<in> fst ` set (repo_view r)) = (\<exists>a. map_get (rs_sessions r) i = Some a)" for i
    using arg_cong[OF repo_view_ids[of r], of set] map_of_eq_None_iff[of "rs_sessions r" i] by auto
  have list: "repo_list r = map (ms_metadata \<circ> snd) (repo_view r)"
    by (simp add: repo_list_def repo_view_def split_def comp_def)
  have named: "map sm_id (repo_list r) = map fst (repo_view r)"
    using ok by (force simp: repo_list_def repo_view_def repo_ok_def split_def)
  have opens: "case map_of (repo_view r) (sm_id md) of
       None \<Rightarrow> repo_open md r = Inl (SessionError SE_not_found (''Session not found: '' @ sm_id md))
     | Some st \<Rightarrow> \<exists>a < length (rs_heap r). repo_open md r = Inr a \<and> rs_heap r ! a = st"
    using ok by (auto simp: repo_view_get repo_open_def requireStorage_def repo_ok_def split: option.splits)
  have deleted: "repo_view (repo_delete md r) = filter (\<lambda>(i, _). i \<noteq> sm_id md) (repo_view r)"
    by (simp add: repo_view_def repo_delete_def AList.delete_eq filter_map comp_def split_def eq_commute[of "sm_id md"])
  have created: "if i \<in> set (map fst (repo_view r))
      then repo_create ident parent uuid now r = Inl (session_exists i)
      else \<exists>a r'. repo_create ident parent uuid now r = Inr (a, r') \<and>
        session_added i
          \<lparr>ms_metadata = \<lparr>sm_id = i, sm_createdAt = now, sm_parentSessionId = parent\<rparr>,
           ms_state = initial_state\<rparr> r a r'"
    if i: "i = (case ident of Some i \<Rightarrow> i | None \<Rightarrow> uuid)" for i
  proof (cases "map_get (rs_sessions r) i")
    case None
    obtain a r' where al: "allocate i (new_storage \<lparr>sm_id = i, sm_createdAt = now,
        sm_parentSessionId = parent\<rparr>) r = (a, r')" by fastforce
    from session_added_allocate[OF ok None _ _ al] None al show ?thesis
      by (auto simp: ids repo_create_def Let_def i[symmetric] new_storage_def reachable.initial)
  qed (auto simp: ids repo_create_def Let_def i[symmetric])
  have forked: "case map_of (repo_view r) (sm_id md) of
       None \<Rightarrow> repo_fork md opts ident parent uuid now r =
         Inl (SessionError SE_not_found (''Session not found: '' @ sm_id md))
     | Some source \<Rightarrow>
         if i \<in> set (map fst (repo_view r))
         then repo_fork md opts ident parent uuid now r = Inl (session_exists i)
         else (case createForkMutations (ms_state source) opts of
             Inl e \<Rightarrow> repo_fork md opts ident parent uuid now r = Inl e
           | Inr muts \<Rightarrow> \<exists>a t r'. repo_fork md opts ident parent uuid now r = Inr (a, r') \<and>
               fold_result applyMutation muts initial_state = Inr t \<and>
               session_added i
                 \<lparr>ms_metadata = \<lparr>sm_id = i, sm_createdAt = now,
                    sm_parentSessionId = Some (case parent of Some p \<Rightarrow> p | None \<Rightarrow> sm_id md)\<rparr>,
                  ms_state = t\<rparr> r a r')"
    if i: "i = (case ident of Some i \<Rightarrow> i | None \<Rightarrow> uuid)" for i
  proof (cases "map_get (rs_sessions r) (sm_id md)")
    case None
    then show ?thesis by (simp add: repo_view_get repo_fork_def requireStorage_def)
  next
    case (Some b)
    let ?source = "rs_heap r ! b"
    have source: "requireStorage r (sm_id md) = Inr b" using Some by (simp add: requireStorage_def)
    show ?thesis
    proof (cases "map_get (rs_sessions r) i")
      case None
      show ?thesis
      proof (cases "createForkMutations (ms_state ?source) opts")
        case (Inr muts)
        have reach: "reachable (ms_state ?source)" using repo_ok_storage[OF ok source] by simp
        from fork_replay_any[OF reachable_wf[OF reach] Inr]
        obtain t where t: "fold_result applyMutation muts initial_state = Inr t" by blast
        let ?st = "\<lparr>ms_metadata = \<lparr>sm_id = i, sm_createdAt = now,
            sm_parentSessionId = Some (case parent of Some p \<Rightarrow> p | None \<Rightarrow> sm_id md)\<rparr>, ms_state = t\<rparr>"
        obtain a r' where al: "allocate i ?st r = (a, r')" by fastforce
        have "repo_fork md opts ident parent uuid now r = Inr (a, r')"
          using source None Inr t al
          by (simp add: repo_fork_def Let_def i[symmetric] fork_storage_def new_storage_def)
        moreover have "session_added i ?st r a r'"
          using session_added_allocate[OF ok None _ _ al] reachable.fork[OF reach Inr t] by simp
        ultimately show ?thesis using None Some Inr t by (simp add: ids repo_view_get)
      qed (simp add: ids None Some repo_view_get repo_fork_def source Let_def i[symmetric] fork_storage_def)
    qed (simp add: ids Some repo_view_get repo_fork_def source Let_def i[symmetric])
  qed
  have rest: "distinct (map fst (repo_view r))" "repo_ok (repo_delete md r)"
    "rs_heap (repo_delete md r) = rs_heap r"
    using ok repo_ok_delete[OF ok] by (simp_all add: repo_view_ids repo_ok_def repo_delete_def)
  show ?thesis
    unfolding Let_def
    by (intro conjI rest list named opens deleted
        created[OF refl, unfolded session_exists_def] forked[OF refl, unfolded session_exists_def])
qed

theorem repository_is_session_map_witness:
  "(\<exists>a r'. repo_create None None ''v'' 9 sample_repo = Inr (a, r') \<and>
     map fst (repo_view r') = [''s'', ''u'', ''v''] \<and> repo_open (sample_md ''u'') r' = Inr 1) \<and>
   map fst (repo_view (repo_delete (sample_md ''s'') sample_repo)) = [''u'']"
proof -
  have ids: "map fst (repo_view sample_repo) = [''s'', ''u'']" by code_simp
  have u: "repo_open (sample_md ''u'') sample_repo = Inr 1" by code_simp
  note contract = repository_is_session_map[OF sample_repo_ok, where md = "sample_md ''s''" and ident = None
      and parent = None and uuid = "''v''" and now = 9 and opts = Fork_Tree]
  from contract ids obtain a r' st where r': "repo_create None None ''v'' 9 sample_repo = Inr (a, r')"
    and added: "session_added ''v'' st sample_repo a r'"
    by (auto simp: Let_def)
  from added u ids have "map fst (repo_view r') = [''s'', ''u'', ''v'']" "repo_open (sample_md ''u'') r' = Inr 1"
    by (simp_all add: session_added_def sample_md_def)
  moreover have "map fst (repo_view (repo_delete (sample_md ''s'') sample_repo)) = [''u'']"
  proof -
    from contract have "map fst (repo_view (repo_delete (sample_md ''s'') sample_repo)) =
        filter (\<lambda>i. i \<noteq> ''s'') (map fst (repo_view sample_repo))"
      by (simp add: filter_map comp_def split_def sample_md_def)
    then show ?thesis by (simp add: ids)
  qed
  ultimately show ?thesis using r' by auto
qed
end
