(* ===== verification/Session_Context.thy ===== *)
theory Session_Context
  imports Session_Storage
begin

text \<open>
  The conversation context built from a branch, from
  \<open>packages/agent/src/harness/session/context.ts\<close>. The entries from the last compaction on are
  turned into messages; model, thinking level and active tools come from the whole path. Entry
  transforms and projectors are caller-supplied functions and are arguments here.
\<close>

section \<open>Definitions\<close>

record context_state =
  cx_thinkingLevel :: string
  cx_model :: "(string \<times> string) option"
  cx_activeToolNames :: "string list option"

record session_context = context_state +
  cx_messages :: "agent_message list"

record context_options =
  co_entryTransforms :: "(entry list \<Rightarrow> entry list) list"
  co_entryProjectors :: "string \<Rightarrow> (entry \<Rightarrow> nat \<Rightarrow> entry list \<Rightarrow> agent_message list option) option"

definition no_options :: context_options where
  "no_options = \<lparr>co_entryTransforms = [], co_entryProjectors = (\<lambda>_. None)\<rparr>"

fun derive_step :: "entry_body \<Rightarrow> context_state \<Rightarrow> context_state" where
  "derive_step (E_thinking_level_change l) st = st\<lparr>cx_thinkingLevel := l\<rparr>"
| "derive_step (E_model_change p m) st = st\<lparr>cx_model := Some (p, m)\<rparr>"
| "derive_step (E_message (Llm (AssistantMsg a)) _) st = st\<lparr>cx_model := Some (am_provider a, am_model a)\<rparr>"
| "derive_step (E_active_tools_change ts) st = st\<lparr>cx_activeToolNames := Some ts\<rparr>"
| "derive_step _ st = st"

definition deriveSessionContextState :: "entry list \<Rightarrow> context_state" where
  "deriveSessionContextState path =
     fold (\<lambda>e. derive_step (en_body e)) path
       \<lparr>cx_thinkingLevel = ''off'', cx_model = None, cx_activeToolNames = None\<rparr>"

text \<open>The backward loop: the suffix from the last compaction on, or \<open>None\<close>.\<close>

fun last_compaction :: "entry list \<Rightarrow> entry list \<Rightarrow> entry list option" where
  "last_compaction [] after = None"
| "last_compaction (e # before) after =
     (if entry_type_of e = ET_compaction then Some (e # after) else last_compaction before (e # after))"

definition defaultContextEntryTransform :: "entry list \<Rightarrow> entry list" where
  "defaultContextEntryTransform path =
     (case last_compaction (rev path) [] of None \<Rightarrow> path | Some es \<Rightarrow> es)"

definition buildContextEntries :: "entry list \<Rightarrow> context_options \<Rightarrow> entry list" where
  "buildContextEntries path opts =
     fold (\<lambda>f es. f es) (co_entryTransforms opts) (defaultContextEntryTransform path)"

definition sessionEntryToContextMessages ::
  "context_options \<Rightarrow> entry list \<Rightarrow> entry \<Rightarrow> nat \<Rightarrow> agent_message list" where
  "sessionEntryToContextMessages opts es e index =
     (case en_body e of
        E_message (Llm (AssistantMsg a)) _ \<Rightarrow>
          if am_stopReason a = SR_deferred then [] else [Llm (AssistantMsg a)]
      | E_message m _ \<Rightarrow> [m]
      | E_compaction c \<Rightarrow>
          createCompactionSummaryMessage (cd_summary c) (cd_tokensBefore c) (en_timestamp e)
            # cd_retainedTail c
      | E_branch_summary b \<Rightarrow>
          if bd_summary b \<noteq> []
            then [createBranchSummaryMessage (bd_summary b) (bd_fromId b) (en_timestamp e)] else []
      | E_custom ct _ \<Rightarrow>
          (case co_entryProjectors opts ct of
             None \<Rightarrow> []
           | Some f \<Rightarrow> (case f e index es of None \<Rightarrow> [] | Some ms \<Rightarrow> ms))
      | _ \<Rightarrow> [])"

definition buildSessionContext :: "entry list \<Rightarrow> context_options \<Rightarrow> session_context" where
  "buildSessionContext path opts =
     (let st = deriveSessionContextState path;
          es = buildContextEntries path opts
      in context_state.extend st (session_context.fields
        (concat (map2 (sessionEntryToContextMessages opts es) es [0..<length es]))))"

section \<open>Building a context entry by entry\<close>

lemma no_options_sel [simp]: "co_entryProjectors no_options ct = None" "co_entryTransforms no_options = []"
  by (simp_all add: no_options_def)

lemma last_compaction_None:
  "last_compaction before after = None \<longleftrightarrow> (\<forall>e \<in> set before. entry_type_of e \<noteq> ET_compaction)"
  by (induction before arbitrary: after) auto

lemma last_compaction_after:
  "last_compaction before (after @ [e]) = map_option (\<lambda>es. es @ [e]) (last_compaction before after)"
  by (induction before arbitrary: after) (auto simp flip: append_Cons)

lemma transform_snoc:
  "defaultContextEntryTransform (path @ [e]) =
     (if entry_type_of e = ET_compaction then [e] else defaultContextEntryTransform path @ [e])"
  using last_compaction_after[of "rev path" "[]" e]
  by (auto simp: defaultContextEntryTransform_def split: option.splits)

definition plain_messages :: "entry \<Rightarrow> agent_message list" where
  "plain_messages e = sessionEntryToContextMessages no_options [] e 0"

lemma plain_messages_eq: "sessionEntryToContextMessages no_options es e i = plain_messages e"
  by (simp add: plain_messages_def sessionEntryToContextMessages_def no_options_def
      split: entry_body.splits agent_message.splits message.splits)

lemma map2_const: "length es = length ns \<Longrightarrow> map2 (\<lambda>e _. f e) es ns = map f es"
  by (induction es ns rule: list_induct2) simp_all

lemma build_plain:
  "cx_messages (buildSessionContext path no_options) =
     concat (map plain_messages (defaultContextEntryTransform path))"
proof -
  have "map2 (sessionEntryToContextMessages no_options es) es ns = map plain_messages es"
    if "length es = length ns" for es and ns :: "nat list"
    using map2_const[OF that, of plain_messages] by (simp add: plain_messages_eq)
  then show ?thesis
    by (simp add: buildSessionContext_def buildContextEntries_def Let_def context_state.extend_def
        session_context.fields_def)
qed

lemma build_state: "context_state.truncate (buildSessionContext path opts) = deriveSessionContextState path"
  by (simp add: buildSessionContext_def Let_def context_state.extend_def session_context.fields_def
      context_state.truncate_def)

text \<open>The latest choice a path makes: what the specification of the configuration says.\<close>

definition latest_choice :: "(entry_body \<Rightarrow> 'a option) \<Rightarrow> entry list \<Rightarrow> 'a option" where
  "latest_choice f path =
     (case rev (List.map_filter (\<lambda>e. f (en_body e)) path) of [] \<Rightarrow> None | x # _ \<Rightarrow> Some x)"

fun model_choice :: "entry_body \<Rightarrow> (string \<times> string) option" where
  "model_choice (E_model_change p m) = Some (p, m)"
| "model_choice (E_message (Llm (AssistantMsg a)) _) = Some (am_provider a, am_model a)"
| "model_choice _ = None"

fun thinking_choice :: "entry_body \<Rightarrow> string option" where
  "thinking_choice (E_thinking_level_change l) = Some l"
| "thinking_choice _ = None"

fun tools_choice :: "entry_body \<Rightarrow> string list option" where
  "tools_choice (E_active_tools_change ts) = Some ts"
| "tools_choice _ = None"

lemma latest_choice_Nil [simp]: "latest_choice f [] = None"
  by (simp add: latest_choice_def List.map_filter_def)

lemma latest_choice_snoc [simp]:
  "latest_choice f (path @ [e]) = (case f (en_body e) of None \<Rightarrow> latest_choice f path | Some x \<Rightarrow> Some x)"
  by (simp add: latest_choice_def List.map_filter_def split: option.splits)

lemma derive_latest:
  "deriveSessionContextState path =
     \<lparr>cx_thinkingLevel = (case latest_choice thinking_choice path of None \<Rightarrow> ''off'' | Some l \<Rightarrow> l),
      cx_model = latest_choice model_choice path,
      cx_activeToolNames = latest_choice tools_choice path\<rparr>"
proof (induction path rule: rev_induct)
  case Nil
  show ?case by (simp add: deriveSessionContextState_def)
next
  case (snoc e path)
  have "deriveSessionContextState (path @ [e]) = derive_step (en_body e) (deriveSessionContextState path)"
    by (simp add: deriveSessionContextState_def)
  then show ?case unfolding snoc.IH
    by (cases "(en_body e, deriveSessionContextState path)" rule: derive_step.cases)
      simp_all
qed

section \<open>Properties\<close>

text \<open>
  C8: the context of a path is built entry by entry. A message entry adds its message, except a
  deferred assistant message, which adds none; a branch summary adds a summary message unless its
  text is empty; a compaction replaces all earlier messages by its summary and its retained tail;
  every other entry leaves the messages as they are. Whatever the transforms and projectors, the
  model is the one of the latest model change or assistant message of the whole path (before a
  compaction or after it), the thinking level that of the latest change or "off", and the active
  tools those of the latest change, if there is one.
\<close>

theorem context_incremental:
  "cx_messages (buildSessionContext [] no_options) = [] \<and>
   cx_messages (buildSessionContext (path @ [e]) no_options) =
     (let old = cx_messages (buildSessionContext path no_options) in
      case en_body e of
        E_message m _ \<Rightarrow>
          old @ (case m of
                   Llm (AssistantMsg a) \<Rightarrow> if am_stopReason a = SR_deferred then [] else [m]
                 | _ \<Rightarrow> [m])
      | E_branch_summary b \<Rightarrow>
          old @ (if bd_summary b = [] then []
                 else [BranchSummary \<lparr>bs_summary = bd_summary b, bs_fromId = bd_fromId b,
                         bs_timestamp = en_timestamp e\<rparr>])
      | E_compaction c \<Rightarrow>
          CompactionSummary \<lparr>cs_summary = cd_summary c, cs_tokensBefore = cd_tokensBefore c,
            cs_timestamp = en_timestamp e\<rparr> # cd_retainedTail c
      | _ \<Rightarrow> old) \<and>
   cx_model (buildSessionContext path opts) = latest_choice model_choice path \<and>
   cx_thinkingLevel (buildSessionContext path opts) =
     (case latest_choice thinking_choice path of None \<Rightarrow> ''off'' | Some l \<Rightarrow> l) \<and>
   cx_activeToolNames (buildSessionContext path opts) = latest_choice tools_choice path"
proof -
  have "cx_messages (buildSessionContext [] no_options) = []"
    by (simp add: build_plain defaultContextEntryTransform_def)
  moreover have "cx_messages (buildSessionContext (path @ [e]) no_options) =
     (let old = cx_messages (buildSessionContext path no_options) in
      case en_body e of
        E_message m _ \<Rightarrow>
          old @ (case m of
                   Llm (AssistantMsg a) \<Rightarrow> if am_stopReason a = SR_deferred then [] else [m]
                 | _ \<Rightarrow> [m])
      | E_branch_summary b \<Rightarrow>
          old @ (if bd_summary b = [] then []
                 else [BranchSummary \<lparr>bs_summary = bd_summary b, bs_fromId = bd_fromId b,
                         bs_timestamp = en_timestamp e\<rparr>])
      | E_compaction c \<Rightarrow>
          CompactionSummary \<lparr>cs_summary = cd_summary c, cs_tokensBefore = cd_tokensBefore c,
            cs_timestamp = en_timestamp e\<rparr> # cd_retainedTail c
      | _ \<Rightarrow> old)"
    by (cases "en_body e")
      (simp_all add: build_plain transform_snoc plain_messages_def sessionEntryToContextMessages_def
        createCompactionSummaryMessage_def createBranchSummaryMessage_def
        split: agent_message.splits message.splits)
  moreover have "context_state.truncate (buildSessionContext path opts) =
     \<lparr>cx_thinkingLevel = (case latest_choice thinking_choice path of None \<Rightarrow> ''off'' | Some l \<Rightarrow> l),
      cx_model = latest_choice model_choice path,
      cx_activeToolNames = latest_choice tools_choice path\<rparr>"
    by (simp add: build_state derive_latest)
  ultimately show ?thesis by (simp add: context_state.truncate_def)
qed

end
