(* ===== verification/Record_Reducer.thy ===== *)
theory Record_Reducer
  imports Session_Context
begin

text \<open>
  The recovery reducer of \<open>packages/agent/src/harness/reducer.ts\<close>: \<open>validateRecordLog\<close> accepts or
  rejects the durable slice of a lane, and \<open>reduceLaneState\<close> reconstructs the state of the open
  operation from an accepted slice. The deep equality of \<open>typebox\<close> (\<open>Guard.IsDeepEqual\<close>) is the
  parameter \<open>deq\<close>. An error carries the machine-readable reason and the message.
\<close>

section \<open>Data\<close>

datatype corruption_reason =
    CR_multiple_open_operations | CR_unknown_operation | CR_record_after_finish
  | CR_non_consecutive_attempt | CR_invalid_compaction_reason | CR_queue_after_abort
  | CR_invalid_queue_cancellation | CR_inconsistent_step | CR_tool_call_mismatch
  | CR_duplicate_tool_invocation | CR_provisioned_entry_mismatch | CR_invalid_deferred_handle

datatype corruption = RecordLogCorruption (corruption_reason: corruption_reason) (corruption_message: string)

type_synonym deep_equal = "provisioned_entry \<Rightarrow> provisioned_entry \<Rightarrow> bool"

type_synonym entry_map = "(string, entry) js_map"

record record_log_slice =
  sl_lane :: string
  sl_openOperations :: "lane_record list"
  sl_records :: "lane_record list"
  sl_entries :: "entry list"

record lane_configuration =
  lc_model :: "string \<times> string"
  lc_thinkingLevel :: string
  lc_activeToolNames :: "string list"

record lane_reduction_input = record_log_slice +
  ri_leafId :: "string option"
  ri_ownEntries :: "entry list"
  ri_configurationEntries :: "entry list"
  ri_defaults :: lane_configuration

record terminal_failure =
  tf_entryId :: string
  tf_byStep :: bool
  tf_message :: assistant_message

record batch_call =
  bc_toolIndex :: nat
  bc_toolCall :: tool_call
  bc_started :: "tool_started option"
  bc_resultExists :: bool
  bc_terminate :: bool

record tool_batch =
  tb_assistantEntryId :: string
  tb_calls :: "batch_call list"
  tb_truncated :: bool
  tb_unresolved :: bool

record step_state =
  sp_kind :: step_kind
  sp_attempts :: int
  sp_resultEntryId :: string
  sp_compactionReason :: "compaction_reason option"

record newest_own =
  no_entryId :: string
  no_type :: entry_type
  no_role :: "role option"
  no_stopReason :: "stop_reason option"

record operation_state =
  os_id :: string
  os_intent :: intent
  os_aborting :: bool
  os_step :: "step_state option"
  os_toolBatch :: "tool_batch option"
  os_missingInitialMessages :: "provisioned_entry list"
  os_pendingSteer :: "provisioned_entry list"
  os_pendingFollowUp :: "provisioned_entry list"
  os_pendingWrites :: "provisioned_entry list"
  os_deferred :: "deferred_handle option"
  os_overflowRecoveryUsed :: bool
  os_newestOwn :: "newest_own option"
  os_resultTarget :: "bool option"
  os_summaryTarget :: "bool option"

record lane_state =
  ls_lane :: string
  ls_leafId :: "string option"
  ls_operation :: "operation_state option"
  ls_pendingNextRun :: "provisioned_entry list"

record lane_reduction_result =
  rr_laneState :: lane_state
  rr_effectiveConfiguration :: lane_configuration
  rr_terminalFailure :: "terminal_failure option"

section \<open>Views of entries and records\<close>

definition entry_assistant :: "entry \<Rightarrow> assistant_message option" where
  "entry_assistant e = (case en_body e of E_message (Llm (AssistantMsg a)) _ \<Rightarrow> Some a | _ \<Rightarrow> None)"

definition entry_tool_result :: "entry \<Rightarrow> tool_result_message option" where
  "entry_tool_result e = (case en_body e of E_message (Llm (ToolResultMsg t)) _ \<Rightarrow> Some t | _ \<Rightarrow> None)"

fun block_tool_call :: "content_block \<Rightarrow> tool_call option" where
  "block_tool_call (ToolCall c) = Some c"
| "block_tool_call _ = None"

definition message_tool_calls :: "assistant_message \<Rightarrow> tool_call list" where
  "message_tool_calls a = List.map_filter block_tool_call (am_content a)"

text \<open>A read \<open>xs[i]\<close> with an arbitrary number as index: \<open>undefined\<close> outside the array.\<close>

definition js_index :: "'a list \<Rightarrow> int \<Rightarrow> 'a option" where
  "js_index xs i = (if 0 \<le> i \<and> nat i < length xs then Some (xs ! nat i) else None)"

fun step_name :: "step_kind \<Rightarrow> string" where
  "step_name S_assistant = ''assistant''"
| "step_name S_compaction = ''compaction''"
| "step_name S_branch_summary = ''branch_summary''"

fun queue_name :: "queue \<Rightarrow> string" where
  "queue_name Q_steer = ''steer''"
| "queue_name Q_followUp = ''followUp''"
| "queue_name Q_nextRun = ''nextRun''"

definition entries_by_id :: "entry list \<Rightarrow> entry_map" where
  "entries_by_id es = map_from (map (\<lambda>e. (en_id e, e)) es)"

section \<open>Validators\<close>

definition corrupt :: "corruption_reason \<Rightarrow> string \<Rightarrow> (corruption, 'a) result" where
  "corrupt reason msg = Inl (RecordLogCorruption reason msg)"

definition hasRunId :: "lane_record \<Rightarrow> bool" where
  "hasRunId r \<longleftrightarrow> record_runId r \<noteq> None"

definition matchesProvisionedEntry :: "deep_equal \<Rightarrow> entry \<Rightarrow> provisioned_entry \<Rightarrow> bool" where
  "matchesProvisionedEntry deq e target = deq (provisioned_entry.truncate e) target"

definition validateExactProvisionedEntry ::
  "deep_equal \<Rightarrow> entry_map \<Rightarrow> provisioned_entry \<Rightarrow> (corruption, unit) result" where
  "validateExactProvisionedEntry deq m target =
     (case map_get m (en_id target) of
        Some e \<Rightarrow>
          if \<not> matchesProvisionedEntry deq e target
            then corrupt CR_provisioned_entry_mismatch (''Provisioned entry '' @ en_id target @
              '' exists with content different from its intent'')
          else Inr ()
      | None \<Rightarrow> Inr ())"

definition validateResultEntry ::
  "entry_map \<Rightarrow> string \<Rightarrow> (entry \<Rightarrow> bool) \<Rightarrow> string \<Rightarrow> (corruption, unit) result" where
  "validateResultEntry m resultEntryId matches description =
     (case map_get m resultEntryId of
        Some e \<Rightarrow>
          if \<not> matches e
            then corrupt CR_provisioned_entry_mismatch (''Provisioned '' @ description @ '' entry '' @
              resultEntryId @ '' exists with different content'')
          else Inr ()
      | None \<Rightarrow> Inr ())"

definition validateAttemptReason :: "string \<Rightarrow> step_attempt \<Rightarrow> (corruption, unit) result" where
  "validateAttemptReason i a =
     (if sa_step a = S_compaction then
        (if sa_compactionReason a \<noteq> Some CR_manual \<and> sa_compactionReason a \<noteq> Some CR_threshold
            \<and> sa_compactionReason a \<noteq> Some CR_overflow
           then corrupt CR_invalid_compaction_reason
             (''Compaction attempt '' @ i @ '' has no valid compaction reason'')
         else Inr ())
      else if sa_compactionReason a \<noteq> None
        then corrupt CR_invalid_compaction_reason
          (step_name (sa_step a) @ '' attempt '' @ i @ '' has a compaction reason'')
      else Inr ())"

text \<open>The latest attempt of a run is kept with the sequence number of its record.\<close>

definition continues_series ::
  "entry_map \<Rightarrow> step_attempt option \<Rightarrow> nat \<Rightarrow> step_attempt \<Rightarrow> bool" where
  "continues_series m previous n a =
     (case previous of
        None \<Rightarrow> False
      | Some p \<Rightarrow> sa_step p = sa_step a \<and>
          (case map_get m (sa_resultEntryId p) of None \<Rightarrow> True | Some e \<Rightarrow> en_seq e \<ge> n))"

definition validateAttemptSequence ::
  "string \<Rightarrow> nat \<Rightarrow> step_attempt \<Rightarrow> step_attempt option \<Rightarrow> entry_map \<Rightarrow> (corruption, unit) result" where
  "validateAttemptSequence i n a previous m =
     (let continues = continues_series m previous n a;
          expected = (case previous of Some p \<Rightarrow> if continues then sa_attempt p + 1 else 1 | None \<Rightarrow> 1)
      in if sa_attempt a \<noteq> expected
           then corrupt CR_non_consecutive_attempt (step_name (sa_step a) @ '' attempt '' @ i @ '' is ''
             @ string_of_int (sa_attempt a) @ ''; expected '' @ string_of_int expected)
         else if \<not> continues \<or> sa_step a = S_assistant then Inr ()
         else (case previous of
             None \<Rightarrow> Inr ()
           | Some p \<Rightarrow>
               if sa_resultEntryId a \<noteq> sa_resultEntryId p
                 then corrupt CR_inconsistent_step
                   (step_name (sa_step a) @ '' attempts disagree on their result entry id'')
               else if sa_compactionReason a \<noteq> sa_compactionReason p
                 then corrupt CR_inconsistent_step
                   (step_name (sa_step a) @ '' attempts disagree on their compaction reason'')
               else Inr ()))"

definition validateAttemptResult :: "entry_map \<Rightarrow> step_attempt \<Rightarrow> (corruption, unit) result" where
  "validateAttemptResult m a =
     (case sa_step a of
        S_assistant \<Rightarrow> validateResultEntry m (sa_resultEntryId a)
          (\<lambda>e. entry_assistant e \<noteq> None) ''assistant result''
      | S_compaction \<Rightarrow> validateResultEntry m (sa_resultEntryId a)
          (\<lambda>e. entry_type_of e = ET_compaction) ''compaction result''
      | S_branch_summary \<Rightarrow> validateResultEntry m (sa_resultEntryId a)
          (\<lambda>e. entry_type_of e = ET_branch_summary) ''branch-summary result'')"

definition invocation_key :: "tool_started \<Rightarrow> string" where
  "invocation_key t = ts_assistantEntryId t @ [CHR 0x00] @ string_of_int (ts_toolIndex t)"

definition result_of_call :: "tool_started \<Rightarrow> entry \<Rightarrow> bool" where
  "result_of_call t e \<longleftrightarrow>
     (case entry_tool_result e of None \<Rightarrow> False
      | Some r \<Rightarrow> tr_toolCallId r = ts_toolCallId t \<and> tr_toolName r = ts_toolName t)"

definition validateToolStart ::
  "string \<Rightarrow> tool_started \<Rightarrow> entry_map \<Rightarrow> string list \<Rightarrow> (corruption, string list) result" where
  "validateToolStart i t m invocations =
     (if invocation_key t \<in> set invocations
        then corrupt CR_duplicate_tool_invocation (''Tool invocation '' @ ts_assistantEntryId t @ '':''
          @ string_of_int (ts_toolIndex t) @ '' is duplicated'')
      else (case (case map_get m (ts_assistantEntryId t) of
               None \<Rightarrow> None | Some e \<Rightarrow> entry_assistant e) of
          None \<Rightarrow> corrupt CR_tool_call_mismatch
            (''Tool start '' @ i @ '' does not reference an assistant entry'')
        | Some a \<Rightarrow>
            (case js_index (message_tool_calls a) (ts_toolIndex t) of
               None \<Rightarrow> corrupt CR_tool_call_mismatch
                 (''Tool start '' @ i @ '' does not match its assistant tool-call ordinal'')
             | Some c \<Rightarrow>
                 if tc_id c \<noteq> ts_toolCallId t \<or> tc_name c \<noteq> ts_toolName t
                   then corrupt CR_tool_call_mismatch
                     (''Tool start '' @ i @ '' does not match its assistant tool-call ordinal'')
                 else bind_result
                   (validateResultEntry m (ts_resultEntryId t) (result_of_call t) ''tool result'')
                   (\<lambda>_. Inr (invocation_key t # invocations)))))"

definition lacks_handle :: "entry \<Rightarrow> bool" where
  "lacks_handle e \<longleftrightarrow>
     (case entry_assistant e of None \<Rightarrow> False
      | Some a \<Rightarrow> am_stopReason a = SR_deferred \<and> am_deferred a = None)"

fun validateDeferredHandles :: "entry list \<Rightarrow> (corruption, unit) result" where
  "validateDeferredHandles [] = Inr ()"
| "validateDeferredHandles (e # es) =
     (if lacks_handle e
        then corrupt CR_invalid_deferred_handle
          (''Deferred assistant entry '' @ en_id e @ '' does not carry a handle'')
      else validateDeferredHandles es)"

fun validate_targets :: "deep_equal \<Rightarrow> entry_map \<Rightarrow> provisioned_entry list \<Rightarrow> (corruption, unit) result" where
  "validate_targets deq m [] = Inr ()"
| "validate_targets deq m (t # ts) =
     bind_result (validateExactProvisionedEntry deq m t) (\<lambda>_. validate_targets deq m ts)"

definition validateOperationResult ::
  "deep_equal \<Rightarrow> entry_map \<Rightarrow> intent \<Rightarrow> (corruption, unit) result" where
  "validateOperationResult deq m i =
     (case i of
        Run run \<Rightarrow> validate_targets deq m (ri_initialMessages run)
      | Compaction c \<Rightarrow> validateResultEntry m (ci_resultEntryId c)
          (\<lambda>e. entry_type_of e = ET_compaction) ''manual compaction''
      | Navigation n \<Rightarrow>
          if truthy_string (ni_summaryEntryId n)
            then validateResultEntry m (the (ni_summaryEntryId n))
              (\<lambda>e. entry_type_of e = ET_branch_summary) ''navigation summary''
          else Inr ())"

section \<open>Validating the log\<close>

record validation =
  vd_starts :: "(string, lane_record) js_map"
  vd_finishedAt :: "(string, nat) js_map"
  vd_abortedAt :: "(string, nat) js_map"
  vd_queueEnqueues :: "(string, lane_record) js_map"
  vd_latestAttempt :: "(string, step_attempt) js_map"
  vd_toolInvocations :: "string list"

definition no_validation :: validation where
  "no_validation = \<lparr>vd_starts = [], vd_finishedAt = [], vd_abortedAt = [], vd_queueEnqueues = [],
     vd_latestAttempt = [], vd_toolInvocations = []\<rparr>"

definition validate_owner :: "lane_record \<Rightarrow> validation \<Rightarrow> (corruption, unit) result" where
  "validate_owner r v =
     (case record_runId r of
        None \<Rightarrow> Inr ()
      | Some run \<Rightarrow>
          if \<not> map_has (vd_starts v) run
            then corrupt CR_unknown_operation
              (''Record '' @ rc_id r @ '' references unknown operation '' @ run)
          else (case map_get (vd_finishedAt v) run of
              None \<Rightarrow> Inr ()
            | Some finishSeq \<Rightarrow>
                if rc_seq r > finishSeq
                  then corrupt CR_record_after_finish
                    (''Record '' @ rc_id r @ '' follows the finish of operation '' @ run)
                else Inr ()))"

definition after_abort :: "lane_record \<Rightarrow> string option \<Rightarrow> validation \<Rightarrow> bool" where
  "after_abort r run v =
     (case run of None \<Rightarrow> False
      | Some i \<Rightarrow> (case map_get (vd_abortedAt v) i of None \<Rightarrow> False | Some n \<Rightarrow> rc_seq r > n))"

definition cancels_pending :: "lane_record \<Rightarrow> string option \<Rightarrow> string \<Rightarrow> entry_map \<Rightarrow> validation \<Rightarrow> bool" where
  "cancels_pending r run entryId m v =
     (case map_get (vd_queueEnqueues v) entryId of
        None \<Rightarrow> False
      | Some q \<Rightarrow> \<not> rc_seq q \<ge> rc_seq r \<and> record_runId q = run \<and> \<not> map_has m entryId)"

definition validate_record ::
  "deep_equal \<Rightarrow> entry_map \<Rightarrow> lane_record \<Rightarrow> validation \<Rightarrow> (corruption, validation) result" where
  "validate_record deq m r v =
     (case rc_body r of
        RB_operation_started _ i \<Rightarrow>
          bind_result (validateOperationResult deq m i) (\<lambda>_.
          Inr (v\<lparr>vd_starts := map_set (rc_id r) r (vd_starts v)\<rparr>))
      | body \<Rightarrow>
          bind_result (validate_owner r v) (\<lambda>_.
          (case body of
             RB_operation_finished run _ _ \<Rightarrow>
               Inr (v\<lparr>vd_finishedAt := map_set run (rc_seq r) (vd_finishedAt v)\<rparr>)
           | RB_abort_requested run \<Rightarrow>
               Inr (v\<lparr>vd_abortedAt := map_set run (rc_seq r) (vd_abortedAt v)\<rparr>)
           | RB_step_attempt a \<Rightarrow>
               bind_result (validateAttemptReason (rc_id r) a) (\<lambda>_.
               bind_result (validateAttemptSequence (rc_id r) (rc_seq r) a
                 (map_get (vd_latestAttempt v) (sa_runId a)) m) (\<lambda>_.
               bind_result (validateAttemptResult m a) (\<lambda>_.
               Inr (v\<lparr>vd_latestAttempt := map_set (sa_runId a) a (vd_latestAttempt v)\<rparr>))))
           | RB_tool_started t \<Rightarrow>
               bind_result (validateToolStart (rc_id r) t m (vd_toolInvocations v)) (\<lambda>ts.
               Inr (v\<lparr>vd_toolInvocations := ts\<rparr>))
           | RB_queue_enqueued q \<Rightarrow>
               if qe_queue q \<noteq> Q_nextRun \<and> after_abort r (qe_runId q) v
                 then corrupt CR_queue_after_abort (queue_name (qe_queue q) @ '' item '' @
                   en_id (qe_target q) @ '' was enqueued after abort'')
               else bind_result (validateExactProvisionedEntry deq m (qe_target q)) (\<lambda>_.
                 Inr (v\<lparr>vd_queueEnqueues := map_set (en_id (qe_target q)) r (vd_queueEnqueues v)\<rparr>))
           | RB_queue_cancelled run entryId \<Rightarrow>
               if \<not> cancels_pending r run entryId m v
                 then corrupt CR_invalid_queue_cancellation
                   (''Queue cancellation '' @ rc_id r @ '' has no pending matching enqueue'')
               else Inr v
           | RB_write_deferred _ target \<Rightarrow>
               bind_result (validateExactProvisionedEntry deq m target) (\<lambda>_. Inr v)
           | _ \<Rightarrow> Inr v)))"

definition validateRecordLog ::
  "deep_equal \<Rightarrow> 'a record_log_slice_scheme \<Rightarrow> (corruption, unit) result" where
  "validateRecordLog deq input =
     (if length (sl_openOperations input) > 1
        then corrupt CR_multiple_open_operations
          (''Lane '' @ sl_lane input @ '' has at least two open operations'')
      else
        (let m = entries_by_id (sl_entries input) in
         bind_result (validateDeferredHandles (map snd m)) (\<lambda>_.
         bind_result (fold_result (validate_record deq m) (sort_key rc_seq (sl_records input)) no_validation)
           (\<lambda>_. Inr ()))))"

section \<open>Reducing the lane\<close>

definition bySequence :: "entry list \<Rightarrow> entry list" where
  "bySequence es = sort_key en_seq es"

fun configure :: "entry_body \<Rightarrow> lane_configuration \<Rightarrow> lane_configuration" where
  "configure (E_model_change p m) c = c\<lparr>lc_model := (p, m)\<rparr>"
| "configure (E_thinking_level_change l) c = c\<lparr>lc_thinkingLevel := l\<rparr>"
| "configure (E_active_tools_change ts) c = c\<lparr>lc_activeToolNames := ts\<rparr>"
| "configure (E_message (Llm (AssistantMsg a)) _) c = c\<lparr>lc_model := (am_provider a, am_model a)\<rparr>"
| "configure _ c = c"

definition deriveEffectiveConfiguration :: "lane_reduction_input \<Rightarrow> lane_configuration" where
  "deriveEffectiveConfiguration input =
     fold (\<lambda>e. configure (en_body e))
       (bySequence (map snd (entries_by_id (ri_configurationEntries input @ ri_ownEntries input))))
       (ri_defaults input)"

definition deriveNewestOwn :: "entry option \<Rightarrow> newest_own option" where
  "deriveNewestOwn entry =
     (case entry of
        None \<Rightarrow> None
      | Some e \<Rightarrow> Some (case en_body e of
          E_message m _ \<Rightarrow>
            \<lparr>no_entryId = en_id e, no_type = ET_message, no_role = Some (message_role m),
             no_stopReason = map_option am_stopReason (entry_assistant e)\<rparr>
        | b \<Rightarrow> \<lparr>no_entryId = en_id e, no_type = body_type b, no_role = None, no_stopReason = None\<rparr>))"

text \<open>The newest own assistant entry with a tool call.\<close>

definition calling_entry :: "entry list \<Rightarrow> (entry \<times> assistant_message) option" where
  "calling_entry own =
     (case List.map_filter (\<lambda>e. case entry_assistant e of
          Some a \<Rightarrow> if message_tool_calls a \<noteq> [] then Some (e, a) else None
        | None \<Rightarrow> None) (rev own) of
        [] \<Rightarrow> None | x # _ \<Rightarrow> Some x)"

definition tool_starts :: "string \<Rightarrow> string \<Rightarrow> lane_record list \<Rightarrow> (int, tool_started) js_map" where
  "tool_starts operationId assistantEntryId rs =
     map_from (List.map_filter (\<lambda>r. case rc_body r of
       RB_tool_started t \<Rightarrow>
         if ts_runId t = operationId \<and> ts_assistantEntryId t = assistantEntryId
           then Some (ts_toolIndex t, t) else None
     | _ \<Rightarrow> None) rs)"

definition blocked_result ::
  "entry \<Rightarrow> entry list \<Rightarrow> string list \<Rightarrow> tool_call \<Rightarrow> entry option" where
  "blocked_result caller own deferredWriteIds c =
     List.find (\<lambda>e. en_seq e > en_seq caller \<and> en_id e \<notin> set deferredWriteIds \<and>
       (case entry_tool_result e of None \<Rightarrow> False | Some r \<Rightarrow> tr_toolCallId r = tc_id c)) own"

definition is_terminating :: "entry \<Rightarrow> bool" where
  "is_terminating e = (case en_body e of E_message _ t \<Rightarrow> t | _ \<Rightarrow> False)"

definition batch_call_of ::
  "entry \<Rightarrow> (int, tool_started) js_map \<Rightarrow> entry list \<Rightarrow> entry_map \<Rightarrow> string list \<Rightarrow> nat \<Rightarrow> tool_call
    \<Rightarrow> batch_call" where
  "batch_call_of caller starts own m deferredWriteIds i c =
     (let started = map_get starts (int i);
          startedResult = (case started of None \<Rightarrow> None | Some t \<Rightarrow> map_get m (ts_resultEntryId t));
          res = (case startedResult of Some e \<Rightarrow> Some e
            | None \<Rightarrow> blocked_result caller own deferredWriteIds c)
      in \<lparr>bc_toolIndex = i, bc_toolCall = c, bc_started = started, bc_resultExists = (res \<noteq> None),
          bc_terminate = (case res of None \<Rightarrow> False | Some e \<Rightarrow> is_terminating e)\<rparr>)"

definition deriveToolBatch ::
  "string \<Rightarrow> lane_record list \<Rightarrow> entry list \<Rightarrow> entry_map \<Rightarrow> string list \<Rightarrow> tool_batch option" where
  "deriveToolBatch operationId rs own m deferredWriteIds =
     (case calling_entry own of
        None \<Rightarrow> None
      | Some (caller, a) \<Rightarrow>
          (let calls = map2 (batch_call_of caller (tool_starts operationId (en_id caller) rs) own m
                 deferredWriteIds) [0..<length (message_tool_calls a)] (message_tool_calls a)
           in Some \<lparr>tb_assistantEntryId = en_id caller, tb_calls = calls,
               tb_truncated = (am_stopReason a = SR_length),
               tb_unresolved = list_ex (\<lambda>c. \<not> bc_resultExists c) calls\<rparr>))"

text \<open>The queue item, deferred write, cancellation and attempt of a record, if it is one.\<close>

definition record_enqueue :: "lane_record \<Rightarrow> queue_enqueued option" where
  "record_enqueue r = (case rc_body r of RB_queue_enqueued q \<Rightarrow> Some q | _ \<Rightarrow> None)"

definition record_write :: "lane_record \<Rightarrow> provisioned_entry option" where
  "record_write r = (case rc_body r of RB_write_deferred _ t \<Rightarrow> Some t | _ \<Rightarrow> None)"

definition record_cancelled :: "lane_record \<Rightarrow> string option" where
  "record_cancelled r = (case rc_body r of RB_queue_cancelled _ i \<Rightarrow> Some i | _ \<Rightarrow> None)"

definition record_attempt :: "lane_record \<Rightarrow> step_attempt option" where
  "record_attempt r = (case rc_body r of RB_step_attempt a \<Rightarrow> Some a | _ \<Rightarrow> None)"

definition initial_messages :: "intent \<Rightarrow> provisioned_entry list" where
  "initial_messages i = (case i of Run run \<Rightarrow> ri_initialMessages run | _ \<Rightarrow> [])"

definition pending_queue :: "lane_record list \<Rightarrow> entry_map \<Rightarrow> queue_enqueued list" where
  "pending_queue rs m =
     (let cancelled = List.map_filter record_cancelled rs
      in filter (\<lambda>q. \<not> map_has m (en_id (qe_target q)) \<and> en_id (qe_target q) \<notin> set cancelled)
           (List.map_filter record_enqueue rs))"

definition pending_next_run :: "queue_enqueued list \<Rightarrow> provisioned_entry list \<Rightarrow> provisioned_entry list" where
  "pending_next_run pending captured =
     map qe_target (filter (\<lambda>q. qe_queue q = Q_nextRun \<and>
       en_id (qe_target q) \<notin> set (map en_id captured)) pending)"

definition operation_records :: "string \<Rightarrow> lane_record list \<Rightarrow> lane_record list" where
  "operation_records i rs =
     filter (\<lambda>r. case rc_body r of RB_operation_started _ _ \<Rightarrow> rc_id r = i
       | _ \<Rightarrow> record_runId r = Some i) rs"

definition pending_in :: "queue \<Rightarrow> string \<Rightarrow> bool \<Rightarrow> queue_enqueued list \<Rightarrow> provisioned_entry list" where
  "pending_in qu i aborting pending =
     (if aborting then []
      else map qe_target (filter (\<lambda>q. qe_queue q = qu \<and> qe_runId q = Some i) pending))"

definition last_opt :: "'a list \<Rightarrow> 'a option" where
  "last_opt xs = (if xs = [] then None else Some (last xs))"

definition current_step :: "lane_record list \<Rightarrow> entry_map \<Rightarrow> step_state option" where
  "current_step rs m =
     (case last_opt (List.map_filter record_attempt rs) of
        None \<Rightarrow> None
      | Some a \<Rightarrow>
          if map_has m (sa_resultEntryId a) then None
          else Some \<lparr>sp_kind = sa_step a, sp_attempts = sa_attempt a,
            sp_resultEntryId = sa_resultEntryId a,
            sp_compactionReason = (if sa_step a = S_compaction then sa_compactionReason a else None)\<rparr>)"

text \<open>The newest input the operation consumed; \<open>None\<close> is the initial minus infinity.\<close>

fun newest_sequence :: "nat option \<Rightarrow> entry option list \<Rightarrow> nat option" where
  "newest_sequence best [] = best"
| "newest_sequence best (e # es) =
     newest_sequence
       (case e of None \<Rightarrow> best
        | Some x \<Rightarrow> if entry_type_of x = ET_message
            then Some (case best of None \<Rightarrow> en_seq x | Some n \<Rightarrow> max n (en_seq x)) else best) es"

definition consumed_input_ids :: "intent \<Rightarrow> lane_record list \<Rightarrow> string list" where
  "consumed_input_ids i rs =
     map en_id (initial_messages i) @
     List.map_filter (\<lambda>r. case record_enqueue r of None \<Rightarrow> None
       | Some q \<Rightarrow> if qe_queue q \<noteq> Q_nextRun then Some (en_id (qe_target q)) else None) rs"

definition overflow_recovery_used :: "intent \<Rightarrow> lane_record list \<Rightarrow> entry_map \<Rightarrow> bool" where
  "overflow_recovery_used i rs m =
     (let newest = newest_sequence None (map (map_get m) (consumed_input_ids i rs))
      in list_ex (\<lambda>r. case record_attempt r of None \<Rightarrow> False
           | Some a \<Rightarrow> sa_step a = S_compaction \<and> sa_compactionReason a = Some CR_overflow \<and>
               (case newest of None \<Rightarrow> True | Some n \<Rightarrow> rc_seq r > n)) rs)"

definition deferred_handle_of :: "entry option \<Rightarrow> deferred_handle option" where
  "deferred_handle_of newest =
     (case newest of None \<Rightarrow> None
      | Some e \<Rightarrow> (case entry_assistant e of None \<Rightarrow> None
        | Some a \<Rightarrow> if am_stopReason a = SR_deferred then am_deferred a else None))"

definition produced_by_fetch :: "lane_record list \<Rightarrow> entry list \<Rightarrow> entry \<Rightarrow> bool" where
  "produced_by_fetch rs own e =
     (list_ex (\<lambda>r. case rc_body r of
        RB_usage _ (UC_llm LC_deferred_fetch _ i _ _) \<Rightarrow> i = en_id e | _ \<Rightarrow> False) rs \<or>
      (case last_opt (butlast own) of None \<Rightarrow> False
       | Some p \<Rightarrow> (case entry_assistant p of None \<Rightarrow> False
         | Some a \<Rightarrow> am_stopReason a = SR_deferred)))"

definition terminal_failure_of ::
  "lane_record list \<Rightarrow> entry list \<Rightarrow> string list \<Rightarrow> terminal_failure option" where
  "terminal_failure_of rs own deferredWriteIds =
     (case last_opt own of None \<Rightarrow> None
      | Some e \<Rightarrow> (case entry_assistant e of None \<Rightarrow> None
        | Some a \<Rightarrow>
            if am_stopReason a = SR_error \<and> en_id e \<notin> set deferredWriteIds then
              (let byStep = list_ex (\<lambda>r. case record_attempt r of None \<Rightarrow> False
                     | Some t \<Rightarrow> sa_resultEntryId t = en_id e) rs
               in if byStep \<or> produced_by_fetch rs own e
                    then Some \<lparr>tf_entryId = en_id e, tf_byStep = byStep, tf_message = a\<rparr>
                  else None)
            else None))"

definition reduce_operation ::
  "lane_record \<Rightarrow> intent \<Rightarrow> lane_record list \<Rightarrow> entry list \<Rightarrow> entry_map \<Rightarrow> queue_enqueued list
    \<Rightarrow> operation_state \<times> terminal_failure option" where
  "reduce_operation started i records own m pending =
     (let rs = operation_records (rc_id started) records;
          aborting = list_ex (\<lambda>r. record_type_of r = RT_abort_requested) rs;
          deferredWriteIds = map en_id (List.map_filter record_write rs)
      in (\<lparr>os_id = rc_id started, os_intent = i, os_aborting = aborting,
            os_step = current_step rs m,
            os_toolBatch = deriveToolBatch (rc_id started) rs own m deferredWriteIds,
            os_missingInitialMessages = filter (\<lambda>t. \<not> map_has m (en_id t)) (initial_messages i),
            os_pendingSteer = pending_in Q_steer (rc_id started) aborting pending,
            os_pendingFollowUp = pending_in Q_followUp (rc_id started) aborting pending,
            os_pendingWrites = filter (\<lambda>t. \<not> map_has m (en_id t)) (List.map_filter record_write rs),
            os_deferred = deferred_handle_of (last_opt own),
            os_overflowRecoveryUsed = overflow_recovery_used i rs m,
            os_newestOwn = deriveNewestOwn (last_opt own),
            os_resultTarget = (case i of Compaction c \<Rightarrow> Some (map_has m (ci_resultEntryId c)) | _ \<Rightarrow> None),
            os_summaryTarget = (case i of
                Navigation n \<Rightarrow> if truthy_string (ni_summaryEntryId n)
                  then Some (map_has m (the (ni_summaryEntryId n))) else None
              | _ \<Rightarrow> None)\<rparr>,
          terminal_failure_of rs own deferredWriteIds))"

text \<open>
  The type of \<open>openOperations\<close> allows start records only; any other record there is treated as
  no open operation.
\<close>

definition open_intent :: "lane_record list \<Rightarrow> (lane_record \<times> intent) option" where
  "open_intent opens =
     (case opens of
        r # _ \<Rightarrow> (case rc_body r of RB_operation_started _ i \<Rightarrow> Some (r, i) | _ \<Rightarrow> None)
      | [] \<Rightarrow> None)"

definition reduceLaneState ::
  "deep_equal \<Rightarrow> lane_reduction_input \<Rightarrow> (corruption, lane_reduction_result) result" where
  "reduceLaneState deq input =
     bind_result (validateRecordLog deq input) (\<lambda>_.
     (let records = sort_key rc_seq (sl_records input);
          own = bySequence (ri_ownEntries input);
          m = entries_by_id (sl_entries input @ own);
          pending = pending_queue records m;
          opened = open_intent (sl_openOperations input);
          nextRun = pending_next_run pending
            (case opened of None \<Rightarrow> [] | Some (_, i) \<Rightarrow> initial_messages i);
          operation = map_option (\<lambda>(started, i). reduce_operation started i records own m pending) opened
      in Inr \<lparr>rr_laneState = \<lparr>ls_lane = sl_lane input, ls_leafId = ri_leafId input,
             ls_operation = map_option fst operation, ls_pendingNextRun = nextRun\<rparr>,
           rr_effectiveConfiguration = deriveEffectiveConfiguration input,
           rr_terminalFailure = (case operation of None \<Rightarrow> None | Some (_, f) \<Rightarrow> f)\<rparr>))"

end
