(* ===== verification/Reducer_Validation.thy ===== *)
theory Reducer_Validation
  imports Record_Reducer
begin

text \<open>
  What \<open>validateRecordLog\<close> accepts. The loop keeps five maps and a set over the records read so
  far; each is a function of those records, and a record passes exactly when \<open>record_ok\<close> holds
  of it and of the records with smaller sequence numbers. With distinct sequence numbers the
  verdict does not depend on the order of the input.
\<close>

section \<open>A record against the records before it\<close>

definition started_in :: "lane_record list \<Rightarrow> string \<Rightarrow> bool" where
  "started_in rs run \<longleftrightarrow> (\<exists>r \<in> set rs. record_type_of r = RT_operation_started \<and> rc_id r = run)"

definition finished_in :: "lane_record list \<Rightarrow> string \<Rightarrow> bool" where
  "finished_in rs run \<longleftrightarrow> (\<exists>r \<in> set rs. \<exists>out err. rc_body r = RB_operation_finished run out err)"

definition aborted_in :: "lane_record list \<Rightarrow> string \<Rightarrow> bool" where
  "aborted_in rs run \<longleftrightarrow> (\<exists>r \<in> set rs. rc_body r = RB_abort_requested run)"

definition attempts_of :: "lane_record list \<Rightarrow> string \<Rightarrow> step_attempt list" where
  "attempts_of rs run = filter (\<lambda>a. sa_runId a = run) (List.map_filter record_attempt rs)"

definition enqueues_of :: "lane_record list \<Rightarrow> string \<Rightarrow> lane_record list" where
  "enqueues_of rs i =
     filter (\<lambda>r. case record_enqueue r of None \<Rightarrow> False | Some q \<Rightarrow> en_id (qe_target q) = i) rs"

definition tool_starts_in :: "lane_record list \<Rightarrow> tool_started list" where
  "tool_starts_in rs = List.map_filter (\<lambda>r. case rc_body r of RB_tool_started t \<Rightarrow> Some t | _ \<Rightarrow> None) rs"

text \<open>A provisioned target either does not exist yet or exists with exactly that content.\<close>

definition target_ok :: "entry_map \<Rightarrow> provisioned_entry \<Rightarrow> bool" where
  "target_ok m t \<longleftrightarrow>
     (\<forall>e. map_get m (en_id t) = Some e \<longrightarrow> provisioned_entry.truncate e = t)"

definition result_ok :: "entry_map \<Rightarrow> string \<Rightarrow> (entry \<Rightarrow> bool) \<Rightarrow> bool" where
  "result_ok m i matches \<longleftrightarrow> (\<forall>e. map_get m i = Some e \<longrightarrow> matches e)"

definition intent_ok :: "entry_map \<Rightarrow> intent \<Rightarrow> bool" where
  "intent_ok m i \<longleftrightarrow>
     (case i of
        Run run \<Rightarrow> \<forall>t \<in> set (ri_initialMessages run). target_ok m t
      | Compaction c \<Rightarrow> result_ok m (ci_resultEntryId c) (\<lambda>e. entry_type_of e = ET_compaction)
      | Navigation n \<Rightarrow> (\<forall>x. ni_summaryEntryId n = Some x \<and> x \<noteq> [] \<longrightarrow>
          result_ok m x (\<lambda>e. entry_type_of e = ET_branch_summary)))"

fun step_result :: "step_kind \<Rightarrow> entry \<Rightarrow> bool" where
  "step_result S_assistant e = (entry_assistant e \<noteq> None)"
| "step_result S_compaction e = (entry_type_of e = ET_compaction)"
| "step_result S_branch_summary e = (entry_type_of e = ET_branch_summary)"

text \<open>
  Attempts count from 1 in every series; a series goes on with the same step while its result is
  not stored before the next attempt. Only compactions carry a reason, and all attempts of a
  compaction or summary aim at one entry for one reason.
\<close>

definition attempt_ok :: "entry_map \<Rightarrow> step_attempt option \<Rightarrow> nat \<Rightarrow> step_attempt \<Rightarrow> bool" where
  "attempt_ok m previous n a \<longleftrightarrow>
     (if sa_step a = S_compaction
        then sa_compactionReason a \<in> {Some CR_manual, Some CR_threshold, Some CR_overflow}
        else sa_compactionReason a = None) \<and>
     result_ok m (sa_resultEntryId a) (step_result (sa_step a)) \<and>
     (if continues_series m previous n a
        then sa_attempt a = sa_attempt (the previous) + 1 \<and>
          (sa_step a \<noteq> S_assistant \<longrightarrow> sa_resultEntryId a = sa_resultEntryId (the previous) \<and>
             sa_compactionReason a = sa_compactionReason (the previous))
        else sa_attempt a = 1)"

definition tool_start_ok :: "entry_map \<Rightarrow> tool_started list \<Rightarrow> tool_started \<Rightarrow> bool" where
  "tool_start_ok m earlier t \<longleftrightarrow>
     (\<forall>u \<in> set earlier. (ts_assistantEntryId t, ts_toolIndex t) \<noteq> (ts_assistantEntryId u, ts_toolIndex u)) \<and>
     (\<exists>e a c. map_get m (ts_assistantEntryId t) = Some e \<and> entry_assistant e = Some a \<and>
        js_index (message_tool_calls a) (ts_toolIndex t) = Some c \<and>
        tc_id c = ts_toolCallId t \<and> tc_name c = ts_toolName t) \<and>
     result_ok m (ts_resultEntryId t) (result_of_call t)"

definition record_ok :: "entry_map \<Rightarrow> lane_record list \<Rightarrow> lane_record \<Rightarrow> bool" where
  "record_ok m earlier r \<longleftrightarrow>
     (\<forall>run. record_runId r = Some run \<longrightarrow> started_in earlier run \<and> \<not> finished_in earlier run) \<and>
     (case rc_body r of
        RB_operation_started _ i \<Rightarrow> intent_ok m i
      | RB_step_attempt a \<Rightarrow> attempt_ok m (last_opt (attempts_of earlier (sa_runId a))) (rc_seq r) a
      | RB_tool_started t \<Rightarrow> tool_start_ok m (tool_starts_in earlier) t
      | RB_queue_enqueued q \<Rightarrow>
          (qe_queue q \<noteq> Q_nextRun \<longrightarrow> (\<forall>run. qe_runId q = Some run \<longrightarrow> \<not> aborted_in earlier run)) \<and>
          target_ok m (qe_target q)
      | RB_queue_cancelled run i \<Rightarrow>
          \<not> map_has m i \<and> (\<exists>q. last_opt (enqueues_of earlier i) = Some q \<and> record_runId q = run)
      | RB_write_deferred _ t \<Rightarrow> target_ok m t
      | _ \<Rightarrow> True)"

section \<open>Each validator decides its part\<close>

definition passes :: "('e, 'a) result \<Rightarrow> bool" where
  "passes x \<longleftrightarrow> (\<exists>y. x = Inr y)"

lemma passes_simps [simp]:
  "passes (Inr v)" "\<not> passes (Inl e)" "\<not> passes (corrupt c msg)"
  "passes (if b then x else y) \<longleftrightarrow> (if b then passes x else passes y)"
  by (auto simp: passes_def corrupt_def)

lemma passes_bind: "passes (bind_result x f) \<longleftrightarrow> (\<exists>y. x = Inr y \<and> passes (f y))"
  by (cases x) (auto simp: passes_def)

lemma passes_unit: "passes (x :: ('e, unit) result) \<longleftrightarrow> x = Inr ()"
  by (auto simp: passes_def)

lemma target_passes:
  assumes "\<forall>x y. deq x y \<longleftrightarrow> x = y"
  shows "passes (validateExactProvisionedEntry deq m t) \<longleftrightarrow> target_ok m t"
  using assms
  by (auto simp: validateExactProvisionedEntry_def matchesProvisionedEntry_def target_ok_def split: option.splits)

lemma result_passes: "passes (validateResultEntry m i f d) \<longleftrightarrow> result_ok m i f"
  by (auto simp: validateResultEntry_def result_ok_def split: option.splits)

lemma targets_pass:
  assumes "\<forall>x y. deq x y \<longleftrightarrow> x = y"
  shows "passes (validate_targets deq m ts) \<longleftrightarrow> (\<forall>t \<in> set ts. target_ok m t)"
  by (induction ts) (auto simp: passes_bind simp flip: target_passes[OF assms] passes_unit)

lemma intent_passes:
  assumes "\<forall>x y. deq x y \<longleftrightarrow> x = y"
  shows "passes (validateOperationResult deq m i) \<longleftrightarrow> intent_ok m i"
  by (cases i)
    (auto simp: validateOperationResult_def intent_ok_def targets_pass[OF assms] result_passes truthy_string_def
      split: option.splits)

lemma reason_passes:
  "passes (validateAttemptReason i a) \<longleftrightarrow>
     (if sa_step a = S_compaction
        then sa_compactionReason a \<in> {Some CR_manual, Some CR_threshold, Some CR_overflow}
        else sa_compactionReason a = None)"
  by (auto simp: validateAttemptReason_def)

lemma attempt_result_passes: "passes (validateAttemptResult m a) \<longleftrightarrow> result_ok m (sa_resultEntryId a) (step_result (sa_step a))"
  by (cases "sa_step a") (auto simp: validateAttemptResult_def result_passes result_ok_def)

lemma sequence_passes:
  "passes (validateAttemptSequence i n a previous m) \<longleftrightarrow>
     (if continues_series m previous n a
        then sa_attempt a = sa_attempt (the previous) + 1 \<and>
          (sa_step a \<noteq> S_assistant \<longrightarrow> sa_resultEntryId a = sa_resultEntryId (the previous) \<and>
             sa_compactionReason a = sa_compactionReason (the previous))
        else sa_attempt a = 1)"
  by (cases previous) (auto simp: validateAttemptSequence_def continues_series_def Let_def)

lemma invocation_key_inj:
  "invocation_key t = invocation_key u \<longleftrightarrow>
     ts_assistantEntryId t = ts_assistantEntryId u \<and> ts_toolIndex t = ts_toolIndex u"
  unfolding invocation_key_def
  using append_separator_inj[OF _ string_of_int_no_nul string_of_int_no_nul] string_of_int_inj by metis

lemma tool_start_passes:
  assumes "set keys = invocation_key ` set earlier"
  shows "(\<exists>keys'. validateToolStart i t m keys = Inr keys') \<longleftrightarrow> tool_start_ok m earlier t"
    and "validateToolStart i t m keys = Inr keys' \<Longrightarrow> set keys' = insert (invocation_key t) (set keys)"
proof -
  have fresh: "invocation_key t \<in> set keys \<longleftrightarrow>
      (\<exists>u \<in> set earlier. (ts_assistantEntryId t, ts_toolIndex t) = (ts_assistantEntryId u, ts_toolIndex u))"
    unfolding assms image_iff invocation_key_inj prod.inject by (rule refl)
  have res: "validateResultEntry m (ts_resultEntryId t) (result_of_call t) d = Inr y
      \<longleftrightarrow> result_ok m (ts_resultEntryId t) (result_of_call t)" for d y
    using result_passes[unfolded passes_unit] by auto
  show "(\<exists>keys'. validateToolStart i t m keys = Inr keys') \<longleftrightarrow> tool_start_ok m earlier t"
    unfolding validateToolStart_def tool_start_ok_def fresh
    by (auto simp: corrupt_def bind_result_Inr_iff res split: option.splits)
  show "validateToolStart i t m keys = Inr keys' \<Longrightarrow> set keys' = insert (invocation_key t) (set keys)"
    by (auto simp: validateToolStart_def corrupt_def bind_result_Inr_iff split: option.splits if_splits)
qed

section \<open>The loop\<close>

text \<open>What the loop state knows about the records read so far.\<close>

definition tracks :: "lane_record list \<Rightarrow> validation \<Rightarrow> bool" where
  "tracks rs v \<longleftrightarrow>
     (\<forall>run. map_has (vd_starts v) run \<longleftrightarrow> started_in rs run) \<and>
     (\<forall>run. map_has (vd_finishedAt v) run \<longleftrightarrow> finished_in rs run) \<and>
     (\<forall>run n. map_get (vd_finishedAt v) run = Some n \<longrightarrow> n \<in> rc_seq ` set rs) \<and>
     (\<forall>run. map_has (vd_abortedAt v) run \<longleftrightarrow> aborted_in rs run) \<and>
     (\<forall>run n. map_get (vd_abortedAt v) run = Some n \<longrightarrow> n \<in> rc_seq ` set rs) \<and>
     (\<forall>i. map_get (vd_queueEnqueues v) i = last_opt (enqueues_of rs i)) \<and>
     (\<forall>run. map_get (vd_latestAttempt v) run = last_opt (attempts_of rs run)) \<and>
     set (vd_toolInvocations v) = invocation_key ` set (tool_starts_in rs)"

lemma tracksD:
  assumes "tracks rs v"
  shows "map_has (vd_starts v) run = started_in rs run"
    and "map_has (vd_finishedAt v) run = finished_in rs run"
    and "map_get (vd_finishedAt v) run = Some n \<Longrightarrow> n \<in> rc_seq ` set rs"
    and "map_has (vd_abortedAt v) run = aborted_in rs run"
    and "map_get (vd_abortedAt v) run = Some n \<Longrightarrow> n \<in> rc_seq ` set rs"
    and "map_get (vd_queueEnqueues v) i = last_opt (enqueues_of rs i)"
    and "map_get (vd_latestAttempt v) run = last_opt (attempts_of rs run)"
    and "set (vd_toolInvocations v) = invocation_key ` set (tool_starts_in rs)"
  using assms unfolding tracks_def by metis+

lemma tracks_empty: "tracks [] no_validation"
  by (simp add: tracks_def no_validation_def started_in_def finished_in_def aborted_in_def last_opt_def
      enqueues_of_def attempts_of_def tool_starts_in_def map_filter_simps)

lemma snoc_facts:
  "started_in (rs @ [r]) run \<longleftrightarrow> started_in rs run \<or> record_type_of r = RT_operation_started \<and> rc_id r = run"
  "finished_in (rs @ [r]) run \<longleftrightarrow> finished_in rs run \<or> (\<exists>out err. rc_body r = RB_operation_finished run out err)"
  "aborted_in (rs @ [r]) run \<longleftrightarrow> aborted_in rs run \<or> rc_body r = RB_abort_requested run"
  unfolding started_in_def finished_in_def aborted_in_def set_append by (simp_all add: bex_Un disj_commute)

lemma last_opt_snoc [simp]: "last_opt (xs @ [x]) = Some x"
  by (simp add: last_opt_def)

lemma snoc_lists:
  "enqueues_of (rs @ [r]) i = enqueues_of rs i @
     (case record_enqueue r of None \<Rightarrow> [] | Some q \<Rightarrow> if en_id (qe_target q) = i then [r] else [])"
  "attempts_of (rs @ [r]) run = attempts_of rs run @
     (case record_attempt r of None \<Rightarrow> [] | Some a \<Rightarrow> if sa_runId a = run then [a] else [])"
  "tool_starts_in (rs @ [r]) = tool_starts_in rs @
     (case rc_body r of RB_tool_started t \<Rightarrow> [t] | _ \<Rightarrow> [])"
  subgoal by (cases "record_enqueue r") (simp_all add: enqueues_of_def)
  subgoal by (cases "record_attempt r") (simp_all add: attempts_of_def map_filter_snoc)
  subgoal by (cases "rc_body r") (simp_all add: tool_starts_in_def map_filter_snoc)
  done

lemma owner_passes:
  assumes "tracks rs v" and "\<forall>x \<in> set rs. rc_seq x < rc_seq r"
  shows "passes (validate_owner r v) \<longleftrightarrow>
     (\<forall>run. record_runId r = Some run \<longrightarrow> started_in rs run \<and> \<not> finished_in rs run)"
proof (cases "record_runId r")
  case (Some run)
  have n: "n < rc_seq r" if "map_get (vd_finishedAt v) run = Some n" for n
  proof -
    from tracksD(3)[OF assms(1) that] obtain x where "x \<in> set rs" "n = rc_seq x" by blast
    with assms(2) show ?thesis by simp
  qed
  from tracksD(1,2)[OF assms(1), of run] show ?thesis
    unfolding validate_owner_def Some option.case
    by (cases "map_get (vd_starts v) run"; cases "map_get (vd_finishedAt v) run") (simp_all add: n)
qed (simp add: validate_owner_def)

lemma after_abort_iff:
  assumes "tracks rs v" and "\<forall>x \<in> set rs. rc_seq x < rc_seq r"
  shows "after_abort r run v \<longleftrightarrow> (\<exists>i. run = Some i \<and> aborted_in rs i)"
proof (cases run)
  case (Some i)
  have n: "n < rc_seq r" if "map_get (vd_abortedAt v) i = Some n" for n
  proof -
    from tracksD(5)[OF assms(1) that] obtain x where "x \<in> set rs" "n = rc_seq x" by blast
    with assms(2) show ?thesis by simp
  qed
  from tracksD(4)[OF assms(1), of i] show ?thesis
    unfolding after_abort_def Some option.case
    by (cases "map_get (vd_abortedAt v) i") (simp_all add: n)
qed (simp add: after_abort_def)

lemma last_opt_in: "last_opt xs = Some x \<Longrightarrow> x \<in> set xs"
  by (auto simp: last_opt_def split: if_splits)

lemma cancels_iff:
  assumes "tracks rs v" and "\<forall>x \<in> set rs. rc_seq x < rc_seq r"
  shows "cancels_pending r run i m v \<longleftrightarrow>
     \<not> map_has m i \<and> (\<exists>q. last_opt (enqueues_of rs i) = Some q \<and> record_runId q = run)"
proof -
  note get = tracksD(6)[OF assms(1)]
  have "last_opt (enqueues_of rs i) = Some q \<Longrightarrow> rc_seq q < rc_seq r" for q
    using assms(2) last_opt_in[of "enqueues_of rs i" q] by (auto simp: enqueues_of_def)
  then show ?thesis
    unfolding cancels_pending_def get by (auto split: option.splits)
qed

lemma record_passes:
  assumes deq: "\<forall>x y. deq x y \<longleftrightarrow> x = y"
    and v: "tracks rs v" and last: "\<forall>x \<in> set rs. rc_seq x < rc_seq r"
  shows "passes (validate_record deq m r v) \<longleftrightarrow> record_ok m rs r"
proof -
  note owner = owner_passes[OF v last]
  note latest = tracksD(7)[OF v]
  note keys = tracksD(8)[OF v]
  note tool = tool_start_passes(1)[OF keys]
  note unit_passes = owner[unfolded passes_unit] target_passes[OF deq, unfolded passes_unit]
    intent_passes[OF deq, unfolded passes_unit] reason_passes[unfolded passes_unit]
    sequence_passes[unfolded passes_unit] attempt_result_passes[unfolded passes_unit]
  show ?thesis
    by (cases "rc_body r")
      (simp_all add: validate_record_def record_ok_def passes_bind unit_passes tool latest
        attempt_ok_def after_abort_iff[OF v last] cancels_iff[OF v last], auto)
qed

lemma validate_record_fields:
  assumes "validate_record deq m r v = Inr v'"
  shows "vd_starts v' = (if record_type_of r = RT_operation_started then map_set (rc_id r) r (vd_starts v) else vd_starts v)"
    and "vd_finishedAt v' = (case rc_body r of
        RB_operation_finished run _ _ \<Rightarrow> map_set run (rc_seq r) (vd_finishedAt v) | _ \<Rightarrow> vd_finishedAt v)"
    and "vd_abortedAt v' = (case rc_body r of
        RB_abort_requested run \<Rightarrow> map_set run (rc_seq r) (vd_abortedAt v) | _ \<Rightarrow> vd_abortedAt v)"
    and "vd_queueEnqueues v' = (case record_enqueue r of
        Some q \<Rightarrow> map_set (en_id (qe_target q)) r (vd_queueEnqueues v) | None \<Rightarrow> vd_queueEnqueues v)"
    and "vd_latestAttempt v' = (case record_attempt r of
        Some a \<Rightarrow> map_set (sa_runId a) a (vd_latestAttempt v) | None \<Rightarrow> vd_latestAttempt v)"
    and "case rc_body r of
        RB_tool_started t \<Rightarrow> validateToolStart (rc_id r) t m (vd_toolInvocations v) = Inr (vd_toolInvocations v')
      | _ \<Rightarrow> vd_toolInvocations v' = vd_toolInvocations v"
  using assms
  by (cases "rc_body r"; auto simp: validate_record_def bind_result_Inr_iff corrupt_def record_enqueue_def
      record_attempt_def split: if_splits)+

lemma record_tracks:
  assumes v: "tracks rs v" and step: "validate_record deq m r v = Inr v'"
  shows "tracks (rs @ [r]) v'"
  unfolding tracks_def
proof (intro conjI)
  note f = validate_record_fields[OF step]
  show "\<forall>run. map_has (vd_starts v') run \<longleftrightarrow> started_in (rs @ [r]) run"
    using v by (auto simp: tracks_def f(1) snoc_facts)
  show "\<forall>run. map_has (vd_finishedAt v') run \<longleftrightarrow> finished_in (rs @ [r]) run"
    "\<forall>run n. map_get (vd_finishedAt v') run = Some n \<longrightarrow> n \<in> rc_seq ` set (rs @ [r])"
    using v unfolding tracks_def f(2) snoc_facts by (cases "rc_body r"; auto)+
  show "\<forall>run. map_has (vd_abortedAt v') run \<longleftrightarrow> aborted_in (rs @ [r]) run"
    "\<forall>run n. map_get (vd_abortedAt v') run = Some n \<longrightarrow> n \<in> rc_seq ` set (rs @ [r])"
    using v unfolding tracks_def f(3) snoc_facts by (cases "rc_body r"; auto)+
  show "\<forall>i. map_get (vd_queueEnqueues v') i = last_opt (enqueues_of (rs @ [r]) i)"
    using v by (auto simp: tracks_def f(4) snoc_lists split: option.split)
  show "\<forall>run. map_get (vd_latestAttempt v') run = last_opt (attempts_of (rs @ [r]) run)"
    using v by (auto simp: tracks_def f(5) snoc_lists split: option.split)
  note keys = tracksD(8)[OF v]
  show "set (vd_toolInvocations v') = invocation_key ` set (tool_starts_in (rs @ [r]))"
    using f(6) tool_start_passes(2)[OF keys] keys by (cases "rc_body r") (auto simp: snoc_lists)
qed

text \<open>The loop passes exactly when every record is acceptable after its predecessors.\<close>

lemma loop_passes:
  assumes deq: "\<forall>x y. deq x y \<longleftrightarrow> x = y"
  shows "tracks rs v \<Longrightarrow> sorted_wrt (<) (map rc_seq (rs @ todo)) \<Longrightarrow>
     passes (fold_result (validate_record deq m) todo v) \<longleftrightarrow>
     (\<forall>pre r post. todo = pre @ r # post \<longrightarrow> record_ok m (rs @ pre) r)"
proof (induction todo arbitrary: rs v)
  case (Cons r todo)
  have last: "\<forall>x \<in> set rs. rc_seq x < rc_seq r"
    using Cons.prems(2) by (auto simp: sorted_wrt_append)
  note here = record_passes[OF deq Cons.prems(1) last]
  have rest: "(\<forall>pre x post. r # todo = pre @ x # post \<longrightarrow> record_ok m (rs @ pre) x) \<longleftrightarrow>
      record_ok m rs r \<and> (\<forall>pre x post. todo = pre @ x # post \<longrightarrow> record_ok m ((rs @ [r]) @ pre) x)"
    (is "?all \<longleftrightarrow> ?first \<and> ?others")
  proof
    assume all: ?all
    from all[rule_format, of "[]" r todo] have ?first by simp
    moreover have ?others
    proof (intro allI impI)
      fix pre x post assume "todo = pre @ x # post"
      with all[rule_format, of "r # pre" x post] show "record_ok m ((rs @ [r]) @ pre) x" by simp
    qed
    ultimately show "?first \<and> ?others" by blast
  next
    assume other: "?first \<and> ?others"
    show ?all
    proof (intro allI impI)
      fix pre x post assume "r # todo = pre @ x # post"
      with other show "record_ok m (rs @ pre) x" by (cases pre) auto
    qed
  qed
  show ?case
  proof (cases "validate_record deq m r v")
    case (Inl e)
    then have "\<not> record_ok m rs r" using here[of m] by simp
    then show ?thesis using rest Inl by simp
  next
    case (Inr v')
    then have "record_ok m rs r" using here[of m] by simp
    with Cons.IH[OF record_tracks[OF Cons.prems(1) Inr]] Cons.prems(2) Inr rest show ?thesis by simp
  qed
qed simp

end
