(* ===== verification/Reducer_Results.thy ===== *)
theory Reducer_Results
  imports Reducer_Validation
begin

text \<open>
  Properties of the reducer: which slices it accepts, that the input order of the records does
  not matter, and what the reconstructed state says about queue items, tool calls and the
  effective configuration. Every proof rests on the acceptance criterion of
  \<open>Reducer_Validation\<close>.
\<close>

section \<open>Acceptance\<close>

definition earlier_records :: "'a record_log_slice_scheme \<Rightarrow> lane_record \<Rightarrow> lane_record list" where
  "earlier_records sl r = sort_key rc_seq (filter (\<lambda>x. rc_seq x < rc_seq r) (sl_records sl))"

lemma handles_pass: "validateDeferredHandles es = Inr () \<longleftrightarrow> (\<forall>e \<in> set es. \<not> lacks_handle e)"
  by (induction es) (auto simp: corrupt_def)

lemma sorted_strict:
  "distinct (map f xs) \<Longrightarrow> sorted_wrt (<) (map f (sort_key f xs))" for f :: "'a \<Rightarrow> 'b::linorder"
  by (simp add: strict_sorted_iff distinct_map)

lemma accepts_iff:
  assumes deq: "\<forall>x y. deq x y \<longleftrightarrow> x = y" and dist: "distinct (map rc_seq (sl_records sl))"
  shows "validateRecordLog deq sl = Inr () \<longleftrightarrow>
     length (sl_openOperations sl) \<le> 1 \<and>
     (\<forall>e \<in> set (map snd (entries_by_id (sl_entries sl))). \<not> lacks_handle e) \<and>
     (\<forall>r \<in> set (sl_records sl). record_ok (entries_by_id (sl_entries sl)) (earlier_records sl r) r)"
proof -
  let ?m = "entries_by_id (sl_entries sl)" and ?rs = "sort_key rc_seq (sl_records sl)"
  have "sorted_wrt (<) (map rc_seq ([] @ ?rs))"
    using sorted_strict[OF dist] by simp
  from loop_passes[OF deq tracks_empty this]
  have "passes (fold_result (validate_record deq ?m) ?rs no_validation) \<longleftrightarrow>
      (\<forall>pre r post. ?rs = pre @ r # post \<longrightarrow> record_ok ?m pre r)"
    by simp
  also have "\<dots> \<longleftrightarrow> (\<forall>r \<in> set (sl_records sl). record_ok ?m (earlier_records sl r) r)"
  proof (intro iffI ballI allI impI)
    fix r assume all: "\<forall>pre r post. ?rs = pre @ r # post \<longrightarrow> record_ok ?m pre r"
      and "r \<in> set (sl_records sl)"
    then obtain pre post where split: "?rs = pre @ r # post"
      by (metis set_sort split_list)
    with all sort_key_prefix[OF dist split] show "record_ok ?m (earlier_records sl r) r"
      by (auto simp: earlier_records_def)
  next
    fix pre r post assume all: "\<forall>r \<in> set (sl_records sl). record_ok ?m (earlier_records sl r) r"
      and split: "?rs = pre @ r # post"
    from split have "r \<in> set (sl_records sl)" by (metis in_set_conv_decomp set_sort)
    with all sort_key_prefix[OF dist split] show "record_ok ?m pre r"
      by (auto simp: earlier_records_def)
  qed
  finally have loop: "passes (fold_result (validate_record deq ?m) ?rs no_validation) \<longleftrightarrow>
      (\<forall>r \<in> set (sl_records sl). record_ok ?m (earlier_records sl r) r)" .
  have "validateRecordLog deq sl = Inr () \<longleftrightarrow>
      length (sl_openOperations sl) \<le> 1 \<and> validateDeferredHandles (map snd ?m) = Inr () \<and>
      passes (fold_result (validate_record deq ?m) ?rs no_validation)"
    by (auto simp: validateRecordLog_def Let_def corrupt_def bind_result_Inr_iff passes_def)
  then show ?thesis
    unfolding loop handles_pass .
qed

section \<open>Lookup in an accepted slice\<close>

text \<open>
  The caller passes the entries of the operation among the entries of the slice, and entry ids
  are unique: then the two id maps of the reducer agree.
\<close>

definition own_covered :: "lane_reduction_input \<Rightarrow> bool" where
  "own_covered input \<longleftrightarrow>
     distinct (map en_id (sl_entries input)) \<and> set (ri_ownEntries input) \<subseteq> set (sl_entries input)"

lemma map_get_entries:
  assumes "set es' \<subseteq> set es" and "distinct (map en_id es)"
  shows "map_get (entries_by_id (es @ es')) i = map_get (entries_by_id es) i"
proof -
  have inj: "inj_on en_id (set es)" using assms(2) by (simp add: distinct_map)
  have get: "map_of (map (\<lambda>e. (en_id e, e)) xs) i = (if \<exists>e \<in> set xs. en_id e = i
      then Some (THE e. e \<in> set es \<and> en_id e = i) else None)" if "set xs \<subseteq> set es" for xs
    using that
  proof (induction xs)
    case (Cons x xs)
    have "(THE e. e \<in> set es \<and> en_id e = en_id x) = x"
      using Cons.prems inj by (auto simp: inj_on_def)
    with Cons show ?case by auto
  qed simp
  show ?thesis
    using get[of "rev (es @ es')"] get[of "rev es"] assms(1)
    by (auto simp: entries_by_id_def map_get_from rev_map)
qed

lemma map_get_entry:
  assumes "distinct (map en_id es)"
  shows "map_get (entries_by_id es) i = Some e \<longleftrightarrow> e \<in> set es \<and> en_id e = i"
proof -
  have "distinct (map en_id (rev es))" using assms by (simp flip: rev_map)
  from map_of_by_id[OF this] show ?thesis
    by (simp add: entries_by_id_def map_get_from rev_map)
qed

lemma reduce_map:
  assumes "own_covered input"
  shows "map_get (entries_by_id (sl_entries input @ bySequence (ri_ownEntries input))) i
    = map_get (entries_by_id (sl_entries input)) i"
  by (rule map_get_entries) (use assms in \<open>auto simp: own_covered_def bySequence_def\<close>)

text \<open>The operation of a reduced lane, with the maps it was computed from.\<close>

lemma reduce_operation_state:
  assumes red: "reduceLaneState deq input = Inr res" and os: "ls_operation (rr_laneState res) = Some os"
  shows "validateRecordLog deq input = Inr () \<and>
    (\<exists>started i f. open_intent (sl_openOperations input) = Some (started, i) \<and>
      reduce_operation started i (sort_key rc_seq (sl_records input)) (bySequence (ri_ownEntries input))
        (entries_by_id (sl_entries input @ bySequence (ri_ownEntries input)))
        (pending_queue (sort_key rc_seq (sl_records input))
          (entries_by_id (sl_entries input @ bySequence (ri_ownEntries input)))) = (os, f))"
proof -
  from red have "validateRecordLog deq input = Inr ()"
    by (auto simp: reduceLaneState_def elim!: bind_result_InrE)
  with red os show ?thesis
    by (auto simp: reduceLaneState_def Let_def)
qed

section \<open>Queue items\<close>

lemma in_map_filter: "y \<in> set (List.map_filter f xs) \<longleftrightarrow> (\<exists>x \<in> set xs. f x = Some y)"
  by (induction xs) (auto simp: map_filter_simps split: option.splits)

lemma record_enqueue_iff: "record_enqueue r = Some q \<longleftrightarrow> rc_body r = RB_queue_enqueued q"
  by (auto simp: record_enqueue_def split: record_body.splits)

lemma record_cancelled_iff: "record_cancelled r = Some i \<longleftrightarrow> (\<exists>run. rc_body r = RB_queue_cancelled run i)"
  by (auto simp: record_cancelled_def split: record_body.splits)

text \<open>The targets a steering or follow-up queue of the operation still has to deliver.\<close>

definition pending_targets :: "operation_state \<Rightarrow> queue \<Rightarrow> provisioned_entry list" where
  "pending_targets os qu =
     (case qu of Q_steer \<Rightarrow> os_pendingSteer os | Q_followUp \<Rightarrow> os_pendingFollowUp os | Q_nextRun \<Rightarrow> [])"

lemma accepted_record:
  assumes "\<forall>x y. deq x y \<longleftrightarrow> x = y" and "distinct (map rc_seq (sl_records sl))"
    and "validateRecordLog deq sl = Inr ()" and "r \<in> set (sl_records sl)"
  shows "record_ok (entries_by_id (sl_entries sl)) (earlier_records sl r) r"
  using accepts_iff[OF assms(1,2)] assms(3,4) by blast

lemma accepted_cancel:
  assumes "\<forall>x y. deq x y \<longleftrightarrow> x = y" and "distinct (map rc_seq (sl_records sl))"
    and "validateRecordLog deq sl = Inr ()" and "r \<in> set (sl_records sl)"
    and "record_cancelled r = Some i"
  shows "map_get (entries_by_id (sl_entries sl)) i = None"
  using accepted_record[OF assms(1-4)] assms(5) by (auto simp: record_ok_def record_cancelled_iff)

lemma accepted_enqueue:
  assumes "\<forall>x y. deq x y \<longleftrightarrow> x = y" and "distinct (map rc_seq (sl_records sl))"
    and "validateRecordLog deq sl = Inr ()" and "r \<in> set (sl_records sl)"
    and "rc_body r = RB_queue_enqueued q"
  shows "target_ok (entries_by_id (sl_entries sl)) (qe_target q)"
  using accepted_record[OF assms(1-4)] assms(5) by (simp add: record_ok_def)

text \<open>
  The specification of the queues: the items in the order they were enqueued, and what may have
  become of one.
\<close>

definition enqueued :: "lane_reduction_input \<Rightarrow> queue_enqueued list" where
  "enqueued input = List.map_filter record_enqueue (sort_key rc_seq (sl_records input))"

definition stored_as :: "lane_reduction_input \<Rightarrow> provisioned_entry \<Rightarrow> bool" where
  "stored_as input t \<longleftrightarrow> (\<exists>e \<in> set (sl_entries input). provisioned_entry.truncate e = t)"

definition cancelled_in :: "lane_reduction_input \<Rightarrow> string \<Rightarrow> bool" where
  "cancelled_in input i \<longleftrightarrow> (\<exists>c \<in> set (sl_records input). \<exists>run. rc_body c = RB_queue_cancelled run i)"

definition outstanding :: "lane_reduction_input \<Rightarrow> string \<Rightarrow> bool" where
  "outstanding input i \<longleftrightarrow> \<not> has_id (sl_entries input) i \<and> \<not> cancelled_in input i"

definition captured_ids :: "lane_state \<Rightarrow> string set" where
  "captured_ids ls =
     (case ls_operation ls of None \<Rightarrow> {} | Some os \<Rightarrow> set (map en_id (initial_messages (os_intent os))))"

lemma enqueued_iff: "q \<in> set (enqueued input) \<longleftrightarrow> (\<exists>r \<in> set (sl_records input). rc_body r = RB_queue_enqueued q)"
  by (auto simp: enqueued_def in_map_filter record_enqueue_iff)

lemma no_entry:
  assumes "distinct (map en_id es)"
  shows "map_get (entries_by_id es) i = None \<longleftrightarrow> \<not> has_id es i"
  by (cases "map_get (entries_by_id es) i")
    (use map_get_entry[OF assms, of i] in \<open>auto simp: has_id_def image_iff\<close>)

lemma pending_filter:
  assumes "own_covered input"
  shows "pending_queue (sort_key rc_seq (sl_records input))
      (entries_by_id (sl_entries input @ bySequence (ri_ownEntries input))) =
    filter (\<lambda>q. outstanding input (en_id (qe_target q))) (enqueued input)"
proof -
  have ids: "distinct (map en_id (sl_entries input))" using assms by (simp add: own_covered_def)
  have "cancelled_in input i \<longleftrightarrow>
      i \<in> set (List.map_filter record_cancelled (sort_key rc_seq (sl_records input)))" for i
    unfolding cancelled_in_def in_map_filter record_cancelled_iff set_sort ..
  then show ?thesis
    by (simp add: pending_queue_def Let_def enqueued_def outstanding_def reduce_map[OF assms] no_entry[OF ids])
qed

lemma reduce_pending_next:
  assumes red: "reduceLaneState deq input = Inr res" and own: "own_covered input"
  shows "ls_pendingNextRun (rr_laneState res) =
    map qe_target (filter (\<lambda>q. outstanding input (en_id (qe_target q)) \<and> qe_queue q = Q_nextRun \<and>
      en_id (qe_target q) \<notin> captured_ids (rr_laneState res)) (enqueued input))"
proof -
  let ?opened = "open_intent (sl_openOperations input)" and ?rs = "sort_key rc_seq (sl_records input)"
    and ?own = "bySequence (ri_ownEntries input)"
  let ?m = "entries_by_id (sl_entries input @ ?own)"
  from red have pending: "ls_pendingNextRun (rr_laneState res) = pending_next_run (pending_queue ?rs ?m)
        (case ?opened of None \<Rightarrow> [] | Some (_, i) \<Rightarrow> initial_messages i)"
    and op: "ls_operation (rr_laneState res) = map_option fst
        (map_option (\<lambda>(started, i). reduce_operation started i ?rs ?own ?m (pending_queue ?rs ?m)) ?opened)"
    by (auto simp: reduceLaneState_def Let_def elim!: bind_result_InrE)
  have intent: "os_intent (fst (reduce_operation started i rs own m pending)) = i" for started i rs own m pending
    by (simp add: reduce_operation_def Let_def)
  have "captured_ids (rr_laneState res) =
      set (map en_id (case ?opened of None \<Rightarrow> [] | Some (_, i) \<Rightarrow> initial_messages i))"
    unfolding captured_ids_def op by (cases ?opened) (auto simp: intent)
  then show ?thesis
    unfolding pending pending_next_run_def pending_filter[OF own] filter_filter
    by (auto intro!: arg_cong[of _ _ "map qe_target"] filter_cong)
qed

lemma record_abort_iff:
  "record_type_of r = RT_abort_requested \<longleftrightarrow> (\<exists>run. rc_body r = RB_abort_requested run)"
  by (cases "rc_body r") simp_all

lemma reduce_pending_operation:
  assumes red: "reduceLaneState deq input = Inr res" and own: "own_covered input"
    and os: "ls_operation (rr_laneState res) = Some os"
  shows "os_aborting os \<longleftrightarrow> (\<exists>r \<in> set (sl_records input). rc_body r = RB_abort_requested (os_id os))"
    and "pending_targets os qu = (if os_aborting os \<or> qu = Q_nextRun then []
      else map qe_target (filter (\<lambda>q. outstanding input (en_id (qe_target q)) \<and> qe_queue q = qu \<and>
        qe_runId q = Some (os_id os)) (enqueued input)))"
    and "os_missingInitialMessages os =
      filter (\<lambda>t. \<not> has_id (sl_entries input) (en_id t)) (initial_messages (os_intent os))"
proof -
  let ?rs = "sort_key rc_seq (sl_records input)"
  let ?m = "entries_by_id (sl_entries input @ bySequence (ri_ownEntries input))"
  have ids: "distinct (map en_id (sl_entries input))" using own by (simp add: own_covered_def)
  from reduce_operation_state[OF red os] obtain started i f where
    op: "reduce_operation started i ?rs (bySequence (ri_ownEntries input)) ?m (pending_queue ?rs ?m) = (os, f)"
    by blast
  then have sel: "os_id os = rc_id started" "os_intent os = i"
    "os_aborting os = list_ex (\<lambda>r. record_type_of r = RT_abort_requested) (operation_records (rc_id started) ?rs)"
    "os_missingInitialMessages os = filter (\<lambda>t. \<not> map_has ?m (en_id t)) (initial_messages i)"
    "os_pendingSteer os = pending_in Q_steer (rc_id started) (os_aborting os) (pending_queue ?rs ?m)"
    "os_pendingFollowUp os = pending_in Q_followUp (rc_id started) (os_aborting os) (pending_queue ?rs ?m)"
    by (auto simp: reduce_operation_def Let_def)
  show "os_aborting os \<longleftrightarrow> (\<exists>r \<in> set (sl_records input). rc_body r = RB_abort_requested (os_id os))"
    unfolding sel(3) list_ex_iff record_abort_iff sel(1) by (auto simp: operation_records_def)
  show "pending_targets os qu = (if os_aborting os \<or> qu = Q_nextRun then []
      else map qe_target (filter (\<lambda>q. outstanding input (en_id (qe_target q)) \<and> qe_queue q = qu \<and>
        qe_runId q = Some (os_id os)) (enqueued input)))"
    by (cases qu) (simp_all add: pending_targets_def sel(1,5,6) pending_in_def pending_filter[OF own] conj_commute)
  show "os_missingInitialMessages os =
      filter (\<lambda>t. \<not> has_id (sl_entries input) (en_id t)) (initial_messages (os_intent os))"
    by (simp add: sel(2,4) reduce_map[OF own] no_entry[OF ids, symmetric])
qed

section \<open>Tool calls\<close>

lemma tool_starts_in_records:
  assumes "map_get (tool_starts op a rs) k = Some t"
  shows "\<exists>r \<in> set rs. rc_body r = RB_tool_started t \<and> ts_assistantEntryId t = a \<and> ts_toolIndex t = k"
proof -
  let ?starts = "List.map_filter (\<lambda>r. case rc_body r of
       RB_tool_started t \<Rightarrow>
         if ts_runId t = op \<and> ts_assistantEntryId t = a then Some (ts_toolIndex t, t) else None
     | _ \<Rightarrow> None) rs"
  from assms have "map_of (rev ?starts) k = Some t"
    by (simp add: tool_starts_def map_get_from)
  from map_of_SomeD[OF this] have "(k, t) \<in> set ?starts" unfolding set_rev .
  then obtain r where r: "r \<in> set rs" "(case rc_body r of
       RB_tool_started t \<Rightarrow>
         if ts_runId t = op \<and> ts_assistantEntryId t = a then Some (ts_toolIndex t, t) else None
     | _ \<Rightarrow> None) = Some (k, t)"
    unfolding in_map_filter by blast
  from r(2) have "rc_body r = RB_tool_started t \<and> ts_assistantEntryId t = a \<and> ts_toolIndex t = k"
    by (cases "rc_body r") (auto split: if_splits)
  with r(1) show ?thesis by blast
qed

lemma calling_entry_in:
  assumes "calling_entry own = Some (e, a)"
  shows "e \<in> set own \<and> entry_assistant e = Some a"
proof -
  from assms have "(e, a) \<in> set (List.map_filter (\<lambda>e. case entry_assistant e of
       Some a \<Rightarrow> if message_tool_calls a \<noteq> [] then Some (e, a) else None | None \<Rightarrow> None) (rev own))"
    by (auto simp: calling_entry_def split: list.splits)
  then show ?thesis by (auto simp: in_map_filter split: option.splits if_splits)
qed

lemma js_index_nth: "js_index xs (int k) = Some x \<longleftrightarrow> k < length xs \<and> xs ! k = x"
  by (auto simp: js_index_def)

lemma blocked_result_ok:
  assumes "blocked_result caller own ids c = Some e"
  shows "e \<in> set own \<and> (\<exists>r. entry_tool_result e = Some r \<and> tr_toolCallId r = tc_id c)"
  using assms by (auto simp: blocked_result_def find_Some_iff split: option.splits)

text \<open>
  What the reducer claims about a call of the batch: its start record, if any, names this call,
  and a result it counts is a tool result for this call.
\<close>

definition call_sound :: "entry list \<Rightarrow> batch_call \<Rightarrow> bool" where
  "call_sound es c \<longleftrightarrow>
     (\<forall>t. bc_started c = Some t \<longrightarrow>
        ts_toolCallId t = tc_id (bc_toolCall c) \<and> ts_toolName t = tc_name (bc_toolCall c)) \<and>
     (bc_resultExists c \<longrightarrow>
        (\<exists>e \<in> set es. \<exists>r. entry_tool_result e = Some r \<and> tr_toolCallId r = tc_id (bc_toolCall c)))"

lemma batch_call_sound:
  assumes deq: "\<forall>x y. deq x y \<longleftrightarrow> x = y" and dist: "distinct (map rc_seq (sl_records sl))"
    and ok: "validateRecordLog deq sl = Inr ()"
    and ids: "distinct (map en_id (sl_entries sl))" and own: "set own \<subseteq> set (sl_entries sl)"
    and m: "\<And>i. map_get m i = map_get (entries_by_id (sl_entries sl)) i"
    and rs: "set rs \<subseteq> set (sl_records sl)"
    and caller: "calling_entry own = Some (caller, a)" and k: "k < length (message_tool_calls a)"
  shows "call_sound (sl_entries sl) (batch_call_of caller (tool_starts op (en_id caller) rs) own m dw k
    (message_tool_calls a ! k))"
proof -
  let ?c = "message_tool_calls a ! k" and ?starts = "tool_starts op (en_id caller) rs"
  from calling_entry_in[OF caller] own have caller_in: "caller \<in> set (sl_entries sl)"
    and a: "entry_assistant caller = Some a" by auto
  have start: "ts_toolCallId t = tc_id ?c \<and> ts_toolName t = tc_name ?c \<and>
      result_ok (entries_by_id (sl_entries sl)) (ts_resultEntryId t) (result_of_call t)"
    if "map_get ?starts (int k) = Some t" for t
  proof -
    from tool_starts_in_records[OF that] obtain r where r: "r \<in> set rs" "rc_body r = RB_tool_started t"
      "ts_assistantEntryId t = en_id caller" "ts_toolIndex t = int k" by blast
    from accepted_record[OF deq dist ok, of r] r rs
    have "tool_start_ok (entries_by_id (sl_entries sl)) (tool_starts_in (earlier_records sl r)) t"
      by (auto simp: record_ok_def)
    moreover have "map_get (entries_by_id (sl_entries sl)) (en_id caller) = Some caller"
      using caller_in by (simp add: map_get_entry[OF ids])
    ultimately show ?thesis
      using r(3,4) a by (auto simp: tool_start_ok_def js_index_nth)
  qed
  have res: "e \<in> set (sl_entries sl) \<and> (\<exists>r. entry_tool_result e = Some r \<and> tr_toolCallId r = tc_id ?c)"
    if "map_get ?starts (int k) = Some t" "map_get m (ts_resultEntryId t) = Some e" for t e
  proof -
    from that(2) have e: "map_get (entries_by_id (sl_entries sl)) (ts_resultEntryId t) = Some e"
      by (simp add: m)
    with start[OF that(1)] show ?thesis
      by (auto simp: result_ok_def result_of_call_def map_get_entry[OF ids] split: option.splits)
  qed
  have blocked: "e \<in> set (sl_entries sl) \<and> (\<exists>r. entry_tool_result e = Some r \<and> tr_toolCallId r = tc_id ?c)"
    if "blocked_result caller own dw ?c = Some e" for e
    using blocked_result_ok[OF that] own by blast
  show ?thesis
  proof (cases "map_get ?starts (int k)")
    case None
    then show ?thesis
      using blocked by (cases "blocked_result caller own dw ?c")
        (auto simp: call_sound_def batch_call_of_def Let_def)
  next
    case (Some t)
    show ?thesis
    proof (cases "map_get m (ts_resultEntryId t)")
      case None
      then show ?thesis
        using Some start[OF Some] blocked by (cases "blocked_result caller own dw ?c")
          (auto simp: call_sound_def batch_call_of_def Let_def)
    next
      case (Some e)
      note e = Some
      show ?thesis
        using \<open>map_get ?starts (int k) = Some t\<close> e start res[OF _ e]
        by (auto simp: call_sound_def batch_call_of_def Let_def)
    qed
  qed
qed

lemma deriveToolBatch_Some:
  "deriveToolBatch op rs own m dw = Some tb \<longleftrightarrow>
     (\<exists>caller a. calling_entry own = Some (caller, a) \<and>
       tb = \<lparr>tb_assistantEntryId = en_id caller,
         tb_calls = map2 (batch_call_of caller (tool_starts op (en_id caller) rs) own m dw)
           [0..<length (message_tool_calls a)] (message_tool_calls a),
         tb_truncated = (am_stopReason a = SR_length),
         tb_unresolved = list_ex (\<lambda>c. \<not> bc_resultExists c)
           (map2 (batch_call_of caller (tool_starts op (en_id caller) rs) own m dw)
             [0..<length (message_tool_calls a)] (message_tool_calls a))\<rparr>)"
  by (auto simp: deriveToolBatch_def Let_def split: option.splits)

lemma nth_batch:
  "k < length xs \<Longrightarrow> map2 f [0..<length xs] xs ! k = f k (xs ! k)"
  by simp

lemma batch_call_simps:
  "bc_toolIndex (batch_call_of caller starts own m dw k c) = k"
  "bc_toolCall (batch_call_of caller starts own m dw k c) = c"
  by (simp_all add: batch_call_of_def Let_def)

text \<open>The tool starts of a call and the results the batch may count for it, over the slice itself.\<close>

definition start_recorded :: "lane_reduction_input \<Rightarrow> string \<Rightarrow> entry \<Rightarrow> nat \<Rightarrow> tool_started \<Rightarrow> bool" where
  "start_recorded input run caller k t \<longleftrightarrow>
     (\<exists>r \<in> set (sl_records input). rc_body r = RB_tool_started t) \<and> ts_runId t = run \<and>
     ts_assistantEntryId t = en_id caller \<and> ts_toolIndex t = int k"

definition write_target_of :: "lane_reduction_input \<Rightarrow> string \<Rightarrow> string \<Rightarrow> bool" where
  "write_target_of input run i \<longleftrightarrow>
     (\<exists>r \<in> set (sl_records input). \<exists>t. rc_body r = RB_write_deferred run t \<and> en_id t = i)"

definition stored_result :: "lane_reduction_input \<Rightarrow> string \<Rightarrow> entry \<Rightarrow> nat \<Rightarrow> entry \<Rightarrow> bool" where
  "stored_result input run caller k e \<longleftrightarrow>
     e \<in> set (sl_entries input) \<and> (\<exists>t. start_recorded input run caller k t \<and> ts_resultEntryId t = en_id e)"

definition unstarted_result :: "lane_reduction_input \<Rightarrow> string \<Rightarrow> entry \<Rightarrow> tool_call \<Rightarrow> entry \<Rightarrow> bool" where
  "unstarted_result input run caller c e \<longleftrightarrow>
     e \<in> set (ri_ownEntries input) \<and> en_seq caller < en_seq e \<and> \<not> write_target_of input run (en_id e) \<and>
     (\<exists>r. entry_tool_result e = Some r \<and> tr_toolCallId r = tc_id c)"

text \<open>
  The result that counts: the stored target of the start record, otherwise the earliest own tool
  result for the call after the caller that is no deferred write.
\<close>

definition counted_result :: "lane_reduction_input \<Rightarrow> string \<Rightarrow> entry \<Rightarrow> nat \<Rightarrow> tool_call \<Rightarrow> entry \<Rightarrow> bool" where
  "counted_result input run caller k c e \<longleftrightarrow>
     stored_result input run caller k e \<or>
     (\<nexists>x. stored_result input run caller k x) \<and> unstarted_result input run caller c e \<and>
       (\<forall>x. unstarted_result input run caller c x \<longrightarrow> en_seq e \<le> en_seq x)"

lemma calling_entry_None:
  "calling_entry own = None \<longleftrightarrow>
     (\<forall>e \<in> set own. \<forall>a. entry_assistant e = Some a \<longrightarrow> message_tool_calls a = [])"
  by (induction own)
    (auto simp: calling_entry_def List.map_filter_def split: option.splits list.splits if_splits)

lemma calling_entry_Some:
  assumes "calling_entry own = Some (e, a)"
  shows "entry_assistant e = Some a \<and> message_tool_calls a \<noteq> [] \<and>
     (\<exists>pre post. own = pre @ e # post \<and> calling_entry post = None)"
  using assms
proof (induction own)
  case (Cons x own)
  let ?f = "\<lambda>e. case entry_assistant e of Some a \<Rightarrow> if message_tool_calls a \<noteq> [] then Some (e, a) else None
      | None \<Rightarrow> None"
  show ?case
  proof (cases "calling_entry own")
    case None
    then have "?f x = Some (e, a)"
      using Cons.prems unfolding calling_entry_def
      by (auto simp: map_filter_simps List.map_filter_def split: list.splits option.splits if_splits)
    then have "x = e" "entry_assistant e = Some a" "message_tool_calls a \<noteq> []"
      by (auto split: option.splits if_splits)
    with None show ?thesis by blast
  next
    case (Some y)
    then have "calling_entry (x # own) = Some y"
      by (auto simp: calling_entry_def List.map_filter_def split: list.splits)
    with Cons Some show ?thesis by (metis append_Cons)
  qed
qed (simp add: calling_entry_def List.map_filter_def)

lemma tool_starts_get:
  assumes unique: "\<And>t u. t \<in> T \<Longrightarrow> u \<in> T \<Longrightarrow> ts_assistantEntryId t = ts_assistantEntryId u \<Longrightarrow>
      ts_toolIndex t = ts_toolIndex u \<Longrightarrow> t = u"
    and T: "T = {t. \<exists>r \<in> set rs. rc_body r = RB_tool_started t}"
  shows "map_get (tool_starts run a rs) k = Some t \<longleftrightarrow>
    t \<in> T \<and> ts_runId t = run \<and> ts_assistantEntryId t = a \<and> ts_toolIndex t = k"
proof -
  let ?f = "\<lambda>r. case rc_body r of
       RB_tool_started t \<Rightarrow>
         if ts_runId t = run \<and> ts_assistantEntryId t = a then Some (ts_toolIndex t, t) else None
     | _ \<Rightarrow> None"
  have f: "?f r = Some (k, t) \<longleftrightarrow> rc_body r = RB_tool_started t \<and> ts_runId t = run \<and>
      ts_assistantEntryId t = a \<and> ts_toolIndex t = k" for r k t
    by (auto split: record_body.splits)
  have in_starts: "(k, t) \<in> set (rev (List.map_filter ?f rs)) \<longleftrightarrow>
      t \<in> T \<and> ts_runId t = run \<and> ts_assistantEntryId t = a \<and> ts_toolIndex t = k" for k t
    unfolding set_rev in_map_filter f T by blast
  have get: "map_get (tool_starts run a rs) k = map_of (rev (List.map_filter ?f rs)) k"
    by (simp add: tool_starts_def map_get_from)
  show ?thesis
  proof
    assume "map_get (tool_starts run a rs) k = Some t"
    then show "t \<in> T \<and> ts_runId t = run \<and> ts_assistantEntryId t = a \<and> ts_toolIndex t = k"
      unfolding get by (simp only: in_starts[symmetric] map_of_SomeD)
  next
    assume t: "t \<in> T \<and> ts_runId t = run \<and> ts_assistantEntryId t = a \<and> ts_toolIndex t = k"
    then have "(k, t) \<in> set (rev (List.map_filter ?f rs))" by (simp only: in_starts)
    from weak_map_of_SomeI[OF this] obtain u
      where u: "map_of (rev (List.map_filter ?f rs)) k = Some u" by (rule exE)
    from map_of_SomeD[OF u] have "(k, u) \<in> set (rev (List.map_filter ?f rs))" .
    then have "u \<in> T \<and> ts_runId u = run \<and> ts_assistantEntryId u = a \<and> ts_toolIndex u = k"
      by (simp only: in_starts)
    with t unique[of u t] have "u = t" by simp
    with u show "map_get (tool_starts run a rs) k = Some t" unfolding get by simp
  qed
qed

lemma accepted_starts_unique:
  assumes deq: "\<forall>x y. deq x y \<longleftrightarrow> x = y" and dist: "distinct (map rc_seq (sl_records sl))"
    and ok: "validateRecordLog deq sl = Inr ()"
    and r: "r \<in> set (sl_records sl)" "rc_body r = RB_tool_started t"
    and s: "s \<in> set (sl_records sl)" "rc_body s = RB_tool_started u"
    and same: "ts_assistantEntryId t = ts_assistantEntryId u" "ts_toolIndex t = ts_toolIndex u"
  shows "t = u"
proof -
  have later: False if "x \<in> set (sl_records sl)" "rc_body x = RB_tool_started v"
      "y \<in> set (sl_records sl)" "rc_body y = RB_tool_started w"
      "ts_assistantEntryId v = ts_assistantEntryId w" "ts_toolIndex v = ts_toolIndex w"
      "rc_seq x < rc_seq y" for x y v w
  proof -
    have "v \<in> set (tool_starts_in (earlier_records sl y))"
      unfolding tool_starts_in_def in_map_filter
      using that by (intro bexI[of _ x]) (auto simp: earlier_records_def)
    with accepted_record[OF deq dist ok that(3)] that(4-6) show False
      by (auto simp: record_ok_def tool_start_ok_def)
  qed
  from later[OF r s same] later[OF s r same[symmetric]] have "rc_seq r = rc_seq s" by (meson linorder_less_linear)
  with dist r(1) s(1) have "r = s" by (auto simp: distinct_map inj_on_def)
  with r s show ?thesis by simp
qed

lemma blocked_result_Some:
  assumes "blocked_result caller own ids c = Some e" and "sorted (map en_seq own)"
  shows "e \<in> set own \<and> en_seq caller < en_seq e \<and> en_id e \<notin> set ids \<and>
     (\<exists>r. entry_tool_result e = Some r \<and> tr_toolCallId r = tc_id c) \<and>
     (\<forall>x \<in> set own. en_seq caller < en_seq x \<and> en_id x \<notin> set ids \<and>
       (\<exists>r. entry_tool_result x = Some r \<and> tr_toolCallId r = tc_id c) \<longrightarrow> en_seq e \<le> en_seq x)"
proof -
  from assms(1) obtain i where i: "i < length own" "e = own ! i" and
    p: "en_seq caller < en_seq e \<and> en_id e \<notin> set ids \<and>
      (case entry_tool_result e of None \<Rightarrow> False | Some r \<Rightarrow> tr_toolCallId r = tc_id c)" and
    first: "\<And>j. j < i \<Longrightarrow> \<not> (en_seq caller < en_seq (own ! j) \<and> en_id (own ! j) \<notin> set ids \<and>
      (case entry_tool_result (own ! j) of None \<Rightarrow> False | Some r \<Rightarrow> tr_toolCallId r = tc_id c))"
    unfolding blocked_result_def find_Some_iff by auto
  have "en_seq e \<le> en_seq x" if x: "x \<in> set own" "en_seq caller < en_seq x" "en_id x \<notin> set ids"
    "entry_tool_result x = Some r" "tr_toolCallId r = tc_id c" for x r
  proof -
    from x(1) obtain j where j: "j < length own" "x = own ! j" by (metis in_set_conv_nth)
    with first[of j] x have "i \<le> j" by (cases "j < i") auto
    with sorted_nth_mono[OF assms(2)] i j show ?thesis by simp
  qed
  then show ?thesis
    using i p nth_mem[OF i(1)] by (auto split: option.splits)
qed

lemma batch_call_exact:
  assumes starts: "\<And>t. map_get starts (int k) = Some t \<longleftrightarrow> start_recorded input run caller k t"
    and m: "\<And>i e. map_get m i = Some e \<longleftrightarrow> e \<in> set (sl_entries input) \<and> en_id e = i"
    and own: "set own = set (ri_ownEntries input)" "sorted (map en_seq own)"
    and dw: "\<And>i. i \<in> set dw \<longleftrightarrow> write_target_of input run i"
    and bc: "bc = batch_call_of caller starts own m dw k c"
  shows "(bc_started bc = Some t \<longleftrightarrow> start_recorded input run caller k t) \<and>
     (bc_resultExists bc \<longleftrightarrow> (\<exists>e. counted_result input run caller k c e)) \<and>
     (bc_terminate bc \<longrightarrow> (\<exists>e. counted_result input run caller k c e \<and> is_terminating e)) \<and>
     ((\<exists>e. counted_result input run caller k c e) \<and>
       (\<forall>e. counted_result input run caller k c e \<longrightarrow> is_terminating e) \<longrightarrow> bc_terminate bc)"
proof -
  let ?first = "case map_get starts (int k) of None \<Rightarrow> None | Some t \<Rightarrow> map_get m (ts_resultEntryId t)"
  let ?res = "case ?first of Some e \<Rightarrow> Some e | None \<Rightarrow> blocked_result caller own dw c"
  have first: "?first = Some e \<longleftrightarrow> stored_result input run caller k e" for e
    by (auto simp: stored_result_def m starts[symmetric] split: option.splits)
  have unstarted: "unstarted_result input run caller c x \<longleftrightarrow> x \<in> set own \<and> en_seq caller < en_seq x \<and>
      en_id x \<notin> set dw \<and> (\<exists>r. entry_tool_result x = Some r \<and> tr_toolCallId r = tc_id c)" for x
    by (simp add: unstarted_result_def own dw)
  have res: "counted_result input run caller k c e" if "?res = Some e" for e
  proof (cases ?first)
    case None
    with that have "blocked_result caller own dw c = Some e" by simp
    from blocked_result_Some[OF this own(2)] None first show ?thesis
      unfolding counted_result_def unstarted by (metis option.distinct(1))
  next
    case (Some x)
    with that have "?first = Some e" by simp
    then show ?thesis unfolding first counted_result_def by (rule disjI1)
  qed
  have none: "?res \<noteq> None" if "counted_result input run caller k c e" for e
  proof (cases ?first)
    case None
    with that first have "unstarted_result input run caller c e"
      unfolding counted_result_def by (metis option.distinct(1))
    then have "blocked_result caller own dw c \<noteq> None"
      unfolding blocked_result_def find_None_iff unstarted by force
    with None show ?thesis by simp
  qed simp
  have sel: "bc_started bc = map_get starts (int k)" "bc_resultExists bc = (?res \<noteq> None)"
    "bc_terminate bc = (case ?res of None \<Rightarrow> False | Some e \<Rightarrow> is_terminating e)"
    by (simp_all add: bc batch_call_of_def Let_def)
  show ?thesis
    unfolding sel starts using res none by (cases ?res) auto
qed

text \<open>The newest own entry with tool calls.\<close>

definition newest_caller :: "lane_reduction_input \<Rightarrow> entry \<Rightarrow> assistant_message \<Rightarrow> bool" where
  "newest_caller input e a \<longleftrightarrow>
     e \<in> set (ri_ownEntries input) \<and> entry_assistant e = Some a \<and> message_tool_calls a \<noteq> [] \<and>
     (\<forall>x \<in> set (ri_ownEntries input). \<forall>b. entry_assistant x = Some b \<and> message_tool_calls b \<noteq> [] \<longrightarrow>
        en_seq x \<le> en_seq e)"

lemma calling_entry_newest:
  assumes "calling_entry (bySequence (ri_ownEntries input)) = Some (e, a)"
  shows "newest_caller input e a"
proof -
  from calling_entry_Some[OF assms] obtain pre post where
    own: "bySequence (ri_ownEntries input) = pre @ e # post" and later: "calling_entry post = None" by blast
  have "sorted (map en_seq (pre @ e # post))" unfolding own[symmetric] by (simp add: bySequence_def)
  then have "en_seq x \<le> en_seq e" if "x \<in> set pre" for x using that by (auto simp: sorted_append)
  moreover have "set (ri_ownEntries input) = insert e (set pre \<union> set post)"
    using arg_cong[OF own, of set] by (simp add: bySequence_def)
  ultimately show ?thesis
    using calling_entry_Some[OF assms] later unfolding calling_entry_None newest_caller_def by auto
qed

lemma record_write_iff: "record_write r = Some t \<longleftrightarrow> (\<exists>run. rc_body r = RB_write_deferred run t)"
  by (auto simp: record_write_def split: record_body.splits)

text \<open>The batch of a reduced operation, computed from what the slice says.\<close>

lemma reduce_batch:
  assumes deq: "\<forall>x y. deq x y \<longleftrightarrow> x = y" and dist: "distinct (map rc_seq (sl_records input))"
    and own: "own_covered input" and red: "reduceLaneState deq input = Inr res"
    and os: "ls_operation (rr_laneState res) = Some os"
  shows "\<exists>rs m dw. os_toolBatch os = deriveToolBatch (os_id os) rs (bySequence (ri_ownEntries input)) m dw \<and>
    (\<forall>i. map_get m i = map_get (entries_by_id (sl_entries input)) i) \<and> set rs \<subseteq> set (sl_records input) \<and>
    (\<forall>caller k t. map_get (tool_starts (os_id os) (en_id caller) rs) (int k) = Some t \<longleftrightarrow>
       start_recorded input (os_id os) caller k t) \<and>
    (\<forall>i. i \<in> set dw \<longleftrightarrow> write_target_of input (os_id os) i)"
proof -
  let ?all = "sort_key rc_seq (sl_records input)" and ?own = "bySequence (ri_ownEntries input)"
  let ?m = "entries_by_id (sl_entries input @ ?own)" and ?rs = "operation_records (os_id os) ?all"
  let ?dw = "map en_id (List.map_filter record_write ?rs)"
  have ids: "distinct (map en_id (sl_entries input))" using own by (simp add: own_covered_def)
  from reduce_operation_state[OF red os] obtain started i f where
    ok: "validateRecordLog deq input = Inr ()" and
    op: "reduce_operation started i ?all ?own ?m (pending_queue ?all ?m) = (os, f)" by blast
  have batch: "os_toolBatch os = deriveToolBatch (os_id os) ?rs ?own ?m ?dw"
    using op by (auto simp: reduce_operation_def Let_def)
  have starts: "map_get (tool_starts (os_id os) (en_id caller) ?rs) (int k) = Some t \<longleftrightarrow>
      start_recorded input (os_id os) caller k t" for caller k t
  proof -
    let ?T = "{t. \<exists>r \<in> set ?rs. rc_body r = RB_tool_started t}"
    have T: "t \<in> ?T \<longleftrightarrow> (\<exists>r \<in> set (sl_records input). rc_body r = RB_tool_started t) \<and> ts_runId t = os_id os" for t
      by (auto simp: operation_records_def)
    have "t = u" if "t \<in> ?T" "u \<in> ?T" "ts_assistantEntryId t = ts_assistantEntryId u"
      "ts_toolIndex t = ts_toolIndex u" for t u
      using that(1,2) accepted_starts_unique[OF deq dist ok _ _ _ _ that(3,4)] unfolding T by blast
    from tool_starts_get[of ?T ?rs, OF this refl] show ?thesis
      unfolding T start_recorded_def by blast
  qed
  have dw: "i \<in> set ?dw \<longleftrightarrow> write_target_of input (os_id os) i" for i
    by (fastforce simp: write_target_of_def in_map_filter record_write_iff operation_records_def)
  show ?thesis
    using batch starts dw by (intro exI conjI) (auto simp: reduce_map[OF own] operation_records_def)
qed

section \<open>Configuration\<close>

text \<open>The reducer's configuration is the context state with its gaps filled by the defaults.\<close>

definition configured :: "lane_configuration \<Rightarrow> context_state \<Rightarrow> bool \<Rightarrow> lane_configuration" where
  "configured d st set_level =
     \<lparr>lc_model = (case cx_model st of None \<Rightarrow> lc_model d | Some m \<Rightarrow> m),
      lc_thinkingLevel = (if set_level then cx_thinkingLevel st else lc_thinkingLevel d),
      lc_activeToolNames = (case cx_activeToolNames st of None \<Rightarrow> lc_activeToolNames d | Some ts \<Rightarrow> ts)\<rparr>"

lemma configure_step:
  "configure b (configured d st l) = configured d (derive_step b st) (l \<or> body_type b = ET_thinking_level_change)"
  by (cases "(b, st)" rule: derive_step.cases) (auto simp: configured_def)

lemma fold_configure:
  "fold (\<lambda>e. configure (en_body e)) es (configured d st l) =
     configured d (fold (\<lambda>e. derive_step (en_body e)) es st)
       (l \<or> (\<exists>e \<in> set es. entry_type_of e = ET_thinking_level_change))"
  by (induction es arbitrary: st l) (auto simp: configure_step)

lemma entries_by_id_values:
  assumes "distinct (map en_id es)"
  shows "map snd (entries_by_id es) = es"
  using assms map_from_distinct[of "map (\<lambda>e. (en_id e, e)) es"]
  by (simp add: entries_by_id_def comp_def)

section \<open>A sample slice\<close>

definition sample_call :: tool_call where
  "sample_call = \<lparr>tc_id = ''c1'', tc_name = ''read'', tc_arguments = [], tc_thoughtSignature = None,
     tc_namespace = None\<rparr>"

definition zero_usage :: usage where
  "zero_usage = \<lparr>us_input = 0, us_output = 0, us_cacheRead = 0, us_cacheWrite = 0,
     us_cacheWrite1h = None, us_reasoning = None, us_totalTokens = 0,
     us_cost = \<lparr>uc_input = 0, uc_output = 0, uc_cacheRead = 0, uc_cacheWrite = 0, uc_total = 0\<rparr>\<rparr>"

definition sample_assistant :: "content_block list \<Rightarrow> stop_reason \<Rightarrow> assistant_message" where
  "sample_assistant content stop =
     \<lparr>am_content = content, am_api = ''api'', am_provider = ''p'', am_model = ''m'',
      am_responseModel = None, am_responseId = None, am_diagnostics = None, am_usage = zero_usage,
      am_stopReason = stop, am_deferred = None, am_errorMessage = None, am_errorCode = None,
      am_errorStatus = None, am_rawStopReason = None, am_endTurn = None, am_timestamp = 0\<rparr>"

definition sample_reply :: entry where
  "sample_reply =
     \<lparr>en_id = ''m1'', en_body = E_message (Llm (AssistantMsg (sample_assistant [ToolCall sample_call] SR_toolUse))) False,
      en_seq = 2, en_parentId = None, en_timestamp = 0\<rparr>"

definition sample_record :: "string \<Rightarrow> record_body \<Rightarrow> nat \<Rightarrow> lane_record" where
  "sample_record i body n =
     \<lparr>rc_id = i, rc_lane = ''main'', rc_body = body, rc_seq = n, rc_timestamp = 0\<rparr>"

definition sample_open :: lane_record where
  "sample_open = sample_record ''op'' (RB_operation_started None
     (Run \<lparr>ri_originalPrompt = [], ri_initialMessages = [], ri_systemPromptOverride = None,
       ri_resumeData = None\<rparr>)) 1"

definition sample_input :: lane_reduction_input where
  "sample_input =
     \<lparr>sl_lane = ''main'', sl_openOperations = [sample_open],
      sl_records =
        [sample_record ''q'' (RB_queue_enqueued
           \<lparr>qe_queue = Q_steer, qe_runId = Some ''op'', qe_target = sample_entry ''q1'' ''wait''\<rparr>) 4,
         sample_open,
         sample_record ''t'' (RB_tool_started
           \<lparr>ts_runId = ''op'', ts_assistantEntryId = ''m1'', ts_toolIndex = 0, ts_toolCallId = ''c1'',
            ts_toolName = ''read'', ts_effectiveArgs = [], ts_resultEntryId = ''r1'', ts_replay = Replay_safe\<rparr>) 3],
      sl_entries = [sample_reply], ri_leafId = Some ''m1'', ri_ownEntries = [sample_reply],
      ri_configurationEntries = [],
      ri_defaults = \<lparr>lc_model = (''p'', ''m''), lc_thinkingLevel = ''off'', lc_activeToolNames = []\<rparr>\<rparr>"

lemma sample_facts:
  "distinct (map rc_seq (sl_records sample_input))" "own_covered sample_input"
  "validateRecordLog (=) sample_input = Inr ()"
  by code_simp+

section \<open>Properties\<close>

text \<open>
  C9: the recovery validator is sound and complete for the declared record protocol. With a deep
  equality that is equality and distinct sequence numbers, it accepts a slice exactly when at
  most one operation is open, no deferred assistant entry lacks its handle, and every record is
  acceptable after the records with smaller sequence numbers: its operation was started and not
  finished; attempts count from one within a series and keep their target and reason; a tool
  start names an existing call once; nothing is queued after an abort; a cancellation names an
  undelivered enqueue of the same operation; and every provisioned entry that exists has exactly
  the intended content.
\<close>

theorem validateRecordLog_accepts_iff:
  assumes "\<forall>x y. deq x y \<longleftrightarrow> x = y" and "distinct (map rc_seq (sl_records sl))"
  shows "validateRecordLog deq sl = Inr () \<longleftrightarrow>
     length (sl_openOperations sl) \<le> 1 \<and>
     (\<forall>e \<in> set (map snd (entries_by_id (sl_entries sl))). \<not> lacks_handle e) \<and>
     (\<forall>r \<in> set (sl_records sl). record_ok (entries_by_id (sl_entries sl)) (earlier_records sl r) r)"
  by (rule accepts_iff[OF assms])

theorem validateRecordLog_accepts_iff_witness:
  "list_all (\<lambda>r. record_ok (entries_by_id (sl_entries sample_input)) (earlier_records sample_input r) r)
     (sl_records sample_input)"
  using validateRecordLog_accepts_iff[of "(=)" sample_input] sample_facts(1,3) by (simp add: list_all_iff)

text \<open>
  C10: the order in which the records of a slice are passed does not matter. With distinct
  sequence numbers, every permutation gives the same verdict and the same reconstructed state.
\<close>

theorem reduceLaneState_order_independent:
  assumes "mset rs = mset (sl_records input)" and "distinct (map rc_seq (sl_records input))"
  shows "reduceLaneState deq (input\<lparr>sl_records := rs\<rparr>) = reduceLaneState deq input"
proof -
  have "sort_key rc_seq rs = sort_key rc_seq (sl_records input)"
    using sort_key_cong_mset[of "sl_records input" rs rc_seq] assms by simp
  then show ?thesis
    by (simp add: reduceLaneState_def validateRecordLog_def deriveEffectiveConfiguration_def Let_def)
qed

theorem reduceLaneState_order_independent_witness:
  "reduceLaneState (=) (sample_input\<lparr>sl_records := rev (sl_records sample_input)\<rparr>)
     = reduceLaneState (=) sample_input"
  by (rule reduceLaneState_order_independent[OF _ sample_facts(1)]) simp

text \<open>
  C11: every queued input of an accepted slice, of whatever queue and run, is exactly one of
  stored (with exactly the enqueued content), cancelled, or outstanding (neither). The lists of
  undelivered inputs hold outstanding items only, in the order of their enqueueing and none more
  often than it was enqueued: the list for the next run has the outstanding next-run items that the
  open operation has not captured among its initial messages (those are among its missing initial
  messages as long as they are not stored), and the steering and follow-up lists of the open
  operation have its own outstanding items of that queue, unless its abort was requested. Then, as
  for items of other runs, outstanding steering and follow-up items are in no list: they are dropped.
\<close>

theorem queued_inputs_accounted:
  assumes "\<forall>x y. deq x y \<longleftrightarrow> x = y" and "distinct (map rc_seq (sl_records input))"
    and "own_covered input" and "reduceLaneState deq input = Inr res"
  shows "(\<forall>q \<in> set (enqueued input).
       stored_as input (qe_target q) \<and> \<not> cancelled_in input (en_id (qe_target q))
     \<or> cancelled_in input (en_id (qe_target q)) \<and> \<not> has_id (sl_entries input) (en_id (qe_target q))
     \<or> outstanding input (en_id (qe_target q))) \<and>
    (\<forall>t. t \<in> set (ls_pendingNextRun (rr_laneState res)) \<longleftrightarrow>
       outstanding input (en_id t) \<and> en_id t \<notin> captured_ids (rr_laneState res) \<and>
       (\<exists>q \<in> set (enqueued input). qe_queue q = Q_nextRun \<and> qe_target q = t)) \<and>
    subseq (ls_pendingNextRun (rr_laneState res)) (map qe_target (enqueued input)) \<and>
    (\<forall>os. ls_operation (rr_laneState res) = Some os \<longrightarrow>
       (os_aborting os \<longleftrightarrow> (\<exists>r \<in> set (sl_records input). rc_body r = RB_abort_requested (os_id os))) \<and>
       (\<forall>t. t \<in> set (os_pendingSteer os) \<longleftrightarrow>
          \<not> os_aborting os \<and> outstanding input (en_id t) \<and>
          (\<exists>q \<in> set (enqueued input). qe_queue q = Q_steer \<and> qe_runId q = Some (os_id os) \<and> qe_target q = t)) \<and>
       (\<forall>t. t \<in> set (os_pendingFollowUp os) \<longleftrightarrow>
          \<not> os_aborting os \<and> outstanding input (en_id t) \<and>
          (\<exists>q \<in> set (enqueued input). qe_queue q = Q_followUp \<and> qe_runId q = Some (os_id os) \<and> qe_target q = t)) \<and>
       subseq (os_pendingSteer os) (map qe_target (enqueued input)) \<and>
       subseq (os_pendingFollowUp os) (map qe_target (enqueued input)) \<and>
       (\<forall>t. t \<in> set (os_missingInitialMessages os) \<longleftrightarrow>
          t \<in> set (initial_messages (os_intent os)) \<and> \<not> has_id (sl_entries input) (en_id t)))"
proof (intro conjI ballI allI impI)
  fix q assume "q \<in> set (enqueued input)"
  then obtain r where r: "r \<in> set (sl_records input)" "rc_body r = RB_queue_enqueued q"
    unfolding enqueued_iff by blast
  have ids: "distinct (map en_id (sl_entries input))" using assms(3) by (simp add: own_covered_def)
  have ok: "validateRecordLog deq input = Inr ()"
    using assms(4) by (auto simp: reduceLaneState_def elim!: bind_result_InrE)
  have "\<not> has_id (sl_entries input) i" if "cancelled_in input i" for i
    using that accepted_cancel[OF assms(1,2) ok] unfolding cancelled_in_def record_cancelled_iff
    by (metis no_entry[OF ids])
  moreover have "stored_as input (qe_target q)" if "has_id (sl_entries input) (en_id (qe_target q))"
    using that accepted_enqueue[OF assms(1,2) ok r]
    by (force simp: has_id_def target_ok_def stored_as_def map_get_entry[OF ids])
  ultimately show "stored_as input (qe_target q) \<and> \<not> cancelled_in input (en_id (qe_target q))
     \<or> cancelled_in input (en_id (qe_target q)) \<and> \<not> has_id (sl_entries input) (en_id (qe_target q))
     \<or> outstanding input (en_id (qe_target q))"
    unfolding outstanding_def by blast
next
  note pending = reduce_pending_next[OF assms(4,3)]
  show "t \<in> set (ls_pendingNextRun (rr_laneState res)) \<longleftrightarrow>
      outstanding input (en_id t) \<and> en_id t \<notin> captured_ids (rr_laneState res) \<and>
      (\<exists>q \<in> set (enqueued input). qe_queue q = Q_nextRun \<and> qe_target q = t)" for t
    unfolding pending by auto
  show "subseq (ls_pendingNextRun (rr_laneState res)) (map qe_target (enqueued input))"
    unfolding pending by (intro subseq_map subseq_filter_left)
next
  fix os assume os: "ls_operation (rr_laneState res) = Some os"
  note op = reduce_pending_operation[OF assms(4,3) os]
  have steer: "os_pendingSteer os = pending_targets os Q_steer"
    and follow: "os_pendingFollowUp os = pending_targets os Q_followUp"
    by (simp_all add: pending_targets_def)
  have sub: "subseq (pending_targets os qu) (map qe_target (enqueued input))" for qu
    unfolding op(2) by (auto intro: subseq_map subseq_filter_left)
  show "os_aborting os \<longleftrightarrow> (\<exists>r \<in> set (sl_records input). rc_body r = RB_abort_requested (os_id os))"
    by (rule op(1))
  show "subseq (os_pendingSteer os) (map qe_target (enqueued input))"
    "subseq (os_pendingFollowUp os) (map qe_target (enqueued input))"
    unfolding steer follow by (rule sub)+
  show "t \<in> set (os_pendingSteer os) \<longleftrightarrow> \<not> os_aborting os \<and> outstanding input (en_id t) \<and>
      (\<exists>q \<in> set (enqueued input). qe_queue q = Q_steer \<and> qe_runId q = Some (os_id os) \<and> qe_target q = t)"
    "t \<in> set (os_pendingFollowUp os) \<longleftrightarrow> \<not> os_aborting os \<and> outstanding input (en_id t) \<and>
      (\<exists>q \<in> set (enqueued input). qe_queue q = Q_followUp \<and> qe_runId q = Some (os_id os) \<and> qe_target q = t)"
    "t \<in> set (os_missingInitialMessages os) \<longleftrightarrow>
      t \<in> set (initial_messages (os_intent os)) \<and> \<not> has_id (sl_entries input) (en_id t)" for t
    unfolding steer follow op(2,3) by auto
qed

theorem queued_inputs_accounted_witness:
  "\<exists>res os. reduceLaneState (=) sample_input = Inr res \<and> ls_operation (rr_laneState res) = Some os \<and>
     sample_entry ''q1'' ''wait'' \<in> set (os_pendingSteer os)"
proof -
  have "(case reduceLaneState (=) sample_input of Inl _ \<Rightarrow> None
      | Inr res \<Rightarrow> map_option (\<lambda>os. (os_id os, os_aborting os)) (ls_operation (rr_laneState res)))
      = Some (''op'', False)" by code_simp
  then obtain res os where res: "reduceLaneState (=) sample_input = Inr res"
    "ls_operation (rr_laneState res) = Some os" "os_id os = ''op''" "\<not> os_aborting os"
    by (auto split: sum.splits)
  let ?q = "\<lparr>qe_queue = Q_steer, qe_runId = Some ''op'', qe_target = sample_entry ''q1'' ''wait''\<rparr>"
  have "sample_record ''q'' (RB_queue_enqueued ?q) 4 \<in> set (sl_records sample_input)"
    by (simp add: sample_input_def)
  then have q: "?q \<in> set (enqueued sample_input)"
    unfolding enqueued_iff by (rule bexI[rotated]) (simp add: sample_record_def)
  have fresh: "outstanding sample_input (en_id (sample_entry ''q1'' ''wait''))"
    by (auto simp: outstanding_def cancelled_in_def has_id_def sample_input_def sample_open_def
        sample_record_def sample_reply_def sample_entry_def)
  from queued_inputs_accounted[OF _ sample_facts(1,2) res(1)] res q fresh show ?thesis by fastforce
qed

text \<open>
  C12: the tool batch of a reduced operation. There is one exactly when some own assistant entry
  has tool calls; it belongs to the newest such entry and lists every call of it once, in source
  order. A call counts as started exactly when the slice has a start record of this operation for
  that entry and index (then the record names the call), and there is at most one. Its result
  exists exactly when the target of the start record is stored, or an own tool result for the call
  follows the entry that is no deferred write of the operation; that result terminates or not as
  the entry says (the stored target before the others, the earliest of those). The batch is
  unresolved exactly when some call has no result.
\<close>

theorem tool_batch_matches_calls:
  assumes "\<forall>x y. deq x y \<longleftrightarrow> x = y" and "distinct (map rc_seq (sl_records input))"
    and "own_covered input" and "reduceLaneState deq input = Inr res"
    and "ls_operation (rr_laneState res) = Some os"
  shows "case os_toolBatch os of
     None \<Rightarrow> \<forall>e \<in> set (ri_ownEntries input). \<forall>a. entry_assistant e = Some a \<longrightarrow> message_tool_calls a = []
   | Some tb \<Rightarrow> \<exists>caller a. newest_caller input caller a \<and> tb_assistantEntryId tb = en_id caller \<and>
       tb_truncated tb = (am_stopReason a = SR_length) \<and>
       map bc_toolCall (tb_calls tb) = message_tool_calls a \<and>
       (tb_unresolved tb \<longleftrightarrow> (\<exists>c \<in> set (tb_calls tb). \<not> bc_resultExists c)) \<and>
       (\<forall>k < length (tb_calls tb). let bc = tb_calls tb ! k; call = message_tool_calls a ! k;
            counted = counted_result input (os_id os) caller k call in
          bc_toolIndex bc = k \<and> call_sound (sl_entries input) bc \<and>
          (\<forall>t. bc_started bc = Some t \<longleftrightarrow> start_recorded input (os_id os) caller k t) \<and>
          (bc_resultExists bc \<longleftrightarrow> (\<exists>e. counted e)) \<and>
          (bc_terminate bc \<longrightarrow> (\<exists>e. counted e \<and> is_terminating e)) \<and>
          ((\<exists>e. counted e) \<and> (\<forall>e. counted e \<longrightarrow> is_terminating e) \<longrightarrow> bc_terminate bc))"
proof -
  let ?own = "bySequence (ri_ownEntries input)"
  have ids: "distinct (map en_id (sl_entries input))" and own: "set ?own \<subseteq> set (sl_entries input)"
    using assms(3) by (simp_all add: own_covered_def bySequence_def)
  have ok: "validateRecordLog deq input = Inr ()"
    using assms(4) by (auto simp: reduceLaneState_def elim!: bind_result_InrE)
  from reduce_batch[OF assms] obtain rs m dw where
    batch: "os_toolBatch os = deriveToolBatch (os_id os) rs ?own m dw" and
    m: "\<And>i. map_get m i = map_get (entries_by_id (sl_entries input)) i" and
    rs: "set rs \<subseteq> set (sl_records input)" and
    starts: "\<And>caller k t. map_get (tool_starts (os_id os) (en_id caller) rs) (int k) = Some t \<longleftrightarrow>
       start_recorded input (os_id os) caller k t" and
    dw: "\<And>i. i \<in> set dw \<longleftrightarrow> write_target_of input (os_id os) i"
    by blast
  show ?thesis
  proof (cases "os_toolBatch os")
    case None
    then have "calling_entry ?own = None"
      using batch by (auto simp: deriveToolBatch_def Let_def split: option.splits)
    with None show ?thesis by (simp add: calling_entry_None bySequence_def)
  next
    case (Some tb)
    then obtain caller a where caller: "calling_entry ?own = Some (caller, a)" and
      tb: "tb = \<lparr>tb_assistantEntryId = en_id caller,
         tb_calls = map2 (batch_call_of caller (tool_starts (os_id os) (en_id caller) rs) ?own m dw)
           [0..<length (message_tool_calls a)] (message_tool_calls a),
         tb_truncated = (am_stopReason a = SR_length),
         tb_unresolved = list_ex (\<lambda>c. \<not> bc_resultExists c)
           (map2 (batch_call_of caller (tool_starts (os_id os) (en_id caller) rs) ?own m dw)
             [0..<length (message_tool_calls a)] (message_tool_calls a))\<rparr>"
      unfolding batch deriveToolBatch_Some by blast
    have calls: "map bc_toolCall (tb_calls tb) = message_tool_calls a"
      unfolding tb by (auto intro!: nth_equalityI simp: batch_call_simps)
    have "let bc = tb_calls tb ! k; call = message_tool_calls a ! k;
          counted = counted_result input (os_id os) caller k call in
        bc_toolIndex bc = k \<and> call_sound (sl_entries input) bc \<and>
        (\<forall>t. bc_started bc = Some t \<longleftrightarrow> start_recorded input (os_id os) caller k t) \<and>
        (bc_resultExists bc \<longleftrightarrow> (\<exists>e. counted e)) \<and>
        (bc_terminate bc \<longrightarrow> (\<exists>e. counted e \<and> is_terminating e)) \<and>
        ((\<exists>e. counted e) \<and> (\<forall>e. counted e \<longrightarrow> is_terminating e) \<longrightarrow> bc_terminate bc)"
      if "k < length (tb_calls tb)" for k
    proof -
      let ?bc = "batch_call_of caller (tool_starts (os_id os) (en_id caller) rs) ?own m dw k (message_tool_calls a ! k)"
      have k: "k < length (message_tool_calls a)" and bc: "tb_calls tb ! k = ?bc"
        using that by (simp_all add: tb)
      have own_set: "set ?own = set (ri_ownEntries input)" "sorted (map en_seq ?own)"
        by (simp_all add: bySequence_def)
      have get: "map_get m i = Some e \<longleftrightarrow> e \<in> set (sl_entries input) \<and> en_id e = i" for i e
        by (simp add: m map_get_entry[OF ids])
      show ?thesis
        unfolding bc Let_def
        using batch_call_sound[OF assms(1,2) ok ids own m rs caller k, of "os_id os" dw]
          batch_call_exact[OF starts get own_set dw refl, where k = k and caller = caller and c = "message_tool_calls a ! k"]
        by (simp add: batch_call_simps)
    qed
    moreover have "tb_assistantEntryId tb = en_id caller" "tb_truncated tb = (am_stopReason a = SR_length)"
      "tb_unresolved tb \<longleftrightarrow> (\<exists>c \<in> set (tb_calls tb). \<not> bc_resultExists c)"
      by (simp_all add: tb list_ex_iff)
    ultimately show ?thesis
      unfolding Some option.case using calling_entry_newest[OF caller] calls
      by (intro exI[of _ caller] exI[of _ a] conjI allI impI)
  qed
qed

theorem tool_batch_matches_calls_witness:
  "\<exists>res os tb caller a. reduceLaneState (=) sample_input = Inr res \<and> ls_operation (rr_laneState res) = Some os \<and>
     os_toolBatch os = Some tb \<and> newest_caller sample_input caller a \<and> tb_assistantEntryId tb = en_id caller"
proof -
  have "(case reduceLaneState (=) sample_input of Inl _ \<Rightarrow> None
      | Inr res \<Rightarrow> (case ls_operation (rr_laneState res) of None \<Rightarrow> None
          | Some os \<Rightarrow> map_option tb_unresolved (os_toolBatch os))) = Some True" by code_simp
  then obtain res os tb where "reduceLaneState (=) sample_input = Inr res"
    "ls_operation (rr_laneState res) = Some os" "os_toolBatch os = Some tb"
    by (auto split: sum.splits option.splits)
  with tool_batch_matches_calls[OF _ sample_facts(1,2), of "(=)" res os] show ?thesis by auto
qed

text \<open>
  C13: recovery and conversation context agree on the configuration. When the reducer is given a
  branch (distinct ids, growing sequence numbers) that includes the operation's own entries, its
  model, thinking level and active tools are those of the context built from that branch, with
  the harness defaults where the branch sets none.
\<close>

theorem configuration_agrees_with_context:
  assumes "distinct (map en_id path)" and "sorted (map en_seq path)"
    and "ri_configurationEntries input @ ri_ownEntries input = path"
  shows "deriveEffectiveConfiguration input =
     configured (ri_defaults input) (context_state.truncate (buildSessionContext path opts))
       (\<exists>e \<in> set path. entry_type_of e = ET_thinking_level_change)"
proof -
  have "bySequence (map snd (entries_by_id path)) = path"
    using assms(1,2) by (simp add: entries_by_id_values bySequence_def sorted_sort_id sort_key_id_if_sorted)
  then have "deriveEffectiveConfiguration input = fold (\<lambda>e. configure (en_body e)) path (ri_defaults input)"
    by (simp add: deriveEffectiveConfiguration_def assms(3))
  also have "ri_defaults input = configured (ri_defaults input)
      \<lparr>cx_thinkingLevel = ''off'', cx_model = None, cx_activeToolNames = None\<rparr> False"
    by (simp add: configured_def)
  finally show ?thesis
    by (simp add: fold_configure build_state deriveSessionContextState_def)
qed

theorem configuration_agrees_with_context_witness:
  "deriveEffectiveConfiguration sample_input =
     configured (ri_defaults sample_input) (context_state.truncate (buildSessionContext [sample_reply] no_options)) False"
proof -
  have e: "entry_type_of sample_reply = ET_message" by (simp add: sample_reply_def)
  have "ri_configurationEntries sample_input @ ri_ownEntries sample_input = [sample_reply]"
    by (simp add: sample_input_def)
  from configuration_agrees_with_context[OF _ _ this, of no_options] e show ?thesis by simp
qed

end
