(* ===== verification/Json_Payload.thy ===== *)
theory Json_Payload
  imports Session_Types
begin

text \<open>
  The payload check \<open>assertJsonSerializable\<close> of
  \<open>packages/agent/src/harness/session/session.ts\<close>. A JavaScript value is a primitive or a
  reference into a heap of objects; an object is seen through the reflection calls the check
  makes: its prototype, its symbol keys, its own property names and their descriptors. The check
  is a depth-first walk with an explicit stack and the set of objects on the current path, so a
  shared object is fine and a cycle is not.
\<close>

section \<open>JavaScript values\<close>

datatype js_value =
    V_null
  | V_boolean bool
  | V_string string
  | V_number "rat option"
  | V_other string
  | V_ref nat

text \<open>
  A number is \<open>None\<close> when it is not finite; \<open>V_other\<close> holds the \<open>typeof\<close> of an undefined, a
  function, a symbol or a bigint. A property is a data property with its value or an accessor.
\<close>

datatype prototype = Object_prototype | Array_prototype | Null_prototype | Other_prototype

datatype property = Data js_value | Accessor

datatype js_object =
    Js_Array (array_prototype: prototype) (array_symbols: nat) (elements: "property option list")
      (extra_names: nat)
  | Js_Object (object_prototype: prototype) (object_symbols: nat)
      (own_properties: "(string \<times> bool \<times> property) list")

text \<open>
  An array has the own name \<open>length\<close>, one per present element and \<open>extra_names\<close> more; a property of
  an object carries its enumerability. A dangling reference does not occur and reads as \<open>{}\<close>.
\<close>

definition heap_object :: "js_object list \<Rightarrow> nat \<Rightarrow> js_object" where
  "heap_object h a = (if a < length h then h ! a else Js_Object Object_prototype 0 [])"

definition own_name_count :: "property option list \<Rightarrow> nat \<Rightarrow> nat" where
  "own_name_count es extra = length (filter (\<lambda>e. e \<noteq> None) es) + 1 + extra"

section \<open>The check\<close>

datatype validation_frame = Value js_value | Exit nat

definition invalidPayload :: "string \<Rightarrow> (session_error, 'a) result" where
  "invalidPayload reason = Inl (SessionError SE_invalid_payload (''Durable payload '' @ reason))"

text \<open>Both loops run from the last element or key to the first and push as they go.\<close>

fun push_elements ::
  "property option list \<Rightarrow> validation_frame list \<Rightarrow> (session_error, validation_frame list) result" where
  "push_elements [] stack = Inr stack"
| "push_elements (None # es) stack = invalidPayload ''contains a sparse array''"
| "push_elements (Some Accessor # es) stack = invalidPayload ''contains an array accessor''"
| "push_elements (Some (Data v) # es) stack = push_elements es (Value v # stack)"

fun push_properties ::
  "(string \<times> bool \<times> property) list \<Rightarrow> validation_frame list
    \<Rightarrow> (session_error, validation_frame list) result" where
  "push_properties [] stack = Inr stack"
| "push_properties ((k, en, Accessor) # ps) stack = invalidPayload ''contains an accessor''"
| "push_properties ((k, en, Data v) # ps) stack = push_properties ps (Value v # stack)"

definition expand_object ::
  "js_object \<Rightarrow> validation_frame list \<Rightarrow> (session_error, validation_frame list) result" where
  "expand_object obj stack =
     (case obj of
        Js_Array proto symbols es extra \<Rightarrow>
          if proto \<noteq> Array_prototype then invalidPayload ''contains a non-standard array''
          else if symbols > 0 \<or> own_name_count es extra \<noteq> length es + 1
            then invalidPayload ''contains an array with unsupported properties''
          else push_elements (rev es) stack
      | Js_Object proto symbols ps \<Rightarrow>
          if proto \<noteq> Object_prototype \<and> proto \<noteq> Null_prototype
            then invalidPayload ''contains a non-plain object''
          else if symbols > 0 then invalidPayload ''contains a symbol-keyed property''
          else (let keys = filter (\<lambda>(k, en, p). en) ps in
            if length ps \<noteq> length keys then invalidPayload ''contains a non-enumerable property''
            else push_properties (rev keys) stack))"

text \<open>What an accepted object pushes: its property values in order.\<close>

definition data_value :: "property \<Rightarrow> js_value option" where
  "data_value p = (case p of Data v \<Rightarrow> Some v | Accessor \<Rightarrow> None)"

definition object_values :: "js_object \<Rightarrow> js_value list" where
  "object_values obj =
     (case obj of
        Js_Array _ _ es _ \<Rightarrow> List.map_filter (\<lambda>e. case e of None \<Rightarrow> None | Some p \<Rightarrow> data_value p) es
      | Js_Object _ _ ps \<Rightarrow> List.map_filter (\<lambda>(k, en, p). data_value p) ps)"

text \<open>A plain object or array: dense, enumerable, data properties only, standard prototype.\<close>

definition plain_object :: "js_object \<Rightarrow> bool" where
  "plain_object obj \<longleftrightarrow>
     (case obj of
        Js_Array proto symbols es extra \<Rightarrow>
          proto = Array_prototype \<and> symbols = 0 \<and> extra = 0 \<and> (\<forall>e \<in> set es. \<exists>v. e = Some (Data v))
      | Js_Object proto symbols ps \<Rightarrow>
          proto \<in> {Object_prototype, Null_prototype} \<and> symbols = 0 \<and>
          (\<forall>(k, en, p) \<in> set ps. en \<and> p \<noteq> Accessor))"

lemma push_elements_Inr:
  "push_elements es stack = Inr out \<longleftrightarrow>
     (\<forall>e \<in> set es. \<exists>v. e = Some (Data v)) \<and>
     out = rev (map Value (List.map_filter (\<lambda>e. case e of None \<Rightarrow> None | Some p \<Rightarrow> data_value p) es)) @ stack"
  by (induction es stack rule: push_elements.induct)
    (auto simp: invalidPayload_def map_filter_simps data_value_def)

lemma push_properties_Inr:
  "push_properties ps stack = Inr out \<longleftrightarrow>
     (\<forall>(k, en, p) \<in> set ps. p \<noteq> Accessor) \<and>
     out = rev (map Value (List.map_filter (\<lambda>(k, en, p). data_value p) ps)) @ stack"
  by (induction ps stack rule: push_properties.induct)
    (auto simp: invalidPayload_def map_filter_simps data_value_def)

lemma map_filter_rev: "List.map_filter f (rev xs) = rev (List.map_filter f xs)"
  by (induction xs) (auto simp: map_filter_def)

lemma own_names_dense: "own_name_count es extra = length es + 1 \<Longrightarrow> (\<forall>e \<in> set es. e \<noteq> None) \<Longrightarrow> extra = 0"
  by (simp add: own_name_count_def filter_id_conv)

lemma expand_object_Inr:
  "expand_object obj stack = Inr out \<longleftrightarrow>
     plain_object obj \<and> out = map Value (object_values obj) @ stack"
proof (cases obj)
  case (Js_Array proto symbols es extra)
  have "own_name_count es extra = length es + 1" if "extra = 0" "\<forall>e \<in> set es. \<exists>v. e = Some (Data v)"
  proof -
    have "filter (\<lambda>e. e \<noteq> None) es = es" using that by (auto simp: filter_id_conv)
    then show ?thesis using that by (simp add: own_name_count_def)
  qed
  then show ?thesis
    using Js_Array own_names_dense[of es extra]
    by (auto simp: expand_object_def plain_object_def object_values_def push_elements_Inr
        map_filter_rev rev_map invalidPayload_def)
next
  case (Js_Object proto symbols ps)
  have keys: "length ps = length (filter (\<lambda>(k, en, p). en) ps) \<longleftrightarrow> (\<forall>(k, en, p) \<in> set ps. en)"
    by (metis (no_types, lifting) case_prodI2' filter_id_conv length_filter_less less_irrefl split_beta)
  have same: "filter (\<lambda>(k, en, p). en) ps = ps" if "\<forall>(k, en, p) \<in> set ps. en"
    using that by (auto simp: filter_id_conv)
  show ?thesis
  proof (cases "\<forall>(k, en, p) \<in> set ps. en")
    case True
    then show ?thesis
      using Js_Object same[OF True]
      by (auto simp: expand_object_def plain_object_def object_values_def push_properties_Inr
          map_filter_rev rev_map invalidPayload_def Let_def)
  next
    case False
    then show ?thesis
      using Js_Object keys
      by (auto simp: expand_object_def plain_object_def invalidPayload_def Let_def)
  qed
qed

text \<open>
  The loop ends: with \<open>k\<close> objects off the current path a reference costs at most the number of
  frames its subtree can push, which a power of the branching factor bounds.
\<close>

definition branching :: "js_object list \<Rightarrow> nat" where
  "branching h = sum_list (map (\<lambda>obj. length (object_values obj)) h) + 2"

definition off_path :: "js_object list \<Rightarrow> nat list \<Rightarrow> nat" where
  "off_path h active = card ({..<length h} - set active)"

fun stack_cost :: "js_object list \<Rightarrow> nat list \<Rightarrow> validation_frame list \<Rightarrow> nat" where
  "stack_cost h active [] = 0"
| "stack_cost h active (Value v # st) = branching h ^ (off_path h active + 1) + stack_cost h active st"
| "stack_cost h active (Exit a # st) = 1 + stack_cost h (removeAll a active) st"

lemma stack_cost_values:
  "stack_cost h active (map Value vs @ st) =
     length vs * branching h ^ (off_path h active + 1) + stack_cost h active st"
  by (induction vs) simp_all

lemma values_branching: "length (object_values (heap_object h a)) + 2 \<le> branching h"
proof (cases "a < length h")
  case True
  then have "length (object_values (h ! a)) \<le> sum_list (map (\<lambda>obj. length (object_values obj)) h)"
    by (intro member_le_sum_list) auto
  with True show ?thesis by (simp add: heap_object_def branching_def)
qed (simp add: heap_object_def branching_def object_values_def map_filter_simps)

lemma stack_cost_pop: "stack_cost h active st < stack_cost h active (Value v # st)"
  by (simp add: branching_def)

lemma stack_cost_exit: "stack_cost h (removeAll a active) st < stack_cost h active (Exit a # st)"
  by simp

lemma stack_cost_enter:
  assumes "a \<notin> set active" and "expand_object (heap_object h a) (Exit a # st) = Inr st'"
  shows "stack_cost h (a # active) st' < stack_cost h active (Value (V_ref a) # st)"
proof -
  let ?B = "branching h" and ?k = "length (object_values (heap_object h a))"
  have st': "st' = map Value (object_values (heap_object h a)) @ Exit a # st"
    using assms(2) by (simp add: expand_object_Inr)
  have act: "removeAll a (a # active) = active" using assms(1) by simp
  have off: "?k * ?B ^ (off_path h (a # active) + 1) + 1 < ?B ^ (off_path h active + 1)"
  proof (cases "a < length h")
    case True
    have "{..<length h} - set (a # active) = ({..<length h} - set active) - {a}" by auto
    then have "off_path h active = Suc (off_path h (a # active))"
      using True assms(1) card_Suc_Diff1[of "{..<length h} - set active" a]
      by (simp add: off_path_def del: card_Diff_insert)
    then have eq: "?B ^ (off_path h active + 1) = ?B * ?B ^ (off_path h (a # active) + 1)" by simp
    let ?P = "?B ^ (off_path h (a # active) + 1)"
    have "1 \<le> ?P" using values_branching[of h a] by (intro one_le_power) simp
    then have "?k * ?P + 1 < ?k * ?P + 2 * ?P" by linarith
    also have "\<dots> = (?k + 2) * ?P" by (simp add: algebra_simps)
    also have "\<dots> \<le> ?B * ?P" using values_branching[of h a] by (intro mult_right_mono) auto
    finally show ?thesis by (simp only: eq)
  next
    case False
    then have k: "?k = 0" by (simp add: heap_object_def object_values_def map_filter_simps)
    have "1 < ?B" using values_branching[of h a] by simp
    then have "1 < ?B ^ (off_path h active + 1)" by (rule one_less_power) simp
    then show ?thesis by (simp only: k)
  qed
  show ?thesis
    unfolding st' stack_cost_values using off act by simp
qed

function assert_loop ::
  "js_object list \<Rightarrow> validation_frame list \<Rightarrow> nat list \<Rightarrow> (session_error, unit) result" where
  "assert_loop h [] active = Inr ()"
| "assert_loop h (Exit a # stack) active = assert_loop h stack (removeAll a active)"
| "assert_loop h (Value v # stack) active =
     (case v of
        V_null \<Rightarrow> assert_loop h stack active
      | V_string _ \<Rightarrow> assert_loop h stack active
      | V_boolean _ \<Rightarrow> assert_loop h stack active
      | V_number None \<Rightarrow> invalidPayload ''contains a non-finite number''
      | V_number (Some _) \<Rightarrow> assert_loop h stack active
      | V_other t \<Rightarrow> invalidPayload (''contains '' @ t)
      | V_ref a \<Rightarrow>
          if a \<in> set active then invalidPayload ''contains a cycle''
          else (case expand_object (heap_object h a) (Exit a # stack) of
              Inl e \<Rightarrow> Inl e
            | Inr stack' \<Rightarrow> assert_loop h stack' (a # active)))"
  by pat_completeness auto
termination
  by (relation "measure (\<lambda>(h, stack, active). stack_cost h active stack)")
    (simp_all only: wf_measure in_measure case_prod_conv stack_cost_pop stack_cost_exit stack_cost_enter
      not_False_eq_True)

definition assertJsonSerializable :: "js_object list \<Rightarrow> js_value \<Rightarrow> (session_error, unit) result" where
  "assertJsonSerializable h v = assert_loop h [Value v] []"

section \<open>What it accepts\<close>

fun plain_value :: "js_object list \<Rightarrow> js_value \<Rightarrow> bool" where
  "plain_value h (V_number n) = (n \<noteq> None)"
| "plain_value h (V_other _) = False"
| "plain_value h (V_ref a) = plain_object (heap_object h a)"
| "plain_value h _ = True"

fun value_children :: "js_object list \<Rightarrow> js_value \<Rightarrow> js_value list" where
  "value_children h (V_ref a) = object_values (heap_object h a)"
| "value_children h _ = []"

definition child_rel :: "js_object list \<Rightarrow> (js_value \<times> js_value) set" where
  "child_rel h = {(v, w). w \<in> set (value_children h v)}"

inductive json_ok :: "js_object list \<Rightarrow> nat set \<Rightarrow> js_value \<Rightarrow> bool" for h where
  leaf: "plain_value h v \<Longrightarrow> (\<forall>a. v \<noteq> V_ref a) \<Longrightarrow> json_ok h path v"
| node: "a \<notin> path \<Longrightarrow> plain_value h (V_ref a) \<Longrightarrow>
    (\<And>w. w \<in> set (value_children h (V_ref a)) \<Longrightarrow> json_ok h (insert a path) w) \<Longrightarrow>
    json_ok h path (V_ref a)"

inductive_simps json_ok_ref: "json_ok h path (V_ref a)"

lemma json_ok_leaf: "(\<forall>a. v \<noteq> V_ref a) \<Longrightarrow> json_ok h path v \<longleftrightarrow> plain_value h v"
  by (auto elim: json_ok.cases intro: json_ok.leaf)

fun stack_ok :: "js_object list \<Rightarrow> validation_frame list \<Rightarrow> nat set \<Rightarrow> bool" where
  "stack_ok h [] path = True"
| "stack_ok h (Exit a # st) path = stack_ok h st (path - {a})"
| "stack_ok h (Value v # st) path = (json_ok h path v \<and> stack_ok h st path)"

lemma stack_ok_values:
  "stack_ok h (map Value vs @ st) path \<longleftrightarrow> (\<forall>v \<in> set vs. json_ok h path v) \<and> stack_ok h st path"
  by (induction vs) auto

lemma assert_loop_ok: "assert_loop h stack active = Inr () \<longleftrightarrow> stack_ok h stack (set active)"
proof (induction h stack active rule: assert_loop.induct)
  case (2 h a stack active)
  then show ?case by (simp add: set_removeAll)
next
  case (3 h v stack active)
  show ?case
  proof (cases v)
    case (V_number n)
    then show ?thesis using "3.IH"(4) by (cases n) (simp_all add: json_ok_leaf invalidPayload_def)
  next
    case (V_ref a)
    note ref = this
    show ?thesis
    proof (cases "a \<in> set active")
      case True
      then show ?thesis using ref by (simp add: invalidPayload_def json_ok_ref)
    next
      case False
      have path: "insert a (set active) - {a} = set active" using False by auto
      show ?thesis
      proof (cases "expand_object (heap_object h a) (Exit a # stack)")
        case (Inl e)
        then have "\<not> plain_object (heap_object h a)"
          using expand_object_Inr[of "heap_object h a" "Exit a # stack"] by auto
        then show ?thesis using ref False Inl by (simp add: json_ok_ref)
      next
        case (Inr st')
        then have plain: "plain_object (heap_object h a)"
          and st': "st' = map Value (object_values (heap_object h a)) @ Exit a # stack"
          by (simp_all add: expand_object_Inr)
        have "assert_loop h st' (a # active) = Inr () \<longleftrightarrow> stack_ok h st' (set (a # active))"
          using "3.IH"(5)[OF ref False Inr] .
        then show ?thesis
          using ref False Inr plain st' path by (auto simp: stack_ok_values json_ok_ref)
      qed
    qed
  qed (use "3.IH" in \<open>simp_all add: json_ok_leaf invalidPayload_def\<close>)
qed simp

section \<open>Acyclic plain graphs\<close>

text \<open>What \<open>json_ok\<close> says of the values reachable from the root.\<close>

lemma json_ok_sound:
  "json_ok h path v \<Longrightarrow>
     (\<forall>w. (v, w) \<in> (child_rel h)\<^sup>* \<longrightarrow> plain_value h w \<and> (w, w) \<notin> (child_rel h)\<^sup>+ \<and>
        (\<forall>a \<in> path. w \<noteq> V_ref a))"
proof (induction rule: json_ok.induct)
  case (leaf v path)
  then have none: "(v, w) \<notin> child_rel h" for w by (cases v) (auto simp: child_rel_def)
  then have "(v, w) \<in> (child_rel h)\<^sup>* \<Longrightarrow> w = v" for w by (metis converse_rtranclE)
  moreover have "(v, v) \<notin> (child_rel h)\<^sup>+" using none by (metis tranclD)
  ultimately show ?case using leaf by auto
next
  case (node a path)
  have child: "(V_ref a, u) \<in> child_rel h \<longleftrightarrow> u \<in> set (value_children h (V_ref a))" for u
    by (simp add: child_rel_def)
  have below: "plain_value h w \<and> (w, w) \<notin> (child_rel h)\<^sup>+ \<and> (\<forall>b \<in> insert a path. w \<noteq> V_ref b)"
    if "(V_ref a, w) \<in> (child_rel h)\<^sup>+" for w
    using that node.IH child by (metis tranclD)
  have "(V_ref a, V_ref a) \<notin> (child_rel h)\<^sup>+" using below by blast
  then show ?case
    using below node.hyps(1,2) by (auto dest!: rtranclD)
qed

lemma reach_refs_finite: "finite {w. \<exists>v. (v, w) \<in> child_rel h}"
proof -
  have "{w. \<exists>v. (v, w) \<in> child_rel h} \<subseteq> (\<Union>a < length h. set (object_values (h ! a)))"
  proof
    fix w assume "w \<in> {w. \<exists>v. (v, w) \<in> child_rel h}"
    then obtain v where "w \<in> set (value_children h v)" by (auto simp: child_rel_def)
    then obtain a where "w \<in> set (object_values (heap_object h a))" by (cases v) auto
    then show "w \<in> (\<Union>a < length h. set (object_values (h ! a)))"
      by (cases "a < length h") (auto simp: heap_object_def object_values_def map_filter_simps)
  qed
  then show ?thesis by (rule finite_subset) auto
qed

lemma json_ok_complete:
  assumes "\<forall>w. (v, w) \<in> (child_rel h)\<^sup>* \<longrightarrow> plain_value h w \<and> (w, w) \<notin> (child_rel h)\<^sup>+ \<and>
        (\<forall>a \<in> path. w \<noteq> V_ref a)"
  shows "json_ok h path v"
  using assms
proof (induction "card {w. (v, w) \<in> (child_rel h)\<^sup>+}" arbitrary: v path rule: less_induct)
  case less
  show ?case
  proof (cases "\<exists>a. v = V_ref a")
    case False
    then show ?thesis using less.prems by (auto intro: json_ok.leaf)
  next
    case True
    then obtain a where v: "v = V_ref a" by blast
    show ?thesis
      unfolding v
    proof (rule json_ok.node)
      show "a \<notin> path" "plain_value h (V_ref a)" using less.prems v by auto
    next
      fix w assume w: "w \<in> set (value_children h (V_ref a))"
      then have step: "(v, w) \<in> child_rel h" using v by (simp add: child_rel_def)
      have acyclic: "(v, v) \<notin> (child_rel h)\<^sup>+" using less.prems by blast
      have fin: "finite {u. (v, u) \<in> (child_rel h)\<^sup>+}"
        by (rule finite_subset[OF _ reach_refs_finite]) (auto elim: tranclE)
      have up: "(v, u) \<in> (child_rel h)\<^sup>+" if "(w, u) \<in> (child_rel h)\<^sup>*" for u
        using step that by (rule rtrancl_into_trancl2)
      have "w \<notin> {u. (w, u) \<in> (child_rel h)\<^sup>+}" using less.prems up[of w] by (auto dest: trancl_into_rtrancl)
      then have "{u. (w, u) \<in> (child_rel h)\<^sup>+} \<subset> {u. (v, u) \<in> (child_rel h)\<^sup>+}"
        using up[of w] up[OF trancl_into_rtrancl] by blast
      then have smaller: "card {u. (w, u) \<in> (child_rel h)\<^sup>+} < card {u. (v, u) \<in> (child_rel h)\<^sup>+}"
        using fin by (rule psubset_card_mono[rotated])
      show "json_ok h (insert a path) w"
      proof (rule less.hyps[OF smaller], intro allI impI)
        fix u assume "(w, u) \<in> (child_rel h)\<^sup>*"
        then have vu: "(v, u) \<in> (child_rel h)\<^sup>+" by (rule up)
        then have "u \<noteq> V_ref a" using acyclic v by blast
        with less.prems trancl_into_rtrancl[OF vu]
        show "plain_value h u \<and> (u, u) \<notin> (child_rel h)\<^sup>+ \<and> (\<forall>b \<in> insert a path. u \<noteq> V_ref b)"
          by blast
      qed
    qed
  qed
qed

section \<open>Properties\<close>

text \<open>
  C14: the payload check always returns, and it accepts a value exactly when everything reachable
  from it is plain JSON (finite numbers, strings, booleans, null, dense arrays and plain objects
  with enumerable data properties and no symbol keys) and nothing reachable lies on a cycle.
  Sharing an object between two places is accepted.
\<close>

theorem assertJsonSerializable_iff:
  "assertJsonSerializable h v = Inr () \<longleftrightarrow>
     (\<forall>w. (v, w) \<in> (child_rel h)\<^sup>* \<longrightarrow> plain_value h w \<and> (w, w) \<notin> (child_rel h)\<^sup>+)"
proof -
  have "assertJsonSerializable h v = Inr () \<longleftrightarrow> json_ok h {} v"
    unfolding assertJsonSerializable_def assert_loop_ok by simp
  then show ?thesis
    using json_ok_sound[of h "{}" v] json_ok_complete[of v h "{}"] by blast
qed

text \<open>An array shared by two properties, and an object that contains itself.\<close>

definition shared_heap :: "js_object list" where
  "shared_heap =
     [Js_Object Object_prototype 0 [(''x'', True, Data (V_ref 1)), (''y'', True, Data (V_ref 1))],
      Js_Array Array_prototype 0 [Some (Data (V_number (Some 1)))] 0]"

definition cyclic_heap :: "js_object list" where
  "cyclic_heap = [Js_Object Object_prototype 0 [(''self'', True, Data (V_ref 0))]]"

theorem assertJsonSerializable_iff_witness:
  "plain_value shared_heap (V_ref 0) \<and> (V_ref 0, V_ref 0) \<notin> (child_rel shared_heap)\<^sup>+ \<and>
   assertJsonSerializable cyclic_heap (V_ref 0) \<noteq> Inr ()"
proof -
  have "assertJsonSerializable shared_heap (V_ref 0) = Inr ()" by code_simp
  moreover have "(V_ref 0, V_ref 0) \<in> (child_rel cyclic_heap)\<^sup>+"
  proof (rule r_into_trancl)
    have "V_ref 0 \<in> set (value_children cyclic_heap (V_ref 0))" by code_simp
    then show "(V_ref 0, V_ref 0) \<in> child_rel cyclic_heap" by (simp add: child_rel_def)
  qed
  ultimately show ?thesis
    using assertJsonSerializable_iff[of shared_heap "V_ref 0"] assertJsonSerializable_iff[of cyclic_heap "V_ref 0"]
    by blast
qed

end
