(* ===== verification/Session_Facade.thy ===== *)
theory Session_Facade
  imports Session_Context Json_Payload
begin

text \<open>
  The \<open>Session\<close> class of \<open>packages/agent/src/harness/session/session.ts\<close>. A session forwards to a
  \<open>SessionStorage\<close>, adding argument checks, the default start of branch queries, single-result
  queries, generated ids and the payload check before every append. The storage interface is a
  record of operations; the laws a storage promises are the locale \<open>session_storage\<close>, which the
  in-memory storage satisfies.
\<close>

section \<open>The storage interface and the session\<close>

record 's storage_ops =
  so_getLanes :: "'s \<Rightarrow> lane_pointer list"
  so_findEntries :: "'s \<Rightarrow> entry_query \<Rightarrow> (session_error, entry list) result"
  so_findEntriesOnBranch ::
    "'s \<Rightarrow> entry_query \<Rightarrow> branch_bounds \<Rightarrow> string \<Rightarrow> (session_error, entry list) result"
  so_findRecords :: "'s \<Rightarrow> record_query \<Rightarrow> (session_error, lane_record list) result"
  so_findOpenOperations :: "'s \<Rightarrow> string \<Rightarrow> rat option \<Rightarrow> (session_error, lane_record list) result"
  so_getLog :: "'s \<Rightarrow> log_options \<Rightarrow> (session_error, log_item list) result"
  so_appendEntry :: "provisioned_entry \<Rightarrow> string \<Rightarrow> int \<Rightarrow> 's \<Rightarrow> (session_error, entry \<times> 's) result"
  so_appendRecord :: "new_record \<Rightarrow> int \<Rightarrow> 's \<Rightarrow> (session_error, lane_record \<times> 's) result"

definition getLeafIdForLane :: "'s storage_ops \<Rightarrow> string \<Rightarrow> 's \<Rightarrow> (session_error, string option) result" where
  "getLeafIdForLane ops lane s =
     (case List.find (\<lambda>(l, leaf). l = lane) (so_getLanes ops s) of
        None \<Rightarrow> Inl (SessionError SE_invalid_lane (''Lane not found: '' @ lane))
      | Some (l, leaf) \<Rightarrow> Inr leaf)"

definition limited :: "entry_query \<Rightarrow> rat option \<Rightarrow> entry_query" where
  "limited q resultLimit = (if resultLimit = eq_limit q then q else q\<lparr>eq_limit := resultLimit\<rparr>)"

definition queryEntries ::
  "'s storage_ops \<Rightarrow> entry_query \<Rightarrow> rat option \<Rightarrow> 's \<Rightarrow> (session_error, entry list) result" where
  "queryEntries ops q resultLimit s =
     bind_result (assertValidLimit (eq_limit q)) (\<lambda>_.
     bind_result (assertValidCursor (eq_cursor q)) (\<lambda>_.
     so_findEntries ops s (limited q resultLimit)))"

definition queryBranchEntries ::
  "'s storage_ops \<Rightarrow> string \<Rightarrow> entry_query \<Rightarrow> branch_bounds \<Rightarrow> string option \<Rightarrow> rat option \<Rightarrow> 's
    \<Rightarrow> (session_error, entry list) result" where
  "queryBranchEntries ops lane q b start resultLimit s =
     bind_result (assertValidLimit (eq_limit q)) (\<lambda>_.
     bind_result (assertValidCursor (eq_cursor q)) (\<lambda>_.
     bind_result (case start of Some i \<Rightarrow> Inr (Some i) | None \<Rightarrow> getLeafIdForLane ops lane s)
       (\<lambda>from. case from of
          None \<Rightarrow> Inr []
        | Some i \<Rightarrow> so_findEntriesOnBranch ops s (limited q resultLimit) b i)))"

text \<open>\<open>xs[0]\<close> of a query result.\<close>

definition first_entry :: "(session_error, entry list) result \<Rightarrow> (session_error, entry option) result" where
  "first_entry r = bind_result r (\<lambda>es. Inr (case es of [] \<Rightarrow> None | e # _ \<Rightarrow> Some e))"

definition findEntry :: "'s storage_ops \<Rightarrow> entry_query \<Rightarrow> 's \<Rightarrow> (session_error, entry option) result" where
  "findEntry ops q s = first_entry (queryEntries ops q (Some 1) s)"

definition findEntryOnBranch ::
  "'s storage_ops \<Rightarrow> string \<Rightarrow> entry_query \<Rightarrow> branch_bounds \<Rightarrow> string option \<Rightarrow> 's
    \<Rightarrow> (session_error, entry option) result" where
  "findEntryOnBranch ops lane q b start s =
     first_entry (queryBranchEntries ops lane q b start (Some 1) s)"

definition queryRecords :: "'s storage_ops \<Rightarrow> record_query \<Rightarrow> 's \<Rightarrow> (session_error, lane_record list) result" where
  "queryRecords ops q s =
     bind_result (assertValidLimit (rq_limit q)) (\<lambda>_.
     bind_result (assertValidCursor (rq_afterSeq q)) (\<lambda>_.
     if rq_operationKind q \<noteq> None \<and> rq_type q \<noteq> Some RT_operation_started
       then Inl (SessionError SE_invalid_query ''operationKind requires type \"operation_started\"'')
     else so_findRecords ops s q))"

definition queryOpenOperations ::
  "'s storage_ops \<Rightarrow> string \<Rightarrow> rat option \<Rightarrow> 's \<Rightarrow> (session_error, lane_record list) result" where
  "queryOpenOperations ops lane limit s =
     bind_result (assertValidLimit limit) (\<lambda>_. so_findOpenOperations ops s lane limit)"

definition queryLog :: "'s storage_ops \<Rightarrow> log_options \<Rightarrow> 's \<Rightarrow> (session_error, log_item list) result" where
  "queryLog ops opts s =
     bind_result (assertValidLimit (lo_limit opts)) (\<lambda>_.
     bind_result (assertValidCursor (lo_afterSeq opts)) (\<lambda>_.
     so_getLog ops s opts))"

text \<open>
  An append is given the entry twice: as the JavaScript object the payload check walks, and as
  the data the storage stores.
\<close>

type_synonym js_payload = "js_object list \<times> js_value"

definition commitEntry ::
  "'s storage_ops \<Rightarrow> js_payload \<Rightarrow> provisioned_entry \<Rightarrow> string \<Rightarrow> int \<Rightarrow> 's
    \<Rightarrow> (session_error, entry \<times> 's) result" where
  "commitEntry ops payload e lane now s =
     bind_result (assertJsonSerializable (fst payload) (snd payload)) (\<lambda>_.
     so_appendEntry ops e lane now s)"

definition commitRecord ::
  "'s storage_ops \<Rightarrow> js_payload \<Rightarrow> new_record \<Rightarrow> int \<Rightarrow> 's \<Rightarrow> (session_error, lane_record \<times> 's) result" where
  "commitRecord ops payload r now s =
     bind_result (assertJsonSerializable (fst payload) (snd payload)) (\<lambda>_.
     so_appendRecord ops r now s)"

definition appendMessageToLane ::
  "'s storage_ops \<Rightarrow> js_payload \<Rightarrow> string \<Rightarrow> string \<Rightarrow> agent_message \<Rightarrow> int \<Rightarrow> 's
    \<Rightarrow> (session_error, string \<times> 's) result" where
  "appendMessageToLane ops payload lane ident message now s =
     bind_result (commitEntry ops payload \<lparr>en_id = ident, en_body = E_message message False\<rparr> lane now s)
       (\<lambda>(e, t). Inr (en_id e, t))"

definition appendCustomEntryToLane ::
  "'s storage_ops \<Rightarrow> js_payload \<Rightarrow> string \<Rightarrow> string \<Rightarrow> string \<Rightarrow> json option \<Rightarrow> int \<Rightarrow> 's
    \<Rightarrow> (session_error, string \<times> 's) result" where
  "appendCustomEntryToLane ops payload lane ident customType data now s =
     bind_result (commitEntry ops payload \<lparr>en_id = ident, en_body = E_custom customType data\<rparr> lane now s)
       (\<lambda>(e, t). Inr (en_id e, t))"

section \<open>The laws of a storage\<close>

text \<open>
  \<open>branch s i\<close> is the path from entry \<open>i\<close> to its root. A storage keeps its invariant, stores an
  appended entry on top of the branch of the lane, moves that lane and no other, and answers a
  branch query from the leaf of a lane from its branch.
\<close>

locale session_storage =
  fixes ops :: "'s storage_ops"
    and inv :: "'s \<Rightarrow> bool"
    and branch :: "'s \<Rightarrow> string \<Rightarrow> entry list"
  assumes lanes_distinct: "inv s \<Longrightarrow> distinct (map fst (so_getLanes ops s))"
    and append_inv: "inv s \<Longrightarrow> so_appendEntry ops pe lane now s = Inr (e, t) \<Longrightarrow> inv t"
    and append_content: "inv s \<Longrightarrow> so_appendEntry ops pe lane now s = Inr (e, t) \<Longrightarrow>
      en_id e = en_id pe \<and> en_body e = en_body pe"
    and append_lanes: "inv s \<Longrightarrow> so_appendEntry ops pe lane now s = Inr (e, t) \<Longrightarrow>
      map_get (so_getLanes ops s) lane = Some (en_parentId e) \<and>
      so_getLanes ops t = map_set lane (Some (en_id e)) (so_getLanes ops s)"
    and append_branch: "inv s \<Longrightarrow> so_appendEntry ops pe lane now s = Inr (e, t) \<Longrightarrow>
      branch t (en_id e) = e # (case en_parentId e of None \<Rightarrow> [] | Some p \<Rightarrow> branch s p)"
    and branch_query: "inv s \<Longrightarrow> map_get (so_getLanes ops s) lane = Some (Some i) \<Longrightarrow>
      assertValidLimit (eq_limit q) = Inr () \<Longrightarrow> assertValidCursor (eq_cursor q) = Inr () \<Longrightarrow>
      so_findEntriesOnBranch ops s q b i = Inr (take_opt (limit_nat (eq_limit q))
        (filter (\<lambda>e. matchesEntryQuery e q) (take_until (stops_walk b)
          (if eq_order q = Some OldestFirst then rev (branch s i) else branch s i))))"
begin

definition lane_branch :: "'s \<Rightarrow> string option \<Rightarrow> entry list" where
  "lane_branch s leaf = (case leaf of None \<Rightarrow> [] | Some i \<Rightarrow> branch s i)"

lemma leaf_of_lane:
  assumes "map_get (so_getLanes ops s) lane = Some leaf"
  shows "getLeafIdForLane ops lane s = Inr leaf"
proof -
  have "List.find (\<lambda>(l, leaf). l = lane) xs = map_option (\<lambda>v. (lane, v)) (map_of xs lane)"
    for xs :: "(string \<times> string option) list"
    by (induction xs) auto
  then show ?thesis using assms by (simp add: getLeafIdForLane_def)
qed

lemma query_newest:
  assumes "inv s" and "map_get (so_getLanes ops s) lane = Some leaf"
  shows "queryBranchEntries ops lane newest_first no_bounds None None s = Inr (lane_branch s leaf)"
    and "findEntryOnBranch ops lane newest_first no_bounds None s =
      Inr (case lane_branch s leaf of [] \<Rightarrow> None | e # _ \<Rightarrow> Some e)"
proof -
  note leaf = leaf_of_lane[OF assms(2)]
  have valid: "assertValidLimit (eq_limit newest_first) = Inr ()" "assertValidCursor (eq_cursor newest_first) = Inr ()"
    "assertValidLimit (eq_limit (newest_first\<lparr>eq_limit := Some 1\<rparr>)) = Inr ()"
    "assertValidCursor (eq_cursor (newest_first\<lparr>eq_limit := Some 1\<rparr>)) = Inr ()"
    by (simp_all add: newest_first_def assertValidLimit_def assertValidCursor_def is_integer_def)
  have one: "limited newest_first None = newest_first"
    "limited newest_first (Some 1) = newest_first\<lparr>eq_limit := Some 1\<rparr>"
    by (simp_all add: limited_def newest_first_def)
  have all: "so_findEntriesOnBranch ops s newest_first no_bounds i = Inr (branch s i)"
    "so_findEntriesOnBranch ops s (newest_first\<lparr>eq_limit := Some 1\<rparr>) no_bounds i = Inr (take 1 (branch s i))"
    if "leaf = Some i" for i
    using branch_query[OF assms(1) assms(2)[unfolded that] valid(1,2)]
      branch_query[OF assms(1) assms(2)[unfolded that] valid(3,4)]
    by (simp_all add: newest_first_def limit_nat_def take_opt_def matchesEntryQuery_def take_until_never)
  show "queryBranchEntries ops lane newest_first no_bounds None None s = Inr (lane_branch s leaf)"
    using all(1) by (cases leaf) (simp_all add: queryBranchEntries_def valid leaf one lane_branch_def)
  show "findEntryOnBranch ops lane newest_first no_bounds None s =
      Inr (case lane_branch s leaf of [] \<Rightarrow> None | e # _ \<Rightarrow> Some e)"
  proof (cases leaf)
    case (Some i)
    then show ?thesis
      using all(2)[OF Some]
      by (cases "branch s i")
        (simp_all add: findEntryOnBranch_def queryBranchEntries_def valid leaf one first_entry_def lane_branch_def)
  qed (simp add: findEntryOnBranch_def queryBranchEntries_def valid leaf first_entry_def lane_branch_def)
qed

text \<open>A message appended through the session is what the next read of that lane returns.\<close>

lemma append_then_read:
  assumes inv: "inv s" and app: "appendMessageToLane ops payload lane ident message now s = Inr (i, t)"
  shows "\<exists>e old. i = ident \<and> en_id e = ident \<and> en_body e = E_message message False \<and>
     queryBranchEntries ops lane newest_first no_bounds None None s = Inr old \<and>
     queryBranchEntries ops lane newest_first no_bounds None None t = Inr (e # old) \<and>
     findEntryOnBranch ops lane newest_first no_bounds None t = Inr (Some e) \<and>
     getLeafIdForLane ops lane t = Inr (Some ident)"
proof -
  from app obtain e where ap: "so_appendEntry ops \<lparr>en_id = ident, en_body = E_message message False\<rparr> lane now s = Inr (e, t)"
    and i: "i = en_id e"
    by (auto simp: appendMessageToLane_def commitEntry_def elim!: bind_result_InrE)
  note inv' = append_inv[OF inv ap]
  note content = append_content[OF inv ap]
  note lanes = append_lanes[OF inv ap]
  have leaf: "map_get (so_getLanes ops t) lane = Some (Some (en_id e))" using lanes by simp
  have "lane_branch t (Some (en_id e)) = e # lane_branch s (en_parentId e)"
    using append_branch[OF inv ap] by (simp add: lane_branch_def)
  with query_newest[OF inv' leaf] query_newest(1)[OF inv conjunct1[OF lanes]] leaf_of_lane[OF leaf] content i
  show ?thesis by auto
qed

end

section \<open>The in-memory storage\<close>

definition memory_ops :: "session_state storage_ops" where
  "memory_ops =
     \<lparr>so_getLanes = getLanes, so_findEntries = findEntries, so_findEntriesOnBranch = findEntriesOnBranch,
      so_findRecords = findRecords, so_findOpenOperations = findOpenOperations, so_getLog = getLog,
      so_appendEntry = appendEntry, so_appendRecord = appendRecord\<rparr>"

lemma memory_ops_simps [simp]:
  "so_getLanes memory_ops = ss_lanes"
  "so_findEntriesOnBranch memory_ops = findEntriesOnBranch"
  "so_appendEntry memory_ops = appendEntry"
  by (auto simp: memory_ops_def getLanes_def)

lemma lane_entry:
  assumes "wf_state s" and "map_get (ss_lanes s) lane = Some (Some i)"
  shows "\<exists>e. getEntry s i = Some e"
proof -
  have "has_id (ss_entries s) i"
    using assms wf_stateD(4)[OF assms(1)] unfolding lanes_ok_def by blast
  then show ?thesis using getEntry_iff[OF assms(1)] unfolding has_id_def by (metis imageE)
qed

interpretation memory: session_storage memory_ops reachable ancestry
proof (unfold_locales, goal_cases)
  case (1 s)
  then show ?case using wf_stateD(4)[OF reachable_wf] by (simp add: lanes_ok_def)
next
  case (2 s pe lane now e t)
  then show ?case by (auto intro: reachable.append_entry)
next
  case (3 s pe lane now e t)
  then show ?case using appendEntry_effect(1)[OF reachable_wf] by (auto simp: provisioned_entry.truncate_def)
next
  case (4 s pe lane now e t)
  then show ?case using appendEntry_effect(2,5)[OF reachable_wf] by simp
next
  case (5 s pe lane now e t)
  then show ?case using appendEntry_effect(6)[OF reachable_wf] by simp
next
  case (6 s lane i q b)
  then obtain e where "getEntry s i = Some e" using lane_entry[OF reachable_wf, of s lane i] by auto
  with 6 findEntriesOnBranch_spec[OF reachable_wf] show ?case by simp
qed

section \<open>Properties\<close>

text \<open>
  C15: a session reads its own writes. After a message is appended to a lane, the leaf of the
  lane is the new id, the branch query returns the new entry in front of what it returned before,
  the single-entry query returns the new entry, and the conversation context built from the
  branch is the old context followed by the message (nothing for a deferred assistant message).
\<close>

theorem session_reads_its_writes:
  assumes "reachable s" and "appendMessageToLane memory_ops payload lane ident message now s = Inr (i, t)"
  shows "\<exists>e old. i = ident \<and> en_id e = ident \<and> en_body e = E_message message False \<and>
     queryBranchEntries memory_ops lane newest_first no_bounds None None s = Inr old \<and>
     queryBranchEntries memory_ops lane newest_first no_bounds None None t = Inr (e # old) \<and>
     findEntryOnBranch memory_ops lane newest_first no_bounds None t = Inr (Some e) \<and>
     getLeafIdForLane memory_ops lane t = Inr (Some ident) \<and>
     cx_messages (buildSessionContext (rev (e # old)) no_options) =
       cx_messages (buildSessionContext (rev old) no_options) @
       (case message of Llm (AssistantMsg a) \<Rightarrow> if am_stopReason a = SR_deferred then [] else [message]
        | _ \<Rightarrow> [message])"
proof -
  have ctx: "cx_messages (buildSessionContext (rev (e # old)) no_options) =
       cx_messages (buildSessionContext (rev old) no_options) @
       (case message of Llm (AssistantMsg a) \<Rightarrow> if am_stopReason a = SR_deferred then [] else [message]
        | _ \<Rightarrow> [message])" if "en_body e = E_message message False" for e old
    using that
    by (auto simp: build_plain transform_snoc plain_messages_def sessionEntryToContextMessages_def
        split: agent_message.splits message.splits)
  from memory.append_then_read[OF assms] show ?thesis using ctx by blast
qed

theorem session_reads_its_writes_witness:
  "\<exists>i t e old. appendMessageToLane memory_ops ([Js_Object Object_prototype 0 [(''id'', True, Data (V_string ''c''))]], V_ref 0) ''main'' ''c''
       (Llm (UserMsg \<lparr>um_content = Body_String ''go'', um_timestamp = 0\<rparr>)) 5 sample_session = Inr (i, t) \<and>
     queryBranchEntries memory_ops ''main'' newest_first no_bounds None None t = Inr (e # old)"
proof -
  have "\<not> Option.is_none (case appendMessageToLane memory_ops ([Js_Object Object_prototype 0 [(''id'', True, Data (V_string ''c''))]], V_ref 0) ''main'' ''c''
       (Llm (UserMsg \<lparr>um_content = Body_String ''go'', um_timestamp = 0\<rparr>)) 5 sample_session of
      Inl _ \<Rightarrow> None | Inr m \<Rightarrow> Some m)" by code_simp
  then obtain i t where "appendMessageToLane memory_ops ([Js_Object Object_prototype 0 [(''id'', True, Data (V_string ''c''))]], V_ref 0) ''main'' ''c''
       (Llm (UserMsg \<lparr>um_content = Body_String ''go'', um_timestamp = 0\<rparr>)) 5 sample_session = Inr (i, t)"
    by (auto split: sum.splits)
  with session_reads_its_writes[OF sample_reachable] show ?thesis by blast
qed

end
