(* ===== verification/Text_Codec.thy ===== *)
theory Text_Codec
  imports Prelude "HOL-Library.Word" "HOL-Library.Code_Target_Nat"
begin

text \<open>
  JavaScript strings as lists of UTF-16 code units, and the platform's \<open>TextEncoder\<close> and fatal
  \<open>TextDecoder\<close> as \<open>packages/protocol/src/cbor/options.ts\<close> configures them (UTF-8, byte order
  marks kept): encoding replaces an unpaired surrogate by U+FFFD, decoding rejects every
  ill-formed sequence. A string survives the trip exactly when its surrogates are paired.
\<close>

section \<open>Bytes\<close>

type_synonym byte = "8 word"

type_synonym utf16 = "16 word list"

definition byte :: "nat \<Rightarrow> byte" where
  "byte n = of_nat n"

lemma unat_byte [simp]: "unat (byte n) = n mod 256"
  by (simp add: byte_def unat_of_nat)

lemma unat_byte_less [simp]: "unat (b :: byte) < 256"
  using unsigned_less[of b, where 'a = nat] by simp

lemma byte_unat [simp]: "byte (unat b) = b"
  by (simp add: byte_def)

section \<open>Scalar values\<close>

definition is_high :: "16 word \<Rightarrow> bool" where
  "is_high u \<longleftrightarrow> 0xD800 \<le> unat u \<and> unat u < 0xDC00"

definition is_low :: "16 word \<Rightarrow> bool" where
  "is_low u \<longleftrightarrow> 0xDC00 \<le> unat u \<and> unat u < 0xE000"

definition pair_scalar :: "16 word \<Rightarrow> 16 word \<Rightarrow> nat" where
  "pair_scalar u v = 0x10000 + (unat u - 0xD800) * 0x400 + (unat v - 0xDC00)"

fun scalars :: "utf16 \<Rightarrow> nat list" where
  "scalars [] = []"
| "scalars [u] = [if is_high u \<or> is_low u then 0xFFFD else unat u]"
| "scalars (u # v # us) =
     (if is_high u then
        (if is_low v then pair_scalar u v # scalars us else 0xFFFD # scalars (v # us))
      else if is_low u then 0xFFFD # scalars (v # us)
      else unat u # scalars (v # us))"

definition utf16_of_scalar :: "nat \<Rightarrow> utf16" where
  "utf16_of_scalar n =
     (if n < 0x10000 then [of_nat n]
      else [of_nat (0xD800 + (n - 0x10000) div 0x400), of_nat (0xDC00 + (n - 0x10000) mod 0x400)])"

definition is_scalar :: "nat \<Rightarrow> bool" where
  "is_scalar n \<longleftrightarrow> n < 0xD800 \<or> 0xE000 \<le> n \<and> n < 0x110000"

section \<open>UTF-8\<close>

definition utf8_of_scalar :: "nat \<Rightarrow> byte list" where
  "utf8_of_scalar n =
     (if n < 0x80 then [byte n]
      else if n < 0x800 then [byte (0xC0 + n div 0x40), byte (0x80 + n mod 0x40)]
      else if n < 0x10000
        then [byte (0xE0 + n div 0x1000), byte (0x80 + n div 0x40 mod 0x40), byte (0x80 + n mod 0x40)]
      else [byte (0xF0 + n div 0x40000), byte (0x80 + n div 0x1000 mod 0x40),
            byte (0x80 + n div 0x40 mod 0x40), byte (0x80 + n mod 0x40)])"

definition continuation :: "byte \<Rightarrow> bool" where
  "continuation b \<longleftrightarrow> 0x80 \<le> unat b \<and> unat b < 0xC0"

text \<open>
  One well-formed sequence at the front: overlong forms, surrogates and values past U+10FFFF are
  errors, as is a missing continuation byte.
\<close>

fun utf8_next :: "byte list \<Rightarrow> (nat \<times> byte list) option" where
  "utf8_next [] = None"
| "utf8_next (b # bs) =
     (let n = unat b in
      if n < 0x80 then Some (n, bs)
      else if 0xC2 \<le> n \<and> n < 0xE0 then
        (case bs of
           c # rest \<Rightarrow> if continuation c then Some ((n - 0xC0) * 0x40 + (unat c - 0x80), rest) else None
         | _ \<Rightarrow> None)
      else if 0xE0 \<le> n \<and> n < 0xF0 then
        (case bs of
           c # d # rest \<Rightarrow>
             (let m = (n - 0xE0) * 0x1000 + (unat c - 0x80) * 0x40 + (unat d - 0x80) in
              if continuation c \<and> continuation d \<and> 0x800 \<le> m \<and> is_scalar m then Some (m, rest) else None)
         | _ \<Rightarrow> None)
      else if 0xF0 \<le> n \<and> n < 0xF5 then
        (case bs of
           c # d # f # rest \<Rightarrow>
             (let m = (n - 0xF0) * 0x40000 + (unat c - 0x80) * 0x1000 + (unat d - 0x80) * 0x40
                + (unat f - 0x80) in
              if continuation c \<and> continuation d \<and> continuation f \<and> 0x10000 \<le> m \<and> is_scalar m
                then Some (m, rest) else None)
         | _ \<Rightarrow> None)
      else None)"

lemma utf8_next_shorter: "utf8_next bs = Some (n, rest) \<Longrightarrow> length rest < length bs"
  by (cases bs) (auto simp: Let_def split: if_splits list.splits)

function utf8_decode :: "byte list \<Rightarrow> nat list option" where
  "utf8_decode bs =
     (if bs = [] then Some []
      else (case utf8_next bs of
        None \<Rightarrow> None
      | Some (n, rest) \<Rightarrow> map_option (\<lambda>ns. n # ns) (utf8_decode rest)))"
  by pat_completeness auto
termination
  by (relation "measure length") (auto dest: utf8_next_shorter)

declare utf8_decode.simps [simp del]

definition text_encode :: "utf16 \<Rightarrow> byte list" where
  "text_encode s = concat (map utf8_of_scalar (scalars s))"

definition text_decode :: "byte list \<Rightarrow> utf16 option" where
  "text_decode bs = map_option (\<lambda>ns. concat (map utf16_of_scalar ns)) (utf8_decode bs)"

section \<open>The trip through UTF-8\<close>

lemma utf8_next_encode:
  assumes "is_scalar n"
  shows "utf8_next (utf8_of_scalar n @ rest) = Some (n, rest)"
proof -
  have n: "n < 0x110000" using assms by (auto simp: is_scalar_def)
  consider "n < 0x80" | "0x80 \<le> n" "n < 0x800" | "0x800 \<le> n" "n < 0x10000" | "0x10000 \<le> n"
    by linarith
  then show ?thesis
  proof cases
    case 1
    then show ?thesis by (simp add: utf8_of_scalar_def)
  next
    case 2
    then have "n div 64 < 32" "2 \<le> n div 64" by auto
    with 2 show ?thesis
      by (simp add: utf8_of_scalar_def continuation_def Let_def)
  next
    case 3
    then have d: "n div 4096 < 16" by auto
    have m: "n div 4096 * 4096 + n div 64 mod 64 * 64 + n mod 64 = n"
    proof -
      have "n div 4096 = n div 64 div 64" by (simp add: div_mult2_eq[symmetric])
      then show ?thesis
        using div_mult_mod_eq[of n 64] div_mult_mod_eq[of "n div 64" 64] by linarith
    qed
    have "(224 + n div 4096) mod 256 = 224 + n div 4096" using d by simp
    moreover have "(128 + n div 64 mod 64) mod 256 = 128 + n div 64 mod 64"
      "(128 + n mod 64) mod 256 = 128 + n mod 64" by simp_all
    ultimately show ?thesis
      using 3 d assms m by (simp add: utf8_of_scalar_def continuation_def Let_def)
  next
    case 4
    then have d: "n div 262144 < 5" using n by auto
    have m: "n div 262144 * 262144 + n div 4096 mod 64 * 4096 + n div 64 mod 64 * 64 + n mod 64 = n"
    proof -
      have "n div 262144 = n div 4096 div 64" "n div 4096 = n div 64 div 64"
        by (simp_all add: div_mult2_eq[symmetric])
      then show ?thesis
        using div_mult_mod_eq[of n 64] div_mult_mod_eq[of "n div 64" 64] div_mult_mod_eq[of "n div 4096" 64]
        by linarith
    qed
    have "(240 + n div 262144) mod 256 = 240 + n div 262144" using d by simp
    moreover have "(128 + n div 4096 mod 64) mod 256 = 128 + n div 4096 mod 64"
      "(128 + n div 64 mod 64) mod 256 = 128 + n div 64 mod 64"
      "(128 + n mod 64) mod 256 = 128 + n mod 64" by simp_all
    ultimately show ?thesis
      using 4 d assms m by (simp add: utf8_of_scalar_def continuation_def Let_def)
  qed
qed

lemma utf8_of_scalar_nonempty [simp]: "utf8_of_scalar n \<noteq> []"
  by (simp add: utf8_of_scalar_def)

lemma utf8_decode_encode:
  "\<forall>n \<in> set ns. is_scalar n \<Longrightarrow> utf8_decode (concat (map utf8_of_scalar ns)) = Some ns"
proof (induction ns)
  case Nil
  then show ?case by (simp add: utf8_decode.simps)
next
  case (Cons n ns)
  then show ?case
    using utf8_next_encode[of n "concat (map utf8_of_scalar ns)"]
    by (subst utf8_decode.simps) simp
qed

lemma pair_bound: "is_high u \<Longrightarrow> is_low v \<Longrightarrow> 0x10000 \<le> pair_scalar u v \<and> pair_scalar u v < 0x110000"
  by (auto simp: is_high_def is_low_def pair_scalar_def)

lemma scalars_scalar: "n \<in> set (scalars s) \<Longrightarrow> is_scalar n"
proof (induction s rule: scalars.induct)
  case (2 u)
  have "unat u < 0x10000" using unsigned_less[of u, where 'a = nat] by simp
  with 2 show ?case by (auto simp: is_scalar_def is_high_def is_low_def split: if_splits)
next
  case (3 u v us)
  have "unat u < 0x10000" using unsigned_less[of u, where 'a = nat] by simp
  with 3 pair_bound[of u v] show ?case
    by (auto simp: is_scalar_def is_high_def is_low_def split: if_splits)
qed simp

lemma text_trip: "text_decode (text_encode s) = Some (concat (map utf16_of_scalar (scalars s)))"
  by (simp add: text_decode_def text_encode_def utf8_decode_encode scalars_scalar)

text \<open>Paired surrogates: the well-formed UTF-16 strings.\<close>

fun well_formed :: "utf16 \<Rightarrow> bool" where
  "well_formed [] = True"
| "well_formed [u] = (\<not> is_high u \<and> \<not> is_low u)"
| "well_formed (u # v # us) =
     (if is_high u then is_low v \<and> well_formed us else \<not> is_low u \<and> well_formed (v # us))"

lemma utf16_of_pair:
  assumes "is_high u" "is_low v"
  shows "utf16_of_scalar (pair_scalar u v) = [u, v]"
proof -
  let ?a = "unat u - 0xD800" and ?b = "unat v - 0xDC00"
  have b: "?b < 0x400" using assms(2) by (auto simp: is_low_def)
  have "pair_scalar u v - 0x10000 = ?a * 0x400 + ?b" by (simp add: pair_scalar_def)
  then have "(pair_scalar u v - 0x10000) div 0x400 = ?a" "(pair_scalar u v - 0x10000) mod 0x400 = ?b"
    using b by simp_all
  moreover have "0xD800 + ?a = unat u" "0xDC00 + ?b = unat v"
    using assms by (auto simp: is_high_def is_low_def)
  ultimately show ?thesis
    using pair_bound[OF assms] by (simp add: utf16_of_scalar_def)
qed

lemma utf16_of_unit: "utf16_of_scalar (unat (u :: 16 word)) = [u]"
  using unsigned_less[of u, where 'a = nat] by (simp add: utf16_of_scalar_def)

lemma utf16_of_replacement: "utf16_of_scalar 0xFFFD = [0xFFFD]"
  by (simp add: utf16_of_scalar_def)

lemma replacement_no_surrogate: "\<not> is_high 0xFFFD" "\<not> is_low 0xFFFD"
  by (simp_all add: is_high_def is_low_def)

lemma scalars_trip: "concat (map utf16_of_scalar (scalars s)) = s \<longleftrightarrow> well_formed s"
proof (induction s rule: scalars.induct)
  case (2 u)
  then show ?case
    using replacement_no_surrogate by (auto simp: utf16_of_unit utf16_of_replacement)
next
  case (3 u v us)
  consider "is_high u" "is_low v" | "is_high u" "\<not> is_low v" | "\<not> is_high u" "is_low u" | "\<not> is_high u" "\<not> is_low u"
    by blast
  then show ?case
    using 3 replacement_no_surrogate
    by cases (auto simp: utf16_of_unit utf16_of_pair utf16_of_replacement)
qed simp

lemma text_trip_iff: "text_decode (text_encode s) = Some s \<longleftrightarrow> well_formed s"
  by (simp add: text_trip scalars_trip)

section \<open>The trip from bytes\<close>

lemma base64_digit: "m < 64 \<Longrightarrow> (k * 64 + m) div 64 = k \<and> (k * 64 + m) mod 64 = (m :: nat)"
  by simp

lemma utf8_next_inverse:
  assumes "utf8_next bs = Some (n, rest)"
  shows "is_scalar n \<and> bs = utf8_of_scalar n @ rest"
proof -
  from assms obtain b bs' where bs: "bs = b # bs'" by (cases bs) auto
  have cont: "\<exists>x. unat c = 128 + x \<and> x < 64 \<and> c = byte (128 + x)" if "continuation c" for c
    using that byte_unat[of c] by (intro exI[of _ "unat c - 128"]) (auto simp: continuation_def)
  have lead: "\<exists>y. unat b = p + y \<and> b = byte (p + y)" if "p \<le> unat b" for p :: nat
    using that byte_unat[of b] by (intro exI[of _ "unat b - p"]) auto
  consider "unat b < 0x80" | "0xC2 \<le> unat b" "unat b < 0xE0" | "0xE0 \<le> unat b" "unat b < 0xF0"
    | "0xF0 \<le> unat b" "unat b < 0xF5"
    using assms by (fastforce simp: bs Let_def split: if_splits)
  then show ?thesis
  proof cases
    case 1
    then show ?thesis using assms by (auto simp: bs is_scalar_def utf8_of_scalar_def)
  next
    case 2
    then obtain c where c: "bs' = c # rest" "continuation c" "n = (unat b - 0xC0) * 0x40 + (unat c - 0x80)"
      using assms by (auto simp: bs Let_def split: list.splits if_splits)
    from cont[OF c(2)] obtain x where x: "unat c = 128 + x" "x < 64" "c = byte (128 + x)" by blast
    have "192 \<le> unat b" using 2 by simp
    from lead[OF this] obtain y where y: "unat b = 192 + y" "b = byte (192 + y)" by blast
    have "n = y * 64 + x" "2 \<le> y" "y < 32" using 2 c(3) x(1) y(1) by auto
    moreover from this x have "n div 64 = y" "n mod 64 = x" "0x80 \<le> n" "n < 0x800" by auto
    ultimately show ?thesis using bs c(1) x(3) y(2) by (simp add: utf8_of_scalar_def is_scalar_def)
  next
    case 3
    then obtain c d where c: "bs' = c # d # rest" "continuation c" "continuation d"
      "n = (unat b - 0xE0) * 0x1000 + (unat c - 0x80) * 0x40 + (unat d - 0x80)" "0x800 \<le> n" "is_scalar n"
      using assms by (auto simp: bs Let_def split: list.splits if_splits)
    from cont[OF c(2)] obtain x where x: "unat c = 128 + x" "x < 64" "c = byte (128 + x)" by blast
    from cont[OF c(3)] obtain z where z: "unat d = 128 + z" "z < 64" "d = byte (128 + z)" by blast
    from lead[OF 3(1)] obtain y where y: "unat b = 224 + y" "b = byte (224 + y)" by blast
    have n: "n = (y * 64 + x) * 64 + z" "y < 16" using 3 c(4) x(1) y(1) z(1) by auto
    then have "n div 64 = y * 64 + x" "n mod 64 = z" "n < 0x10000"
      using x(2) z(2) base64_digit[OF z(2), of "y * 64 + x"] by auto
    moreover have "n div 4096 = n div 64 div 64" by (simp add: div_mult2_eq[symmetric])
    ultimately show ?thesis using bs c(1,5,6) x(2,3) y(2) z(3) by (simp add: utf8_of_scalar_def)
  next
    case 4
    then obtain c d f where c: "bs' = c # d # f # rest" "continuation c" "continuation d" "continuation f"
      "n = (unat b - 0xF0) * 0x40000 + (unat c - 0x80) * 0x1000 + (unat d - 0x80) * 0x40 + (unat f - 0x80)"
      "0x10000 \<le> n" "is_scalar n"
      using assms by (auto simp: bs Let_def split: list.splits if_splits)
    from cont[OF c(2)] obtain x where x: "unat c = 128 + x" "x < 64" "c = byte (128 + x)" by blast
    from cont[OF c(3)] obtain z where z: "unat d = 128 + z" "z < 64" "d = byte (128 + z)" by blast
    from cont[OF c(4)] obtain u where u: "unat f = 128 + u" "u < 64" "f = byte (128 + u)" by blast
    from lead[OF 4(1)] obtain y where y: "unat b = 240 + y" "b = byte (240 + y)" by blast
    have n: "n = ((y * 64 + x) * 64 + z) * 64 + u" using 4 c(5) x(1) y(1) z(1) u(1) by auto
    then have "n div 64 = (y * 64 + x) * 64 + z" "n mod 64 = u"
      using base64_digit[OF u(2), of "(y * 64 + x) * 64 + z"] by auto
    moreover have "n div 4096 = y * 64 + x" "n div 64 mod 64 = z" "n div 262144 = y" "n div 4096 mod 64 = x"
    proof -
      have d: "n div 4096 = n div 64 div 64" "n div 262144 = n div 4096 div 64"
        by (simp_all add: div_mult2_eq[symmetric])
      show "n div 64 mod 64 = z" "n div 4096 = y * 64 + x"
        using calculation(1) base64_digit[OF z(2), of "y * 64 + x"] d(1) by (simp_all only:)
      then show "n div 262144 = y" "n div 4096 mod 64 = x"
        using base64_digit[OF x(2), of y] d(2) by (simp_all only:)
    qed
    ultimately show ?thesis using bs c(1,6,7) x(2,3) y(2) z(2,3) u(3) by (simp add: utf8_of_scalar_def)
  qed
qed

lemma utf8_decode_inverse:
  "utf8_decode bs = Some ns \<Longrightarrow> (\<forall>n \<in> set ns. is_scalar n) \<and> bs = concat (map utf8_of_scalar ns)"
proof (induction bs arbitrary: ns rule: utf8_decode.induct)
  case (1 bs)
  show ?case
  proof (cases "bs = []")
    case True
    then show ?thesis using 1(2) by (simp add: utf8_decode.simps)
  next
    case False
    then obtain n rest ms where s: "utf8_next bs = Some (n, rest)" "utf8_decode rest = Some ms" "ns = n # ms"
      using 1(2) by (subst (asm) utf8_decode.simps) (auto split: option.splits)
    then show ?thesis using 1(1)[OF False s(1) refl s(2)] utf8_next_inverse[OF s(1)] by simp
  qed
qed

lemma scalars_plain: "\<not> is_high u \<Longrightarrow> \<not> is_low u \<Longrightarrow> scalars (u # us) = unat u # scalars us"
  by (cases us) simp_all

lemma scalars_units:
  "\<forall>n \<in> set ns. is_scalar n \<Longrightarrow> scalars (concat (map utf16_of_scalar ns)) = ns"
proof (induction ns)
  case (Cons n ns)
  then have n: "is_scalar n" and IH: "scalars (concat (map utf16_of_scalar ns)) = ns" by simp_all
  show ?case
  proof (cases "n < 0x10000")
    case True
    then have "unat (of_nat n :: 16 word) = n" by (simp add: unat_of_nat)
    moreover have "utf16_of_scalar n = [of_nat n]" using True by (simp add: utf16_of_scalar_def)
    ultimately show ?thesis
      using True n IH by (auto simp: is_scalar_def scalars_plain is_high_def is_low_def)
  next
    case False
    let ?a = "(n - 0x10000) div 0x400" and ?b = "(n - 0x10000) mod 0x400"
    have a: "?a < 0x400" using n by (auto simp: is_scalar_def)
    then have "unat (of_nat (0xD800 + ?a) :: 16 word) = 0xD800 + ?a"
      "unat (of_nat (0xDC00 + ?b) :: 16 word) = 0xDC00 + ?b" by (simp_all only: unat_of_nat) simp_all
    moreover have "0x10000 + ?a * 0x400 + ?b = n" using False by simp
    moreover have "utf16_of_scalar n = [of_nat (0xD800 + ?a), of_nat (0xDC00 + ?b)]"
      using False by (simp only: utf16_of_scalar_def if_False)
    ultimately show ?thesis
      using a IH by (simp add: is_high_def is_low_def pair_scalar_def del: of_nat_add)
  qed
qed simp

lemma text_decode_inverse:
  assumes "text_decode bs = Some s"
  shows "text_encode s = bs" and "well_formed s"
proof -
  from assms obtain ns where "utf8_decode bs = Some ns" "s = concat (map utf16_of_scalar ns)"
    by (auto simp: text_decode_def)
  with utf8_decode_inverse[of bs ns] scalars_units[of ns] show enc: "text_encode s = bs"
    by (simp add: text_encode_def)
  with assms show "well_formed s" by (simp flip: text_trip_iff)
qed

end
