(* ===== verification/Cbor.thy ===== *)
theory Cbor
  imports Text_Codec
begin

text \<open>
  The CBOR subset of \<open>packages/protocol/src/cbor/\<close>: options, encoder and decoder. A JavaScript
  value is a tree, so the encoder's cycle check (object identity on the current path) never
  fires here and is left out; undefined values, values of other types and enumerable symbol keys
  are represented, since the encoder rejects or drops them. A number is an integer, or a
  fraction given by the 64 bits of its IEEE double, or minus zero, or not finite.
\<close>

section \<open>Options and errors\<close>

datatype codec_error =
    CborError string
  | RangeError string
  | FrameError string
  | TypeError string

definition UINT32_BASE :: nat where "UINT32_BASE = 2 ^ 32"

definition MAX_UINT32 :: nat where "MAX_UINT32 = 2 ^ 32 - 1"

definition MAX_CONFIGURED_DEPTH :: nat where "MAX_CONFIGURED_DEPTH = 512"

definition DEFAULT_MAX_CBOR_BYTE_LENGTH :: nat where "DEFAULT_MAX_CBOR_BYTE_LENGTH = 16 * 1024 * 1024"

definition DEFAULT_MAX_CBOR_CONTAINER_LENGTH :: nat where "DEFAULT_MAX_CBOR_CONTAINER_LENGTH = 1000000"

definition DEFAULT_MAX_CBOR_DEPTH :: nat where "DEFAULT_MAX_CBOR_DEPTH = 64"

definition MAX_SAFE_INTEGER :: int where "MAX_SAFE_INTEGER = 2 ^ 53 - 1"

record cbor_options =
  opt_maxByteLength :: "rat option"
  opt_maxContainerLength :: "rat option"
  opt_maxDepth :: "rat option"

record resolved_options =
  maxByteLength :: nat
  maxContainerLength :: nat
  maxDepth :: nat

definition is_safe_integer :: "rat \<Rightarrow> bool" where
  "is_safe_integer q \<longleftrightarrow> of_int \<lfloor>q\<rfloor> = q \<and> \<bar>\<lfloor>q\<rfloor>\<bar> \<le> MAX_SAFE_INTEGER"

definition resolveLimit :: "string \<Rightarrow> rat \<Rightarrow> nat \<Rightarrow> (codec_error, nat) result" where
  "resolveLimit nm q maximum =
     (if \<not> is_safe_integer q \<or> q < 0 \<or> q > of_nat maximum
        then Inl (RangeError (nm @ '' must be an integer between 0 and '' @ string_of_nat maximum))
      else Inr (nat \<lfloor>q\<rfloor>))"

definition or_default :: "rat option \<Rightarrow> nat \<Rightarrow> rat" where
  "or_default q d = (case q of Some x \<Rightarrow> x | None \<Rightarrow> of_nat d)"

definition resolveOptions :: "cbor_options \<Rightarrow> (codec_error, resolved_options) result" where
  "resolveOptions opts =
     bind_result (resolveLimit ''maxByteLength''
       (or_default (opt_maxByteLength opts) DEFAULT_MAX_CBOR_BYTE_LENGTH) MAX_UINT32) (\<lambda>bl.
     bind_result (resolveLimit ''maxContainerLength''
       (or_default (opt_maxContainerLength opts) DEFAULT_MAX_CBOR_CONTAINER_LENGTH) MAX_UINT32) (\<lambda>cl.
     bind_result (resolveLimit ''maxDepth''
       (or_default (opt_maxDepth opts) DEFAULT_MAX_CBOR_DEPTH) MAX_CONFIGURED_DEPTH) (\<lambda>d.
     Inr \<lparr>maxByteLength = bl, maxContainerLength = cl, maxDepth = d\<rparr>)))"

definition limit_error :: "string \<Rightarrow> nat \<Rightarrow> codec_error" where
  "limit_error what n = CborError (what @ '' exceeds configured limit of '' @ string_of_nat n)"

section \<open>Values\<close>

datatype js_number =
    Num_int int
  | Num_frac "64 word"
  | Num_neg_zero
  | Num_nonfinite

datatype js =
    J_null
  | J_bool bool
  | J_number js_number
  | J_text utf16
  | J_bytes "byte list"
  | J_array "js list"
  | J_object bool "(utf16 \<times> js) list"
  | J_undefined
  | J_unsupported string

text \<open>
  The number a 64-bit pattern denotes: \<open>1075\<close> is the exponent bias plus the fraction width. A
  pattern with an integral value is that integer; fractions keep their pattern.
\<close>

definition number_of_bits :: "64 word \<Rightarrow> js_number" where
  "number_of_bits w =
     (let n = unat w; e = n div 2 ^ 52 mod 2 ^ 11; m = n mod 2 ^ 52;
          s = (if n div 2 ^ 63 = 1 then - 1 else 1 :: int);
          mant = (if e = 0 then m else m + 2 ^ 52); ex = (if e = 0 then 1 else e)
      in if e = 2047 then Num_nonfinite
         else if mant = 0 then (if s = 1 then Num_int 0 else Num_neg_zero)
         else if ex \<ge> 1075 then Num_int (s * int (mant * 2 ^ (ex - 1075)))
         else if mant mod 2 ^ (1075 - ex) = 0 then Num_int (s * int (mant div 2 ^ (1075 - ex)))
         else Num_frac w)"

text \<open>
  The own enumerable string keys of an object: array indices first in numeric order, then the
  other keys in the order they were added. Defining a key that is not there yet puts it at its
  place.
\<close>

fun digits_value :: "nat \<Rightarrow> utf16 \<Rightarrow> nat option" where
  "digits_value n [] = Some n"
| "digits_value n (u # us) =
     (if 48 \<le> unat u \<and> unat u < 58 then digits_value (10 * n + (unat u - 48)) us else None)"

definition array_index :: "utf16 \<Rightarrow> nat option" where
  "array_index k =
     (if k = [] \<or> hd k = 48 \<and> length k > 1 then None
      else (case digits_value 0 k of None \<Rightarrow> None
        | Some n \<Rightarrow> if n < 2 ^ 32 - 1 then Some n else None))"

fun insert_index :: "nat \<Rightarrow> utf16 \<Rightarrow> js \<Rightarrow> (utf16 \<times> js) list \<Rightarrow> (utf16 \<times> js) list" where
  "insert_index n k v [] = [(k, v)]"
| "insert_index n k v ((k', v') # kvs) =
     (case array_index k' of
        None \<Rightarrow> (k, v) # (k', v') # kvs
      | Some m \<Rightarrow> if n < m then (k, v) # (k', v') # kvs else (k', v') # insert_index n k v kvs)"

definition define_property :: "utf16 \<Rightarrow> js \<Rightarrow> (utf16 \<times> js) list \<Rightarrow> (utf16 \<times> js) list" where
  "define_property k v kvs =
     (case array_index k of None \<Rightarrow> kvs @ [(k, v)] | Some n \<Rightarrow> insert_index n k v kvs)"

section \<open>The writer\<close>

text \<open>
  The writer appends to a buffer of a certain capacity that grows by doubling up to the limit.
  The growth loop is modelled as the partial function it is; it always returns, with a capacity
  that is enough.
\<close>

record cbor_writer =
  cw_bytes :: "byte list"
  cw_capacity :: nat
  cw_maxByteLength :: nat

definition new_writer :: "nat \<Rightarrow> cbor_writer" where
  "new_writer maxLen = \<lparr>cw_bytes = [], cw_capacity = min 256 maxLen, cw_maxByteLength = maxLen\<rparr>"

partial_function (option) grow_capacity :: "nat \<Rightarrow> nat \<Rightarrow> nat \<Rightarrow> nat option" where
  [code]: "grow_capacity maxLen required capacity =
     (if capacity < required
        then grow_capacity maxLen required (min maxLen (max required (capacity * 2)))
      else Some capacity)"

lemma grow_capacity_returns:
  assumes "required \<le> maxLen"
  shows "grow_capacity maxLen required capacity =
     Some (if capacity < required then min maxLen (max required (capacity * 2)) else capacity)"
  using assms by (subst grow_capacity.simps, subst grow_capacity.simps) auto

definition ensureCapacity :: "nat \<Rightarrow> cbor_writer \<Rightarrow> (codec_error, cbor_writer) result" where
  "ensureCapacity additional w =
     (let required = length (cw_bytes w) + additional in
      if required > cw_maxByteLength w
        then Inl (limit_error ''CBOR byte length'' (cw_maxByteLength w))
      else if required \<le> cw_capacity w then Inr w
      else Inr (w\<lparr>cw_capacity :=
        the (grow_capacity (cw_maxByteLength w) required (max 1 (cw_capacity w)))\<rparr>))"

definition writeBytes :: "byte list \<Rightarrow> cbor_writer \<Rightarrow> (codec_error, cbor_writer) result" where
  "writeBytes bs w =
     bind_result (ensureCapacity (length bs) w) (\<lambda>u. Inr (u\<lparr>cw_bytes := cw_bytes u @ bs\<rparr>))"

definition writeByte :: "nat \<Rightarrow> cbor_writer \<Rightarrow> (codec_error, cbor_writer) result" where
  "writeByte n = writeBytes [byte n]"

definition writeUint16 :: "nat \<Rightarrow> cbor_writer \<Rightarrow> (codec_error, cbor_writer) result" where
  "writeUint16 n = writeBytes [byte (n div 2 ^ 8), byte n]"

definition writeUint32 :: "nat \<Rightarrow> cbor_writer \<Rightarrow> (codec_error, cbor_writer) result" where
  "writeUint32 n = writeBytes [byte (n div 2 ^ 24), byte (n div 2 ^ 16), byte (n div 2 ^ 8), byte n]"

definition writeUint64 :: "nat \<Rightarrow> cbor_writer \<Rightarrow> (codec_error, cbor_writer) result" where
  "writeUint64 n w =
     (let high = n div UINT32_BASE; low = n - high * UINT32_BASE
      in bind_result (writeUint32 high w) (writeUint32 low))"

definition double_bytes :: "64 word \<Rightarrow> byte list" where
  "double_bytes w = map (\<lambda>k. byte (unat w div 2 ^ (8 * k))) [7, 6, 5, 4, 3, 2, 1, 0]"

definition writeFloat64 :: "64 word \<Rightarrow> cbor_writer \<Rightarrow> (codec_error, cbor_writer) result" where
  "writeFloat64 d = writeBytes (byte 0xFB # double_bytes d)"

section \<open>The encoder\<close>

definition writeArgument :: "nat \<Rightarrow> nat \<Rightarrow> cbor_writer \<Rightarrow> (codec_error, cbor_writer) result" where
  "writeArgument major n w =
     (let prefix = major * 2 ^ 5 in
      if n < 24 then writeByte (prefix + n) w
      else if n \<le> 0xFF then bind_result (writeByte (prefix + 24) w) (writeByte n)
      else if n \<le> 0xFFFF then bind_result (writeByte (prefix + 25) w) (writeUint16 n)
      else if n \<le> MAX_UINT32 then bind_result (writeByte (prefix + 26) w) (writeUint32 n)
      else bind_result (writeByte (prefix + 27) w) (writeUint64 n))"

definition encodeText :: "resolved_options \<Rightarrow> utf16 \<Rightarrow> cbor_writer \<Rightarrow> (codec_error, cbor_writer) result" where
  "encodeText opts s w =
     (let bytes = text_encode s in
      if length bytes > maxByteLength opts
        then Inl (limit_error ''CBOR text string length'' (maxByteLength opts))
      else if text_decode bytes \<noteq> Some s
        then Inl (CborError ''CBOR text strings must contain valid Unicode scalar values'')
      else bind_result (writeArgument 3 (length bytes) w) (writeBytes bytes))"

definition encodeNumber :: "js_number \<Rightarrow> cbor_writer \<Rightarrow> (codec_error, cbor_writer) result" where
  "encodeNumber n w =
     (case n of
        Num_nonfinite \<Rightarrow> Inl (CborError ''CBOR numbers must be finite'')
      | Num_int i \<Rightarrow>
          if \<not> \<bar>i\<bar> \<le> MAX_SAFE_INTEGER
            then Inl (CborError ''CBOR integers must be safe JavaScript integers'')
          else if i \<ge> 0 then writeArgument 0 (nat i) w
          else writeArgument 1 (nat (- 1 - i)) w
      | Num_neg_zero \<Rightarrow> writeFloat64 (of_nat (2 ^ 63)) w
      | Num_frac d \<Rightarrow> writeFloat64 d w)"

definition defined_entries :: "(utf16 \<times> js) list \<Rightarrow> (utf16 \<times> js) list" where
  "defined_entries kvs = filter (\<lambda>(k, v). v \<noteq> J_undefined) kvs"

fun encodeValue :: "resolved_options \<Rightarrow> nat \<Rightarrow> js \<Rightarrow> cbor_writer \<Rightarrow> (codec_error, cbor_writer) result"
  and encode_items :: "resolved_options \<Rightarrow> nat \<Rightarrow> js list \<Rightarrow> cbor_writer \<Rightarrow> (codec_error, cbor_writer) result"
  and encode_entries ::
    "resolved_options \<Rightarrow> nat \<Rightarrow> (utf16 \<times> js) list \<Rightarrow> cbor_writer \<Rightarrow> (codec_error, cbor_writer) result"
where
  "encodeValue opts depth v w =
     (if depth > maxDepth opts then Inl (limit_error ''CBOR nesting depth'' (maxDepth opts))
      else (case v of
        J_null \<Rightarrow> writeByte 0xF6 w
      | J_bool b \<Rightarrow> writeByte (if b then 0xF5 else 0xF4) w
      | J_number n \<Rightarrow> encodeNumber n w
      | J_text s \<Rightarrow> encodeText opts s w
      | J_bytes bs \<Rightarrow>
          if length bs > maxByteLength opts
            then Inl (limit_error ''CBOR byte string length'' (maxByteLength opts))
          else bind_result (writeArgument 2 (length bs) w) (writeBytes bs)
      | J_array vs \<Rightarrow>
          if length vs > maxContainerLength opts
            then Inl (limit_error ''CBOR array length'' (maxContainerLength opts))
          else bind_result (writeArgument 4 (length vs) w) (encode_items opts (depth + 1) vs)
      | J_object symbols kvs \<Rightarrow>
          if symbols then Inl (CborError ''CBOR map keys must be strings'')
          else if length (defined_entries kvs) > maxContainerLength opts
            then Inl (limit_error ''CBOR map length'' (maxContainerLength opts))
          else bind_result (writeArgument 5 (length (defined_entries kvs)) w)
            (encode_entries opts (depth + 1) kvs)
      | J_undefined \<Rightarrow> Inl (CborError ''Unsupported CBOR value type: undefined'')
      | J_unsupported t \<Rightarrow> Inl (CborError (''Unsupported CBOR value type: '' @ t))))"
| "encode_items opts depth [] w = Inr w"
| "encode_items opts depth (v # vs) w =
     (if v = J_undefined then Inl (CborError ''CBOR arrays must not contain holes or undefined values'')
      else bind_result (encodeValue opts depth v w) (encode_items opts depth vs))"
| "encode_entries opts depth [] w = Inr w"
| "encode_entries opts depth ((k, v) # kvs) w =
     (if v = J_undefined then encode_entries opts depth kvs w
      else bind_result (encodeText opts k w) (\<lambda>w1.
        bind_result (encodeValue opts depth v w1) (encode_entries opts depth kvs)))"

definition encodeCbor :: "cbor_options \<Rightarrow> js \<Rightarrow> (codec_error, byte list) result" where
  "encodeCbor opts v =
     bind_result (resolveOptions opts) (\<lambda>resolved.
     bind_result (encodeValue resolved 0 v (new_writer (maxByteLength resolved))) (\<lambda>w.
     Inr (cw_bytes w)))"

section \<open>The decoder\<close>

text \<open>A read consumes a prefix of the remaining bytes.\<close>

type_synonym 'a reader = "byte list \<Rightarrow> (codec_error, 'a \<times> byte list) result"

definition readBytes :: "nat \<Rightarrow> byte list reader" where
  "readBytes n bs =
     (if n > length bs then Inl (CborError ''Truncated CBOR payload'')
      else Inr (take n bs, drop n bs))"

definition readByte :: "nat reader" where
  "readByte bs =
     (case bs of [] \<Rightarrow> Inl (CborError ''Truncated CBOR payload'') | b # rest \<Rightarrow> Inr (unat b, rest))"

definition big_endian :: "byte list \<Rightarrow> nat" where
  "big_endian bs = foldl (\<lambda>n b. n * 256 + unat b) 0 bs"

definition readArgument :: "nat \<Rightarrow> nat reader" where
  "readArgument info bs =
     (if info < 24 then Inr (info, bs)
      else if info = 24 then readByte bs
      else if info = 25 then bind_result (readBytes 2 bs) (\<lambda>(x, rest). Inr (big_endian x, rest))
      else if info = 26 then bind_result (readBytes 4 bs) (\<lambda>(x, rest). Inr (big_endian x, rest))
      else if info = 27 then
        bind_result (readBytes 4 bs) (\<lambda>(x, r1).
        bind_result (readBytes 4 r1) (\<lambda>(y, r2).
        if big_endian x > 0x1FFFFF
          then Inl (CborError ''Decoded CBOR integer or length is outside the safe range'')
        else Inr (big_endian x * UINT32_BASE + big_endian y, r2)))
      else if info = 31 then Inl (CborError ''Indefinite-length CBOR items are not supported'')
      else Inl (CborError ''Malformed CBOR additional information''))"

definition readLength :: "nat \<Rightarrow> string \<Rightarrow> nat \<Rightarrow> nat reader" where
  "readLength info kind bound bs =
     (if info = 31 then Inl (CborError (''Indefinite-length CBOR '' @ kind @ ''s are not supported''))
      else bind_result (readArgument info bs) (\<lambda>(n, rest).
        if n > bound then Inl (limit_error (''CBOR '' @ kind @ '' length'') bound)
        else Inr (n, rest)))"

definition readSimple :: "nat \<Rightarrow> js reader" where
  "readSimple info bs =
     (if info = 20 then Inr (J_bool False, bs)
      else if info = 21 then Inr (J_bool True, bs)
      else if info = 22 then Inr (J_null, bs)
      else if info = 27 then
        bind_result (readBytes 8 bs) (\<lambda>(x, rest).
        (case number_of_bits (of_nat (big_endian x)) of
           Num_nonfinite \<Rightarrow> Inl (CborError ''Decoded CBOR number must be finite'')
         | Num_int i \<Rightarrow>
             if \<not> \<bar>i\<bar> \<le> MAX_SAFE_INTEGER
               then Inl (CborError ''Decoded CBOR integer is outside the safe range'')
             else Inr (J_number (Num_int i), rest)
         | n \<Rightarrow> Inr (J_number n, rest)))
      else if info = 31 then Inl (CborError ''CBOR break marker is not supported'')
      else Inl (CborError ''Unsupported CBOR simple value or floating-point width''))"

function (sequential) readItem :: "resolved_options \<Rightarrow> nat \<Rightarrow> js reader"
  and read_items :: "resolved_options \<Rightarrow> nat \<Rightarrow> nat \<Rightarrow> js list \<Rightarrow> js reader"
  and read_entries :: "resolved_options \<Rightarrow> nat \<Rightarrow> nat \<Rightarrow> utf16 list \<Rightarrow> (utf16 \<times> js) list \<Rightarrow> js reader"
where
  "readItem opts depth bs =
     (if depth > maxDepth opts then Inl (limit_error ''CBOR nesting depth'' (maxDepth opts))
      else bind_result (readByte bs) (\<lambda>(initial, r0).
      (let major = initial div 2 ^ 5; info = initial mod 2 ^ 5 in
       if major = 0 then bind_result (readArgument info r0) (\<lambda>(n, r). Inr (J_number (Num_int (int n)), r))
       else if major = 1 then
         bind_result (readArgument info r0) (\<lambda>(n, r).
         if \<not> \<bar>- 1 - int n\<bar> \<le> MAX_SAFE_INTEGER
           then Inl (CborError ''Decoded CBOR integer is outside the safe range'')
         else Inr (J_number (Num_int (- 1 - int n)), r))
       else if major = 2 then
         bind_result (readLength info ''byte string'' (maxByteLength opts) r0) (\<lambda>(n, r1).
         bind_result (readBytes n r1) (\<lambda>(x, r2). Inr (J_bytes x, r2)))
       else if major = 3 then
         bind_result (readLength info ''text string'' (maxByteLength opts) r0) (\<lambda>(n, r1).
         bind_result (readBytes n r1) (\<lambda>(x, r2).
         (case text_decode x of
            None \<Rightarrow> Inl (CborError ''CBOR text string contains invalid UTF-8'')
          | Some s \<Rightarrow> Inr (J_text s, r2))))
       else if major = 4 then
         bind_result (readLength info ''array'' (maxContainerLength opts) r0) (\<lambda>(n, r1).
         read_items opts (depth + 1) n [] r1)
       else if major = 5 then
         bind_result (readLength info ''map'' (maxContainerLength opts) r0) (\<lambda>(n, r1).
         read_entries opts (depth + 1) n [] [] r1)
       else if major = 6 then Inl (CborError ''CBOR tags are not supported'')
       else readSimple info r0)))"
| "read_items opts depth 0 acc bs = Inr (J_array acc, bs)"
| "read_items opts depth (Suc n) acc bs =
     bind_result (readItem opts depth bs) (\<lambda>(v, r). read_items opts depth n (acc @ [v]) r)"
| "read_entries opts depth 0 keys acc bs = Inr (J_object False acc, bs)"
| "read_entries opts depth (Suc n) keys acc bs =
     bind_result (readItem opts depth bs) (\<lambda>(key, r1).
     (case key of
        J_text k \<Rightarrow>
          if k \<in> set keys then Inl (CborError ''CBOR map contains a duplicate key'')
          else bind_result (readItem opts depth r1) (\<lambda>(v, r2).
            read_entries opts depth n (k # keys) (define_property k v acc) r2)
      | _ \<Rightarrow> Inl (CborError ''CBOR map keys must be strings'')))"
  by pat_completeness auto
termination
  by (relation "inv_image (less_than <*lex*> less_than)
    (\<lambda>x. case x of
       Inl (opts, depth, bs) \<Rightarrow> (2 * (Suc (maxDepth opts) - depth), 0)
     | Inr (Inl (opts, depth, n, acc, bs)) \<Rightarrow> (2 * (Suc (maxDepth opts) - depth), Suc n)
     | Inr (Inr (opts, depth, n, keys, acc, bs)) \<Rightarrow> (2 * (Suc (maxDepth opts) - depth), Suc n))")
    (auto simp: diff_less_mono2)

declare readItem.simps [simp del]
declare encodeValue.simps [simp del]

definition decodeCbor :: "cbor_options \<Rightarrow> byte list \<Rightarrow> (codec_error, js) result" where
  "decodeCbor opts bs =
     bind_result (resolveOptions opts) (\<lambda>resolved.
     if length bs > maxByteLength resolved
       then Inl (limit_error ''CBOR byte length'' (maxByteLength resolved))
     else bind_result (readItem resolved 0 bs) (\<lambda>(v, rest).
       if rest \<noteq> [] then Inl (CborError ''CBOR payload contains trailing data'') else Inr v))"

end
