(* ===== verification/Cbor_Round_Trip.thy ===== *)
theory Cbor_Round_Trip
  imports Cbor
begin

text \<open>
  What the encoder writes and what the decoder makes of it. The writer is described by the bytes
  it appends (\<open>cbor_bytes\<close>) and the condition under which it does so (\<open>encodable\<close>); on values with
  JavaScript's key order the decoder reads exactly those bytes back; and whatever the decoder
  returns is within the configured limits and can be encoded again.
\<close>

section \<open>Big-endian numbers\<close>

definition be_bytes :: "nat \<Rightarrow> nat \<Rightarrow> byte list" where
  "be_bytes m n = map (\<lambda>k. byte (n div 256 ^ k)) (rev [0..<m])"

lemma big_endian_append: "big_endian (bs @ [b]) = big_endian bs * 256 + unat b"
  by (simp add: big_endian_def)

lemma be_bytes_Suc: "be_bytes (Suc m) n = be_bytes m (n div 256) @ [byte n]"
proof -
  have "rev [0..<Suc m] = map Suc (rev [0..<m]) @ [0]"
    by (simp add: map_Suc_upt upt_conv_Cons flip: rev_map del: upt_Suc)
  then show ?thesis
    by (simp add: be_bytes_def div_mult2_eq mult.commute)
qed

lemma big_endian_be: "big_endian (be_bytes m n) = n mod 256 ^ m"
proof (induction m arbitrary: n)
  case 0
  then show ?case by (simp add: be_bytes_def big_endian_def)
next
  case (Suc m)
  then show ?case
    by (simp add: be_bytes_Suc big_endian_append mod_mult2_eq)
qed

lemma big_endian_bound: "big_endian bs < 256 ^ length bs"
proof (induction bs rule: rev_induct)
  case (snoc b bs)
  have "big_endian bs * 256 + unat b < (big_endian bs + 1) * 256" by simp
  also have "\<dots> \<le> 256 ^ length bs * 256" using snoc by (intro mult_le_mono1) simp
  finally show ?case by (simp add: big_endian_append)
qed (simp add: big_endian_def)

lemma length_be [simp]: "length (be_bytes m n) = m"
  by (simp add: be_bytes_def)

lemma be_bytes_0: "be_bytes 0 n = []"
  by (simp add: be_bytes_def)

lemma be_lists:
  "[byte (n div 2 ^ 8), byte n] = be_bytes 2 n"
  "[byte (n div 2 ^ 24), byte (n div 2 ^ 16), byte (n div 2 ^ 8), byte n] = be_bytes 4 n"
  "double_bytes w = be_bytes 8 (unat w)"
proof -
  have two: "be_bytes 2 n = [byte (n div 256), byte n]" for n
    by (simp only: numeral_2_eq_2 be_bytes_Suc be_bytes_0 append.simps)
  have four: "be_bytes 4 n = be_bytes 2 (n div 256 div 256) @ [byte (n div 256), byte n]" for n
  proof -
    have "(4::nat) = Suc (Suc 2)" by simp
    then show ?thesis by (simp only: be_bytes_Suc append_assoc append.simps)
  qed
  have eight: "be_bytes 8 n = be_bytes 4 (n div 256 div 256 div 256 div 256) @
      [byte (n div 256 div 256 div 256), byte (n div 256 div 256), byte (n div 256), byte n]" for n
  proof -
    have "(8::nat) = Suc (Suc (Suc (Suc 4)))" by simp
    then show ?thesis by (simp only: be_bytes_Suc append_assoc append.simps)
  qed
  show "[byte (n div 2 ^ 8), byte n] = be_bytes 2 n"
    "[byte (n div 2 ^ 24), byte (n div 2 ^ 16), byte (n div 2 ^ 8), byte n] = be_bytes 4 n"
    "double_bytes w = be_bytes 8 (unat w)"
    by (simp_all add: eight four two double_bytes_def div_mult2_eq[symmetric])
qed

section \<open>What the encoder writes\<close>

definition argument_bytes :: "nat \<Rightarrow> nat \<Rightarrow> byte list" where
  "argument_bytes major n =
     (if n < 24 then [byte (major * 32 + n)]
      else if n \<le> 0xFF then [byte (major * 32 + 24), byte n]
      else if n \<le> 0xFFFF then byte (major * 32 + 25) # be_bytes 2 n
      else if n \<le> MAX_UINT32 then byte (major * 32 + 26) # be_bytes 4 n
      else byte (major * 32 + 27) # be_bytes 4 (n div UINT32_BASE) @ be_bytes 4 (n mod UINT32_BASE))"

definition text_bytes :: "utf16 \<Rightarrow> byte list" where
  "text_bytes s = argument_bytes 3 (length (text_encode s)) @ text_encode s"

definition number_bytes :: "js_number \<Rightarrow> byte list" where
  "number_bytes n =
     (case n of
        Num_int i \<Rightarrow> if i \<ge> 0 then argument_bytes 0 (nat i) else argument_bytes 1 (nat (- 1 - i))
      | Num_frac d \<Rightarrow> byte 0xFB # be_bytes 8 (unat d)
      | Num_neg_zero \<Rightarrow> byte 0xFB # be_bytes 8 (2 ^ 63)
      | Num_nonfinite \<Rightarrow> [])"

fun cbor_bytes :: "js \<Rightarrow> byte list" and items_bytes :: "js list \<Rightarrow> byte list"
  and entries_bytes :: "(utf16 \<times> js) list \<Rightarrow> byte list" where
  "cbor_bytes J_null = [byte 0xF6]"
| "cbor_bytes (J_bool b) = [byte (if b then 0xF5 else 0xF4)]"
| "cbor_bytes (J_number n) = number_bytes n"
| "cbor_bytes (J_text s) = text_bytes s"
| "cbor_bytes (J_bytes bs) = argument_bytes 2 (length bs) @ bs"
| "cbor_bytes (J_array vs) = argument_bytes 4 (length vs) @ items_bytes vs"
| "cbor_bytes (J_object sy kvs) = argument_bytes 5 (length (defined_entries kvs)) @ entries_bytes kvs"
| "cbor_bytes _ = []"
| "items_bytes [] = []"
| "items_bytes (v # vs) = cbor_bytes v @ items_bytes vs"
| "entries_bytes [] = []"
| "entries_bytes ((k, v) # kvs) =
     (if v = J_undefined then entries_bytes kvs else text_bytes k @ cbor_bytes v @ entries_bytes kvs)"

definition text_ok :: "resolved_options \<Rightarrow> utf16 \<Rightarrow> bool" where
  "text_ok opts s \<longleftrightarrow> well_formed s \<and> length (text_encode s) \<le> maxByteLength opts"

definition number_ok :: "js_number \<Rightarrow> bool" where
  "number_ok n \<longleftrightarrow> (case n of Num_int i \<Rightarrow> \<bar>i\<bar> \<le> MAX_SAFE_INTEGER | Num_nonfinite \<Rightarrow> False | _ \<Rightarrow> True)"

fun encodable :: "resolved_options \<Rightarrow> nat \<Rightarrow> js \<Rightarrow> bool"
  and encodable_items :: "resolved_options \<Rightarrow> nat \<Rightarrow> js list \<Rightarrow> bool"
  and encodable_entries :: "resolved_options \<Rightarrow> nat \<Rightarrow> (utf16 \<times> js) list \<Rightarrow> bool" where
  "encodable opts d v \<longleftrightarrow> d \<le> maxDepth opts \<and>
     (case v of
        J_number n \<Rightarrow> number_ok n
      | J_text s \<Rightarrow> text_ok opts s
      | J_bytes bs \<Rightarrow> length bs \<le> maxByteLength opts
      | J_array vs \<Rightarrow> length vs \<le> maxContainerLength opts \<and> encodable_items opts (d + 1) vs
      | J_object sy kvs \<Rightarrow> \<not> sy \<and> length (defined_entries kvs) \<le> maxContainerLength opts \<and>
          encodable_entries opts (d + 1) kvs
      | J_undefined \<Rightarrow> False
      | J_unsupported t \<Rightarrow> False
      | _ \<Rightarrow> True)"
| "encodable_items opts d [] \<longleftrightarrow> True"
| "encodable_items opts d (v # vs) \<longleftrightarrow> v \<noteq> J_undefined \<and> encodable opts d v \<and> encodable_items opts d vs"
| "encodable_entries opts d [] \<longleftrightarrow> True"
| "encodable_entries opts d ((k, v) # kvs) \<longleftrightarrow>
     (v \<noteq> J_undefined \<longrightarrow> text_ok opts k \<and> encodable opts d v) \<and> encodable_entries opts d kvs"

declare encodable.simps [simp del]

text \<open>
  An action writes \<open>bs\<close> under \<open>ok\<close> when it succeeds exactly if \<open>ok\<close> holds and the bytes fit.
\<close>

definition fits :: "cbor_writer \<Rightarrow> byte list \<Rightarrow> bool" where
  "fits w bs \<longleftrightarrow> length (cw_bytes w) + length bs \<le> cw_maxByteLength w"

definition appended :: "cbor_writer \<Rightarrow> byte list \<Rightarrow> cbor_writer \<Rightarrow> bool" where
  "appended w bs w' \<longleftrightarrow> cw_bytes w' = cw_bytes w @ bs \<and> cw_maxByteLength w' = cw_maxByteLength w"

definition writes :: "(cbor_writer \<Rightarrow> (codec_error, cbor_writer) result) \<Rightarrow> bool \<Rightarrow> byte list \<Rightarrow> bool" where
  "writes f ok bs \<longleftrightarrow>
     (\<forall>w. fits w [] \<longrightarrow>
        ((\<exists>w'. f w = Inr w') \<longleftrightarrow> ok \<and> fits w bs) \<and> (\<forall>w'. f w = Inr w' \<longrightarrow> appended w bs w'))"

lemma writes_bytes: "writes (writeBytes bs) True bs"
  by (auto simp: writes_def writeBytes_def ensureCapacity_def Let_def fits_def appended_def)

lemma writes_bind:
  assumes f: "writes f ok1 bs1" and g: "writes g ok2 bs2"
  shows "writes (\<lambda>w. bind_result (f w) g) (ok1 \<and> ok2) (bs1 @ bs2)"
  unfolding writes_def
proof (intro allI impI conjI)
  fix w assume w: "fits w []"
  have split: "fits w (bs1 @ bs2) \<longleftrightarrow> fits w1 bs2" "fits w1 []" if "appended w bs1 w1" "fits w bs1" for w1
    using that by (auto simp: appended_def fits_def)
  have mono: "fits w (bs1 @ bs2) \<Longrightarrow> fits w bs1" by (simp add: fits_def)
  show "(\<exists>w'. bind_result (f w) g = Inr w') \<longleftrightarrow> (ok1 \<and> ok2) \<and> fits w (bs1 @ bs2)"
  proof (cases "f w")
    case (Inl e)
    then have "\<not> (ok1 \<and> fits w bs1)" using f w unfolding writes_def by fastforce
    then show ?thesis using Inl mono by auto
  next
    case (Inr w1)
    then have "ok1" "fits w bs1" "appended w bs1 w1" using f w unfolding writes_def by blast+
    moreover have "(\<exists>w'. g w1 = Inr w') \<longleftrightarrow> ok2 \<and> fits w1 bs2"
      using g split(2)[OF \<open>appended w bs1 w1\<close> \<open>fits w bs1\<close>] unfolding writes_def by blast
    ultimately show ?thesis using Inr split(1) by simp
  qed
  fix w' assume "bind_result (f w) g = Inr w'"
  then obtain w1 where w1: "f w = Inr w1" "g w1 = Inr w'" by (auto elim: bind_result_InrE)
  then have "fits w bs1" "appended w bs1 w1" using f w unfolding writes_def by blast+
  moreover from this have "appended w1 bs2 w'"
    using g w1(2) split(2) unfolding writes_def by blast
  ultimately show "appended w (bs1 @ bs2) w'" by (simp add: appended_def)
qed

lemma writes_fail: "writes (\<lambda>w. Inl e) False bs"
  by (simp add: writes_def)

lemma writes_skip: "writes Inr True []"
  by (simp add: writes_def appended_def)

lemma writes_if:
  "(c \<Longrightarrow> writes f ok bs) \<Longrightarrow> (\<not> c \<Longrightarrow> writes g ok bs) \<Longrightarrow> writes (\<lambda>w. if c then f w else g w) ok bs"
  by (cases c) simp_all

lemma writes_guard:
  "writes f ok bs \<Longrightarrow> writes (\<lambda>w. if c then Inl e else f w) (\<not> c \<and> ok) bs"
  by (cases c) (simp_all add: writes_fail)

lemma writeUint_eq:
  "writeUint16 n = writeBytes (be_bytes 2 n)"
  "writeUint32 n = writeBytes (be_bytes 4 n)"
  subgoal by (simp only: writeUint16_def be_lists(1))
  subgoal by (simp only: writeUint32_def be_lists(2))
  done

lemma writes_uint64: "writes (writeUint64 n) True (be_bytes 4 (n div UINT32_BASE) @ be_bytes 4 (n mod UINT32_BASE))"
proof -
  have "n - n div UINT32_BASE * UINT32_BASE = n mod UINT32_BASE"
    by (simp add: minus_div_mult_eq_mod)
  then have "writeUint64 n = (\<lambda>w. bind_result (writeBytes (be_bytes 4 (n div UINT32_BASE)) w)
      (writeBytes (be_bytes 4 (n mod UINT32_BASE))))"
    by (simp add: writeUint64_def writeUint_eq Let_def fun_eq_iff)
  then show ?thesis using writes_bind[OF writes_bytes writes_bytes] by simp
qed

lemma writes_argument: "writes (writeArgument major n) True (argument_bytes major n)"
proof -
  have small: "writes (\<lambda>w. bind_result (writeByte m w) (writeBytes bs)) True (byte m # bs)" for m bs
    using writes_bind[OF writes_bytes[of "[byte m]"] writes_bytes[of bs]] by (simp add: writeByte_def)
  have large: "writes (\<lambda>w. bind_result (writeByte m w) (writeUint64 n)) True
      (byte m # be_bytes 4 (n div UINT32_BASE) @ be_bytes 4 (n mod UINT32_BASE))" for m
    using writes_bind[OF writes_bytes[of "[byte m]"] writes_uint64[of n]] by (simp add: writeByte_def)
  show ?thesis
    unfolding writeArgument_def argument_bytes_def Let_def writeUint_eq
    using small[of "major * 32 + 24" "[byte n]"] small[of "major * 32 + 25" "be_bytes 2 n"]
      small[of "major * 32 + 26" "be_bytes 4 n"] large[of "major * 32 + 27"]
      writes_bytes[of "[byte (major * 32 + n)]"]
    by (simp add: writeByte_def[abs_def] del: power.simps)
qed

lemma writes_text: "writes (encodeText opts s) (text_ok opts s) (text_bytes s)"
proof -
  have "writes (\<lambda>w. if maxByteLength opts < length (text_encode s)
      then Inl (limit_error ''CBOR text string length'' (maxByteLength opts))
    else if text_decode (text_encode s) \<noteq> Some s
      then Inl (CborError ''CBOR text strings must contain valid Unicode scalar values'')
    else bind_result (writeArgument 3 (length (text_encode s)) w) (writeBytes (text_encode s)))
    (\<not> maxByteLength opts < length (text_encode s) \<and> \<not> text_decode (text_encode s) \<noteq> Some s \<and> True \<and> True)
    (argument_bytes 3 (length (text_encode s)) @ text_encode s)"
    by (intro writes_guard writes_bind writes_argument writes_bytes)
  moreover have "(\<not> maxByteLength opts < length (text_encode s) \<and> \<not> text_decode (text_encode s) \<noteq> Some s \<and> True \<and> True)
      = text_ok opts s"
    by (auto simp: text_ok_def text_trip_iff)
  ultimately show ?thesis
    by (simp add: encodeText_def[abs_def] Let_def text_bytes_def)
qed

lemma writes_number: "writes (encodeNumber n) (number_ok n) (number_bytes n)"
proof (cases n)
  case (Num_int i)
  have "writes (\<lambda>w. if \<not> \<bar>i\<bar> \<le> MAX_SAFE_INTEGER
      then Inl (CborError ''CBOR integers must be safe JavaScript integers'')
    else (if i \<ge> 0 then writeArgument 0 (nat i) w else writeArgument 1 (nat (- 1 - i)) w))
    (\<not> \<not> \<bar>i\<bar> \<le> MAX_SAFE_INTEGER \<and> True) (number_bytes n)"
    using Num_int writes_argument
    by (intro writes_guard) (auto simp: number_bytes_def)
  then show ?thesis
    by (simp add: Num_int encodeNumber_def[abs_def] number_ok_def)
next
  case (Num_frac d)
  then show ?thesis
    using writes_bytes[of "byte 0xFB # be_bytes 8 (unat d)"]
    by (simp add: encodeNumber_def[abs_def] writeFloat64_def be_lists(3) number_ok_def number_bytes_def)
next
  case Num_neg_zero
  have "unat (of_nat (2 ^ 63) :: 64 word) = 2 ^ 63" by (simp add: unat_of_nat)
  then show ?thesis
    using Num_neg_zero writes_bytes[of "byte 0xFB # be_bytes 8 (2 ^ 63)"]
    by (simp add: encodeNumber_def[abs_def] writeFloat64_def be_lists(3) number_ok_def number_bytes_def
        del: of_nat_power)
qed (simp add: encodeNumber_def[abs_def] number_ok_def writes_fail)

lemma encodeValue_shallow:
  assumes "d \<le> maxDepth opts"
  shows "encodeValue opts d J_null = writeByte 0xF6"
    "encodeValue opts d (J_bool b) = writeByte (if b then 0xF5 else 0xF4)"
    "encodeValue opts d (J_number n) = encodeNumber n"
    "encodeValue opts d (J_text s) = encodeText opts s"
    "encodeValue opts d (J_bytes bs) = (\<lambda>w. if length bs > maxByteLength opts
       then Inl (limit_error ''CBOR byte string length'' (maxByteLength opts))
       else bind_result (writeArgument 2 (length bs) w) (writeBytes bs))"
    "encodeValue opts d (J_array vs) = (\<lambda>w. if length vs > maxContainerLength opts
       then Inl (limit_error ''CBOR array length'' (maxContainerLength opts))
       else bind_result (writeArgument 4 (length vs) w) (encode_items opts (d + 1) vs))"
    "encodeValue opts d (J_object sy kvs) = (\<lambda>w. if sy then Inl (CborError ''CBOR map keys must be strings'')
       else if length (defined_entries kvs) > maxContainerLength opts
         then Inl (limit_error ''CBOR map length'' (maxContainerLength opts))
       else bind_result (writeArgument 5 (length (defined_entries kvs)) w) (encode_entries opts (d + 1) kvs))"
    "encodeValue opts d J_undefined = (\<lambda>w. Inl (CborError ''Unsupported CBOR value type: undefined''))"
    "encodeValue opts d (J_unsupported t) = (\<lambda>w. Inl (CborError (''Unsupported CBOR value type: '' @ t)))"
  using assms by (simp_all add: fun_eq_iff encodeValue.simps)

lemma writes_depth:
  assumes "d \<le> maxDepth opts \<Longrightarrow> writes (encodeValue opts d v) (encodable opts d v) bs"
  shows "writes (encodeValue opts d v) (encodable opts d v) bs"
proof (cases "d \<le> maxDepth opts")
  case False
  then have "encodeValue opts d v = (\<lambda>w. Inl (limit_error ''CBOR nesting depth'' (maxDepth opts)))"
    "\<not> encodable opts d v" by (simp_all add: fun_eq_iff encodable.simps encodeValue.simps)
  then show ?thesis by (simp add: writes_fail)
qed (rule assms)

lemma writes_value:
  "writes (encodeValue opts d v) (encodable opts d v) (cbor_bytes v)"
  "writes (encode_items opts d vs) (encodable_items opts d vs) (items_bytes vs)"
  "writes (encode_entries opts d kvs) (encodable_entries opts d kvs) (entries_bytes kvs)"
proof (induction v and vs and kvs arbitrary: d and d and d
    rule: cbor_bytes_items_bytes_entries_bytes.induct)
  case (2 b)
  then show ?case
    using writes_bytes[of "[byte (if b then 0xF5 else 0xF4)]"]
    by - (rule writes_depth, simp add: encodeValue_shallow encodable.simps writeByte_def)
next
  case (5 bs)
  have "writes (\<lambda>w. if length bs > maxByteLength opts
      then Inl (limit_error ''CBOR byte string length'' (maxByteLength opts))
    else bind_result (writeArgument 2 (length bs) w) (writeBytes bs))
    (\<not> length bs > maxByteLength opts \<and> True \<and> True) (argument_bytes 2 (length bs) @ bs)"
    by (intro writes_guard writes_bind writes_argument writes_bytes)
  then show ?case
    by - (rule writes_depth, simp add: encodeValue_shallow encodable.simps not_less)
next
  case (6 vs)
  have "writes (\<lambda>w. if length vs > maxContainerLength opts
      then Inl (limit_error ''CBOR array length'' (maxContainerLength opts))
    else bind_result (writeArgument 4 (length vs) w) (encode_items opts (d + 1) vs))
    (\<not> length vs > maxContainerLength opts \<and> True \<and> encodable_items opts (d + 1) vs)
    (argument_bytes 4 (length vs) @ items_bytes vs)"
    by (intro writes_guard writes_bind writes_argument 6)
  then show ?case
    by - (rule writes_depth, simp add: encodeValue_shallow encodable.simps not_less)
next
  case (7 sy kvs)
  have "writes (\<lambda>w. if sy then Inl (CborError ''CBOR map keys must be strings'')
    else if length (defined_entries kvs) > maxContainerLength opts
      then Inl (limit_error ''CBOR map length'' (maxContainerLength opts))
    else bind_result (writeArgument 5 (length (defined_entries kvs)) w) (encode_entries opts (d + 1) kvs))
    (\<not> sy \<and> \<not> length (defined_entries kvs) > maxContainerLength opts \<and> True \<and>
      encodable_entries opts (d + 1) kvs)
    (argument_bytes 5 (length (defined_entries kvs)) @ entries_bytes kvs)"
    by (intro writes_guard writes_bind writes_argument 7)
  then show ?case
    by - (rule writes_depth, simp add: encodeValue_shallow encodable.simps not_less)
next
  case 9
  have "encode_items opts d [] = Inr" by (simp add: fun_eq_iff)
  then show ?case by (simp add: writes_skip)
next
  case (10 v vs)
  have "writes (\<lambda>w. if v = J_undefined
      then Inl (CborError ''CBOR arrays must not contain holes or undefined values'')
    else bind_result (encodeValue opts d v w) (encode_items opts d vs))
    (\<not> v = J_undefined \<and> encodable opts d v \<and> encodable_items opts d vs) (cbor_bytes v @ items_bytes vs)"
    by (intro writes_guard writes_bind 10)
  then show ?case by simp
next
  case 11
  have "encode_entries opts d [] = Inr" by (simp add: fun_eq_iff)
  then show ?case by (simp add: writes_skip)
next
  case (12 k v kvs)
  show ?case
  proof (cases "v = J_undefined")
    case True
    then show ?thesis using 12(1)[OF True] by simp
  next
    case False
    have "writes (\<lambda>w. bind_result (encodeText opts k w) (\<lambda>w1.
        bind_result (encodeValue opts d v w1) (encode_entries opts d kvs)))
      (text_ok opts k \<and> encodable opts d v \<and> encodable_entries opts d kvs)
      (text_bytes k @ cbor_bytes v @ entries_bytes kvs)"
      by (intro writes_bind writes_text 12(2,3)[OF False])
    then show ?thesis using False by simp
  qed
qed (rule writes_depth, use writes_bytes[of "[byte 0xF6]"] writes_text writes_number in
    \<open>simp add: encodeValue_shallow encodable.simps writeByte_def writes_fail\<close>)+

section \<open>Reading it back\<close>

definition opts_ok :: "resolved_options \<Rightarrow> bool" where
  "opts_ok opts \<longleftrightarrow> maxByteLength opts \<le> MAX_UINT32 \<and> maxContainerLength opts \<le> MAX_UINT32"

lemma resolveOptions_ok: "resolveOptions opts = Inr r \<Longrightarrow> opts_ok r"
proof -
  have limit: "m \<le> maximum" if "resolveLimit nm q maximum = Inr m" for nm q m maximum
  proof -
    from that have m: "m = nat \<lfloor>q\<rfloor>" "q \<le> of_nat maximum" by (auto simp: resolveLimit_def split: if_splits)
    then have "\<lfloor>q\<rfloor> \<le> int maximum" by (metis floor_mono floor_of_nat)
    with m(1) show ?thesis by simp
  qed
  assume "resolveOptions opts = Inr r"
  then show ?thesis
    unfolding resolveOptions_def opts_ok_def by (auto elim!: bind_result_InrE dest: limit)
qed

text \<open>JavaScript values: fractions are fractions, and keys are in enumeration order, once each.\<close>

definition key_before :: "utf16 \<Rightarrow> utf16 \<Rightarrow> bool" where
  "key_before a b \<longleftrightarrow>
     (case array_index b of
        None \<Rightarrow> True
      | Some n \<Rightarrow> (case array_index a of None \<Rightarrow> False | Some m \<Rightarrow> m < n))"

definition key_ordered :: "utf16 list \<Rightarrow> bool" where
  "key_ordered ks \<longleftrightarrow> sorted_wrt key_before ks \<and> distinct ks"

fun js_ok :: "js \<Rightarrow> bool" and js_ok_items :: "js list \<Rightarrow> bool" and js_ok_entries :: "(utf16 \<times> js) list \<Rightarrow> bool"
where
  "js_ok (J_number n) = (case n of Num_frac d \<Rightarrow> number_of_bits d = Num_frac d | _ \<Rightarrow> True)"
| "js_ok (J_array vs) = js_ok_items vs"
| "js_ok (J_object sy kvs) = (key_ordered (map fst kvs) \<and> js_ok_entries kvs)"
| "js_ok _ = True"
| "js_ok_items [] = True"
| "js_ok_items (v # vs) = (js_ok v \<and> js_ok_items vs)"
| "js_ok_entries [] = True"
| "js_ok_entries ((k, v) # kvs) = (js_ok v \<and> js_ok_entries kvs)"

text \<open>What arrives on the other side: the value without its undefined properties.\<close>

fun received :: "js \<Rightarrow> js" and received_items :: "js list \<Rightarrow> js list"
  and received_entries :: "(utf16 \<times> js) list \<Rightarrow> (utf16 \<times> js) list" where
  "received (J_array vs) = J_array (received_items vs)"
| "received (J_object sy kvs) = J_object False (received_entries kvs)"
| "received v = v"
| "received_items [] = []"
| "received_items (v # vs) = received v # received_items vs"
| "received_entries [] = []"
| "received_entries ((k, v) # kvs) =
     (if v = J_undefined then received_entries kvs else (k, received v) # received_entries kvs)"

lemma readBytes_be [simp]: "readBytes m (be_bytes m n @ rest) = Inr (be_bytes m n, rest)"
  by (simp add: readBytes_def)

lemma argument_header:
  assumes "major < 8" and "n < 2 ^ 53"
  shows "\<exists>b tail. argument_bytes major n = b # tail \<and> unat b div 32 = major \<and> unat b mod 32 \<noteq> 31 \<and>
     (\<forall>rest. readArgument (unat b mod 32) (tail @ rest) = Inr (n, rest))"
proof -
  have head: "unat (byte (major * 32 + i)) = major * 32 + i" if "i < 32" for i
    using assms(1) that by simp
  consider "n < 24" | "24 \<le> n" "n \<le> 0xFF" | "0xFF < n" "n \<le> 0xFFFF" | "0xFFFF < n" "n \<le> MAX_UINT32" | "MAX_UINT32 < n" "0xFFFF < n"
    unfolding MAX_UINT32_def by linarith
  then show ?thesis
  proof cases
    case 1
    then show ?thesis using head[of n] by (simp add: argument_bytes_def readArgument_def)
  next
    case 2
    then show ?thesis using head[of 24] by (simp add: argument_bytes_def readArgument_def readByte_def)
  next
    case 3
    then show ?thesis using head[of 25] by (simp add: argument_bytes_def readArgument_def big_endian_be)
  next
    case 4
    then have "n mod 256 ^ 4 = n" by (simp add: MAX_UINT32_def)
    with 4 show ?thesis using head[of 26] by (simp add: argument_bytes_def readArgument_def big_endian_be)
  next
    case 5
    have base: "(256::nat) ^ 4 = UINT32_BASE" by (simp add: UINT32_BASE_def)
    have hi: "n div UINT32_BASE \<le> 0x1FFFFF" using assms(2) by (simp add: UINT32_BASE_def)
    then have "n div UINT32_BASE mod UINT32_BASE = n div UINT32_BASE" by (simp add: UINT32_BASE_def)
    moreover have "n div UINT32_BASE * UINT32_BASE + n mod UINT32_BASE mod 4294967296 = n"
      by (simp add: UINT32_BASE_def)
    ultimately show ?thesis
      using 5 hi head[of 27] by (simp add: argument_bytes_def readArgument_def big_endian_be base MAX_UINT32_def)
  qed
qed

lemma read_header:
  assumes "major < 8" and "n < 2 ^ 53"
  shows "\<exists>b tail. argument_bytes major n @ rest = b # tail \<and> unat b div 32 = major \<and>
     readArgument (unat b mod 32) tail = Inr (n, rest)"
  using argument_header[OF assms] by (metis append_Cons)

lemma read_length:
  assumes "major < 8" and "n \<le> bound" and "bound \<le> MAX_UINT32"
  shows "\<exists>b tail. argument_bytes major n @ rest = b # tail \<and> unat b div 32 = major \<and>
     readLength (unat b mod 32) kind bound tail = Inr (n, rest)"
proof -
  have "n < 2 ^ 53" using assms(2,3) by (simp add: MAX_UINT32_def)
  from argument_header[OF assms(1) this] obtain b tail where "argument_bytes major n = b # tail"
    "unat b div 32 = major" "unat b mod 32 \<noteq> 31" "\<forall>rest. readArgument (unat b mod 32) (tail @ rest) = Inr (n, rest)"
    by blast
  with assms(2) show ?thesis by (auto simp: readLength_def)
qed

lemma read_text:
  assumes "opts_ok opts" and "text_ok opts s" and "d \<le> maxDepth opts"
  shows "readItem opts d (text_bytes s @ rest) = Inr (J_text s, rest)"
proof -
  have fit: "length (text_encode s) \<le> maxByteLength opts" "maxByteLength opts \<le> MAX_UINT32"
    using assms(1,2) by (auto simp: opts_ok_def text_ok_def)
  obtain b tail where b: "argument_bytes 3 (length (text_encode s)) @ text_encode s @ rest = b # tail"
    "unat b div 32 = 3" "readLength (unat b mod 32) ''text string'' (maxByteLength opts) tail
      = Inr (length (text_encode s), text_encode s @ rest)"
    using read_length[OF _ fit, of 3 "text_encode s @ rest" "''text string''"] by auto
  have "text_decode (text_encode s) = Some s"
    using assms(2) by (simp add: text_trip_iff text_ok_def)
  with b assms(3) show ?thesis
    by (simp add: text_bytes_def readItem.simps readByte_def readBytes_def)
qed

lemma be_word: "of_nat (big_endian (be_bytes 8 (unat w))) = (w :: 64 word)"
  using unsigned_less[of w, where 'a = nat] by (simp add: big_endian_be)

lemma read_number:
  assumes "number_ok n" and "js_ok (J_number n)" and "d \<le> maxDepth opts"
  shows "readItem opts d (number_bytes n @ rest) = Inr (J_number n, rest)"
proof (cases n)
  case (Num_int i)
  have safe: "\<bar>i\<bar> \<le> MAX_SAFE_INTEGER" using assms(1) Num_int by (simp add: number_ok_def)
  show ?thesis
  proof (cases "0 \<le> i")
    case True
    then have "nat i < 2 ^ 53" using safe by (simp add: MAX_SAFE_INTEGER_def)
    from read_header[OF _ this, of 0 rest] obtain b tail where b: "argument_bytes 0 (nat i) @ rest = b # tail"
      "unat b div 32 = 0" "readArgument (unat b mod 32) tail = Inr (nat i, rest)" by auto
    show ?thesis
      using True Num_int assms(3) b by (simp add: number_bytes_def readItem.simps readByte_def)
  next
    case False
    then have "nat (- 1 - i) < 2 ^ 53" using safe by (simp add: MAX_SAFE_INTEGER_def)
    from read_header[OF _ this, of 1 rest] obtain b tail where b: "argument_bytes 1 (nat (- 1 - i)) @ rest = b # tail"
      "unat b div 32 = 1" "readArgument (unat b mod 32) tail = Inr (nat (- 1 - i), rest)" by auto
    show ?thesis
      using False Num_int assms(3) safe b by (simp add: number_bytes_def readItem.simps readByte_def)
  qed
next
  case (Num_frac w)
  then have bits: "number_of_bits w = Num_frac w" using assms(2) by simp
  have "unat (byte 0xFB) = 251" by simp
  then show ?thesis
    using Num_frac assms(3) bits
    by (simp add: number_bytes_def readItem.simps readByte_def readSimple_def be_word del: unat_byte)
next
  case Num_neg_zero
  have bits: "number_of_bits (of_nat (2 ^ 63)) = Num_neg_zero" by code_simp
  have be: "(of_nat (big_endian (be_bytes 8 (2 ^ 63))) :: 64 word) = of_nat (2 ^ 63)"
    by (simp add: big_endian_be)
  have "unat (byte 0xFB) = 251" by simp
  then show ?thesis
    using Num_neg_zero assms(3) bits be
    by (simp add: number_bytes_def readItem.simps readByte_def readSimple_def del: unat_byte of_nat_power)
qed (use assms(1) in \<open>simp add: number_ok_def\<close>)

lemma define_property_last:
  assumes "\<forall>x \<in> fst ` set acc. key_before x k"
  shows "define_property k v acc = acc @ [(k, v)]"
proof (cases "array_index k")
  case (Some n)
  have "insert_index n k v acc = acc @ [(k, v)]"
    using assms Some by (induction acc) (auto simp: key_before_def split: option.splits)
  then show ?thesis using Some by (simp add: define_property_def)
qed (simp add: define_property_def)

lemma length_received_items: "length (received_items vs) = length vs"
  by (induction vs) simp_all

lemma read_back:
  assumes opts: "opts_ok opts"
  shows "encodable opts d v \<Longrightarrow> js_ok v \<Longrightarrow> readItem opts d (cbor_bytes v @ rest) = Inr (received v, rest)"
    and "encodable_items opts d vs \<Longrightarrow> js_ok_items vs \<Longrightarrow>
      read_items opts d (length vs) items (items_bytes vs @ rest) = Inr (J_array (items @ received_items vs), rest)"
    and "encodable_entries opts d kvs \<Longrightarrow> js_ok_entries kvs \<Longrightarrow>
      key_ordered (map fst acc @ map fst kvs) \<Longrightarrow> set keys = fst ` set acc \<Longrightarrow>
      read_entries opts d (length (defined_entries kvs)) keys acc (entries_bytes kvs @ rest)
        = Inr (J_object False (acc @ received_entries kvs), rest)"
proof (induction v and vs and kvs arbitrary: d rest and d rest items and d rest acc keys
    rule: cbor_bytes_items_bytes_entries_bytes.induct)
  case (3 n)
  then show ?case using read_number by (simp add: encodable.simps)
next
  case (4 s)
  then show ?case using read_text[OF opts] by (simp add: encodable.simps)
next
  case (5 bs)
  then have fit: "length bs \<le> maxByteLength opts" "maxByteLength opts \<le> MAX_UINT32" "d \<le> maxDepth opts"
    using opts by (auto simp: encodable.simps opts_ok_def)
  from read_length[OF _ fit(1,2), of 2 "bs @ rest" "''byte string''"] fit(3) show ?case
    by (auto simp: readItem.simps readByte_def readBytes_def)
next
  case (6 vs)
  then have fit: "length vs \<le> maxContainerLength opts" "maxContainerLength opts \<le> MAX_UINT32" "d \<le> maxDepth opts"
    and enc: "encodable_items opts (d + 1) vs" "js_ok_items vs"
    using opts by (auto simp: encodable.simps opts_ok_def)
  from read_length[OF _ fit(1,2), of 4 "items_bytes vs @ rest" "''array''"] fit(3)
    6(1)[OF enc, of "[]" rest] show ?case
    by (auto simp: readItem.simps readByte_def)
next
  case (7 sy kvs)
  then have fit: "length (defined_entries kvs) \<le> maxContainerLength opts" "maxContainerLength opts \<le> MAX_UINT32"
      "d \<le> maxDepth opts"
    and enc: "encodable_entries opts (d + 1) kvs" "js_ok_entries kvs" "key_ordered (map fst kvs)"
    using opts by (auto simp: encodable.simps opts_ok_def)
  from read_length[OF _ fit(1,2), of 5 "entries_bytes kvs @ rest" "''map''"] fit(3)
    7(1)[OF enc(1,2), of "[]" "[]" rest] enc(3) show ?case
    by (auto simp: readItem.simps readByte_def)
next
  case (12 k v kvs)
  show ?case
  proof (cases "v = J_undefined")
    case True
    have "key_ordered (map fst acc @ map fst kvs)"
      using 12(6) by (auto simp: key_ordered_def sorted_wrt_append)
    then show ?thesis using True 12 by (simp add: defined_entries_def)
  next
    case False
    have enc: "text_ok opts k" "encodable opts d v" "encodable_entries opts d kvs" "js_ok v" "js_ok_entries kvs"
      using False 12(4,5) by auto
    have depth: "d \<le> maxDepth opts" using enc(2) by (simp add: encodable.simps)
    have fresh: "k \<notin> set keys" and last: "\<forall>x \<in> fst ` set acc. key_before x k"
      and ord: "key_ordered (map fst (acc @ [(k, received v)]) @ map fst kvs)"
      using 12(6,7) by (auto simp: key_ordered_def sorted_wrt_append)
    show ?thesis
      using False fresh 12(2)[OF False enc(2,4)] 12(3)[OF False enc(3,5) ord, of "k # keys"] 12(7)
      by (simp add: defined_entries_def read_text[OF opts enc(1) depth] define_property_last[OF last])
  qed
qed (simp_all add: encodable.simps readItem.simps readByte_def readSimple_def defined_entries_def)

section \<open>The codec\<close>

definition sample_options :: cbor_options where
  "sample_options = \<lparr>opt_maxByteLength = Some 64, opt_maxContainerLength = None, opt_maxDepth = Some 3\<rparr>"

definition sample_js :: js where
  "sample_js = J_object False
     [([49], J_array [J_number (Num_int (- 300)), J_number Num_neg_zero, J_text [0xD83D, 0xDE00]]),
      ([97], J_undefined), ([98], J_bytes [1, 2])]"

lemma encodeCbor_iff:
  "encodeCbor opts v = Inr bs \<longleftrightarrow>
     (\<exists>r. resolveOptions opts = Inr r \<and> encodable r 0 v \<and> length (cbor_bytes v) \<le> maxByteLength r \<and>
       bs = cbor_bytes v)"
proof (cases "resolveOptions opts")
  case (Inr r)
  let ?w = "new_writer (maxByteLength r)"
  have "writes (encodeValue r 0 v) (encodable r 0 v) (cbor_bytes v)" by (rule writes_value)
  moreover have "fits ?w []" "fits ?w bs \<longleftrightarrow> length bs \<le> maxByteLength r" for bs
    by (simp_all add: fits_def new_writer_def)
  ultimately have "((\<exists>w. encodeValue r 0 v ?w = Inr w) \<longleftrightarrow> encodable r 0 v \<and> length (cbor_bytes v) \<le> maxByteLength r)
      \<and> (\<forall>w. encodeValue r 0 v ?w = Inr w \<longrightarrow> appended ?w (cbor_bytes v) w)"
    unfolding writes_def by blast
  moreover have "appended ?w bs w \<Longrightarrow> cw_bytes w = bs" for bs w
    by (simp add: appended_def new_writer_def)
  ultimately show ?thesis
    using Inr by (cases "encodeValue r 0 v ?w") (auto simp: encodeCbor_def)
qed (simp add: encodeCbor_def)

lemma encodable_canonical:
  assumes "resolveOptions opts = Inr r" "encodable r 0 v" "length (cbor_bytes v) \<le> maxByteLength r" "js_ok v"
  shows "decodeCbor opts (cbor_bytes v) = Inr (received v)"
    and "t \<noteq> [] \<Longrightarrow> length (cbor_bytes v @ t) \<le> maxByteLength r \<Longrightarrow>
      decodeCbor opts (cbor_bytes v @ t) = Inl (CborError ''CBOR payload contains trailing data'')"
  using read_back(1)[OF resolveOptions_ok[OF assms(1)] assms(2,4), of "[]"]
    read_back(1)[OF resolveOptions_ok[OF assms(1)] assms(2,4), of t] assms
  by (simp_all add: decodeCbor_def)

text \<open>
  C16: Encoding succeeds exactly when the options are valid, the value is encodable under them (no
  undefined array element, unsupported type, symbol key, non-finite number, unsafe integer or
  unpaired surrogate; every length and the nesting depth within its limit) and the canonical
  bytes fit the byte limit; the output then is exactly the canonical bytes, with every length and
  integer in its shortest form and undefined properties left out.
\<close>

theorem encodeCbor_exact:
  "encodeCbor opts v = Inr bs \<longleftrightarrow>
     (\<exists>r. resolveOptions opts = Inr r \<and> encodable r 0 v \<and> length (cbor_bytes v) \<le> maxByteLength r \<and>
       bs = cbor_bytes v)"
  by (rule encodeCbor_iff)

text \<open>
  C17: Decoding what was encoded (under the same options) gives the value back, objects and arrays at
  every depth included, without the undefined properties; and no encoding is a prefix of another
  accepted payload: with anything after it, it is rejected as too long or as having trailing data.
\<close>

theorem decode_encode:
  assumes "encodeCbor opts v = Inr bs" and "js_ok v"
  shows "decodeCbor opts bs = Inr (received v) \<and>
    (\<forall>t. t \<noteq> [] \<longrightarrow> (\<exists>e. decodeCbor opts (bs @ t) = Inl e))"
proof -
  from assms(1)[unfolded encodeCbor_iff] obtain r where r: "resolveOptions opts = Inr r" "encodable r 0 v"
    "length (cbor_bytes v) \<le> maxByteLength r" "bs = cbor_bytes v" by blast
  have "\<exists>e. decodeCbor opts (bs @ t) = Inl e" if "t \<noteq> []" for t
    using encodable_canonical(2)[OF r(1-3) assms(2) that] r(1,4)
    by (cases "length (bs @ t) \<le> maxByteLength r") (auto simp: decodeCbor_def)
  then show ?thesis
    using encodable_canonical(1)[OF r(1-3) assms(2)] r(4) by blast
qed

lemma decode_encode_witness:
  "decodeCbor sample_options (cbor_bytes sample_js) = Inr (received sample_js) \<and>
   received sample_js \<noteq> sample_js"
proof -
  have "encodeCbor sample_options sample_js = Inr (cbor_bytes sample_js)" "js_ok sample_js"
    "received sample_js \<noteq> sample_js" by code_simp+
  with decode_encode[of sample_options sample_js] show ?thesis by blast
qed

end
