(* ===== verification/Framing.thy ===== *)
theory Framing
  imports Cbor_Round_Trip "HOL-Library.Monad_Syntax"
begin

text \<open>
  The framing of \<open>packages/protocol/src/framing.ts\<close>: a payload behind its 32-bit big-endian length,
  and the decoder that splits a stream of chunks into payloads. The decoder keeps the header bytes
  it has, and the payload so far in blocks of 64 KiB; both loops of \<open>push\<close> are partial functions
  here, and always return on the states the decoder can be in.
\<close>

section \<open>Frames\<close>

definition FRAME_HEADER_LENGTH :: nat where "FRAME_HEADER_LENGTH = 4"

definition PAYLOAD_BLOCK_SIZE :: nat where "PAYLOAD_BLOCK_SIZE = 64 * 1024"

definition DEFAULT_MAX_FRAME_LENGTH :: nat where "DEFAULT_MAX_FRAME_LENGTH = 16 * 1024 * 1024"

definition resolveMaxFrameLength :: "rat option \<Rightarrow> (codec_error, nat) result" where
  "resolveMaxFrameLength opt =
     (let value = or_default opt DEFAULT_MAX_FRAME_LENGTH in
      if \<not> is_safe_integer value \<or> value < 0 \<or> value > of_nat MAX_UINT32
        then Inl (RangeError (''maxFrameLength must be an integer between 0 and '' @ string_of_nat MAX_UINT32))
      else Inr (nat \<lfloor>value\<rfloor>))"

definition encodeFrame :: "byte list \<Rightarrow> (codec_error, byte list) result" where
  "encodeFrame payload =
     (let n = length payload in
      if n > MAX_UINT32 then Inl (RangeError ''Frame payload exceeds the unsigned 32-bit length limit'')
      else Inr ([byte (n div 2 ^ 24), byte (n div 2 ^ 16), byte (n div 2 ^ 8), byte n] @ payload))"

definition header_value :: "byte list \<Rightarrow> nat" where
  "header_value h = unat (h ! 0) * 0x1000000 + unat (h ! 1) * 0x10000 + unat (h ! 2) * 0x100 + unat (h ! 3)"

definition frame_limit_error :: "nat \<Rightarrow> nat \<Rightarrow> codec_error" where
  "frame_limit_error n m =
     FrameError (''Frame length '' @ string_of_nat n @ '' exceeds configured limit of '' @ string_of_nat m)"

definition assertCompleteFrame :: "rat option \<Rightarrow> byte list \<Rightarrow> (codec_error, unit) result" where
  "assertCompleteFrame opt frame =
     (if length frame < FRAME_HEADER_LENGTH
        then Inl (FrameError ''Frame does not contain a complete length prefix'')
      else (let n = header_value frame in
        bind_result (resolveMaxFrameLength opt) (\<lambda>m.
        if n > m then Inl (frame_limit_error n m)
        else if length frame \<noteq> FRAME_HEADER_LENGTH + n
          then Inl (FrameError ''Frame must contain exactly one complete payload'')
        else Inr ())))"

section \<open>The decoder\<close>

text \<open>
  \<open>currentPayloadBlock\<close>, when defined, is the last of \<open>payloadBlocks\<close>; only whether it is defined
  is kept. A block is an array of its full size.
\<close>

datatype decoder_state = DS_open | DS_ended | DS_failed

record frame_decoder =
  fd_header :: "byte list"
  fd_headerLength :: nat
  fd_maxFrameLength :: nat
  fd_payloadBlocks :: "byte list list"
  fd_currentPayloadBlock :: bool
  fd_currentPayloadBlockLength :: nat
  fd_expectedPayloadLength :: "nat option"
  fd_payloadLength :: nat
  fd_state :: decoder_state

definition new_frame_decoder :: "rat option \<Rightarrow> (codec_error, frame_decoder) result" where
  "new_frame_decoder opt =
     bind_result (resolveMaxFrameLength opt) (\<lambda>m. Inr
       \<lparr>fd_header = replicate FRAME_HEADER_LENGTH 0, fd_headerLength = 0, fd_maxFrameLength = m,
        fd_payloadBlocks = [], fd_currentPayloadBlock = False, fd_currentPayloadBlockLength = 0,
        fd_expectedPayloadLength = None, fd_payloadLength = 0, fd_state = DS_open\<rparr>)"

text \<open>\<open>array.set(bytes, offset)\<close>\<close>

definition set_bytes :: "byte list \<Rightarrow> nat \<Rightarrow> byte list \<Rightarrow> byte list" where
  "set_bytes xs offset ys = take offset xs @ ys @ drop (offset + length ys) xs"

definition frame_fail :: "frame_decoder \<Rightarrow> frame_decoder" where
  "frame_fail fd = fd\<lparr>fd_state := DS_failed, fd_headerLength := 0, fd_payloadBlocks := [],
     fd_currentPayloadBlock := False, fd_currentPayloadBlockLength := 0,
     fd_expectedPayloadLength := None, fd_payloadLength := 0\<rparr>"

definition copy_header :: "frame_decoder \<Rightarrow> byte list \<Rightarrow> frame_decoder \<times> byte list" where
  "copy_header fd chunk =
     (let n = min (FRAME_HEADER_LENGTH - fd_headerLength fd) (length chunk) in
      (fd\<lparr>fd_header := set_bytes (fd_header fd) (fd_headerLength fd) (take n chunk),
          fd_headerLength := fd_headerLength fd + n\<rparr>, drop n chunk))"

definition start_payload :: "nat \<Rightarrow> frame_decoder \<Rightarrow> frame_decoder" where
  "start_payload n fd = fd\<lparr>fd_expectedPayloadLength := Some n, fd_payloadBlocks := [],
     fd_currentPayloadBlock := False, fd_currentPayloadBlockLength := 0, fd_payloadLength := 0\<rparr>"

definition take_block :: "nat \<Rightarrow> frame_decoder \<Rightarrow> frame_decoder" where
  "take_block expected fd =
     (if \<not> fd_currentPayloadBlock fd
         \<or> fd_currentPayloadBlockLength fd = length (last (fd_payloadBlocks fd))
        then fd\<lparr>fd_payloadBlocks := fd_payloadBlocks fd @
                  [replicate (min PAYLOAD_BLOCK_SIZE (expected - fd_payloadLength fd)) 0],
                fd_currentPayloadBlock := True, fd_currentPayloadBlockLength := 0\<rparr>
      else fd)"

definition fill_step :: "nat \<Rightarrow> frame_decoder \<Rightarrow> byte list \<Rightarrow> frame_decoder \<times> byte list" where
  "fill_step expected fd chunk =
     (let fd1 = take_block expected fd; block = last (fd_payloadBlocks fd1);
          n = min (length block - fd_currentPayloadBlockLength fd1) (length chunk)
      in (fd1\<lparr>fd_payloadBlocks := butlast (fd_payloadBlocks fd1)
                @ [set_bytes block (fd_currentPayloadBlockLength fd1) (take n chunk)],
              fd_currentPayloadBlockLength := fd_currentPayloadBlockLength fd1 + n,
              fd_payloadLength := fd_payloadLength fd1 + n\<rparr>, drop n chunk))"

partial_function (option) fill_payload ::
  "nat \<Rightarrow> frame_decoder \<Rightarrow> byte list \<Rightarrow> (frame_decoder \<times> byte list) option" where
  [code]: "fill_payload expected fd chunk =
     (if chunk \<noteq> [] \<and> fd_payloadLength fd < expected
        then fill_payload expected (fst (fill_step expected fd chunk)) (snd (fill_step expected fd chunk))
      else Some (fd, chunk))"

definition assemble :: "nat \<Rightarrow> byte list list \<Rightarrow> byte list" where
  "assemble expected blocks =
     (if length blocks = 1 then hd blocks
      else fst (foldl (\<lambda>(payload, offset) block. (set_bytes payload offset block, offset + length block))
        (replicate expected 0, 0) blocks))"

definition finish_payload :: "frame_decoder \<Rightarrow> frame_decoder" where
  "finish_payload fd = fd\<lparr>fd_payloadBlocks := [], fd_currentPayloadBlock := False,
     fd_currentPayloadBlockLength := 0, fd_expectedPayloadLength := None, fd_payloadLength := 0\<rparr>"

text \<open>The part of the loop body up to the payload: go on, an empty frame, too long, or a payload to fill.\<close>

datatype header_phase = HP_continue | HP_empty | HP_oversize nat | HP_payload nat

definition read_frame_header :: "frame_decoder \<Rightarrow> byte list \<Rightarrow> header_phase \<times> frame_decoder \<times> byte list" where
  "read_frame_header fd chunk =
     (case fd_expectedPayloadLength fd of
        Some n \<Rightarrow> (HP_payload n, fd, chunk)
      | None \<Rightarrow>
          (case copy_header fd chunk of (fd1, rest) \<Rightarrow>
             if fd_headerLength fd1 < FRAME_HEADER_LENGTH then (HP_continue, fd1, rest)
             else (let n = header_value (fd_header fd1); fd2 = fd1\<lparr>fd_headerLength := 0\<rparr> in
               if n > fd_maxFrameLength fd2 then (HP_oversize n, frame_fail fd2, rest)
               else if n = 0 then (HP_empty, fd2, rest)
               else (HP_payload n, start_payload n fd2, rest))))"

type_synonym 'a decoding = "((codec_error, 'a) result \<times> frame_decoder) option"

partial_function (option) push_loop ::
  "frame_decoder \<Rightarrow> byte list \<Rightarrow> byte list list \<Rightarrow> byte list list decoding" where
  [code]: "push_loop fd chunk frames =
     (if chunk = [] then Some (Inr frames, fd)
      else (case read_frame_header fd chunk of (phase, fd1, rest) \<Rightarrow>
        (case phase of
           HP_continue \<Rightarrow> push_loop fd1 rest frames
         | HP_empty \<Rightarrow> push_loop fd1 rest (frames @ [[]])
         | HP_oversize n \<Rightarrow> Some (Inl (frame_limit_error n (fd_maxFrameLength fd1)), fd1)
         | HP_payload n \<Rightarrow>
             Option.bind (fill_payload n fd1 rest) (\<lambda>r.
               if fd_payloadLength (fst r) = n
                 then push_loop (finish_payload (fst r)) (snd r)
                   (frames @ [assemble n (fd_payloadBlocks (fst r))])
               else push_loop (fst r) (snd r) frames))))"

definition frame_push :: "frame_decoder \<Rightarrow> byte list \<Rightarrow> byte list list decoding" where
  "frame_push fd chunk =
     (case fd_state fd of
        DS_ended \<Rightarrow> Some (Inl (FrameError ''Frame decoder has ended''), fd)
      | DS_failed \<Rightarrow> Some (Inl (FrameError ''Frame decoder has failed''), fd)
      | DS_open \<Rightarrow> push_loop fd chunk [])"

definition frame_end :: "frame_decoder \<Rightarrow> (codec_error, unit) result \<times> frame_decoder" where
  "frame_end fd =
     (case fd_state fd of
        DS_ended \<Rightarrow> (Inl (FrameError ''Frame decoder has ended''), fd)
      | DS_failed \<Rightarrow> (Inl (FrameError ''Frame decoder has failed''), fd)
      | DS_open \<Rightarrow>
          if fd_headerLength fd \<noteq> 0 \<or> fd_expectedPayloadLength fd \<noteq> None
            then (Inl (FrameError ''Truncated frame at end of stream''), frame_fail fd)
          else (Inr (), fd\<lparr>fd_state := DS_ended\<rparr>))"

end
