(* ===== verification/Framing_Stream.thy ===== *)
theory Framing_Stream
  imports Framing
begin

text \<open>
  The frame decoder as a stream function. \<open>frames_of\<close> splits a byte stream into its complete
  frames, the rest, and the length that breaks the limit, if any. A decoder stands for the bytes
  it has taken and not returned; pushing a chunk is splitting those bytes with the chunk behind.
\<close>

section \<open>The stream\<close>

function frames_of :: "nat \<Rightarrow> byte list \<Rightarrow> byte list list \<times> byte list \<times> nat option" where
  "frames_of m bs =
     (if length bs < 4 then ([], bs, None)
      else (let n = big_endian (take 4 bs) in
        if n > m then ([], bs, Some n)
        else if length bs < 4 + n then ([], bs, None)
        else (case frames_of m (drop (4 + n) bs) of (fs, rest, e) \<Rightarrow> (take n (drop 4 bs) # fs, rest, e))))"
  by pat_completeness auto
termination by (relation "measure (\<lambda>(m, bs). length bs)") auto

declare frames_of.simps [simp del]

lemma frames_of_short: "length bs < 4 \<Longrightarrow> frames_of m bs = ([], bs, None)"
  by (simp add: frames_of.simps)

lemma frames_of_frame:
  assumes "length p \<le> m" and "length p \<le> MAX_UINT32"
  shows "frames_of m (be_bytes 4 (length p) @ p @ rest) =
     (case frames_of m rest of (fs, r, e) \<Rightarrow> (p # fs, r, e))"
  using assms by (subst frames_of.simps) (simp add: big_endian_be MAX_UINT32_def)

lemma frames_of_partial:
  assumes "n \<le> m" and "n \<le> MAX_UINT32" and "length p < n"
  shows "frames_of m (be_bytes 4 n @ p) = ([], be_bytes 4 n @ p, None)"
  using assms by (subst frames_of.simps) (simp add: big_endian_be MAX_UINT32_def)

lemma frames_of_oversize:
  assumes "m < n" and "n \<le> MAX_UINT32"
  shows "frames_of m (be_bytes 4 n @ p) = ([], be_bytes 4 n @ p, Some n)"
  using assms by (subst frames_of.simps) (simp add: big_endian_be MAX_UINT32_def)

lemma frames_of_append:
  "frames_of m a = (fs, r, None) \<Longrightarrow>
     frames_of m (a @ b) = (case frames_of m (r @ b) of (gs, r', e) \<Rightarrow> (fs @ gs, r', e))"
proof (induction m a arbitrary: fs r rule: frames_of.induct)
  case (1 m a)
  let ?n = "big_endian (take 4 a)"
  consider "length a < 4" | "4 \<le> length a" "length a < 4 + ?n" "?n \<le> m" | "4 + ?n \<le> length a" "?n \<le> m"
    using 1(2) by (subst (asm) frames_of.simps) (auto simp: Let_def split: if_splits)
  then show ?case
  proof cases
    case 3
    then obtain gs where tail: "frames_of m (drop (4 + ?n) a) = (gs, r, None)" "fs = take ?n (drop 4 a) # gs"
      using 1(2) by (subst (asm) frames_of.simps) (auto simp: Let_def split: if_splits prod.splits)
    have "\<not> length a < 4" "\<not> m < ?n" "\<not> length a < 4 + ?n" using 3 by simp_all
    from 1(1)[OF this(1) refl this(2,3) tail(1)] show ?thesis
      using 3 tail(2) by (subst frames_of.simps) (simp add: Let_def split: prod.splits)
  qed (use 1(2) in \<open>subst (asm) frames_of.simps, simp add: Let_def split: prod.splits\<close>)+
qed

lemma frames_of_append_error:
  "frames_of m a = (fs, r, Some n) \<Longrightarrow> frames_of m (a @ b) = (fs, r @ b, Some n)"
proof (induction m a arbitrary: fs r rule: frames_of.induct)
  case (1 m a)
  let ?n = "big_endian (take 4 a)"
  have four: "4 \<le> length a" and fits: "?n \<le> m \<Longrightarrow> 4 + ?n \<le> length a"
    using 1(2) by (subst (asm) frames_of.simps, auto simp: Let_def split: if_splits)+
  show ?case
  proof (cases "?n \<le> m")
    case True
    then obtain gs where tail: "frames_of m (drop (4 + ?n) a) = (gs, r, Some n)" "fs = take ?n (drop 4 a) # gs"
      using 1(2) four fits by (subst (asm) frames_of.simps) (auto simp: Let_def split: if_splits prod.splits)
    have "\<not> length a < 4" "\<not> m < ?n" "\<not> length a < 4 + ?n" using four fits True by simp_all
    from 1(1)[OF this(1) refl this(2,3) tail(1)] show ?thesis
      using four fits True tail(2) by (subst frames_of.simps) (simp add: Let_def split: prod.splits)
  next
    case False
    then show ?thesis
      using 1(2) four by (subst frames_of.simps, subst (asm) frames_of.simps) (auto simp: Let_def)
  qed
qed

lemma frames_of_length: "frames_of m bs = (fs, r, e) \<Longrightarrow> \<forall>f \<in> set fs. length f \<le> m"
proof (induction m bs arbitrary: fs r e rule: frames_of.induct)
  case (1 m bs)
  then show ?case
    by (subst (asm) (2) frames_of.simps) (fastforce simp: Let_def split: if_splits prod.splits)
qed

section \<open>Bytes received and not returned\<close>

definition payload_so_far :: "frame_decoder \<Rightarrow> byte list" where
  "payload_so_far fd = take (fd_payloadLength fd) (concat (fd_payloadBlocks fd))"

definition received_bytes :: "frame_decoder \<Rightarrow> byte list" where
  "received_bytes fd =
     (case fd_expectedPayloadLength fd of
        None \<Rightarrow> take (fd_headerLength fd) (fd_header fd)
      | Some n \<Rightarrow> be_bytes 4 n @ payload_so_far fd)"

text \<open>The blocks hold what has arrived; only the last may have room, and none goes past the payload.\<close>

definition blocks_ok :: "nat \<Rightarrow> frame_decoder \<Rightarrow> bool" where
  "blocks_ok n fd \<longleftrightarrow> length (concat (fd_payloadBlocks fd)) \<le> n \<and>
     (if fd_currentPayloadBlock fd then fd_payloadBlocks fd \<noteq> [] \<and>
        fd_currentPayloadBlockLength fd \<le> length (last (fd_payloadBlocks fd)) \<and>
        fd_payloadLength fd = length (concat (butlast (fd_payloadBlocks fd))) + fd_currentPayloadBlockLength fd
      else fd_payloadBlocks fd = [] \<and> fd_payloadLength fd = 0)"

definition frame_decoder_ok :: "frame_decoder \<Rightarrow> bool" where
  "frame_decoder_ok fd \<longleftrightarrow> fd_state fd = DS_open \<and> fd_maxFrameLength fd \<le> MAX_UINT32 \<and>
     length (fd_header fd) = 4 \<and> fd_headerLength fd < 4 \<and>
     (case fd_expectedPayloadLength fd of
        None \<Rightarrow> True
      | Some n \<Rightarrow> fd_headerLength fd = 0 \<and> 0 < n \<and> n \<le> fd_maxFrameLength fd \<and>
          blocks_ok n fd \<and> fd_payloadLength fd < n)"

lemma payload_length: "blocks_ok n fd \<Longrightarrow> length (payload_so_far fd) = fd_payloadLength fd \<and> fd_payloadLength fd \<le> n"
proof -
  assume ok: "blocks_ok n fd"
  have "length (concat xs) = length (concat (butlast xs)) + length (last xs)" if "xs \<noteq> []" for xs :: "byte list list"
    using that by (induction xs) auto
  with ok show ?thesis by (auto simp: blocks_ok_def payload_so_far_def split: if_splits)
qed

lemma concat_butlast_last: "xs \<noteq> [] \<Longrightarrow> concat (butlast xs) @ last xs = concat xs"
  by (induction xs) auto

text \<open>The decoder never holds more than a header and one payload within the limit.\<close>

lemma received_bounded:
  assumes "frame_decoder_ok fd"
  shows "length (received_bytes fd) < 4 + fd_maxFrameLength fd \<or> length (received_bytes fd) < 4"
  using assms payload_length[of _ fd]
  by (cases "fd_expectedPayloadLength fd") (auto simp: frame_decoder_ok_def received_bytes_def)

lemma received_incomplete:
  assumes "frame_decoder_ok fd"
  shows "frames_of (fd_maxFrameLength fd) (received_bytes fd) = ([], received_bytes fd, None)"
proof (cases "fd_expectedPayloadLength fd")
  case None
  then show ?thesis using assms by (simp add: frame_decoder_ok_def received_bytes_def frames_of_short)
next
  case (Some n)
  then have "n \<le> fd_maxFrameLength fd" "n \<le> MAX_UINT32" "length (payload_so_far fd) < n"
    using assms payload_length[of n fd] by (auto simp: frame_decoder_ok_def)
  from frames_of_partial[OF this] Some show ?thesis by (simp add: received_bytes_def)
qed

section \<open>Filling a payload\<close>

lemma take_block_ok:
  assumes "blocks_ok n fd" and "fd_payloadLength fd < n"
  shows "blocks_ok n (take_block n fd) \<and> payload_so_far (take_block n fd) = payload_so_far fd \<and>
    fd_payloadLength (take_block n fd) = fd_payloadLength fd \<and> fd_currentPayloadBlock (take_block n fd) \<and>
    fd_currentPayloadBlockLength (take_block n fd) < length (last (fd_payloadBlocks (take_block n fd)))"
proof (cases "fd_currentPayloadBlock fd")
  case False
  then show ?thesis
    using assms by (simp add: take_block_def blocks_ok_def payload_so_far_def PAYLOAD_BLOCK_SIZE_def)
next
  case True
  then have ne: "fd_payloadBlocks fd \<noteq> []" using assms by (simp add: blocks_ok_def)
  have len: "length (concat (fd_payloadBlocks fd)) =
      length (concat (butlast (fd_payloadBlocks fd))) + length (last (fd_payloadBlocks fd))"
    using arg_cong[OF concat_butlast_last[OF ne], of length] by (simp del: length_concat)
  show ?thesis
  proof (cases "fd_currentPayloadBlockLength fd = length (last (fd_payloadBlocks fd))")
    case False
    with True assms show ?thesis by (simp add: take_block_def blocks_ok_def)
  next
    case full: True
    with True assms len have "fd_payloadLength fd = length (concat (fd_payloadBlocks fd))"
      by (simp add: blocks_ok_def)
    with full True assms ne show ?thesis
      by (simp add: take_block_def blocks_ok_def payload_so_far_def PAYLOAD_BLOCK_SIZE_def del: length_concat)
  qed
qed

lemma length_set_bytes: "off + length ys \<le> length xs \<Longrightarrow> length (set_bytes xs off ys) = length xs"
  by (simp add: set_bytes_def)

lemma take_set_bytes: "off + length ys \<le> length xs \<Longrightarrow> take (off + length ys) (set_bytes xs off ys) = take off xs @ ys"
  by (simp add: set_bytes_def)

definition same_frame :: "frame_decoder \<Rightarrow> frame_decoder \<Rightarrow> bool" where
  "same_frame fd fd' \<longleftrightarrow> fd_header fd' = fd_header fd \<and> fd_headerLength fd' = fd_headerLength fd \<and>
     fd_maxFrameLength fd' = fd_maxFrameLength fd \<and> fd_state fd' = fd_state fd \<and>
     fd_expectedPayloadLength fd' = fd_expectedPayloadLength fd"

lemma fill_step_ok:
  assumes ok: "blocks_ok n fd" and less: "fd_payloadLength fd < n" and chunk: "chunk \<noteq> []"
  shows "\<exists>k fd'. 0 < k \<and> k \<le> length chunk \<and> k \<le> n - fd_payloadLength fd \<and> fill_step n fd chunk = (fd', drop k chunk) \<and>
     blocks_ok n fd' \<and> payload_so_far fd' = payload_so_far fd @ take k chunk \<and>
     fd_payloadLength fd' = fd_payloadLength fd + k \<and> same_frame fd fd'"
proof -
  let ?fd = "take_block n fd"
  let ?bs = "fd_payloadBlocks ?fd" and ?l = "fd_currentPayloadBlockLength ?fd"
  let ?k = "min (length (last ?bs) - ?l) (length chunk)"
  note tb = take_block_ok[OF ok less]
  then have ne: "?bs \<noteq> []" and room: "?l < length (last ?bs)" and cap: "length (concat ?bs) \<le> n"
    and pl: "fd_payloadLength fd = length (concat (butlast ?bs)) + ?l"
    by (auto simp: blocks_ok_def)
  have len: "length (concat ?bs) = length (concat (butlast ?bs)) + length (last ?bs)"
    using arg_cong[OF concat_butlast_last[OF ne], of length] by (simp del: length_concat)
  have so_far: "payload_so_far fd = concat (butlast ?bs) @ take ?l (last ?bs)"
  proof -
    have "payload_so_far ?fd = take (length (concat (butlast ?bs)) + ?l) (concat (butlast ?bs) @ last ?bs)"
      using tb pl concat_butlast_last[OF ne] by (simp add: payload_so_far_def del: length_concat)
    with tb show ?thesis by (simp del: length_concat)
  qed
  let ?fd' = "fst (fill_step n fd chunk)"
  have blocks: "fd_payloadBlocks ?fd' = butlast ?bs @ [set_bytes (last ?bs) ?l (take ?k chunk)]"
    "fd_currentPayloadBlockLength ?fd' = ?l + ?k" "fd_payloadLength ?fd' = fd_payloadLength fd + ?k"
    "fd_currentPayloadBlock ?fd'" "snd (fill_step n fd chunk) = drop ?k chunk"
    using tb by (simp_all add: fill_step_def Let_def)
  have lk: "length (set_bytes (last ?bs) ?l (take ?k chunk)) = length (last ?bs)"
    "take (?l + ?k) (set_bytes (last ?bs) ?l (take ?k chunk)) = take ?l (last ?bs) @ take ?k chunk"
    using length_set_bytes[of ?l "take ?k chunk" "last ?bs"] take_set_bytes[of ?l "take ?k chunk" "last ?bs"] room
    by auto
  have "blocks_ok n ?fd'"
    using blocks lk(1) pl len cap room by (simp add: blocks_ok_def del: length_concat)
  moreover have "payload_so_far ?fd' = payload_so_far fd @ take ?k chunk"
    using blocks(1,3) pl lk(2) so_far by (simp add: payload_so_far_def add.assoc del: length_concat)
  moreover have "same_frame fd ?fd'"
    by (simp add: same_frame_def fill_step_def take_block_def Let_def)
  moreover have "0 < ?k" "?k \<le> length chunk" "?k \<le> n - fd_payloadLength fd"
    using room chunk pl len cap by auto
  ultimately show ?thesis
    using blocks(3,5) by (metis prod.collapse)
qed

lemma fill_payload_ok:
  "blocks_ok n fd \<Longrightarrow>
   \<exists>k fd'. k = min (length chunk) (n - fd_payloadLength fd) \<and> fill_payload n fd chunk = Some (fd', drop k chunk) \<and>
     blocks_ok n fd' \<and> payload_so_far fd' = payload_so_far fd @ take k chunk \<and>
     fd_payloadLength fd' = fd_payloadLength fd + k \<and> same_frame fd fd'"
proof (induction "length chunk" arbitrary: fd chunk rule: less_induct)
  case less
  show ?case
  proof (cases "chunk \<noteq> [] \<and> fd_payloadLength fd < n")
    case False
    then have "min (length chunk) (n - fd_payloadLength fd) = 0" by auto
    moreover from False have "fill_payload n fd chunk = Some (fd, chunk)"
      by (subst fill_payload.simps) auto
    ultimately show ?thesis
      using less.prems by (intro exI[of _ 0] exI[of _ fd]) (simp add: same_frame_def)
  next
    case True
    from fill_step_ok[OF less.prems] True obtain k fd1 where
      k: "0 < k" "k \<le> length chunk" "k \<le> n - fd_payloadLength fd" "fill_step n fd chunk = (fd1, drop k chunk)"
      "blocks_ok n fd1" "payload_so_far fd1 = payload_so_far fd @ take k chunk"
      "fd_payloadLength fd1 = fd_payloadLength fd + k" "same_frame fd fd1" by blast
    let ?j = "min (length (drop k chunk)) (n - fd_payloadLength fd1)"
    from k(1,2) True have "length (drop k chunk) < length chunk" by simp
    from less.hyps[OF this k(5)] obtain fd2 where fd2: "fill_payload n fd1 (drop k chunk) = Some (fd2, drop ?j (drop k chunk))"
      "blocks_ok n fd2" "payload_so_far fd2 = payload_so_far fd1 @ take ?j (drop k chunk)"
      "fd_payloadLength fd2 = fd_payloadLength fd1 + ?j" "same_frame fd1 fd2" by blast
    have kj: "k + ?j = min (length chunk) (n - fd_payloadLength fd)"
      using k(2,3,7) by auto
    have "fill_payload n fd chunk = Some (fd2, drop (k + ?j) chunk)"
      using True k(4) fd2(1) by (subst fill_payload.simps) (simp add: add.commute)
    moreover have "payload_so_far fd2 = payload_so_far fd @ take (k + ?j) chunk"
      using k(6) fd2(3) by (simp add: take_add)
    moreover have "same_frame fd fd2" using k(8) fd2(5) by (simp add: same_frame_def)
    ultimately show ?thesis
      using fd2(2,4) k(7) kj by (metis add.assoc)
  qed
qed

lemma assemble_concat:
  assumes "length (concat blocks) = n" and "blocks \<noteq> []"
  shows "assemble n blocks = concat blocks"
proof -
  have "foldl (\<lambda>(payload, offset) block. (set_bytes payload offset block, offset + length block)) (p, length pre) bs
      = (pre @ concat bs @ drop (length (pre @ concat bs)) p, length (pre @ concat bs))"
    if "take (length pre) p = pre" for bs p and pre :: "byte list"
    using that
  proof (induction bs arbitrary: p pre)
    case Nil
    then show ?case by (metis append_Nil append_take_drop_id concat.simps(1) foldl_Nil append.right_neutral)
  next
    case (Cons b bs)
    let ?p = "set_bytes p (length pre) b"
    have p: "?p = (pre @ b) @ drop (length (pre @ b)) p"
      using Cons.prems by (simp add: set_bytes_def)
    then have "take (length (pre @ b)) ?p = pre @ b" by simp
    from Cons.IH[OF this] show ?case
      by (simp add: p add.commute add.left_commute)
  qed
  from this[of "[]" "replicate n 0" blocks] show ?thesis
    using assms by (cases blocks) (auto simp: assemble_def)
qed

section \<open>Pushing a chunk\<close>

lemma header_value_eq:
  assumes "length h = 4"
  shows "header_value h = big_endian h"
proof -
  from assms obtain a b c d where "h = [a, b, c, d]"
    by (auto simp: length_Suc_conv numeral_eq_Suc)
  then show ?thesis by (simp add: header_value_def big_endian_def)
qed

lemma be_big_endian: "be_bytes (length bs) (big_endian bs) = bs"
proof (induction bs rule: rev_induct)
  case (snoc b bs)
  have "(big_endian bs * 256 + unat b) div 256 = big_endian bs" by (simp add: div_add1_eq)
  moreover have "byte (big_endian bs * 256 + unat b) = b"
  proof -
    have zero: "(256 :: byte) = 0" by simp
    show ?thesis unfolding byte_def of_nat_add of_nat_mult of_nat_numeral zero by simp
  qed
  ultimately show ?case using snoc by (simp add: be_bytes_Suc big_endian_append)
qed (simp add: be_bytes_def)

lemma copy_header_ok:
  assumes "length (fd_header fd) = 4" and "fd_headerLength fd < 4" and "chunk \<noteq> []"
    and "k = min (4 - fd_headerLength fd) (length chunk)"
  shows "0 < k \<and> snd (copy_header fd chunk) = drop k chunk \<and>
    fd_headerLength (fst (copy_header fd chunk)) = fd_headerLength fd + k \<and>
    length (fd_header (fst (copy_header fd chunk))) = 4 \<and>
    take (fd_headerLength fd + k) (fd_header (fst (copy_header fd chunk))) =
      take (fd_headerLength fd) (fd_header fd) @ take k chunk"
  using assms take_set_bytes[of "fd_headerLength fd" "take k chunk" "fd_header fd"]
    length_set_bytes[of "fd_headerLength fd" "take k chunk" "fd_header fd"]
  by (auto simp: copy_header_def FRAME_HEADER_LENGTH_def Let_def min_def split: if_splits)

text \<open>
  What one round of the outer loop starts from: the bytes received so far followed by the chunk.
\<close>

definition pushed :: "nat \<Rightarrow> byte list list \<Rightarrow> byte list \<Rightarrow> byte list list decoding \<Rightarrow> bool" where
  "pushed m frames bs result \<longleftrightarrow>
     (case frames_of m bs of
        (fs, rest, None) \<Rightarrow> (\<exists>fd. result = Some (Inr (frames @ fs), fd) \<and> frame_decoder_ok fd \<and>
          fd_maxFrameLength fd = m \<and> received_bytes fd = rest)
      | (fs, rest, Some n) \<Rightarrow> (\<exists>fd. result = Some (Inl (frame_limit_error n m), fd) \<and> fd_state fd = DS_failed \<and>
          received_bytes fd = []))"

lemma pushed_frame:
  assumes "length p \<le> m" and "m \<le> MAX_UINT32" and "pushed m (frames @ [p]) rest result"
  shows "pushed m frames (be_bytes 4 (length p) @ p @ rest) result"
  using assms frames_of_frame[of p m rest]
  by (auto simp: pushed_def split: prod.splits option.splits)

lemma push_payload:
  assumes ok: "fd_state fd = DS_open" "fd_maxFrameLength fd \<le> MAX_UINT32" "length (fd_header fd) = 4"
      "fd_headerLength fd = 0" "fd_expectedPayloadLength fd = Some n" "0 < n" "n \<le> fd_maxFrameLength fd"
      "blocks_ok n fd" "fd_payloadLength fd < n"
    and loop: "\<And>fd' rest frames. length rest < bound \<Longrightarrow> frame_decoder_ok fd' \<Longrightarrow>
      pushed (fd_maxFrameLength fd') frames (received_bytes fd' @ rest) (push_loop fd' rest frames)"
    and chunk: "chunk = [] \<or> length chunk \<le> bound" "0 < bound"
  shows "pushed (fd_maxFrameLength fd) frames (received_bytes fd @ chunk)
     (Option.bind (fill_payload n fd chunk) (\<lambda>r.
        if fd_payloadLength (fst r) = n
          then push_loop (finish_payload (fst r)) (snd r) (frames @ [assemble n (fd_payloadBlocks (fst r))])
        else push_loop (fst r) (snd r) frames))"
proof -
  let ?k = "min (length chunk) (n - fd_payloadLength fd)"
  from fill_payload_ok[OF ok(8), of chunk] obtain fd1 where
    fd1: "fill_payload n fd chunk = Some (fd1, drop ?k chunk)" "blocks_ok n fd1"
      "payload_so_far fd1 = payload_so_far fd @ take ?k chunk" "fd_payloadLength fd1 = fd_payloadLength fd + ?k"
      "same_frame fd fd1" by blast
  have "length (drop ?k chunk) < bound" using chunk ok(9) by auto
  note loop = loop[OF this]
  have bytes: "received_bytes fd @ chunk = be_bytes 4 n @ payload_so_far fd1 @ drop ?k chunk"
    using ok(5) fd1(3) by (simp add: received_bytes_def)
  show ?thesis
  proof (cases "fd_payloadLength fd1 = n")
    case True
    have ne: "fd_payloadBlocks fd1 \<noteq> []" and cap: "length (concat (fd_payloadBlocks fd1)) \<le> n"
      using fd1(2) True ok(6) by (auto simp: blocks_ok_def split: if_splits)
    moreover have "length (payload_so_far fd1) = n" using payload_length[OF fd1(2)] True by simp
    ultimately have full: "length (concat (fd_payloadBlocks fd1)) = n"
      "payload_so_far fd1 = concat (fd_payloadBlocks fd1)"
      by (simp_all add: payload_so_far_def True del: length_concat)
    have fin: "frame_decoder_ok (finish_payload fd1)" "received_bytes (finish_payload fd1) = []"
      "fd_maxFrameLength (finish_payload fd1) = fd_maxFrameLength fd"
      using fd1(5) ok by (simp_all add: frame_decoder_ok_def received_bytes_def finish_payload_def same_frame_def)
    from loop[OF fin(1), of "frames @ [payload_so_far fd1]"] fin(2,3)
    have "pushed (fd_maxFrameLength fd) (frames @ [payload_so_far fd1]) (drop ?k chunk)
        (push_loop (finish_payload fd1) (drop ?k chunk) (frames @ [payload_so_far fd1]))" by simp
    from pushed_frame[OF _ ok(2) this] ok(7) full bytes fd1(1) True assemble_concat[OF full(1) ne] show ?thesis
      by (simp del: length_concat)
  next
    case False
    then have "fd_payloadLength fd1 < n" using payload_length[OF fd1(2)] by simp
    then have "frame_decoder_ok fd1" "received_bytes fd1 @ drop ?k chunk = received_bytes fd @ chunk"
      "fd_maxFrameLength fd1 = fd_maxFrameLength fd"
      using fd1(2,5) ok bytes by (simp_all add: frame_decoder_ok_def same_frame_def received_bytes_def)
    from loop[OF this(1), of frames] this(2,3) fd1(1) False show ?thesis by simp
  qed
qed

lemma push_loop_ok:
  "frame_decoder_ok fd \<Longrightarrow>
     pushed (fd_maxFrameLength fd) frames (received_bytes fd @ chunk) (push_loop fd chunk frames)"
proof (induction "length chunk" arbitrary: fd chunk frames rule: less_induct)
  case less
  show ?case
  proof (cases "chunk = []")
    case True
    then show ?thesis
      using received_incomplete[OF less.prems] less.prems by (subst push_loop.simps) (simp add: pushed_def)
  next
    case chunk: False
    show ?thesis
    proof (cases "fd_expectedPayloadLength fd")
      case (Some n)
      have "pushed (fd_maxFrameLength fd) frames (received_bytes fd @ chunk)
         (Option.bind (fill_payload n fd chunk) (\<lambda>r.
            if fd_payloadLength (fst r) = n
              then push_loop (finish_payload (fst r)) (snd r) (frames @ [assemble n (fd_payloadBlocks (fst r))])
            else push_loop (fst r) (snd r) frames))"
        using less.prems Some chunk
        by (intro push_payload[where bound = "length chunk"] less.hyps) (auto simp: frame_decoder_ok_def)
      then show ?thesis
        using chunk Some by (subst push_loop.simps) (simp add: read_frame_header_def)
    next
      case None
      let ?k = "min (4 - fd_headerLength fd) (length chunk)"
      let ?rest = "drop ?k chunk"
      have dec: "length (fd_header fd) = 4" "fd_headerLength fd < 4" "fd_state fd = DS_open"
        "fd_maxFrameLength fd \<le> MAX_UINT32" using less.prems by (auto simp: frame_decoder_ok_def)
      obtain fd1 where split: "copy_header fd chunk = (fd1, ?rest)"
        using copy_header_ok[OF dec(1,2) chunk refl] by (metis prod.collapse)
      note ch = copy_header_ok[OF dec(1,2) chunk refl, unfolded split fst_conv snd_conv]
      have same: "fd_state fd1 = DS_open" "fd_maxFrameLength fd1 = fd_maxFrameLength fd"
        "fd_expectedPayloadLength fd1 = None" "fd_header (fd1\<lparr>fd_headerLength := 0\<rparr>) = fd_header fd1"
        using None dec arg_cong[OF split, of fst] by (simp_all add: copy_header_def Let_def) auto
      have shorter: "length ?rest < length chunk" using ch chunk by simp
      have bytes: "received_bytes fd @ chunk = take (fd_headerLength fd + ?k) (fd_header fd1) @ ?rest"
        using None ch by (simp add: received_bytes_def)
      show ?thesis
      proof (cases "fd_headerLength fd + ?k < 4")
        case True
        then have ok: "frame_decoder_ok fd1" and "received_bytes fd1 @ ?rest = received_bytes fd @ chunk"
          using ch same dec(4) bytes by (simp_all add: frame_decoder_ok_def received_bytes_def)
        moreover have "fd_headerLength fd1 < 4" using True ch by simp
        then have "read_frame_header fd chunk = (HP_continue, fd1, ?rest)"
          using None split by (simp add: read_frame_header_def FRAME_HEADER_LENGTH_def)
        ultimately show ?thesis
          using less.hyps[OF shorter ok, of frames] same(2) chunk by (subst push_loop.simps) simp
      next
        case False
        then have four: "fd_headerLength fd + ?k = 4" using dec(2) by simp
        let ?n = "header_value (fd_header fd1)" and ?fd0 = "fd1\<lparr>fd_headerLength := 0\<rparr>"
        have n: "?n \<le> MAX_UINT32" "be_bytes 4 ?n = fd_header fd1"
          using big_endian_bound[of "fd_header fd1"] be_big_endian[of "fd_header fd1"] ch
          by (simp_all add: header_value_eq MAX_UINT32_def)
        have bytes: "received_bytes fd @ chunk = be_bytes 4 ?n @ ?rest"
        proof -
          have "take 4 (fd_header fd1) = fd_header fd1" using ch by simp
          then show ?thesis using bytes n(2) unfolding four by simp
        qed
        have header: "read_frame_header fd chunk =
            (if ?n > fd_maxFrameLength fd then (HP_oversize ?n, frame_fail ?fd0, ?rest)
             else if ?n = 0 then (HP_empty, ?fd0, ?rest) else (HP_payload ?n, start_payload ?n ?fd0, ?rest))"
          using None split ch four same by (simp add: read_frame_header_def FRAME_HEADER_LENGTH_def Let_def)
        consider "?n > fd_maxFrameLength fd" | "?n = 0" | "?n \<le> fd_maxFrameLength fd" "0 < ?n" by linarith
        then show ?thesis
        proof cases
          case 1
          with frames_of_oversize[OF 1 n(1), of ?rest] chunk header same show ?thesis
            unfolding bytes
            by (subst push_loop.simps) (simp add: pushed_def frame_fail_def received_bytes_def)
        next
          case 2
          have ok: "frame_decoder_ok ?fd0" "received_bytes ?fd0 = []" "fd_maxFrameLength ?fd0 = fd_maxFrameLength fd"
            using ch same dec(4) by (simp_all add: frame_decoder_ok_def received_bytes_def)
          have "pushed (fd_maxFrameLength fd) (frames @ [[]]) ?rest (push_loop ?fd0 ?rest (frames @ [[]]))"
            using less.hyps[OF shorter ok(1), of "frames @ [[]]"] ok(2,3) by simp
          from pushed_frame[OF _ dec(4) this] 2 chunk header show ?thesis
            unfolding bytes by (subst push_loop.simps) simp
        next
          case 3
          let ?fd2 = "start_payload ?n ?fd0"
          have fd1: "fd_maxFrameLength ?fd2 = fd_maxFrameLength fd" "received_bytes ?fd2 = be_bytes 4 ?n"
            using same by (simp_all add: start_payload_def received_bytes_def payload_so_far_def)
          have "pushed (fd_maxFrameLength ?fd2) frames (received_bytes ?fd2 @ ?rest)
             (Option.bind (fill_payload ?n ?fd2 ?rest) (\<lambda>r.
                if fd_payloadLength (fst r) = ?n
                  then push_loop (finish_payload (fst r)) (snd r) (frames @ [assemble ?n (fd_payloadBlocks (fst r))])
                else push_loop (fst r) (snd r) frames))"
            using 3 dec(4) same ch shorter
            by (intro push_payload[where bound = "length chunk"] less.hyps)
              (auto simp: start_payload_def blocks_ok_def)
          with fd1 3 chunk header show ?thesis
            unfolding bytes by (subst push_loop.simps) simp
        qed
      qed
    qed
  qed
qed

lemma frame_push_open: "frame_decoder_ok fd \<Longrightarrow> frame_push fd chunk = push_loop fd chunk []"
  by (simp add: frame_push_def frame_decoder_ok_def)

section \<open>A decoder and its chunks\<close>

text \<open>A reader pushes chunk after chunk and stops at the first error.\<close>

fun push_all :: "frame_decoder \<Rightarrow> byte list list \<Rightarrow> byte list list decoding" where
  "push_all fd [] = Some (Inr [], fd)"
| "push_all fd (chunk # chunks) =
     Option.bind (frame_push fd chunk) (\<lambda>(r, fd1). case r of
       Inl e \<Rightarrow> Some (Inl e, fd1)
     | Inr fs \<Rightarrow> Option.bind (push_all fd1 chunks) (\<lambda>(r', fd2).
         Some (bind_result r' (\<lambda>gs. Inr (fs @ gs)), fd2)))"

lemma resolveMaxFrameLength_le: "resolveMaxFrameLength opt = Inr m \<Longrightarrow> m \<le> MAX_UINT32"
proof -
  assume "resolveMaxFrameLength opt = Inr m"
  then have m: "m = nat \<lfloor>or_default opt DEFAULT_MAX_FRAME_LENGTH\<rfloor>"
    "or_default opt DEFAULT_MAX_FRAME_LENGTH \<le> of_nat MAX_UINT32"
    by (auto simp: resolveMaxFrameLength_def Let_def split: if_splits)
  then have "\<lfloor>or_default opt DEFAULT_MAX_FRAME_LENGTH\<rfloor> \<le> int MAX_UINT32" by (metis floor_mono floor_of_nat)
  with m(1) show ?thesis by simp
qed

lemma new_decoder_ok:
  assumes "new_frame_decoder opt = Inr fd"
  shows "frame_decoder_ok fd" and "received_bytes fd = []"
    and "resolveMaxFrameLength opt = Inr (fd_maxFrameLength fd)"
proof -
  show limit: "resolveMaxFrameLength opt = Inr (fd_maxFrameLength fd)"
    using assms by (cases "resolveMaxFrameLength opt") (auto simp: new_frame_decoder_def)
  have "fd_header fd = replicate 4 0" "fd_headerLength fd = 0" "fd_expectedPayloadLength fd = None"
    "fd_state fd = DS_open"
    using assms by (auto simp: new_frame_decoder_def FRAME_HEADER_LENGTH_def simp del: replicate.simps)
  with resolveMaxFrameLength_le[OF limit] show "frame_decoder_ok fd" "received_bytes fd = []"
    by (simp_all add: frame_decoder_ok_def received_bytes_def)
qed

lemma push_all_ok:
  assumes "frame_decoder_ok fd"
  shows "pushed (fd_maxFrameLength fd) [] (received_bytes fd @ concat chunks) (push_all fd chunks)"
  using assms
proof (induction chunks arbitrary: fd)
  case Nil
  then show ?case using received_incomplete[OF Nil] by (simp add: pushed_def)
next
  case (Cons chunk chunks)
  let ?m = "fd_maxFrameLength fd"
  have push: "pushed ?m [] (received_bytes fd @ chunk) (frame_push fd chunk)"
    using push_loop_ok[OF Cons.prems, of "[]" chunk] Cons.prems by (simp add: frame_push_def frame_decoder_ok_def)
  obtain fs r e where f: "frames_of ?m (received_bytes fd @ chunk) = (fs, r, e)" by (metis prod_cases3)
  show ?case
  proof (cases e)
    case (Some n)
    with push f obtain fd1 where "frame_push fd chunk = Some (Inl (frame_limit_error n ?m), fd1)"
      "fd_state fd1 = DS_failed" "received_bytes fd1 = []" by (auto simp: pushed_def)
    moreover have "frames_of ?m ((received_bytes fd @ chunk) @ concat chunks) = (fs, r @ concat chunks, Some n)"
      by (rule frames_of_append_error) (use f Some in simp)
    ultimately show ?thesis by (simp add: pushed_def)
  next
    case None
    with push f obtain fd1 where fd1: "frame_push fd chunk = Some (Inr fs, fd1)" "frame_decoder_ok fd1"
      "fd_maxFrameLength fd1 = ?m" "received_bytes fd1 = r" by (auto simp: pushed_def)
    from Cons.IH[OF fd1(2)] fd1(3,4) have "pushed ?m [] (r @ concat chunks) (push_all fd1 chunks)" by simp
    moreover have "frames_of ?m ((received_bytes fd @ chunk) @ concat chunks) =
        (case frames_of ?m (r @ concat chunks) of (gs, r', e) \<Rightarrow> (fs @ gs, r', e))"
      using frames_of_append f None by blast
    ultimately show ?thesis
      using fd1(1) by (auto simp: pushed_def split: prod.splits option.splits)
  qed
qed

lemma encodeFrame_eq: "encodeFrame p = Inr f \<Longrightarrow> f = be_bytes 4 (length p) @ p"
  using be_lists(2)[of "length p"] by (auto simp: encodeFrame_def Let_def split: if_splits)

lemma push_all_encoded:
  assumes "new_frame_decoder opt = Inr fd" and "resolveMaxFrameLength opt = Inr m"
    and "list_all2 (\<lambda>p f. length p \<le> m \<and> encodeFrame p = Inr f) payloads frames"
    and "concat chunks = concat frames @ partial" and "frames_of m partial = ([], partial, None)"
  shows "\<exists>fd'. push_all fd chunks = Some (Inr payloads, fd') \<and> frame_decoder_ok fd' \<and> received_bytes fd' = partial"
proof -
  have m: "m \<le> MAX_UINT32" using assms(2) by (rule resolveMaxFrameLength_le)
  have split: "frames_of m (concat frames @ partial) = (payloads, partial, None)"
    using assms(3,5)
  proof (induction rule: list_all2_induct)
    case (Cons p ps f fs)
    then show ?case using m frames_of_frame[of p m "concat fs @ partial"] encodeFrame_eq[of p f] by simp
  qed simp
  note fd = new_decoder_ok[OF assms(1)]
  from push_all_ok[OF fd(1), of chunks] fd assms(2,4) split show ?thesis by (auto simp: pushed_def)
qed

lemma frame_end_open:
  "frame_decoder_ok fd \<Longrightarrow> fst (frame_end fd) =
     (if received_bytes fd = [] then Inr () else Inl (FrameError ''Truncated frame at end of stream''))"
  by (auto simp: frame_end_def frame_decoder_ok_def received_bytes_def be_bytes_def split: option.splits)

text \<open>
  C19: one push refines the stream. On a decoder in a reachable open state the loops of a push
  return. Its frames are the complete frames in the bytes received and not yet returned followed
  by the chunk, each within the limit; what is left is kept, never more than one incomplete frame.
  When a length exceeds the limit the push throws and the decoder has failed.
\<close>

theorem frame_push_refines:
  assumes "frame_decoder_ok fd"
  shows "case frames_of (fd_maxFrameLength fd) (received_bytes fd @ chunk) of
      (fs, rest, None) \<Rightarrow> (\<exists>fd'. frame_push fd chunk = Some (Inr fs, fd') \<and> frame_decoder_ok fd' \<and>
        received_bytes fd' = rest \<and> list_all (\<lambda>f. length f \<le> fd_maxFrameLength fd) fs \<and>
        length rest < 4 + fd_maxFrameLength fd)
    | (fs, rest, Some n) \<Rightarrow> (\<exists>fd'. frame_push fd chunk = Some (Inl (frame_limit_error n (fd_maxFrameLength fd)), fd') \<and>
        fd_state fd' = DS_failed \<and> received_bytes fd' = [])"
proof -
  have "pushed (fd_maxFrameLength fd) [] (received_bytes fd @ chunk) (frame_push fd chunk)"
    using push_loop_ok[OF assms, of "[]" chunk] assms by (simp add: frame_push_def frame_decoder_ok_def)
  then show ?thesis
    using received_bounded frames_of_length
    by (fastforce simp: pushed_def list_all_iff split: prod.splits option.splits)
qed

lemma frame_push_refines_witness:
  "\<exists>fd fd'. new_frame_decoder (Some 8) = Inr fd \<and> frame_push fd [0, 0, 0, 0, 0, 0, 0, 2, 7] = Some (Inr [[]], fd') \<and>
     received_bytes fd' = [0, 0, 0, 2, 7]"
proof -
  have "\<not> Option.is_none (case new_frame_decoder (Some 8) of Inl _ \<Rightarrow> None | Inr fd \<Rightarrow> Some fd)" by code_simp
  then obtain fd where fd: "new_frame_decoder (Some 8) = Inr fd" by (auto split: sum.splits)
  have "resolveMaxFrameLength (Some 8) = Inr 8"
    "frames_of 8 [0, 0, 0, 0, 0, 0, 0, 2, 7] = ([[]], [0, 0, 0, 2, 7], None)" by code_simp+
  with fd frame_push_refines[OF new_decoder_ok(1)[OF fd], of "[0, 0, 0, 0, 0, 0, 0, 2, 7]"]
    new_decoder_ok(2,3)[OF fd] show ?thesis by auto
qed

text \<open>
  C20: how a stream is cut into chunks does not matter. Any chunks whose concatenation is a
  sequence of encoded payloads, each within the decoder's limit, give exactly these payloads, and
  the stream may end there; cut off anywhere inside a frame, ending is an error.
\<close>

theorem frames_round_trip:
  assumes "new_frame_decoder opt = Inr fd" and "resolveMaxFrameLength opt = Inr m"
    and "list_all2 (\<lambda>p f. length p \<le> m \<and> encodeFrame p = Inr f) payloads frames"
    and "concat chunks = concat frames @ partial" and "frames_of m partial = ([], partial, None)"
  shows "\<exists>fd'. push_all fd chunks = Some (Inr payloads, fd') \<and>
     (fst (frame_end fd') = Inr () \<longleftrightarrow> partial = [])"
  using push_all_encoded[OF assms] frame_end_open by fastforce

lemma frames_round_trip_witness:
  "\<exists>fd fd'. new_frame_decoder None = Inr fd \<and>
     push_all fd [[0, 0], [0, 2, 1, 2, 0, 0, 0, 0, 0], [], [0, 0, 1, 3, 0]] = Some (Inr [[1, 2], [], [3]], fd') \<and>
     fst (frame_end fd') \<noteq> Inr ()"
proof -
  have "\<not> Option.is_none (case new_frame_decoder None of Inl _ \<Rightarrow> None | Inr fd \<Rightarrow> Some fd)" by code_simp
  then obtain fd where fd: "new_frame_decoder None = Inr fd" by (auto split: sum.splits)
  let ?fs = "[[0, 0, 0, 2, 1, 2], [0, 0, 0, 0], [0, 0, 0, 1, 3]] :: byte list list"
  have f: "resolveMaxFrameLength None = Inr DEFAULT_MAX_FRAME_LENGTH"
    "list_all2 (\<lambda>p f. length p \<le> DEFAULT_MAX_FRAME_LENGTH \<and> encodeFrame p = Inr f) [[1, 2], [], [3]] ?fs"
    "concat [[0, 0], [0, 2, 1, 2, 0, 0, 0, 0, 0], [], [0, 0, 1, 3, 0]] = concat ?fs @ [0]"
    "frames_of DEFAULT_MAX_FRAME_LENGTH [0] = ([], [0], None)" by code_simp+
  from frames_round_trip[OF fd f] fd show ?thesis by auto
qed

text \<open>
  C21: the decoder always returns, with an outcome that depends on the bytes only. However the
  same bytes are cut into chunks, the frames or the error, the bytes kept, and the verdict of
  ending there are the same; and a decoder that has failed rejects every further push and end,
  and keeps nothing.
\<close>

theorem chunking_irrelevant:
  assumes "new_frame_decoder opt = Inr fd" and "concat chunks = concat chunks'"
  shows "\<exists>r fd1 fd2. push_all fd chunks = Some (r, fd1) \<and> push_all fd chunks' = Some (r, fd2) \<and>
     received_bytes fd1 = received_bytes fd2 \<and> fst (frame_end fd1) = fst (frame_end fd2) \<and>
     (case r of Inr _ \<Rightarrow> fd_state fd1 = DS_open
      | Inl _ \<Rightarrow> received_bytes fd1 = [] \<and>
          frame_push fd1 chunk = Some (Inl (FrameError ''Frame decoder has failed''), fd1) \<and>
          frame_end fd1 = (Inl (FrameError ''Frame decoder has failed''), fd1))"
proof -
  note fd = new_decoder_ok(1)[OF assms(1)]
  have failed: "frame_push d chunk = Some (Inl (FrameError ''Frame decoder has failed''), d)"
    "frame_end d = (Inl (FrameError ''Frame decoder has failed''), d)" if "fd_state d = DS_failed" for d
    using that by (simp_all add: frame_push_def frame_end_def)
  have opened: "frame_decoder_ok d \<Longrightarrow> fd_state d = DS_open" for d by (simp add: frame_decoder_ok_def)
  obtain fs rest e where split: "frames_of (fd_maxFrameLength fd) (received_bytes fd @ concat chunks') = (fs, rest, e)"
    by (metis prod_cases3)
  from push_all_ok[OF fd, of chunks] push_all_ok[OF fd, of chunks'] show ?thesis
    unfolding assms(2) pushed_def split
    by (cases e) (auto simp: frame_end_open failed opened)
qed

lemma chunking_irrelevant_witness:
  "\<exists>fd r fd1 fd2. new_frame_decoder (Some 3) = Inr fd \<and> push_all fd [[0, 0, 0, 1, 5, 0], [0, 0, 4]] = Some (r, fd1) \<and>
     push_all fd [[0], [0], [0, 1, 5, 0, 0, 0, 4]] = Some (r, fd2)"
proof -
  have "\<not> Option.is_none (case new_frame_decoder (Some 3) of Inl _ \<Rightarrow> None | Inr fd \<Rightarrow> Some fd)" by code_simp
  then obtain fd where fd: "new_frame_decoder (Some 3) = Inr fd" by (auto split: sum.splits)
  have "concat [[0, 0, 0, 1, 5, 0], [0, 0, 4]] = concat [[0], [0], [0, 1, 5, 0, 0, 0, 4 :: byte]]" by simp
  from chunking_irrelevant[OF fd this] fd show ?thesis by blast
qed

end
