(* ===== verification/Cbor_Canonical.thy ===== *)
theory Cbor_Canonical
  imports Cbor_Round_Trip
begin

text \<open>
  What the decoder accepts. Objects it builds have JavaScript's key order whatever the order of the
  keys in the payload; every value it returns is within the configured limits; and encoding that
  value again succeeds, in no more bytes than it came in.
\<close>

section \<open>Property order\<close>

lemma digits_value_bounds:
  "digits_value a us = Some n \<Longrightarrow> a * 10 ^ length us \<le> n \<and> n < (a + 1) * 10 ^ length us"
proof (induction us arbitrary: a)
  case (Cons u us)
  let ?d = "unat u - 48"
  have d: "?d < 10" and IH: "(10 * a + ?d) * 10 ^ length us \<le> n" "n < (10 * a + ?d + 1) * 10 ^ length us"
    using Cons by (auto split: if_splits)
  have "10 * a \<le> 10 * a + ?d" "10 * a + ?d + 1 \<le> 10 * (a + 1)" using d by simp_all
  from this[THEN mult_le_mono1, of "10 ^ length us"] IH show ?case by (simp add: algebra_simps)
qed simp

lemma digits_value_inj:
  "digits_value a us = Some n \<Longrightarrow> digits_value b vs = Some n \<Longrightarrow> length us = length vs \<Longrightarrow> a = b \<and> us = vs"
proof (induction us arbitrary: a b vs)
  case (Cons u us)
  then obtain v vs' where vs: "vs = v # vs'" by (cases vs) auto
  from Cons.prems vs have du: "48 \<le> unat u" "unat u < 58" and dv: "48 \<le> unat v" "unat v < 58"
    and r: "digits_value (10 * a + (unat u - 48)) us = Some n" "digits_value (10 * b + (unat v - 48)) vs' = Some n"
    by (auto split: if_splits)
  from Cons.IH[OF r] Cons.prems(3) vs have "10 * a + (unat u - 48) = 10 * b + (unat v - 48)" "us = vs'" by auto
  moreover from this(1) du dv have "a = b" "unat u = unat v" by arith+
  ultimately show ?case using vs by (simp add: word_unat_eq_iff)
qed simp

lemma array_index_length:
  assumes "array_index k = Some n"
  shows "n < 10 ^ length k \<and> (length k > 1 \<longrightarrow> 10 ^ (length k - 1) \<le> n) \<and> k \<noteq> [] \<and> digits_value 0 k = Some n"
proof -
  have nonempty: "k \<noteq> []" and head: "\<not> (hd k = 48 \<and> length k > 1)" and v: "digits_value 0 k = Some n"
    using assms by (simp_all add: array_index_def split: if_splits option.splits)
  then obtain u us where k: "k = u # us" by (cases k) auto
  have lead: "us \<noteq> [] \<Longrightarrow> u \<noteq> 48" using head k by simp
  from v k have u: "48 \<le> unat u" "unat u < 58" and r: "digits_value (unat u - 48) us = Some n"
    by (auto split: if_splits)
  have "10 ^ length us \<le> n" if "us \<noteq> []"
  proof -
    have "unat u \<noteq> 48" using lead[OF that] by (simp add: word_unat_eq_iff)
    then have "1 \<le> unat u - 48" using u by simp
    then have "1 * 10 ^ length us \<le> (unat u - 48) * 10 ^ length us" by (rule mult_le_mono1)
    also have "\<dots> \<le> n" using digits_value_bounds[OF r] by blast
    finally show ?thesis by simp
  qed
  with digits_value_bounds[OF v] k v show ?thesis by auto
qed

lemma array_index_inj: "array_index k = Some n \<Longrightarrow> array_index l = Some n \<Longrightarrow> k = l"
proof -
  assume k: "array_index k = Some n" and l: "array_index l = Some n"
  have len: "length a \<le> length b" if "array_index a = Some n" "array_index b = Some n" for a b
  proof (rule ccontr)
    assume "\<not> length a \<le> length b"
    with array_index_length[OF that(2)] have less: "length b \<le> length a - 1" "length a > 1" by (cases b; auto)+
    then have "(10::nat) ^ length b \<le> 10 ^ (length a - 1)" by (simp add: power_increasing)
    with array_index_length[OF that(1)] array_index_length[OF that(2)] less show False by linarith
  qed
  have "length k = length l" using len[OF k l] len[OF l k] by simp
  with array_index_length[OF k] array_index_length[OF l] digits_value_inj[of 0 k n 0 l] show "k = l" by blast
qed

lemma key_before_trans: "key_before a b \<Longrightarrow> key_before b c \<Longrightarrow> key_before a c"
  by (auto simp: key_before_def split: option.splits)

lemma insert_index_mset: "mset (insert_index n k v kvs) = add_mset (k, v) (mset kvs)"
  by (induction n k v kvs rule: insert_index.induct) (auto split: option.splits)

lemma define_property_mset [simp]: "mset (define_property k v kvs) = add_mset (k, v) (mset kvs)"
  by (simp add: define_property_def insert_index_mset split: option.splits)

lemma insert_index_sorted:
  "array_index k = Some n \<Longrightarrow> k \<notin> fst ` set kvs \<Longrightarrow> sorted_wrt key_before (map fst kvs) \<Longrightarrow>
    sorted_wrt key_before (map fst (insert_index n k v kvs))"
proof (induction n k v kvs rule: insert_index.induct)
  case (2 n k v k' v' kvs)
  have fresh: "k \<noteq> k'" "k \<notin> fst ` set kvs" using 2(3) by auto
  have tail: "\<forall>b \<in> set (map fst kvs). key_before k' b" "sorted_wrt key_before (map fst kvs)"
    using 2(4) by simp_all
  have front: "sorted_wrt key_before (map fst ((k, v) # (k', v') # kvs))" if "key_before k k'"
    using that tail key_before_trans by auto
  show ?case
  proof (cases "array_index k'")
    case None
    then have "key_before k k'" by (simp add: key_before_def)
    from front[OF this] None show ?thesis by simp
  next
    case (Some m)
    show ?thesis
    proof (cases "n < m")
      case True
      then have "key_before k k'" using Some 2(2) by (simp add: key_before_def)
      from front[OF this] Some True show ?thesis by simp
    next
      case False
      have "m \<noteq> n" using array_index_inj[of k n k'] 2(2) Some fresh(1) by blast
      then have "key_before k' k" using False Some 2(2) by (simp add: key_before_def)
      moreover have "set (map fst (insert_index n k v kvs)) = insert k (set (map fst kvs))"
        using arg_cong[OF insert_index_mset[of n k v kvs], of "\<lambda>M. set_mset (image_mset fst M)"] by simp
      ultimately show ?thesis
        using False Some 2(1)[OF Some False 2(2) fresh(2) tail(2)] tail(1) by simp
    qed
  qed
qed simp

lemma define_property_ordered:
  assumes "key_ordered (map fst kvs)" and "k \<notin> fst ` set kvs"
  shows "key_ordered (map fst (define_property k v kvs))"
proof -
  have "distinct (map fst (define_property k v kvs)) \<longleftrightarrow> distinct (map fst ((k, v) # kvs))"
    by (rule mset_eq_imp_distinct_iff) simp
  moreover have "sorted_wrt key_before (map fst (define_property k v kvs))"
    using assms insert_index_sorted[of k _ kvs v]
    by (auto simp: define_property_def key_ordered_def key_before_def sorted_wrt_append split: option.splits)
  ultimately show ?thesis using assms by (simp add: key_ordered_def)
qed

section \<open>Sizes and limits do not depend on the order\<close>

lemma entries_bytes_length:
  "length (entries_bytes kvs) =
     (\<Sum>(k, v)\<in># mset kvs. if v = J_undefined then 0 else length (text_bytes k) + length (cbor_bytes v))"
  by (induction kvs rule: cbor_bytes_items_bytes_entries_bytes.induct(3)[of "\<lambda>_. True" "\<lambda>_. True"]) auto

definition sound :: "resolved_options \<Rightarrow> nat \<Rightarrow> js \<Rightarrow> bool" where
  "sound opts d v \<longleftrightarrow> encodable opts d v \<and> js_ok v \<and> received v = v \<and> v \<noteq> J_undefined"

lemma sound_items:
  "\<forall>v \<in> set vs. sound opts d v \<Longrightarrow> encodable_items opts d vs \<and> js_ok_items vs \<and> received_items vs = vs"
  by (induction vs) (auto simp: sound_def)

lemma sound_entries:
  "\<forall>(k, v) \<in> set kvs. text_ok opts k \<and> sound opts d v \<Longrightarrow>
     encodable_entries opts d kvs \<and> js_ok_entries kvs \<and> received_entries kvs = kvs \<and> defined_entries kvs = kvs"
  by (induction kvs) (auto simp: sound_def defined_entries_def)

section \<open>Reading consumes at least the canonical bytes\<close>

lemma readBytes_Inr: "readBytes n bs = Inr (x, rest) \<longleftrightarrow> n \<le> length bs \<and> x = take n bs \<and> rest = drop n bs"
  by (auto simp: readBytes_def)

lemma readByte_Inr: "readByte bs = Inr (n, rest) \<longleftrightarrow> (\<exists>b. bs = b # rest \<and> n = unat b)"
  by (auto simp: readByte_def split: list.splits)

lemma argument_length:
  "length (argument_bytes m n) =
     (if n < 24 then 1 else if n \<le> 0xFF then 2 else if n \<le> 0xFFFF then 3 else if n \<le> MAX_UINT32 then 5 else 9)"
  by (simp add: argument_bytes_def)

lemma readArgument_minimal:
  assumes "readArgument info bs = Inr (n, rest)"
  shows "n < 2 ^ 53 \<and> length (argument_bytes m n) + length rest \<le> Suc (length bs)"
proof -
  have b: "big_endian (take k bs) < 256 ^ k" if "k \<le> length bs" for k bs
    using big_endian_bound[of "take k bs"] that by simp
  consider "info < 24" | "info = 24" | "info = 25" | "info = 26" | "info = 27"
    using assms by (force simp: readArgument_def split: if_splits)
  then show ?thesis
  proof cases
    case 1
    then show ?thesis using assms by (simp add: readArgument_def argument_length)
  next
    case 2
    then obtain b' where "bs = b' # rest" "n = unat b'" using assms by (auto simp: readArgument_def readByte_Inr)
    then show ?thesis using unat_byte_less[of b'] by (simp add: argument_length del: unat_byte_less)
  next
    case 3
    then have "2 \<le> length bs" "n = big_endian (take 2 bs)" "rest = drop 2 bs"
      using assms by (auto simp: readArgument_def bind_result_Inr_iff readBytes_Inr)
    with b[of 2 bs] show ?thesis by (auto simp: argument_length)
  next
    case 4
    then have "4 \<le> length bs" "n = big_endian (take 4 bs)" "rest = drop 4 bs"
      using assms by (auto simp: readArgument_def bind_result_Inr_iff readBytes_Inr)
    with b[of 4 bs] show ?thesis by (auto simp: argument_length MAX_UINT32_def)
  next
    case 5
    then have r: "8 \<le> length bs" "n = big_endian (take 4 bs) * UINT32_BASE + big_endian (take 4 (drop 4 bs))"
      "rest = drop 4 (drop 4 bs)" "big_endian (take 4 bs) \<le> 0x1FFFFF"
      using assms by (auto simp: readArgument_def bind_result_Inr_iff readBytes_Inr split: if_splits)
    have "big_endian (take 4 (drop 4 bs)) < 4294967296" using r(1) b[of 4 "drop 4 bs"] by simp
    then have "n < 2 ^ 53" using r(2,4) by (simp add: UINT32_BASE_def)
    moreover have "length (argument_bytes m n) \<le> 9" by (simp add: argument_length)
    moreover have "length rest = length bs - 8" using r(3) by simp
    ultimately show ?thesis using r(1) by linarith
  qed
qed

lemma readLength_minimal:
  assumes "readLength info kind bound bs = Inr (n, rest)"
  shows "n \<le> bound \<and> length (argument_bytes m n) + length rest \<le> Suc (length bs)"
  using assms readArgument_minimal[of info bs n rest m]
  by (auto simp: readLength_def bind_result_Inr_iff split: if_splits)

lemma readSimple_sound:
  assumes "readSimple info bs = Inr (v, rest)" and "d \<le> maxDepth opts"
  shows "sound opts d v \<and> length (cbor_bytes v) + length rest \<le> Suc (length bs)"
proof -
  have same: "x = y" if "number_of_bits x = Num_frac y" for x y
    using that by (auto simp: number_of_bits_def Let_def split: if_splits)
  then have frac: "number_of_bits y = Num_frac y" if "number_of_bits x = Num_frac y" for x y
    using that by blast
  have nine: "length (number_bytes n) \<le> 9" for n
    by (cases n) (auto simp: number_bytes_def argument_length)
  have "length (number_bytes n) + k - 8 \<le> Suc k" for n k
    using nine[of n] by linarith
  then show ?thesis
    using assms frac
    by (auto simp: readSimple_def bind_result_Inr_iff readBytes_Inr sound_def encodable.simps number_ok_def
        split: if_splits js_number.splits)
qed

lemma read_entries_step:
  assumes "read_entries opts depth (Suc n) keys kvs bs = Inr (v, rest)"
  shows "\<exists>k r1 x r2. readItem opts depth bs = Inr (J_text k, r1) \<and> k \<notin> set keys \<and>
    readItem opts depth r1 = Inr (x, r2) \<and>
    read_entries opts depth n (k # keys) (define_property k x kvs) r2 = Inr (v, rest)"
proof -
  from assms obtain key r1 where item: "readItem opts depth bs = Inr (key, r1)"
    by (auto simp: bind_result_Inr_iff)
  with assms show ?thesis
    by (cases key) (auto simp: bind_result_Inr_iff split: if_splits)
qed

lemma read_sound:
  "readItem opts d bs = Inr (v, rest) \<Longrightarrow> sound opts d v \<and> length (cbor_bytes v) + length rest \<le> length bs"
  "read_items opts d n acc bs = Inr (v, rest) \<Longrightarrow>
     \<exists>vs. v = J_array (acc @ vs) \<and> length vs = n \<and> (\<forall>x \<in> set vs. sound opts d x) \<and>
       length (items_bytes vs) + length rest \<le> length bs"
  "read_entries opts d n keys kvs bs = Inr (v, rest) \<Longrightarrow> set keys = fst ` set kvs \<Longrightarrow> key_ordered (map fst kvs) \<Longrightarrow>
     \<exists>kvs' new. v = J_object False kvs' \<and> mset kvs' = mset kvs + mset new \<and> length new = n \<and>
       key_ordered (map fst kvs') \<and> (\<forall>(k, x) \<in> set new. text_ok opts k \<and> sound opts d x) \<and>
       length (entries_bytes new) + length rest \<le> length bs"
proof (induction opts d bs and opts d n acc bs and opts d n keys kvs bs
    arbitrary: v rest and v rest and v rest rule: readItem_read_items_read_entries.induct)
  case (1 opts depth bs)
  from 1(3) obtain b r0 where depth: "depth \<le> maxDepth opts" and bs: "bs = b # r0"
    by (auto simp: readItem.simps bind_result_Inr_iff readByte_Inr split: if_splits)
  let ?major = "unat b div 32" and ?info = "unat b mod 32"
  have item: "readItem opts depth bs = Inr (v, rest)" by fact
  have "?major < 8" using unat_byte_less[of b] by (simp only: less_mult_imp_div_less)
  consider "?major = 0" | "?major = 1" | "?major = 2" | "?major = 3" | "?major = 4" | "?major = 5" | "?major = 6" | "?major = 7"
    using \<open>?major < 8\<close> by linarith
  then show ?case
  proof cases
    case 1
    then obtain n where r: "readArgument ?info r0 = Inr (n, rest)" "v = J_number (Num_int (int n))"
      using item depth bs by (auto simp: readItem.simps readByte_def bind_result_Inr_iff)
    then show ?thesis using readArgument_minimal[OF r(1), of 0] depth bs
      by (simp add: sound_def encodable.simps number_ok_def number_bytes_def MAX_SAFE_INTEGER_def)
  next
    case 2
    then obtain n where r: "readArgument ?info r0 = Inr (n, rest)" "v = J_number (Num_int (- 1 - int n))"
      "\<bar>- 1 - int n\<bar> \<le> MAX_SAFE_INTEGER"
      using item depth bs by (auto simp: readItem.simps readByte_def bind_result_Inr_iff split: if_splits)
    then show ?thesis using readArgument_minimal[OF r(1), of 1] depth bs
      by (simp add: sound_def encodable.simps number_ok_def number_bytes_def)
  next
    case 3
    then obtain n r1 where r: "readLength ?info ''byte string'' (maxByteLength opts) r0 = Inr (n, r1)" "n \<le> length r1"
      "v = J_bytes (take n r1)" "rest = drop n r1"
      using item depth bs by (auto simp: readItem.simps readByte_def bind_result_Inr_iff readBytes_Inr)
    then show ?thesis using readLength_minimal[OF r(1), of 2] depth bs
      by (simp add: sound_def encodable.simps)
  next
    case 4
    then obtain n r1 s where r: "readLength ?info ''text string'' (maxByteLength opts) r0 = Inr (n, r1)" "n \<le> length r1"
      "text_decode (take n r1) = Some s" "v = J_text s" "rest = drop n r1"
      using item depth bs
      by (auto simp: readItem.simps readByte_def bind_result_Inr_iff readBytes_Inr split: option.splits)
    then show ?thesis using readLength_minimal[OF r(1), of 3] depth bs text_decode_inverse[OF r(3)]
      by (simp add: sound_def encodable.simps text_ok_def text_bytes_def)
  next
    case 5
    then obtain n r1 where r: "readLength ?info ''array'' (maxContainerLength opts) r0 = Inr (n, r1)"
      "read_items opts (depth + 1) n [] r1 = Inr (v, rest)"
      using item depth bs by (auto simp: readItem.simps readByte_def bind_result_Inr_iff)
    from 1(1)[of 4 128 0 n r1 v rest] depth r(2) obtain vs where "v = J_array vs" "length vs = n"
      "\<forall>x \<in> set vs. sound opts (depth + 1) x" "length (items_bytes vs) + length rest \<le> length r1" by auto
    then show ?thesis using readLength_minimal[OF r(1), of 4] depth bs sound_items[of vs opts "depth + 1"]
      by (simp add: sound_def encodable.simps)
  next
    case 6
    then obtain n r1 where r: "readLength ?info ''map'' (maxContainerLength opts) r0 = Inr (n, r1)"
      "read_entries opts (depth + 1) n [] [] r1 = Inr (v, rest)"
      using item depth bs by (auto simp: readItem.simps readByte_def bind_result_Inr_iff)
    from 1(2)[of 5 160 0 n r1 v rest] depth r(2) obtain kvs new where kvs: "v = J_object False kvs" "mset kvs = mset new"
      "length new = n" "key_ordered (map fst kvs)"
      "\<forall>(k, x) \<in> set new. text_ok opts k \<and> sound opts (depth + 1) x"
      "length (entries_bytes new) + length rest \<le> length r1" by (auto simp: key_ordered_def)
    have "set kvs = set new" "length kvs = n" using kvs(2,3) mset_eq_setD mset_eq_length by blast+
    moreover have "length (entries_bytes kvs) = length (entries_bytes new)"
      by (simp only: entries_bytes_length kvs(2))
    ultimately show ?thesis
      using readLength_minimal[OF r(1), of 5] depth bs kvs(1,4,5,6) sound_entries[of kvs opts "depth + 1"]
      by (simp add: sound_def encodable.simps)
  next
    case 7
    then show ?thesis using item depth bs by (simp add: readItem.simps readByte_def)
  next
    case 8
    then have "readSimple ?info r0 = Inr (v, rest)" using item depth bs by (simp add: readItem.simps readByte_def)
    from readSimple_sound[OF this depth] bs show ?thesis by simp
  qed
next
  case (3 opts depth n acc bs)
  then obtain x r where r: "readItem opts depth bs = Inr (x, r)" "read_items opts depth n (acc @ [x]) r = Inr (v, rest)"
    by (auto simp: bind_result_Inr_iff)
  from 3(2)[OF r(2)] obtain vs where "v = J_array ((acc @ [x]) @ vs)" "length vs = n"
    "\<forall>x \<in> set vs. sound opts depth x" "length (items_bytes vs) + length rest \<le> length r" by blast
  with 3(1)[OF r(1)] show ?case by (intro exI[of _ "x # vs"]) auto
next
  case (5 opts depth n keys kvs bs)
  from read_entries_step[OF 5(4)] obtain k r1 x r2 where r: "readItem opts depth bs = Inr (J_text k, r1)"
    "k \<notin> set keys" "readItem opts depth r1 = Inr (x, r2)"
    "read_entries opts depth n (k # keys) (define_property k x kvs) r2 = Inr (v, rest)" by blast
  have key: "text_ok opts k" and kx: "sound opts depth x"
    and len: "length (text_bytes k) + length r1 \<le> length bs" "length (cbor_bytes x) + length r2 \<le> length r1"
    using 5(1)[OF r(1)] 5(2)[OF refl r(2) r(3)] by (auto simp: sound_def encodable.simps)
  have fresh: "k \<notin> fst ` set kvs" using r(2) 5(5) by simp
  have keys: "set (k # keys) = fst ` set (define_property k x kvs)"
    using 5(5) mset_eq_setD[of "define_property k x kvs" "(k, x) # kvs"] by simp
  from 5(3)[OF refl r(2) r(4) keys define_property_ordered[OF 5(6) fresh]] obtain kvs' new where
    new: "v = J_object False kvs'" "mset kvs' = mset (define_property k x kvs) + mset new" "length new = n"
    "key_ordered (map fst kvs')" "\<forall>(k, x) \<in> set new. text_ok opts k \<and> sound opts depth x"
    "length (entries_bytes new) + length rest \<le> length r2" by blast
  show ?case
    using new key kx len by (intro exI[of _ kvs'] exI[of _ "(k, x) # new"]) (auto simp: sound_def)
qed auto

section \<open>The decoder\<close>

lemma decodeCbor_sound:
  assumes "decodeCbor opts bs = Inr v"
  shows "\<exists>r. resolveOptions opts = Inr r \<and> length bs \<le> maxByteLength r \<and> encodable r 0 v \<and> js_ok v \<and>
    received v = v \<and> length (cbor_bytes v) \<le> length bs"
proof -
  from assms obtain r where r: "resolveOptions opts = Inr r" "length bs \<le> maxByteLength r" "readItem r 0 bs = Inr (v, [])"
    by (auto simp: decodeCbor_def bind_result_Inr_iff split: if_splits)
  with read_sound(1)[OF r(3)] show ?thesis by (auto simp: sound_def)
qed

text \<open>
  C18: Whatever payload the decoder accepts, the value it returns is encodable under the same
  options: lengths, nesting depth and numbers are within their limits, strings are well formed,
  nothing is undefined, and objects list distinct keys in JavaScript's order. Encoding it succeeds
  in no more bytes than it came in, and decoding those gives the same value.
\<close>

theorem decode_sound:
  assumes "decodeCbor opts bs = Inr v"
  shows "js_ok v \<and> (\<exists>bs'. encodeCbor opts v = Inr bs' \<and> length bs' \<le> length bs \<and> decodeCbor opts bs' = Inr v)"
proof -
  from decodeCbor_sound[OF assms] obtain r where r: "resolveOptions opts = Inr r" "length bs \<le> maxByteLength r"
    "encodable r 0 v" "js_ok v" "received v = v" "length (cbor_bytes v) \<le> length bs" by blast
  then have "encodeCbor opts v = Inr (cbor_bytes v)" by (simp add: encodeCbor_iff)
  then show ?thesis
    using r encodable_canonical(1)[OF r(1,3) _ r(4)] by auto
qed

text \<open>A payload with overlong lengths and keys out of order.\<close>

definition sample_payload :: "byte list" where
  "sample_payload = [0xB8, 2, 0x61, 0x61, 0x19, 0, 7, 0x61, 0x31, 0x81, 0xF6]"

lemma decode_sound_witness:
  "\<exists>bs. encodeCbor sample_options (J_object False [([49], J_array [J_null]), ([97], J_number (Num_int 7))]) = Inr bs \<and>
     length bs \<le> length sample_payload"
proof -
  have "decodeCbor sample_options sample_payload =
      Inr (J_object False [([49], J_array [J_null]), ([97], J_number (Num_int 7))])" by code_simp
  from decode_sound[OF this] show ?thesis by blast
qed

end
