(* ===== verification/Protocol_Codec.thy ===== *)
theory Protocol_Codec
  imports Framing_Stream Cbor_Canonical
begin

text \<open>
  The message codec of \<open>packages/protocol/src/codec.ts\<close>: validation, CBOR and framing composed. The
  schema check (\<open>Check\<close> of typebox on the schemas of \<open>schemas.ts\<close>) is a parameter, a predicate on
  values. Objects here have \<open>Object.prototype\<close> and arrays are dense; everything else that is not
  JSON is among the unsupported values, which validation rejects.
\<close>

section \<open>Validation\<close>

datatype protocol_error = ProtocolValidationError string

fun isProtocolValue :: "bool \<Rightarrow> js \<Rightarrow> bool" where
  "isProtocolValue optionalProperty J_undefined = optionalProperty"
| "isProtocolValue optionalProperty (J_array vs) = list_all (isProtocolValue False) vs"
| "isProtocolValue optionalProperty (J_object symbols kvs) = list_all (\<lambda>(k, v). isProtocolValue True v) kvs"
| "isProtocolValue optionalProperty (J_bytes bs) = False"
| "isProtocolValue optionalProperty (J_unsupported t) = False"
| "isProtocolValue optionalProperty v = True"

type_synonym parser = "js \<Rightarrow> (protocol_error, js) result"

definition parseClientMessage :: "(js \<Rightarrow> bool) \<Rightarrow> parser" where
  "parseClientMessage check value =
     (if \<not> isProtocolValue False value \<or> \<not> check value
        then Inl (ProtocolValidationError ''Invalid client protocol message'')
      else Inr value)"

definition parseServerMessage :: "(js \<Rightarrow> bool) \<Rightarrow> parser" where
  "parseServerMessage check value =
     (if \<not> isProtocolValue False value \<or> \<not> check value
        then Inl (ProtocolValidationError ''Invalid server protocol message'')
      else Inr value)"

fun error_message :: "codec_error \<Rightarrow> string" where
  "error_message (CborError m) = m"
| "error_message (RangeError m) = m"
| "error_message (FrameError m) = m"
| "error_message (TypeError m) = m"

definition boundedErrorMessage :: "codec_error \<Rightarrow> string" where
  "boundedErrorMessage e =
     (let m = error_message e in if length m \<le> 500 then m else take 497 m @ ''...'')"

section \<open>Encoding a message\<close>

definition byte_limit :: "rat \<Rightarrow> cbor_options" where
  "byte_limit q = \<lparr>opt_maxByteLength = Some q, opt_maxContainerLength = None, opt_maxDepth = None\<rparr>"

definition encodeProtocolMessage :: "parser \<Rightarrow> string \<Rightarrow> rat option \<Rightarrow> js \<Rightarrow> (protocol_error, byte list) result" where
  "encodeProtocolMessage parse kind opt value =
     bind_result (parse value) (\<lambda>validated.
     (let maxFrameLength = or_default opt DEFAULT_MAX_FRAME_LENGTH in
      case bind_result (encodeCbor (byte_limit maxFrameLength) validated) (\<lambda>payload.
           bind_result (encodeFrame payload) (\<lambda>frame.
           bind_result (assertCompleteFrame (Some maxFrameLength) frame) (\<lambda>_. Inr frame))) of
        Inr frame \<Rightarrow> Inr frame
      | Inl e \<Rightarrow> Inl (ProtocolValidationError
          (''Unable to encode '' @ kind @ '' protocol message: '' @ boundedErrorMessage e))))"

definition encodeClientMessage :: "(js \<Rightarrow> bool) \<Rightarrow> rat option \<Rightarrow> js \<Rightarrow> (protocol_error, byte list) result" where
  "encodeClientMessage check = encodeProtocolMessage (parseClientMessage check) ''client''"

definition encodeServerMessage :: "(js \<Rightarrow> bool) \<Rightarrow> rat option \<Rightarrow> js \<Rightarrow> (protocol_error, byte list) result" where
  "encodeServerMessage check = encodeProtocolMessage (parseServerMessage check) ''server''"

section \<open>Decoding messages\<close>

record message_decoder =
  md_failed :: bool
  md_frames :: frame_decoder
  md_kind :: string
  md_maxFrameLength :: rat
  md_parse :: parser

definition new_message_decoder :: "string \<Rightarrow> parser \<Rightarrow> rat option \<Rightarrow> (codec_error, message_decoder) result" where
  "new_message_decoder kind parse opt =
     bind_result (new_frame_decoder opt) (\<lambda>fd. Inr
       \<lparr>md_failed = False, md_frames = fd, md_kind = kind,
        md_maxFrameLength = or_default opt DEFAULT_MAX_FRAME_LENGTH, md_parse = parse\<rparr>)"

definition has_failed :: "message_decoder \<Rightarrow> protocol_error" where
  "has_failed md = ProtocolValidationError (md_kind md @ '' message decoder has failed'')"

definition invalid_frame :: "message_decoder \<Rightarrow> codec_error \<Rightarrow> protocol_error" where
  "invalid_frame md e =
     ProtocolValidationError (''Invalid '' @ md_kind md @ '' protocol frame: '' @ boundedErrorMessage e)"

definition decode_message :: "message_decoder \<Rightarrow> byte list \<Rightarrow> (protocol_error, js) result" where
  "decode_message md frame =
     (case decodeCbor (byte_limit (md_maxFrameLength md)) frame of
        Inl e \<Rightarrow> Inl (invalid_frame md e)
      | Inr value \<Rightarrow> md_parse md value)"

definition decode_messages :: "message_decoder \<Rightarrow> byte list list \<Rightarrow> (protocol_error, js list) result" where
  "decode_messages md frames =
     fold_result (\<lambda>frame messages. bind_result (decode_message md frame) (\<lambda>m. Inr (messages @ [m]))) frames []"

definition message_push ::
  "message_decoder \<Rightarrow> byte list \<Rightarrow> ((protocol_error, js list) result \<times> message_decoder) option" where
  "message_push md chunk =
     (if md_failed md then Some (Inl (has_failed md), md)
      else Option.bind (frame_push (md_frames md) chunk) (\<lambda>(r, fd).
        (case bind_result (case r of Inl e \<Rightarrow> Inl (invalid_frame md e) | Inr fs \<Rightarrow> Inr fs) (decode_messages md) of
           Inr messages \<Rightarrow> Some (Inr messages, md\<lparr>md_frames := fd\<rparr>)
         | Inl e \<Rightarrow> Some (Inl e, md\<lparr>md_frames := fd, md_failed := True\<rparr>))))"

definition message_end :: "message_decoder \<Rightarrow> (protocol_error, unit) result \<times> message_decoder" where
  "message_end md =
     (if md_failed md then (Inl (has_failed md), md)
      else (case frame_end (md_frames md) of
        (Inr _, fd) \<Rightarrow> (Inr (), md\<lparr>md_frames := fd\<rparr>)
      | (Inl e, fd) \<Rightarrow>
          (Inl (ProtocolValidationError (''Invalid '' @ md_kind md @ '' protocol framing: '' @ boundedErrorMessage e)),
           md\<lparr>md_frames := fd, md_failed := True\<rparr>)))"

definition createClientMessageDecoder :: "(js \<Rightarrow> bool) \<Rightarrow> rat option \<Rightarrow> (codec_error, message_decoder) result" where
  "createClientMessageDecoder check = new_message_decoder ''client'' (parseClientMessage check)"

definition createServerMessageDecoder :: "(js \<Rightarrow> bool) \<Rightarrow> rat option \<Rightarrow> (codec_error, message_decoder) result" where
  "createServerMessageDecoder check = new_message_decoder ''server'' (parseServerMessage check)"

definition PROTOCOL_VERSION :: rat where "PROTOCOL_VERSION = 1"

definition isSupportedProtocolVersion :: "rat \<Rightarrow> bool" where
  "isSupportedProtocolVersion version \<longleftrightarrow> of_int \<lfloor>version\<rfloor> = version \<and> version = PROTOCOL_VERSION"

section \<open>What survives the trip is still a protocol value\<close>

lemma protocol_received:
  "isProtocolValue opt v \<Longrightarrow> v \<noteq> J_undefined \<Longrightarrow> isProtocolValue opt (received v)"
  "list_all (isProtocolValue False) vs \<Longrightarrow> list_all (isProtocolValue False) (received_items vs)"
  "list_all (\<lambda>(k, v). isProtocolValue True v) kvs \<Longrightarrow>
     list_all (\<lambda>(k, v). isProtocolValue True v) (received_entries kvs)"
proof (induction v and vs and kvs arbitrary: opt and opt and opt rule: received_received_items_received_entries.induct)
  case (5 v vs)
  have "v \<noteq> J_undefined" using 5(3) by auto
  with 5 show ?case by simp
qed (auto split: if_splits)

section \<open>Messages and frames\<close>

definition message_decoder_ok :: "message_decoder \<Rightarrow> bool" where
  "message_decoder_ok md \<longleftrightarrow> \<not> md_failed md \<and> frame_decoder_ok (md_frames md)"

lemma decode_messages_eq:
  "decode_messages md fs = Inr ms \<longleftrightarrow> list_all2 (\<lambda>f m. decode_message md f = Inr m) fs ms"
proof -
  have "fold_result (\<lambda>f ms. bind_result (decode_message md f) (\<lambda>m. Inr (ms @ [m]))) fs acc = Inr ms \<longleftrightarrow>
      (\<exists>new. ms = acc @ new \<and> list_all2 (\<lambda>f m. decode_message md f = Inr m) fs new)" for acc
  proof (induction fs arbitrary: acc)
    case (Cons f fs)
    show ?case
    proof (cases "decode_message md f")
      case (Inr m)
      then show ?thesis
        using Cons.IH[of "acc @ [m]"] by (auto simp: list_all2_Cons1)
    qed (simp add: list_all2_Cons1)
  qed auto
  from this[of "[]"] show ?thesis by (simp add: decode_messages_def)
qed

lemma decode_message_frames [simp]:
  "decode_message (md\<lparr>md_frames := fd\<rparr>) = decode_message md"
  by (auto simp: decode_message_def invalid_frame_def fun_eq_iff split: sum.splits)

text \<open>Pushing chunk after chunk, as for frames.\<close>

fun message_push_all ::
  "message_decoder \<Rightarrow> byte list list \<Rightarrow> ((protocol_error, js list) result \<times> message_decoder) option" where
  "message_push_all md [] = Some (Inr [], md)"
| "message_push_all md (chunk # chunks) =
     Option.bind (message_push md chunk) (\<lambda>(r, md1). case r of
       Inl e \<Rightarrow> Some (Inl e, md1)
     | Inr ms \<Rightarrow> Option.bind (message_push_all md1 chunks) (\<lambda>(r', md2).
         Some (bind_result r' (\<lambda>ns. Inr (ms @ ns)), md2)))"

lemma message_push_all_decodes:
  "push_all (md_frames md) chunks = Some (Inr fs, fd) \<Longrightarrow> \<not> md_failed md \<Longrightarrow>
   list_all2 (\<lambda>f m. decode_message md f = Inr m) fs ms \<Longrightarrow>
   message_push_all md chunks = Some (Inr ms, md\<lparr>md_frames := fd\<rparr>)"
proof (induction chunks arbitrary: md fs ms)
  case (Cons chunk chunks)
  from Cons.prems(1) obtain gs fd1 hs where push: "frame_push (md_frames md) chunk = Some (Inr gs, fd1)"
    "push_all fd1 chunks = Some (Inr hs, fd)" "fs = gs @ hs"
  proof (cases "frame_push (md_frames md) chunk")
    case (Some r)
    then show ?thesis
      using Cons.prems(1) that by (cases r; cases "fst r") (auto simp: bind_eq_Some_conv bind_result_Inr_iff)
  qed (use Cons.prems(1) in simp)
  from Cons.prems(3) push(3) obtain ms1 ms2 where ms: "ms = ms1 @ ms2"
    "list_all2 (\<lambda>f m. decode_message md f = Inr m) gs ms1" "list_all2 (\<lambda>f m. decode_message md f = Inr m) hs ms2"
    by (auto simp: list_all2_append1)
  have "message_push md chunk = Some (Inr ms1, md\<lparr>md_frames := fd1\<rparr>)"
    using push(1) Cons.prems(2) ms(2) by (simp add: message_push_def flip: decode_messages_eq)
  moreover have "message_push_all (md\<lparr>md_frames := fd1\<rparr>) chunks = Some (Inr ms2, md\<lparr>md_frames := fd\<rparr>)"
    using Cons.IH[of "md\<lparr>md_frames := fd1\<rparr>" hs ms2] push(2) Cons.prems(2) ms(3) by simp
  ultimately show ?case using ms(1) by simp
qed simp

section \<open>Properties\<close>

text \<open>
  C22: messages survive the connection. Messages encoded on one side, their frames concatenated
  and cut into any chunks, come out of the decoder on the other side one by one and in order, each
  without its undefined properties, and the stream may end there.
\<close>

theorem messages_round_trip:
  assumes parse: "parse = parseClientMessage check \<or> parse = parseServerMessage check"
    and dec: "new_message_decoder kind parse opt = Inr md"
    and enc: "list_all2 (\<lambda>v f. encodeProtocolMessage parse kind opt v = Inr f \<and> js_ok v \<and> check (received v)) vs frames"
    and bytes: "concat chunks = concat frames"
  shows "\<exists>md'. message_push_all md chunks = Some (Inr (map received vs), md') \<and> fst (message_end md') = Inr ()"
proof -
  let ?max = "or_default opt DEFAULT_MAX_FRAME_LENGTH"
  from dec obtain fd where fd: "new_frame_decoder opt = Inr fd"
    and md: "md = \<lparr>md_failed = False, md_frames = fd, md_kind = kind, md_maxFrameLength = ?max, md_parse = parse\<rparr>"
    by (auto simp: new_message_decoder_def bind_result_Inr_iff)
  note limit = new_decoder_ok(3)[OF fd]
  have parse_iff: "parse v = Inr w \<longleftrightarrow> isProtocolValue False v \<and> check v \<and> w = v" for v w
    using parse by (auto simp: parseClientMessage_def parseServerMessage_def split: if_splits)
  have one: "f = be_bytes 4 (length (cbor_bytes v)) @ cbor_bytes v \<and> encodeFrame (cbor_bytes v) = Inr f \<and>
      length (cbor_bytes v) \<le> fd_maxFrameLength fd \<and> decode_message md (cbor_bytes v) = Inr (received v)"
    if e: "encodeProtocolMessage parse kind opt v = Inr f" "js_ok v" "check (received v)" for v f
  proof -
    from e(1) obtain payload where p: "isProtocolValue False v" "encodeCbor (byte_limit ?max) v = Inr payload"
      "encodeFrame payload = Inr f" "assertCompleteFrame (Some ?max) f = Inr ()"
      by (auto simp: encodeProtocolMessage_def parse_iff Let_def bind_result_Inr_iff split: sum.splits)
    from p(2)[unfolded encodeCbor_iff] obtain r where r: "resolveOptions (byte_limit ?max) = Inr r" "encodable r 0 v"
      "length (cbor_bytes v) \<le> maxByteLength r" "payload = cbor_bytes v" by blast
    have max: "maxByteLength r = fd_maxFrameLength fd"
      using r(1) limit
      by (auto simp: resolveOptions_def byte_limit_def or_default_def resolveLimit_def resolveMaxFrameLength_def
          bind_result_Inr_iff Let_def split: if_splits)
    have "decodeCbor (byte_limit ?max) (cbor_bytes v) = Inr (received v)"
      by (rule encodable_canonical(1)[OF r(1-3) e(2)])
    moreover have "v \<noteq> J_undefined" using p(1) by auto
    from protocol_received(1)[OF p(1) this] have "isProtocolValue False (received v)" .
    ultimately have "decode_message md (cbor_bytes v) = Inr (received v)"
      using e(3) by (simp add: decode_message_def md parse_iff)
    with p(3) r(3,4) max encodeFrame_eq show ?thesis by simp
  qed
  have "list_all2 (\<lambda>p f. length p \<le> fd_maxFrameLength fd \<and> encodeFrame p = Inr f) (map cbor_bytes vs) frames"
    using enc one by (auto simp: list_all2_map1 elim!: list_all2_mono)
  from push_all_encoded[OF fd limit this, of chunks "[]"] bytes obtain fd' where
    fd': "push_all fd chunks = Some (Inr (map cbor_bytes vs), fd')" "frame_decoder_ok fd'" "received_bytes fd' = []"
    by (auto simp: frames_of_short)
  have "list_all2 (\<lambda>f m. decode_message md f = Inr m) (map cbor_bytes vs) (map received vs)"
    using enc one by (auto simp: list_all2_map1 list_all2_map2 list_all2_conv_all_nth list_all2_same in_set_conv_nth)
  from message_push_all_decodes[OF _ _ this, of chunks fd'] fd'(1) md
  have "message_push_all md chunks = Some (Inr (map received vs), md\<lparr>md_frames := fd'\<rparr>)" by simp
  moreover have "fst (message_end (md\<lparr>md_frames := fd'\<rparr>)) = Inr ()"
    using frame_end_open[OF fd'(2)] fd'(3) md
    by (cases "frame_end fd'") (simp add: message_end_def split: sum.splits)
  ultimately show ?thesis by blast
qed

text \<open>A check that accepts objects with a property named \<open>a\<close>, and a message with an absent option.\<close>

definition sample_check :: "js \<Rightarrow> bool" where
  "sample_check v = (case v of J_object symbols kvs \<Rightarrow> [97] \<in> fst ` set kvs | _ \<Rightarrow> False)"

definition sample_message :: js where
  "sample_message = J_object False [([97], J_number (Num_int 1)), ([98], J_undefined)]"

definition sample_frame :: "byte list" where
  "sample_frame = [0, 0, 0, 4, 0xA1, 0x61, 0x61, 1]"

lemma sample_decoder:
  "\<exists>md. new_message_decoder ''client'' (parseClientMessage sample_check) (Some 64) = Inr md"
proof -
  have "\<not> Option.is_none (case new_frame_decoder (Some 64) of Inl _ \<Rightarrow> None | Inr fd \<Rightarrow> Some fd)" by code_simp
  then show ?thesis by (auto simp: new_message_decoder_def split: sum.splits)
qed

lemma messages_round_trip_witness:
  "\<exists>md md'. new_message_decoder ''client'' (parseClientMessage sample_check) (Some 64) = Inr md \<and>
     message_push_all md [[0, 0], [0, 4, 0xA1], [0x61, 0x61, 1]] = Some (Inr [received sample_message], md') \<and>
     received sample_message \<noteq> sample_message"
proof -
  obtain md where md: "new_message_decoder ''client'' (parseClientMessage sample_check) (Some 64) = Inr md"
    using sample_decoder by blast
  have f: "encodeProtocolMessage (parseClientMessage sample_check) ''client'' (Some 64) sample_message = Inr sample_frame"
    "js_ok sample_message" "sample_check (received sample_message)" "received sample_message \<noteq> sample_message"
    by code_simp+
  then have enc: "list_all2 (\<lambda>v f. encodeProtocolMessage (parseClientMessage sample_check) ''client'' (Some 64) v = Inr f \<and>
      js_ok v \<and> sample_check (received v)) [sample_message] [sample_frame]" by simp
  have "concat [[0, 0], [0, 4, 0xA1], [0x61, 0x61, 1]] = concat [sample_frame]"
    by (simp add: sample_frame_def)
  from messages_round_trip[OF disjI1[OF refl] md enc this] md f(4) show ?thesis by auto
qed

text \<open>
  C23: whatever arrives, the decoder returns, and every message it returns is a value that has
  passed validation, with distinct keys in JavaScript's order. A push that throws leaves a decoder
  that rejects every further push and end with the same error.
\<close>

theorem decoded_messages_valid:
  assumes "message_decoder_ok md" and "md_parse md = parseClientMessage check \<or> md_parse md = parseServerMessage check"
  shows "\<exists>r md'. message_push md chunk = Some (r, md') \<and>
    (case r of
       Inr ms \<Rightarrow> message_decoder_ok md' \<and> list_all (\<lambda>m. isProtocolValue False m \<and> check m \<and> js_ok m) ms
     | Inl e \<Rightarrow> message_push md' chunk' = Some (Inl (has_failed md), md') \<and> message_end md' = (Inl (has_failed md), md'))"
proof -
  have open_state: "\<not> md_failed md" "frame_decoder_ok (md_frames md)"
    using assms(1) by (simp_all add: message_decoder_ok_def)
  have parsed: "isProtocolValue False v \<and> check v \<and> w = v" if "md_parse md v = Inr w" for v w
    using that assms(2) by (auto simp: parseClientMessage_def parseServerMessage_def split: if_splits)
  have valid: "isProtocolValue False m \<and> check m \<and> js_ok m" if "decode_message md f = Inr m" for f m
    using that parsed decodeCbor_sound by (fastforce simp: decode_message_def split: sum.splits)
  have failed: "message_push (md\<lparr>md_frames := fd, md_failed := True\<rparr>) chunk' =
      Some (Inl (has_failed md), md\<lparr>md_frames := fd, md_failed := True\<rparr>)"
    "message_end (md\<lparr>md_frames := fd, md_failed := True\<rparr>) =
      (Inl (has_failed md), md\<lparr>md_frames := fd, md_failed := True\<rparr>)" for fd
    by (simp_all add: message_push_def message_end_def has_failed_def)
  obtain r fd where push: "frame_push (md_frames md) chunk = Some (r, fd)" "\<forall>fs. r = Inr fs \<longrightarrow> frame_decoder_ok fd"
    using push_loop_ok[OF open_state(2), of "[]" chunk] frame_push_open[OF open_state(2), of chunk]
    by (auto simp: pushed_def split: prod.splits option.splits)
  show ?thesis
  proof (cases "bind_result (case r of Inl e \<Rightarrow> Inl (invalid_frame md e) | Inr fs \<Rightarrow> Inr fs) (decode_messages md)")
    case (Inl e)
    then have "message_push md chunk = Some (Inl e, md\<lparr>md_frames := fd, md_failed := True\<rparr>)"
      using open_state push(1) by (simp add: message_push_def)
    then show ?thesis using failed by auto
  next
    case (Inr ms)
    then have result: "message_push md chunk = Some (Inr ms, md\<lparr>md_frames := fd\<rparr>)"
      using open_state push(1) by (simp add: message_push_def)
    from Inr obtain fs where fs: "r = Inr fs" "list_all2 (\<lambda>f m. decode_message md f = Inr m) fs ms"
      by (cases r) (auto simp: decode_messages_eq)
    have "list_all (\<lambda>m. isProtocolValue False m \<and> check m \<and> js_ok m) ms"
      using fs(2) valid by (induction rule: list_all2_induct) auto
    then show ?thesis
      using result fs(1) push(2) open_state(1) by (auto simp: message_decoder_ok_def)
  qed
qed

lemma decoded_messages_valid_witness:
  "\<exists>md r md'. new_message_decoder ''client'' (parseClientMessage sample_check) (Some 64) = Inr md \<and>
     message_push md [0, 0, 0, 1, 0xF6] = Some (r, md') \<and>
     (case r of Inr ms \<Rightarrow> list_all sample_check ms | Inl e \<Rightarrow> message_end md' = (Inl (has_failed md), md'))"
proof -
  obtain md where md: "new_message_decoder ''client'' (parseClientMessage sample_check) (Some 64) = Inr md"
    using sample_decoder by blast
  then have "message_decoder_ok md" "md_parse md = parseClientMessage sample_check"
    using new_decoder_ok(1) by (auto simp: new_message_decoder_def message_decoder_ok_def bind_result_Inr_iff)
  from decoded_messages_valid[OF this(1) disjI1[OF this(2)], of "[0, 0, 0, 1, 0xF6]"] md show ?thesis
    by (fastforce simp: list_all_iff split: sum.splits)
qed

end
