(* ===== verification/Agent_Types.thy ===== *)
theory Agent_Types
  imports Messages
begin

text \<open>
  The data of the agent loop, \<open>packages/agent/src/types.ts\<close>: events, tools, hooks and contexts.
  Everything outside the loop acts on a world \<open>'w\<close> that each call may change: the provider, the
  tools, the hooks of the configuration, the event sink, the clock, the abort signal (read from
  the world, so it may be raised at any call) and the order in which concurrent tools proceed. A
  hook that may throw returns the error message or a value.
\<close>

section \<open>Tools\<close>

datatype execution_mode = Sequential | Parallel

record agent_tool_result =
  re_content :: "content_block list option"
  re_details :: "json option"
  re_usage :: "usage option"
  re_addedToolNames :: "string list option"
  re_terminate :: "bool option"

text \<open>
  What a call of \<open>execute\<close> does is decided by the world it starts in: the partial results it
  reports before its first wait, those it reports later, how it settles, and the reports it makes
  after that.
\<close>

record tool_run =
  run_sync :: "agent_tool_result list"
  run_updates :: "agent_tool_result list"
  run_outcome :: "string + agent_tool_result"
  run_late :: "agent_tool_result list"

type_synonym arguments = "(string \<times> json) list"

record 'w agent_tool =
  at_name :: string
  at_executionMode :: "execution_mode option"
  at_prepareArguments :: "(arguments \<Rightarrow> string + arguments) option"
  at_execute :: "string \<Rightarrow> json \<Rightarrow> 'w \<Rightarrow> tool_run \<times> 'w"

section \<open>Contexts, models and streams\<close>

record 'w agent_context =
  ag_systemPrompt :: string
  ag_messages :: "agent_message list"
  ag_tools :: "'w agent_tool list option"

record 'w llm_context =
  lc_systemPrompt :: string
  lc_messages :: "message list"
  lc_tools :: "'w agent_tool list option"

record llm_model =
  lm_provider :: string
  lm_id :: string

datatype update_kind =
    Text_start | Text_delta | Text_end | Thinking_start | Thinking_delta | Thinking_end
  | Toolcall_start | Toolcall_delta | Toolcall_end

datatype stream_event =
    St_start assistant_message
  | St_update update_kind assistant_message
  | St_done
  | St_error

record llm_stream =
  sm_events :: "stream_event list"
  sm_result :: assistant_message

section \<open>Events\<close>

datatype agent_event =
    Agent_start
  | Agent_end "agent_message list"
  | Turn_start
  | Turn_end assistant_message "tool_result_message list"
  | Message_start agent_message
  | Message_update agent_message stream_event
  | Message_end agent_message
  | Tool_execution_start string string arguments
  | Tool_execution_update string string arguments agent_tool_result
  | Tool_execution_end string string agent_tool_result bool

section \<open>Hooks\<close>

record before_tool_call_result =
  br_block :: "bool option"
  br_reason :: "string option"
  br_terminate :: "bool option"

record after_tool_call_result =
  ar_content :: "content_block list option"
  ar_details :: "json option"
  ar_isError :: "bool option"
  ar_usage :: "usage option"
  ar_terminate :: "bool option"

record 'w before_tool_call_context =
  bc_assistantMessage :: assistant_message
  bc_toolCall :: tool_call
  bc_args :: json
  bc_context :: "'w agent_context"

record 'w after_tool_call_context =
  atc_assistantMessage :: assistant_message
  atc_toolCall :: tool_call
  atc_args :: json
  atc_result :: agent_tool_result
  atc_isError :: bool
  atc_context :: "'w agent_context"

record 'w turn_context =
  tu_message :: assistant_message
  tu_toolResults :: "tool_result_message list"
  tu_context :: "'w agent_context"
  tu_newMessages :: "agent_message list"

record 'w turn_update =
  up_context :: "'w agent_context option"
  up_model :: "llm_model option"
  up_thinkingLevel :: "string option"

record 'w agent_config =
  ac_model :: llm_model
  ac_reasoning :: "string option"
  ac_apiKey :: "string option"
  ac_convertToLlm :: "agent_message list \<Rightarrow> 'w \<Rightarrow> message list \<times> 'w"
  ac_transformContext :: "(agent_message list \<Rightarrow> 'w \<Rightarrow> agent_message list \<times> 'w) option"
  ac_getApiKey :: "(string \<Rightarrow> 'w \<Rightarrow> string option \<times> 'w) option"
  ac_shouldStopAfterTurn :: "('w turn_context \<Rightarrow> 'w \<Rightarrow> bool \<times> 'w) option"
  ac_prepareNextTurn :: "('w turn_context \<Rightarrow> 'w \<Rightarrow> 'w turn_update option \<times> 'w) option"
  ac_getSteeringMessages :: "('w \<Rightarrow> agent_message list \<times> 'w) option"
  ac_getFollowUpMessages :: "('w \<Rightarrow> agent_message list \<times> 'w) option"
  ac_toolExecution :: "execution_mode option"
  ac_beforeToolCall ::
    "('w before_tool_call_context \<Rightarrow> 'w \<Rightarrow> (string + before_tool_call_result option) \<times> 'w) option"
  ac_afterToolCall ::
    "('w after_tool_call_context \<Rightarrow> 'w \<Rightarrow> (string + after_tool_call_result option) \<times> 'w) option"

text \<open>The rest of the outside: stream function, argument validation, sink, signal, clock, order.\<close>

record 'w agent_env =
  ae_stream :: "'w agent_config \<Rightarrow> 'w llm_context \<Rightarrow> string option \<Rightarrow> 'w \<Rightarrow> llm_stream \<times> 'w"
  ae_validate :: "'w agent_tool \<Rightarrow> tool_call \<Rightarrow> string + json"
  ae_emit :: "agent_event \<Rightarrow> 'w \<Rightarrow> 'w"
  ae_aborted :: "'w \<Rightarrow> bool"
  ae_now :: "'w \<Rightarrow> int \<times> 'w"
  ae_next :: "'w \<Rightarrow> nat \<times> 'w"

section \<open>A run\<close>

text \<open>The world and the events emitted so far.\<close>

record 'w run =
  rn_world :: 'w
  rn_events :: "agent_event list"

definition emit :: "'w agent_env \<Rightarrow> agent_event \<Rightarrow> 'w run \<Rightarrow> 'w run" where
  "emit env e s = s\<lparr>rn_world := ae_emit env e (rn_world s), rn_events := rn_events s @ [e]\<rparr>"

definition call :: "('w \<Rightarrow> 'a \<times> 'w) \<Rightarrow> 'w run \<Rightarrow> 'a \<times> 'w run" where
  "call f s = (case f (rn_world s) of (x, w) \<Rightarrow> (x, s\<lparr>rn_world := w\<rparr>))"

definition aborted :: "'w agent_env \<Rightarrow> 'w run \<Rightarrow> bool" where
  "aborted env s = ae_aborted env (rn_world s)"

fun emit_all :: "'w agent_env \<Rightarrow> agent_event list \<Rightarrow> 'w run \<Rightarrow> 'w run" where
  "emit_all env [] s = s"
| "emit_all env (e # es) s = emit_all env es (emit env e s)"

lemma emit_events [simp]: "rn_events (emit env e s) = rn_events s @ [e]"
  by (simp add: emit_def)

lemma emit_all_events [simp]: "rn_events (emit_all env es s) = rn_events s @ es"
  by (induction es arbitrary: s) simp_all

lemma call_events [simp]: "rn_events (snd (call f s)) = rn_events s"
  by (simp add: call_def split: prod.splits)

end
