(* ===== verification/Agent_Tools.thy ===== *)
theory Agent_Tools
  imports Agent_Types
begin

text \<open>
  The execution of the tool calls of one assistant message, the second half of
  \<open>packages/agent/src/agent-loop.ts\<close>: preparation, execution, finalisation, and the two ways a batch
  runs. A parallel batch is a set of tasks that proceed in any order, one step at a time.
\<close>

section \<open>One tool call\<close>

record finalized_call =
  fc_toolCall :: tool_call
  fc_result :: agent_tool_result
  fc_isError :: bool

record executed_call =
  xc_result :: agent_tool_result
  xc_isError :: bool

record 'w prepared_call =
  pc_toolCall :: tool_call
  pc_tool :: "'w agent_tool"
  pc_args :: json

datatype 'w preparation = Prepared "'w prepared_call" | Immediate agent_tool_result bool

definition createErrorToolResult :: "string \<Rightarrow> agent_tool_result" where
  "createErrorToolResult message =
     \<lparr>re_content = Some [Text message None], re_details = Some (JObj []), re_usage = None,
      re_addedToolNames = None, re_terminate = None\<rparr>"

definition shouldTerminateToolBatch :: "finalized_call list \<Rightarrow> bool" where
  "shouldTerminateToolBatch calls \<longleftrightarrow>
     length calls > 0 \<and> list_all (\<lambda>f. re_terminate (fc_result f) = Some True) calls"

definition prepareToolCallArguments :: "'w agent_tool \<Rightarrow> tool_call \<Rightarrow> string + tool_call" where
  "prepareToolCallArguments tool toolCall =
     (case at_prepareArguments tool of
        None \<Rightarrow> Inr toolCall
      | Some prepare \<Rightarrow> bind_result (prepare (tc_arguments toolCall)) (\<lambda>args.
          Inr (if args = tc_arguments toolCall then toolCall else toolCall\<lparr>tc_arguments := args\<rparr>)))"

definition find_tool :: "'w agent_context \<Rightarrow> string \<Rightarrow> 'w agent_tool option" where
  "find_tool ctx name = (case ag_tools ctx of None \<Rightarrow> None | Some tools \<Rightarrow> List.find (\<lambda>t. at_name t = name) tools)"

abbreviation failed_call :: "string \<Rightarrow> 'w preparation" where
  "failed_call message \<equiv> Immediate (createErrorToolResult message) True"

definition prepareToolCall ::
  "'w agent_env \<Rightarrow> 'w agent_context \<Rightarrow> assistant_message \<Rightarrow> tool_call \<Rightarrow> 'w agent_config \<Rightarrow> 'w run
    \<Rightarrow> 'w preparation \<times> 'w run" where
  "prepareToolCall env ctx am toolCall cfg s =
     (case find_tool ctx (tc_name toolCall) of
        None \<Rightarrow> (failed_call (''Tool '' @ tc_name toolCall @ '' not found''), s)
      | Some tool \<Rightarrow>
         (case bind_result (prepareToolCallArguments tool toolCall) (ae_validate env tool) of
            Inl error \<Rightarrow> (failed_call error, s)
          | Inr args \<Rightarrow>
             (case ac_beforeToolCall cfg of
                None \<Rightarrow>
                  (if aborted env s then (failed_call ''Operation aborted'', s)
                   else (Prepared \<lparr>pc_toolCall = toolCall, pc_tool = tool, pc_args = args\<rparr>, s))
              | Some before \<Rightarrow>
                 (case call (before \<lparr>bc_assistantMessage = am, bc_toolCall = toolCall, bc_args = args,
                               bc_context = ctx\<rparr>) s of
                    (Inl error, s1) \<Rightarrow> (failed_call error, s1)
                  | (Inr result, s1) \<Rightarrow>
                      (if aborted env s1 then (failed_call ''Operation aborted'', s1)
                       else (case result of
                          Some b \<Rightarrow>
                            if br_block b = Some True then
                              (let error = createErrorToolResult (if truthy_string (br_reason b)
                                     then the (br_reason b) else ''Tool execution was blocked'')
                               in (Immediate (if br_terminate b = Some True
                                     then error\<lparr>re_terminate := Some True\<rparr> else error) True, s1))
                            else (Prepared \<lparr>pc_toolCall = toolCall, pc_tool = tool, pc_args = args\<rparr>, s1)
                        | None \<Rightarrow>
                            (Prepared \<lparr>pc_toolCall = toolCall, pc_tool = tool, pc_args = args\<rparr>, s1)))))))"

definition update_event :: "'w prepared_call \<Rightarrow> agent_tool_result \<Rightarrow> agent_event" where
  "update_event p partial =
     Tool_execution_update (tc_id (pc_toolCall p)) (tc_name (pc_toolCall p)) (tc_arguments (pc_toolCall p)) partial"

definition executed_of :: "string + agent_tool_result \<Rightarrow> executed_call" where
  "executed_of outcome =
     (case outcome of
        Inr result \<Rightarrow> \<lparr>xc_result = result, xc_isError = False\<rparr>
      | Inl error \<Rightarrow> \<lparr>xc_result = createErrorToolResult error, xc_isError = True\<rparr>)"

text \<open>Reports after the tool has settled are dropped.\<close>

definition executePreparedToolCall ::
  "'w agent_env \<Rightarrow> 'w prepared_call \<Rightarrow> 'w run \<Rightarrow> executed_call \<times> 'w run" where
  "executePreparedToolCall env p s =
     (case call (at_execute (pc_tool p) (tc_id (pc_toolCall p)) (pc_args p)) s of (r, s1) \<Rightarrow>
        (executed_of (run_outcome r),
         emit_all env (map (update_event p) (run_sync r @ run_updates r)) s1))"

text \<open>\<open>a ?? b\<close>, where JSON null counts as absent.\<close>

definition nullish_or :: "json option \<Rightarrow> json option \<Rightarrow> json option" where
  "nullish_or a b = (if a = None \<or> a = Some JNull then b else a)"

definition or_else :: "'a option \<Rightarrow> 'a option \<Rightarrow> 'a option" where
  "or_else a b = (case a of Some x \<Rightarrow> Some x | None \<Rightarrow> b)"

definition finalizeExecutedToolCall ::
  "'w agent_context \<Rightarrow> assistant_message \<Rightarrow> 'w prepared_call \<Rightarrow> executed_call \<Rightarrow> 'w agent_config \<Rightarrow> 'w run
    \<Rightarrow> finalized_call \<times> 'w run" where
  "finalizeExecutedToolCall ctx am p executed cfg s =
     (let final = (\<lambda>result isError. \<lparr>fc_toolCall = pc_toolCall p, fc_result = result, fc_isError = isError\<rparr>);
          result = xc_result executed in
      (case ac_afterToolCall cfg of
         None \<Rightarrow> (final result (xc_isError executed), s)
       | Some after \<Rightarrow>
          (case call (after \<lparr>atc_assistantMessage = am, atc_toolCall = pc_toolCall p, atc_args = pc_args p,
                        atc_result = result, atc_isError = xc_isError executed, atc_context = ctx\<rparr>) s of
             (Inl error, s1) \<Rightarrow> (final (createErrorToolResult error) True, s1)
           | (Inr None, s1) \<Rightarrow> (final result (xc_isError executed), s1)
           | (Inr (Some a), s1) \<Rightarrow>
               (final (result\<lparr>re_content := or_else (ar_content a) (re_content result),
                              re_details := nullish_or (ar_details a) (re_details result),
                              re_usage := or_else (ar_usage a) (re_usage result),
                              re_terminate := or_else (ar_terminate a) (re_terminate result)\<rparr>)
                 (case ar_isError a of Some b \<Rightarrow> b | None \<Rightarrow> xc_isError executed), s1))))"

definition start_event :: "tool_call \<Rightarrow> agent_event" where
  "start_event toolCall = Tool_execution_start (tc_id toolCall) (tc_name toolCall) (tc_arguments toolCall)"

definition end_event :: "finalized_call \<Rightarrow> agent_event" where
  "end_event f = Tool_execution_end (tc_id (fc_toolCall f)) (tc_name (fc_toolCall f)) (fc_result f) (fc_isError f)"

definition createToolResultMessage :: "'w agent_env \<Rightarrow> finalized_call \<Rightarrow> 'w run \<Rightarrow> tool_result_message \<times> 'w run" where
  "createToolResultMessage env f s =
     (case call (ae_now env) s of (now, s1) \<Rightarrow>
        (\<lparr>tr_toolCallId = tc_id (fc_toolCall f), tr_toolName = tc_name (fc_toolCall f),
          tr_content = (case re_content (fc_result f) of Some c \<Rightarrow> c | None \<Rightarrow> []),
          tr_details = re_details (fc_result f), tr_usage = re_usage (fc_result f),
          tr_addedToolNames = (case re_addedToolNames (fc_result f) of
             Some (n # ns) \<Rightarrow> Some (n # ns) | _ \<Rightarrow> None),
          tr_isError = fc_isError f, tr_timestamp = now\<rparr>, s1))"

definition emitToolResultMessage :: "'w agent_env \<Rightarrow> tool_result_message \<Rightarrow> 'w run \<Rightarrow> 'w run" where
  "emitToolResultMessage env m s =
     emit env (Message_end (Llm (ToolResultMsg m))) (emit env (Message_start (Llm (ToolResultMsg m))) s)"

section \<open>A batch in sequence\<close>

definition run_call ::
  "'w agent_env \<Rightarrow> 'w agent_context \<Rightarrow> assistant_message \<Rightarrow> 'w agent_config \<Rightarrow> tool_call \<Rightarrow> 'w run
    \<Rightarrow> finalized_call \<times> 'w run" where
  "run_call env ctx am cfg toolCall s =
     (case prepareToolCall env ctx am toolCall cfg s of
        (Immediate result isError, s1) \<Rightarrow>
          (\<lparr>fc_toolCall = toolCall, fc_result = result, fc_isError = isError\<rparr>, s1)
      | (Prepared p, s1) \<Rightarrow>
          (case executePreparedToolCall env p s1 of (executed, s2) \<Rightarrow>
             finalizeExecutedToolCall ctx am p executed cfg s2))"

text \<open>A batch is its finalized calls and its result messages.\<close>

type_synonym 'w batch = "finalized_call list \<times> tool_result_message list \<times> 'w run"

fun executeToolCallsSequential ::
  "'w agent_env \<Rightarrow> 'w agent_context \<Rightarrow> assistant_message \<Rightarrow> 'w agent_config \<Rightarrow> tool_call list \<Rightarrow> 'w run \<Rightarrow> 'w batch" where
  "executeToolCallsSequential env ctx am cfg [] s = ([], [], s)"
| "executeToolCallsSequential env ctx am cfg (toolCall # toolCalls) s =
     (case run_call env ctx am cfg toolCall (emit env (start_event toolCall) s) of (f, s1) \<Rightarrow>
     (case createToolResultMessage env f (emit env (end_event f) s1) of (m, s2) \<Rightarrow>
     (let s3 = emitToolResultMessage env m s2 in
      if aborted env s3 then ([f], [m], s3)
      else (case executeToolCallsSequential env ctx am cfg toolCalls s3 of
        (fs, ms, s4) \<Rightarrow> (f # fs, m # ms, s4)))))"

section \<open>A batch in parallel\<close>

datatype 'w call_entry = Finalized finalized_call | Deferred "'w prepared_call"

fun prepare_calls ::
  "'w agent_env \<Rightarrow> 'w agent_context \<Rightarrow> assistant_message \<Rightarrow> 'w agent_config \<Rightarrow> tool_call list \<Rightarrow> 'w run
    \<Rightarrow> 'w call_entry list \<times> 'w run" where
  "prepare_calls env ctx am cfg [] s = ([], s)"
| "prepare_calls env ctx am cfg (toolCall # toolCalls) s =
     (case prepareToolCall env ctx am toolCall cfg (emit env (start_event toolCall) s) of (preparation, s1) \<Rightarrow>
     (case (case preparation of
         Immediate result isError \<Rightarrow>
           (let f = \<lparr>fc_toolCall = toolCall, fc_result = result, fc_isError = isError\<rparr>
            in (Finalized f, emit env (end_event f) s1))
       | Prepared p \<Rightarrow> (Deferred p, s1)) of (entry, s2) \<Rightarrow>
      if aborted env s2 then ([entry], s2)
      else (case prepare_calls env ctx am cfg toolCalls s2 of (entries, s3) \<Rightarrow> (entry # entries, s3))))"

text \<open>
  A started call reports, then settles, is finalized and ends. Where it stands is its state; one
  step takes it to the next.
\<close>

datatype 'w task =
    Task_running "'w prepared_call" "agent_tool_result list" "string + agent_tool_result"
  | Task_settled "'w prepared_call" executed_call
  | Task_finalized finalized_call
  | Task_done finalized_call

definition start_task :: "'w agent_env \<Rightarrow> 'w call_entry \<Rightarrow> 'w run \<Rightarrow> 'w task \<times> 'w run" where
  "start_task env entry s =
     (case entry of
        Finalized f \<Rightarrow> (Task_done f, s)
      | Deferred p \<Rightarrow>
          (case call (at_execute (pc_tool p) (tc_id (pc_toolCall p)) (pc_args p)) s of (r, s1) \<Rightarrow>
             (Task_running p (run_updates r) (run_outcome r),
              emit_all env (map (update_event p) (run_sync r)) s1)))"

fun start_tasks :: "'w agent_env \<Rightarrow> 'w call_entry list \<Rightarrow> 'w run \<Rightarrow> 'w task list \<times> 'w run" where
  "start_tasks env [] s = ([], s)"
| "start_tasks env (entry # entries) s =
     (case start_task env entry s of (t, s1) \<Rightarrow>
     (case start_tasks env entries s1 of (ts, s2) \<Rightarrow> (t # ts, s2)))"

fun task_step ::
  "'w agent_env \<Rightarrow> 'w agent_context \<Rightarrow> assistant_message \<Rightarrow> 'w agent_config \<Rightarrow> 'w task \<Rightarrow> 'w run \<Rightarrow> 'w task \<times> 'w run" where
  "task_step env ctx am cfg (Task_running p (u # us) outcome) s =
     (Task_running p us outcome, emit env (update_event p u) s)"
| "task_step env ctx am cfg (Task_running p [] outcome) s = (Task_settled p (executed_of outcome), s)"
| "task_step env ctx am cfg (Task_settled p executed) s =
     (case finalizeExecutedToolCall ctx am p executed cfg s of (f, s1) \<Rightarrow> (Task_finalized f, s1))"
| "task_step env ctx am cfg (Task_finalized f) s = (Task_done f, emit env (end_event f) s)"
| "task_step env ctx am cfg (Task_done f) s = (Task_done f, s)"

fun task_size :: "'w task \<Rightarrow> nat" where
  "task_size (Task_running p us outcome) = 3 + length us"
| "task_size (Task_settled p executed) = 2"
| "task_size (Task_finalized f) = 1"
| "task_size (Task_done f) = 0"

fun task_result :: "'w task \<Rightarrow> finalized_call option" where
  "task_result (Task_done f) = Some f"
| "task_result _ = None"

definition unfinished :: "'w task list \<Rightarrow> nat list" where
  "unfinished ts = filter (\<lambda>i. task_size (ts ! i) > 0) [0..<length ts]"

lemma task_step_size: "task_size t > 0 \<Longrightarrow> task_size (fst (task_step env ctx am cfg t s)) < task_size t"
  by (cases "(env, ctx, am, cfg, t, s)" rule: task_step.cases) (simp_all split: prod.splits)

lemma unfinished_nth:
  assumes "unfinished ts \<noteq> []"
  shows "unfinished ts ! (n mod length (unfinished ts)) < length ts"
    and "task_size (ts ! (unfinished ts ! (n mod length (unfinished ts)))) > 0"
  using assms nth_mem[of "n mod length (unfinished ts)" "unfinished ts"]
  by (auto simp: unfinished_def)

lemma task_size_update:
  "i < length ts \<Longrightarrow> task_size t < task_size (ts ! i) \<Longrightarrow>
     sum_list (map task_size (ts[i := t])) < sum_list (map task_size ts)"
  by (induction ts arbitrary: i) (auto split: nat.splits)

lemma run_tasks_decreases:
  assumes "unfinished ts \<noteq> []" and "i = unfinished ts ! (n mod length (unfinished ts))"
    and "(t, s2) = task_step env ctx am cfg (ts ! i) s1"
  shows "sum_list (map task_size (ts[i := t])) < sum_list (map task_size ts)"
proof (rule task_size_update)
  show "i < length ts" using unfinished_nth(1)[OF assms(1)] assms(2) by simp
  show "task_size t < task_size (ts ! i)"
    using task_step_size[OF unfinished_nth(2)[OF assms(1)], of env ctx am cfg n s1] assms(2,3)
    by (metis fst_conv)
qed

text \<open>\<open>Promise.all\<close>: until every task is done, some unfinished task takes its next step.\<close>

function run_tasks ::
  "'w agent_env \<Rightarrow> 'w agent_context \<Rightarrow> assistant_message \<Rightarrow> 'w agent_config \<Rightarrow> 'w task list \<Rightarrow> 'w run
    \<Rightarrow> 'w task list \<times> 'w run" where
  "run_tasks env ctx am cfg ts s =
     (if unfinished ts = [] then (ts, s)
      else (case call (ae_next env) s of (n, s1) \<Rightarrow>
        (let i = unfinished ts ! (n mod length (unfinished ts)) in
         case task_step env ctx am cfg (ts ! i) s1 of (t, s2) \<Rightarrow>
           run_tasks env ctx am cfg (ts[i := t]) s2)))"
  by pat_completeness auto
termination
  by (relation "measure (\<lambda>(env, ctx, am, cfg, ts, s). sum_list (map task_size ts))", simp)
    (unfold in_measure prod.case, erule (2) run_tasks_decreases)

declare run_tasks.simps [simp del]

fun emit_results :: "'w agent_env \<Rightarrow> finalized_call list \<Rightarrow> 'w run \<Rightarrow> tool_result_message list \<times> 'w run" where
  "emit_results env [] s = ([], s)"
| "emit_results env (f # fs) s =
     (case createToolResultMessage env f s of (m, s1) \<Rightarrow>
     (case emit_results env fs (emitToolResultMessage env m s1) of (ms, s2) \<Rightarrow> (m # ms, s2)))"

definition executeToolCallsParallel ::
  "'w agent_env \<Rightarrow> 'w agent_context \<Rightarrow> assistant_message \<Rightarrow> 'w agent_config \<Rightarrow> tool_call list \<Rightarrow> 'w run \<Rightarrow> 'w batch" where
  "executeToolCallsParallel env ctx am cfg toolCalls s =
     (case prepare_calls env ctx am cfg toolCalls s of (entries, s1) \<Rightarrow>
     (case start_tasks env entries s1 of (ts, s2) \<Rightarrow>
     (case run_tasks env ctx am cfg ts s2 of (done, s3) \<Rightarrow>
     (let fs = List.map_filter task_result done in
      case emit_results env fs s3 of (ms, s4) \<Rightarrow> (fs, ms, s4)))))"

section \<open>A batch\<close>

definition message_calls :: "assistant_message \<Rightarrow> tool_call list" where
  "message_calls am = List.map_filter (\<lambda>b. case b of ToolCall c \<Rightarrow> Some c | _ \<Rightarrow> None) (am_content am)"

definition executeToolCalls ::
  "'w agent_env \<Rightarrow> 'w agent_context \<Rightarrow> assistant_message \<Rightarrow> 'w agent_config \<Rightarrow> 'w run \<Rightarrow> 'w batch" where
  "executeToolCalls env ctx am cfg s =
     (let toolCalls = message_calls am;
          hasSequentialToolCall = list_ex (\<lambda>tc. case find_tool ctx (tc_name tc) of
            None \<Rightarrow> False | Some t \<Rightarrow> at_executionMode t = Some Sequential) toolCalls
      in if ac_toolExecution cfg = Some Sequential \<or> hasSequentialToolCall
           then executeToolCallsSequential env ctx am cfg toolCalls s
         else executeToolCallsParallel env ctx am cfg toolCalls s)"

text \<open>The calls of a message cut off by the token limit are all failed; none is executed.\<close>

definition truncated_call :: "tool_call \<Rightarrow> finalized_call" where
  "truncated_call toolCall =
     \<lparr>fc_toolCall = toolCall,
      fc_result = createErrorToolResult (''Tool call \"'' @ tc_name toolCall @
        ''\" was not executed: the response hit the output token limit, so its arguments may be truncated. Re-issue the tool call with complete arguments.''),
      fc_isError = True\<rparr>"

fun failToolCallsFromTruncatedMessage ::
  "'w agent_env \<Rightarrow> tool_call list \<Rightarrow> 'w run \<Rightarrow> tool_result_message list \<times> 'w run" where
  "failToolCallsFromTruncatedMessage env [] s = ([], s)"
| "failToolCallsFromTruncatedMessage env (toolCall # toolCalls) s =
     (case createToolResultMessage env (truncated_call toolCall)
         (emit env (end_event (truncated_call toolCall)) (emit env (start_event toolCall) s)) of (m, s1) \<Rightarrow>
     (case failToolCallsFromTruncatedMessage env toolCalls (emitToolResultMessage env m s1) of
        (ms, s2) \<Rightarrow> (m # ms, s2)))"

end
