(* ===== verification/Agent_Loop.thy ===== *)
theory Agent_Loop
  imports Agent_Tools "HOL-Library.Monad_Syntax"
begin

text \<open>
  The agent loop of \<open>packages/agent/src/agent-loop.ts\<close>: a run is a sequence of turns, each one
  assistant response and the execution of its tool calls, until the model stops calling tools and
  nothing is queued. A run may go on forever, so the loop is a partial function.
\<close>

section \<open>An assistant response\<close>

definition buildProviderContext ::
  "'w agent_context \<Rightarrow> 'w agent_config \<Rightarrow> 'w run \<Rightarrow> 'w llm_context \<times> 'w run" where
  "buildProviderContext ctx cfg s =
     (case (case ac_transformContext cfg of
         None \<Rightarrow> (ag_messages ctx, s)
       | Some transform \<Rightarrow> call (transform (ag_messages ctx)) s) of (messages, s1) \<Rightarrow>
     (case call (ac_convertToLlm cfg messages) s1 of (llm, s2) \<Rightarrow>
        (\<lparr>lc_systemPrompt = ag_systemPrompt ctx, lc_messages = llm, lc_tools = ag_tools ctx\<rparr>, s2)))"

abbreviation assistant :: "assistant_message \<Rightarrow> agent_message" where
  "assistant am \<equiv> Llm (AssistantMsg am)"

definition set_last :: "'a list \<Rightarrow> 'a \<Rightarrow> 'a list" where
  "set_last xs x = butlast xs @ [x]"

text \<open>
  The events of the stream up to the end or the first final one. \<open>added\<close> tells whether the
  partial message is in the context: \<open>partialMessage\<close> is set and \<open>addedPartial\<close> becomes true at
  the same event. Both the final event and the end of the stream put the result in its place.
\<close>

definition finish_response ::
  "'w agent_env \<Rightarrow> assistant_message \<Rightarrow> bool \<Rightarrow> agent_message list \<Rightarrow> 'w run \<Rightarrow> agent_message list \<times> 'w run" where
  "finish_response env final added messages s =
     (if added then (set_last messages (assistant final), emit env (Message_end (assistant final)) s)
      else (messages @ [assistant final],
            emit env (Message_end (assistant final)) (emit env (Message_start (assistant final)) s)))"

fun consume_stream ::
  "'w agent_env \<Rightarrow> assistant_message \<Rightarrow> stream_event list \<Rightarrow> bool \<Rightarrow> agent_message list \<Rightarrow> 'w run
    \<Rightarrow> agent_message list \<times> 'w run" where
  "consume_stream env final [] added messages s = finish_response env final added messages s"
| "consume_stream env final (St_start partial # es) added messages s =
     consume_stream env final es True (messages @ [assistant partial])
       (emit env (Message_start (assistant partial)) s)"
| "consume_stream env final (St_update kind partial # es) added messages s =
     (if added then consume_stream env final es added (set_last messages (assistant partial))
        (emit env (Message_update (assistant partial) (St_update kind partial)) s)
      else consume_stream env final es added messages s)"
| "consume_stream env final (St_done # es) added messages s = finish_response env final added messages s"
| "consume_stream env final (St_error # es) added messages s = finish_response env final added messages s"

definition streamAssistantResponse ::
  "'w agent_env \<Rightarrow> 'w agent_context \<Rightarrow> 'w agent_config \<Rightarrow> 'w run \<Rightarrow> assistant_message \<times> 'w agent_context \<times> 'w run" where
  "streamAssistantResponse env ctx cfg s =
     (case buildProviderContext ctx cfg s of (llm, s1) \<Rightarrow>
     (case (case ac_getApiKey cfg of
         None \<Rightarrow> (None, s1)
       | Some getApiKey \<Rightarrow> call (getApiKey (lm_provider (ac_model cfg))) s1) of (key, s2) \<Rightarrow>
     (case call (ae_stream env cfg llm (if truthy_string key then key else ac_apiKey cfg)) s2 of (response, s3) \<Rightarrow>
     (case consume_stream env (sm_result response) (sm_events response) False (ag_messages ctx) s3 of
        (messages, s4) \<Rightarrow> (sm_result response, ctx\<lparr>ag_messages := messages\<rparr>, s4)))))"

section \<open>A turn\<close>

definition message_events :: "agent_message \<Rightarrow> agent_event list" where
  "message_events m = [Message_start m, Message_end m]"

definition inject_messages ::
  "'w agent_env \<Rightarrow> agent_message list \<Rightarrow> 'w agent_context \<Rightarrow> 'w run \<Rightarrow> 'w agent_context \<times> 'w run" where
  "inject_messages env pending ctx s =
     (ctx\<lparr>ag_messages := ag_messages ctx @ pending\<rparr>, emit_all env (concat (map message_events pending)) s)"

text \<open>An absent hook gives its default.\<close>

definition call_opt :: "('w \<Rightarrow> 'a \<times> 'w) option \<Rightarrow> 'a \<Rightarrow> 'w run \<Rightarrow> 'a \<times> 'w run" where
  "call_opt hook dflt s = (case hook of None \<Rightarrow> (dflt, s) | Some f \<Rightarrow> call f s)"

definition next_config :: "'w turn_update option \<Rightarrow> 'w agent_context \<Rightarrow> 'w agent_config \<Rightarrow> 'w agent_context \<times> 'w agent_config" where
  "next_config update ctx cfg =
     (case update of
        None \<Rightarrow> (ctx, cfg)
      | Some u \<Rightarrow>
          ((case up_context u of Some c \<Rightarrow> c | None \<Rightarrow> ctx),
           cfg\<lparr>ac_model := (case up_model u of Some m \<Rightarrow> m | None \<Rightarrow> ac_model cfg),
               ac_reasoning := (case up_thinkingLevel u of
                  None \<Rightarrow> ac_reasoning cfg
                | Some level \<Rightarrow> if level = ''off'' then None else Some level)\<rparr>))"

text \<open>Tool results and whether there are more tool calls to come.\<close>

definition execute_turn_calls ::
  "'w agent_env \<Rightarrow> 'w agent_context \<Rightarrow> assistant_message \<Rightarrow> 'w agent_config \<Rightarrow> 'w run
    \<Rightarrow> tool_result_message list \<times> bool \<times> 'w run" where
  "execute_turn_calls env ctx am cfg s =
     (let toolCalls = message_calls am in
      if toolCalls = [] then ([], False, s)
      else if am_stopReason am = SR_length
        then (case failToolCallsFromTruncatedMessage env toolCalls s of (ms, s1) \<Rightarrow> (ms, True, s1))
      else (case executeToolCalls env ctx am cfg s of (fs, ms, s1) \<Rightarrow> (ms, \<not> shouldTerminateToolBatch fs, s1)))"

text \<open>The variables of the loop.\<close>

record 'w loop_state =
  lp_context :: "'w agent_context"
  lp_config :: "'w agent_config"
  lp_newMessages :: "agent_message list"
  lp_firstTurn :: bool
  lp_pending :: "agent_message list"
  lp_hasMoreToolCalls :: bool
  lp_run :: "'w run"

text \<open>The first half of a turn: the pending messages, the response, its tool calls, \<open>turn_end\<close>.\<close>

definition turn_response ::
  "'w agent_env \<Rightarrow> 'w loop_state \<Rightarrow> assistant_message \<times> 'w loop_state" where
  "turn_response env l =
     (let s0 = (if lp_firstTurn l then lp_run l else emit env Turn_start (lp_run l)) in
      case inject_messages env (lp_pending l) (lp_context l) s0 of (ctx1, s1) \<Rightarrow>
      (case streamAssistantResponse env ctx1 (lp_config l) s1 of (am, ctx2, s2) \<Rightarrow>
        (am, l\<lparr>lp_context := ctx2, lp_firstTurn := False, lp_pending := [],
               lp_newMessages := lp_newMessages l @ lp_pending l @ [assistant am], lp_run := s2\<rparr>)))"

definition turn_tools ::
  "'w agent_env \<Rightarrow> assistant_message \<Rightarrow> 'w loop_state \<Rightarrow> tool_result_message list \<times> 'w loop_state" where
  "turn_tools env am l =
     (case execute_turn_calls env (lp_context l) am (lp_config l) (lp_run l) of (results, hasMore, s) \<Rightarrow>
     (let ms = map (\<lambda>m. Llm (ToolResultMsg m)) results in
        (results, l\<lparr>lp_context := (lp_context l)\<lparr>ag_messages := ag_messages (lp_context l) @ ms\<rparr>,
                    lp_newMessages := lp_newMessages l @ ms, lp_hasMoreToolCalls := hasMore,
                    lp_run := emit env (Turn_end am results) s\<rparr>)))"

text \<open>The second half: the hooks between turns. \<open>True\<close> means the run stops here.\<close>

definition turn_hooks ::
  "assistant_message \<Rightarrow> tool_result_message list \<Rightarrow> 'w loop_state \<Rightarrow> bool \<times> 'w loop_state" where
  "turn_hooks am results l =
     (let turn = (\<lambda>ctx. \<lparr>tu_message = am, tu_toolResults = results, tu_context = ctx,
                         tu_newMessages = lp_newMessages l\<rparr>) in
      case call_opt (map_option (\<lambda>f. f (turn (lp_context l))) (ac_prepareNextTurn (lp_config l))) None (lp_run l) of
        (update, s1) \<Rightarrow>
      (case next_config update (lp_context l) (lp_config l) of (ctx, cfg) \<Rightarrow>
      (case call_opt (map_option (\<lambda>f. f (turn ctx)) (ac_shouldStopAfterTurn cfg)) False s1 of (stop, s2) \<Rightarrow>
        if stop then (True, l\<lparr>lp_context := ctx, lp_config := cfg, lp_run := s2\<rparr>)
        else (case call_opt (ac_getSteeringMessages cfg) [] s2 of (pending, s3) \<Rightarrow>
          (False, l\<lparr>lp_context := ctx, lp_config := cfg, lp_pending := pending, lp_run := s3\<rparr>)))))"

definition finish_loop :: "'w agent_env \<Rightarrow> 'w loop_state \<Rightarrow> 'w loop_state" where
  "finish_loop env l = l\<lparr>lp_run := emit env (Agent_end (lp_newMessages l)) (lp_run l)\<rparr>"

definition run_turn :: "'w agent_env \<Rightarrow> 'w loop_state \<Rightarrow> bool \<times> 'w loop_state" where
  "run_turn env l =
     (case turn_response env l of (am, l1) \<Rightarrow>
      if am_stopReason am = SR_error \<or> am_stopReason am = SR_aborted
        then (True, finish_loop env (l1\<lparr>lp_run := emit env (Turn_end am []) (lp_run l1)\<rparr>))
      else (case turn_tools env am l1 of (results, l2) \<Rightarrow>
        (case turn_hooks am results l2 of (stop, l3) \<Rightarrow>
          if stop then (True, finish_loop env l3) else (False, l3))))"

section \<open>The loop\<close>

definition followUpMessages :: "'w loop_state \<Rightarrow> agent_message list \<times> 'w loop_state" where
  "followUpMessages l =
     (case call_opt (ac_getFollowUpMessages (lp_config l)) [] (lp_run l) of (ms, s) \<Rightarrow> (ms, l\<lparr>lp_run := s\<rparr>))"

partial_function (option) runLoop :: "'w agent_env \<Rightarrow> 'w loop_state \<Rightarrow> 'w loop_state option" where
  [code]: "runLoop env l =
     (if lp_hasMoreToolCalls l \<or> lp_pending l \<noteq> [] then
        (if fst (run_turn env l) then Some (snd (run_turn env l)) else runLoop env (snd (run_turn env l)))
      else
        (if fst (followUpMessages l) \<noteq> [] then
           runLoop env ((snd (followUpMessages l))\<lparr>lp_pending := fst (followUpMessages l), lp_hasMoreToolCalls := True\<rparr>)
         else Some (finish_loop env (snd (followUpMessages l)))))"

definition start_loop ::
  "'w agent_context \<Rightarrow> agent_message list \<Rightarrow> 'w agent_config \<Rightarrow> 'w run \<Rightarrow> 'w loop_state" where
  "start_loop ctx newMessages cfg s =
     (case call_opt (ac_getSteeringMessages cfg) [] s of (pending, s1) \<Rightarrow>
        \<lparr>lp_context = ctx, lp_config = cfg, lp_newMessages = newMessages, lp_firstTurn = True,
         lp_pending = pending, lp_hasMoreToolCalls = True, lp_run = s1\<rparr>)"

definition begin_run :: "'w agent_env \<Rightarrow> agent_message list \<Rightarrow> 'w \<Rightarrow> 'w run" where
  "begin_run env prompts w =
     emit_all env (Agent_start # Turn_start # concat (map message_events prompts))
       \<lparr>rn_world = w, rn_events = []\<rparr>"

definition runAgentLoop ::
  "'w agent_env \<Rightarrow> agent_message list \<Rightarrow> 'w agent_context \<Rightarrow> 'w agent_config \<Rightarrow> 'w \<Rightarrow> 'w loop_state option" where
  "runAgentLoop env prompts ctx cfg w =
     runLoop env (start_loop (ctx\<lparr>ag_messages := ag_messages ctx @ prompts\<rparr>) prompts cfg (begin_run env prompts w))"

definition runAgentLoopContinue ::
  "'w agent_env \<Rightarrow> 'w agent_context \<Rightarrow> 'w agent_config \<Rightarrow> 'w \<Rightarrow> (string, 'w loop_state option) result" where
  "runAgentLoopContinue env ctx cfg w =
     (if ag_messages ctx = [] then Inl ''Cannot continue: no messages in context''
      else if message_role (last (ag_messages ctx)) = R_assistant
        then Inl ''Cannot continue from message role: assistant''
      else Inr (runLoop env (start_loop ctx [] cfg (begin_run env [] w))))"

end
