(* ===== verification/Agent_Trace.thy ===== *)
theory Agent_Trace
  imports Agent_Loop
begin

text \<open>
  What a run emits. The events of a run are brackets: a run around turns, a turn around messages
  and tool executions, a message around its updates. The messages that end are the messages the
  run returns.
\<close>

section \<open>Traces\<close>

datatype trace_phase = Ph_init | Ph_between | Ph_turn | Ph_message | Ph_ended

text \<open>The phase, and the ids of the tool calls that have started and not ended.\<close>

type_synonym trace = "trace_phase \<times> string multiset"

fun trace_step :: "trace \<Rightarrow> agent_event \<Rightarrow> trace option" where
  "trace_step (ph, calls) Agent_start = (if ph = Ph_init then Some (Ph_between, calls) else None)"
| "trace_step (ph, calls) (Agent_end ms) = (if ph = Ph_between then Some (Ph_ended, calls) else None)"
| "trace_step (ph, calls) Turn_start = (if ph = Ph_between then Some (Ph_turn, calls) else None)"
| "trace_step (ph, calls) (Turn_end am rs) =
     (if ph = Ph_turn \<and> calls = {#} then Some (Ph_between, calls) else None)"
| "trace_step (ph, calls) (Message_start m) =
     (if ph = Ph_turn \<and> calls = {#} then Some (Ph_message, calls) else None)"
| "trace_step (ph, calls) (Message_update m e) = (if ph = Ph_message then Some (ph, calls) else None)"
| "trace_step (ph, calls) (Message_end m) = (if ph = Ph_message then Some (Ph_turn, calls) else None)"
| "trace_step (ph, calls) (Tool_execution_start i n a) =
     (if ph = Ph_turn then Some (ph, add_mset i calls) else None)"
| "trace_step (ph, calls) (Tool_execution_update i n a r) =
     (if ph = Ph_turn \<and> i \<in># calls then Some (ph, calls) else None)"
| "trace_step (ph, calls) (Tool_execution_end i n r b) =
     (if ph = Ph_turn \<and> i \<in># calls then Some (ph, calls - {#i#}) else None)"

fun trace_run :: "trace \<Rightarrow> agent_event list \<Rightarrow> trace option" where
  "trace_run t [] = Some t"
| "trace_run t (e # es) = Option.bind (trace_step t e) (\<lambda>t'. trace_run t' es)"

lemma trace_run_append: "trace_run t (es @ fs) = Option.bind (trace_run t es) (\<lambda>t'. trace_run t' fs)"
  by (induction es arbitrary: t) (simp_all add: bind_assoc)

fun message_ends :: "agent_event list \<Rightarrow> agent_message list" where
  "message_ends [] = []"
| "message_ends (Message_end m # es) = m # message_ends es"
| "message_ends (e # es) = message_ends es"

lemma message_ends_append [simp]: "message_ends (es @ fs) = message_ends es @ message_ends fs"
  by (induction es rule: message_ends.induct) simp_all

abbreviation tool_messages :: "tool_result_message list \<Rightarrow> agent_message list" where
  "tool_messages ms \<equiv> map (\<lambda>m. Llm (ToolResultMsg m)) ms"

text \<open>A step of the loop emits events that take one trace to another and end some messages.\<close>

definition emits :: "trace \<Rightarrow> trace \<Rightarrow> agent_message list \<Rightarrow> 'w run \<Rightarrow> 'w run \<Rightarrow> bool" where
  "emits t t' ms s s' \<longleftrightarrow>
     (\<exists>es. rn_events s' = rn_events s @ es \<and> trace_run t es = Some t' \<and> message_ends es = ms)"

lemma emits_refl [simp]: "emits t t [] s s"
  by (simp add: emits_def)

lemma emits_quiet: "rn_events s' = rn_events s \<Longrightarrow> emits t t [] s s'"
  by (simp add: emits_def)

lemma emits_trans:
  assumes "emits t1 t2 ms s1 s2" and "emits t2 t3 ns s2 s3"
  shows "emits t1 t3 (ms @ ns) s1 s3"
proof -
  from assms obtain es fs where "rn_events s2 = rn_events s1 @ es" "trace_run t1 es = Some t2" "message_ends es = ms"
    "rn_events s3 = rn_events s2 @ fs" "trace_run t2 fs = Some t3" "message_ends fs = ns"
    by (auto simp: emits_def)
  then show ?thesis
    by (auto simp: emits_def trace_run_append intro!: exI[of _ "es @ fs"])
qed

lemma emits_all:
  "trace_run t es = Some t' \<Longrightarrow> message_ends es = ms \<Longrightarrow> emits t t' ms s (emit_all env es s)"
  by (auto simp: emits_def)

lemma emits_one: "trace_run t [e] = Some t' \<Longrightarrow> message_ends [e] = ms \<Longrightarrow> emits t t' ms s (emit env e s)"
  using emits_all[of t "[e]" t' ms s env] by simp

section \<open>Steps that emit nothing\<close>

lemma call_quiet: "call f s = (x, s') \<Longrightarrow> rn_events s' = rn_events s"
  by (metis call_events snd_conv)

lemma call_opt_quiet: "call_opt f d s = (x, s') \<Longrightarrow> rn_events s' = rn_events s"
  by (auto simp: call_opt_def call_quiet split: option.splits)

lemma prepare_quiet:
  assumes "prepareToolCall env ctx am tc cfg s = (p, s')"
  shows "rn_events s' = rn_events s" and "p = Prepared q \<Longrightarrow> pc_toolCall q = tc"
  using assms
  by (auto simp: prepareToolCall_def Let_def call_quiet split: option.splits sum.splits prod.splits if_splits)

lemma finalize_quiet:
  assumes "finalizeExecutedToolCall ctx am p x cfg s = (f, s')"
  shows "rn_events s' = rn_events s" and "fc_toolCall f = pc_toolCall p"
  using assms
  by (auto simp: finalizeExecutedToolCall_def Let_def call_quiet split: option.splits sum.splits prod.splits if_splits)

lemma result_quiet:
  assumes "createToolResultMessage env f s = (m, s')"
  shows "rn_events s' = rn_events s" and "tr_toolCallId m = tc_id (fc_toolCall f)"
    and "tr_toolName m = tc_name (fc_toolCall f)" and "tr_isError m = fc_isError f"
  using assms by (auto simp: createToolResultMessage_def call_quiet split: prod.splits)

lemma provider_quiet: "buildProviderContext ctx cfg s = (c, s') \<Longrightarrow> rn_events s' = rn_events s"
  by (auto simp: buildProviderContext_def call_quiet split: option.splits prod.splits)

section \<open>Tool calls\<close>

lemma emits_result: "emits (Ph_turn, {#}) (Ph_turn, {#}) (tool_messages [m]) s (emitToolResultMessage env m s)"
  by (auto simp: emits_def emitToolResultMessage_def)

lemma updates_trace: "tc_id (pc_toolCall p) \<in># calls \<Longrightarrow> trace_run (Ph_turn, calls) (map (update_event p) us) = Some (Ph_turn, calls)"
  by (induction us) (simp_all add: update_event_def)

lemma updates_ends [simp]: "message_ends (map (update_event p) us) = []"
  by (induction us) (simp_all add: update_event_def)

lemma emits_updates:
  "tc_id (pc_toolCall p) \<in># calls \<Longrightarrow>
     emits (Ph_turn, calls) (Ph_turn, calls) [] s (emit_all env (map (update_event p) us) s)"
  by (rule emits_all) (simp_all add: updates_trace)

lemma emits_start: "emits (Ph_turn, calls) (Ph_turn, add_mset (tc_id tc) calls) [] s (emit env (start_event tc) s)"
  by (rule emits_one) (simp_all add: start_event_def)

lemma emits_end:
  "tc_id (fc_toolCall f) \<in># calls \<Longrightarrow>
     emits (Ph_turn, calls) (Ph_turn, calls - {#tc_id (fc_toolCall f)#}) [] s (emit env (end_event f) s)"
  by (rule emits_one) (simp_all add: end_event_def)

lemma run_call_emits:
  assumes "run_call env ctx am cfg tc s = (f, s')" and "tc_id tc \<in># calls"
  shows "emits (Ph_turn, calls) (Ph_turn, calls) [] s s'" and "fc_toolCall f = tc"
proof -
  obtain p s1 where p: "prepareToolCall env ctx am tc cfg s = (p, s1)" by (metis prod.collapse)
  note q = prepare_quiet[OF p]
  have "emits (Ph_turn, calls) (Ph_turn, calls) [] s s' \<and> fc_toolCall f = tc"
  proof (cases p)
    case (Immediate r e)
    then show ?thesis using assms(1) p emits_quiet[OF q(1)] by (auto simp: run_call_def)
  next
    case (Prepared q')
    obtain r s2 where r: "call (at_execute (pc_tool q') (tc_id (pc_toolCall q')) (pc_args q')) s1 = (r, s2)"
      by (metis prod.collapse)
    let ?s3 = "emit_all env (map (update_event q') (run_sync r @ run_updates r)) s2"
    have f: "finalizeExecutedToolCall ctx am q' (executed_of (run_outcome r)) cfg ?s3 = (f, s')"
      using assms(1) p Prepared r by (simp add: run_call_def executePreparedToolCall_def)
    have tc: "pc_toolCall q' = tc" using q(2) Prepared by blast
    have "emits (Ph_turn, calls) (Ph_turn, calls) [] s s2"
      using q(1) call_quiet[OF r] by (intro emits_quiet) simp
    from emits_trans[OF this emits_updates[of q' calls s2 env "run_sync r @ run_updates r"]] assms(2) tc
    have "emits (Ph_turn, calls) (Ph_turn, calls) [] s ?s3" by simp
    from emits_trans[OF this emits_quiet[OF finalize_quiet(1)[OF f]]] finalize_quiet(2)[OF f] tc
    show ?thesis by simp
  qed
  then show "emits (Ph_turn, calls) (Ph_turn, calls) [] s s'" "fc_toolCall f = tc" by simp_all
qed

lemma sequential_emits:
  "executeToolCallsSequential env ctx am cfg tcs s = (fs, ms, s') \<Longrightarrow>
     emits (Ph_turn, {#}) (Ph_turn, {#}) (tool_messages ms) s s'"
proof (induction tcs arbitrary: s fs ms s')
  case (Cons tc tcs)
  let ?s0 = "emit env (start_event tc) s"
  obtain f s1 where f: "run_call env ctx am cfg tc ?s0 = (f, s1)" by (metis prod.collapse)
  obtain m s2 where m: "createToolResultMessage env f (emit env (end_event f) s1) = (m, s2)" by (metis prod.collapse)
  let ?s3 = "emitToolResultMessage env m s2"
  have call: "emits (Ph_turn, {#}) (Ph_turn, {#}) (tool_messages [m]) s ?s3"
  proof -
    have "emits (Ph_turn, {#}) (Ph_turn, {#tc_id tc#}) [] s s1"
      using emits_trans[OF emits_start[of "{#}"] run_call_emits(1)[OF f]] by simp
    from emits_trans[OF this emits_end[of f "{#tc_id tc#}" s1 env]] run_call_emits(2)[OF f, of "{#tc_id tc#}"]
    have "emits (Ph_turn, {#}) (Ph_turn, {#}) [] s (emit env (end_event f) s1)" by simp
    from emits_trans[OF emits_trans[OF this emits_quiet[OF result_quiet(1)[OF m]]] emits_result[of m s2 env]]
    show ?thesis by simp
  qed
  show ?case
  proof (cases "aborted env ?s3")
    case True
    then show ?thesis using Cons.prems f m call by (simp add: Let_def)
  next
    case False
    obtain fs' ms' s4 where rest: "executeToolCallsSequential env ctx am cfg tcs ?s3 = (fs', ms', s4)" by (metis prod_cases3)
    with Cons.prems f m False have "ms = m # ms'" "s' = s4" by (simp_all add: Let_def)
    with emits_trans[OF call Cons.IH[OF rest]] show ?thesis by simp
  qed
qed simp

lemma truncated_emits:
  "failToolCallsFromTruncatedMessage env tcs s = (ms, s') \<Longrightarrow>
     emits (Ph_turn, {#}) (Ph_turn, {#}) (tool_messages ms) s s'"
proof (induction tcs arbitrary: s ms s')
  case (Cons tc tcs)
  let ?s1 = "emit env (end_event (truncated_call tc)) (emit env (start_event tc) s)"
  obtain m s2 where m: "createToolResultMessage env (truncated_call tc) ?s1 = (m, s2)" by (metis prod.collapse)
  obtain ms' s3 where rest: "failToolCallsFromTruncatedMessage env tcs (emitToolResultMessage env m s2) = (ms', s3)"
    by (metis prod.collapse)
  have "fc_toolCall (truncated_call tc) = tc" by (simp add: truncated_call_def)
  with emits_trans[OF emits_start[of "{#}" tc s env] emits_end[of "truncated_call tc" "{#tc_id tc#}"]]
  have "emits (Ph_turn, {#}) (Ph_turn, {#}) [] s ?s1" by simp
  from emits_trans[OF emits_trans[OF this emits_quiet[OF result_quiet(1)[OF m]]] emits_result[of m s2 env]]
  have "emits (Ph_turn, {#}) (Ph_turn, {#}) (tool_messages [m]) s (emitToolResultMessage env m s2)" by simp
  from emits_trans[OF this Cons.IH[OF rest]] Cons.prems m rest show ?case by auto
qed simp

section \<open>Parallel batches\<close>

text \<open>The calls of a batch that have started and not ended: deferred entries, unfinished tasks.\<close>

fun entry_open :: "'w call_entry \<Rightarrow> string multiset" where
  "entry_open (Finalized f) = {#}"
| "entry_open (Deferred p) = {#tc_id (pc_toolCall p)#}"

fun task_call :: "'w task \<Rightarrow> tool_call" where
  "task_call (Task_running p us x) = pc_toolCall p"
| "task_call (Task_settled p x) = pc_toolCall p"
| "task_call (Task_finalized f) = fc_toolCall f"
| "task_call (Task_done f) = fc_toolCall f"

definition task_open :: "'w task \<Rightarrow> string multiset" where
  "task_open t = (if task_size t > 0 then {#tc_id (task_call t)#} else {#})"

fun entry_call :: "'w call_entry \<Rightarrow> tool_call" where
  "entry_call (Finalized f) = fc_toolCall f"
| "entry_call (Deferred p) = pc_toolCall p"

definition entries_open :: "'w call_entry list \<Rightarrow> string multiset" where
  "entries_open es = sum_list (map entry_open es)"

definition tasks_open :: "'w task list \<Rightarrow> string multiset" where
  "tasks_open ts = sum_list (map task_open ts)"

lemma prepare_calls_emits:
  "prepare_calls env ctx am cfg tcs s = (es, s') \<Longrightarrow>
     emits (Ph_turn, calls) (Ph_turn, calls + entries_open es) [] s s' \<and>
     map entry_call es = take (length es) tcs"
proof (induction tcs arbitrary: s es s' calls)
  case (Cons tc tcs)
  obtain p s1 where p: "prepareToolCall env ctx am tc cfg (emit env (start_event tc) s) = (p, s1)" by (metis prod.collapse)
  have s1: "emits (Ph_turn, calls) (Ph_turn, add_mset (tc_id tc) calls) [] s s1"
    using emits_trans[OF emits_start[of calls] emits_quiet[OF prepare_quiet(1)[OF p]]] by simp
  obtain e s2 where e: "(case p of Immediate result isError \<Rightarrow>
       (let f = \<lparr>fc_toolCall = tc, fc_result = result, fc_isError = isError\<rparr> in (Finalized f, emit env (end_event f) s1))
     | Prepared q \<Rightarrow> (Deferred q, s1)) = (e, s2)" by (rule that[OF prod.collapse[symmetric]])
  have s2: "emits (Ph_turn, calls) (Ph_turn, calls + entry_open e) [] s s2 \<and> entry_call e = tc"
  proof (cases p)
    case (Immediate r b)
    let ?f = "\<lparr>fc_toolCall = tc, fc_result = r, fc_isError = b\<rparr>"
    from emits_trans[OF s1 emits_end[of ?f "add_mset (tc_id tc) calls" s1 env]] Immediate e show ?thesis
      by (auto simp: Let_def)
  next
    case (Prepared q)
    then have "pc_toolCall q = tc" using prepare_quiet(2)[OF p] by blast
    then show ?thesis using s1 e Prepared by auto
  qed
  show ?case
  proof (cases "aborted env s2")
    case True
    then have "es = [e]" "s' = s2" using Cons.prems p e by auto
    with s2 show ?thesis by (simp add: entries_open_def)
  next
    case False
    obtain es' s3 where rest: "prepare_calls env ctx am cfg tcs s2 = (es', s3)" by (metis prod.collapse)
    have "es = e # es'" "s' = s3" using Cons.prems p e rest False by simp_all
    moreover from Cons.IH[OF rest, of "calls + entry_open e"]
    have IH: "emits (Ph_turn, calls + entry_open e) (Ph_turn, calls + entry_open e + entries_open es') [] s2 s3"
      "map entry_call es' = take (length es') tcs" by simp_all
    have "emits (Ph_turn, calls) (Ph_turn, calls + entry_open e + entries_open es') [] s s3"
      using emits_trans[OF conjunct1[OF s2] IH(1)] by simp
    ultimately show ?thesis
      using IH(2) s2 by (simp add: entries_open_def add.assoc)
  qed
qed (simp add: entries_open_def)

lemma start_task_emits:
  assumes "start_task env e s = (t, s')" and "entry_open e \<subseteq># calls"
  shows "emits (Ph_turn, calls) (Ph_turn, calls) [] s s' \<and> task_open t = entry_open e \<and> task_call t = entry_call e"
proof (cases e)
  case (Finalized f)
  then show ?thesis using assms by (auto simp: start_task_def task_open_def)
next
  case (Deferred p)
  obtain r s1 where r: "call (at_execute (pc_tool p) (tc_id (pc_toolCall p)) (pc_args p)) s = (r, s1)"
    by (metis prod.collapse)
  from emits_trans[OF emits_quiet[OF call_quiet[OF r]] emits_updates[of p calls s1 env "run_sync r"]] assms Deferred r
  show ?thesis by (auto simp: start_task_def task_open_def)
qed

lemma start_tasks_emits:
  "start_tasks env es s = (ts, s') \<Longrightarrow> entries_open es \<subseteq># calls \<Longrightarrow>
     emits (Ph_turn, calls) (Ph_turn, calls) [] s s' \<and> tasks_open ts = entries_open es \<and>
     map task_call ts = map entry_call es"
proof (induction es arbitrary: s ts s')
  case (Cons e es)
  obtain t s1 where t: "start_task env e s = (t, s1)" by (metis prod.collapse)
  obtain ts' s2 where ts: "start_tasks env es s1 = (ts', s2)" by (metis prod.collapse)
  have sub: "entry_open e \<subseteq># calls" "entries_open es \<subseteq># calls"
    using Cons.prems(2) subset_mset.order_trans[OF mset_subset_eq_add_left]
      subset_mset.order_trans[OF mset_subset_eq_add_right] by (force simp: entries_open_def)+
  have "ts = t # ts'" "s' = s2" using Cons.prems(1) t ts by auto
  with start_task_emits[OF t sub(1)] Cons.IH[OF ts sub(2)] show ?case
    using emits_trans[of "(Ph_turn, calls)" "(Ph_turn, calls)" "[]" s s1 "(Ph_turn, calls)" "[]" s2]
    by (simp add: tasks_open_def entries_open_def)
qed (simp add: tasks_open_def entries_open_def)

lemma tasks_open_update:
  assumes "i < length ts"
  shows "tasks_open (ts[i := t]) + task_open (ts ! i) = tasks_open ts + task_open t"
  using assms
proof (induction ts arbitrary: i)
  case (Cons u ts)
  then show ?case by (cases i) (simp_all add: tasks_open_def add_ac)
qed simp

lemma task_open_sub: "t \<in> set ts \<Longrightarrow> task_open t \<subseteq># tasks_open ts"
proof (induction ts)
  case (Cons u ts)
  then show ?case
    by (auto simp: tasks_open_def intro: subset_mset.order_trans[OF _ mset_subset_eq_add_right])
qed simp

lemma task_step_emits:
  assumes "task_step env ctx am cfg t s = (t', s')" and "task_size t > 0" and "task_open t \<subseteq># calls"
  shows "emits (Ph_turn, calls) (Ph_turn, calls - task_open t + task_open t') [] s s' \<and> task_call t' = task_call t"
proof -
  have i: "tc_id (task_call t) \<in># calls" using assms(2,3) by (simp add: task_open_def)
  show ?thesis
  proof (cases "(env, ctx, am, cfg, t, s)" rule: task_step.cases)
    case (1 _ _ _ _ p u us x _)
    then show ?thesis
      using assms(1) i by (auto simp: task_open_def emits_def update_event_def)
  next
    case (2 _ _ _ _ p x _)
    then show ?thesis using assms(1) i by (auto simp: task_open_def)
  next
    case (3 _ _ _ _ p x _)
    then show ?thesis
      using assms(1) i finalize_quiet by (fastforce simp: task_open_def intro!: emits_quiet split: prod.splits)
  next
    case (4 _ _ _ _ f _)
    then show ?thesis using assms(1) i emits_end[of f calls s env] by (auto simp: task_open_def)
  next
    case (5 _ _ _ _ f _)
    then show ?thesis using assms(2) by simp
  qed
qed

lemma run_tasks_emits:
  "run_tasks env ctx am cfg ts s = (ts', s') \<Longrightarrow>
     emits (Ph_turn, tasks_open ts) (Ph_turn, {#}) [] s s' \<and> map task_call ts' = map task_call ts \<and>
     (\<forall>t \<in> set ts'. task_size t = 0)"
proof (induction "sum_list (map task_size ts)" arbitrary: ts s rule: less_induct)
  case less
  show ?case
  proof (cases "unfinished ts = []")
    case True
    then have finished: "\<forall>t \<in> set ts. task_size t = 0"
      by (auto simp: unfinished_def filter_empty_conv in_set_conv_nth)
    then have "tasks_open ts = {#}" by (induction ts) (simp_all add: tasks_open_def task_open_def)
    then show ?thesis using less.prems True finished by (simp add: run_tasks.simps)
  next
    case False
    obtain n s1 where n: "call (ae_next env) s = (n, s1)" by (metis prod.collapse)
    let ?i = "unfinished ts ! (n mod length (unfinished ts))"
    obtain t s2 where t: "task_step env ctx am cfg (ts ! ?i) s1 = (t, s2)" by (metis prod.collapse)
    note i = unfinished_nth[OF False, of n]
    have rest: "run_tasks env ctx am cfg (ts[?i := t]) s2 = (ts', s')"
      using less.prems False n t by (subst (asm) run_tasks.simps) (simp add: Let_def)
    have sub: "task_open (ts ! ?i) \<subseteq># tasks_open ts"
      using task_open_sub nth_mem[OF i(1)] by blast
    have opens: "tasks_open ts - task_open (ts ! ?i) + task_open t = tasks_open (ts[?i := t])"
      using tasks_open_update[OF i(1), of t] sub by (metis add_diff_cancel_right' subset_mset.diff_add_assoc2)
    from task_step_emits[OF t i(2) sub] opens
    have step: "emits (Ph_turn, tasks_open ts) (Ph_turn, tasks_open (ts[?i := t])) [] s1 s2" "task_call t = task_call (ts ! ?i)"
      by simp_all
    from less.hyps[OF run_tasks_decreases[OF False refl t[symmetric]] rest]
    have IH: "emits (Ph_turn, tasks_open (ts[?i := t])) (Ph_turn, {#}) [] s2 s'"
      "map task_call ts' = map task_call (ts[?i := t])" "\<forall>t \<in> set ts'. task_size t = 0" by simp_all
    have "map task_call (ts[?i := t]) = map task_call ts"
      using step(2) i(1) by (simp add: map_update list_update_same_conv)
    with IH emits_trans[OF emits_trans[OF emits_quiet[OF call_quiet[OF n]] step(1)] IH(1)] show ?thesis by simp
  qed
qed

lemma emit_results_emits:
  "emit_results env fs s = (ms, s') \<Longrightarrow>
     emits (Ph_turn, {#}) (Ph_turn, {#}) (tool_messages ms) s s'"
proof (induction fs arbitrary: s ms s')
  case (Cons f fs)
  obtain m s1 where m: "createToolResultMessage env f s = (m, s1)" by (metis prod.collapse)
  obtain ms' s2 where ms: "emit_results env fs (emitToolResultMessage env m s1) = (ms', s2)" by (metis prod.collapse)
  have "ms = m # ms'" "s' = s2" using Cons.prems m ms by auto
  with emits_trans[OF emits_trans[OF emits_quiet[OF result_quiet(1)[OF m]] emits_result[of m s1 env]] Cons.IH[OF ms]]
  show ?case by simp
qed simp

lemma parallel_emits:
  assumes "executeToolCallsParallel env ctx am cfg tcs s = (fs, ms, s')"
  shows "emits (Ph_turn, {#}) (Ph_turn, {#}) (tool_messages ms) s s'"
proof -
  obtain es s1 where es: "prepare_calls env ctx am cfg tcs s = (es, s1)" by (metis prod.collapse)
  obtain ts s2 where ts: "start_tasks env es s1 = (ts, s2)" by (metis prod.collapse)
  obtain ts' s3 where ts': "run_tasks env ctx am cfg ts s2 = (ts', s3)" by (metis prod.collapse)
  have r: "emit_results env (List.map_filter task_result ts') s3 = (ms, s')"
    using assms es ts ts' by (auto simp: executeToolCallsParallel_def Let_def split: prod.splits)
  have "emits (Ph_turn, {#}) (Ph_turn, entries_open es) [] s s1"
    using prepare_calls_emits[OF es, of "{#}"] by simp
  moreover have "emits (Ph_turn, entries_open es) (Ph_turn, tasks_open ts) [] s1 s2"
    using start_tasks_emits[OF ts, of "entries_open es"] by simp
  moreover have "emits (Ph_turn, tasks_open ts) (Ph_turn, {#}) [] s2 s3"
    using run_tasks_emits[OF ts'] by simp
  ultimately have "emits (Ph_turn, {#}) (Ph_turn, {#}) [] s s3"
    using emits_trans[OF emits_trans] by fastforce
  from emits_trans[OF this emit_results_emits[OF r]] show ?thesis by simp
qed

lemma execute_emits:
  assumes "execute_turn_calls env ctx am cfg s = (ms, hasMore, s')"
  shows "emits (Ph_turn, {#}) (Ph_turn, {#}) (tool_messages ms) s s'"
  using assms truncated_emits[of env "message_calls am" s] sequential_emits[of env ctx am cfg "message_calls am" s]
    parallel_emits[of env ctx am cfg "message_calls am" s]
  by (auto simp: execute_turn_calls_def executeToolCalls_def Let_def split: if_splits prod.splits)

section \<open>Responses\<close>

fun starts :: "stream_event list \<Rightarrow> nat" where
  "starts [] = 0"
| "starts (St_start m # es) = Suc (starts es)"
| "starts (e # es) = starts es"

text \<open>The protocol of a provider stream: it starts its message at most once.\<close>

definition streams_ok :: "'w agent_env \<Rightarrow> bool" where
  "streams_ok env \<longleftrightarrow> (\<forall>cfg llm key w. starts (sm_events (fst (ae_stream env cfg llm key w))) \<le> 1)"

lemma consume_emits:
  "starts es + (if added then 1 else 0) \<le> 1 \<Longrightarrow> added = (added_messages \<noteq> []) \<Longrightarrow> length added_messages \<le> 1 \<Longrightarrow>
   consume_stream env final es added (base @ added_messages) s = (messages, s') \<Longrightarrow>
     messages = base @ [assistant final] \<and>
     emits (if added then Ph_message else Ph_turn, {#}) (Ph_turn, {#}) [assistant final] s s'"
proof (induction es arbitrary: added added_messages s)
  case Nil
  then show ?case
    by (cases added_messages)
      (auto simp: finish_response_def set_last_def butlast_append emits_def)
next
  case (Cons e es)
  show ?case
  proof (cases e)
    case (St_start m)
    then have new: "\<not> added" "added_messages = []" using Cons.prems(1,2) by (auto split: if_splits)
    with Cons.IH[of True "[assistant m]" "emit env (Message_start (assistant m)) s"] Cons.prems St_start
    have "messages = base @ [assistant final]"
      "emits (Ph_message, {#}) (Ph_turn, {#}) [assistant final] (emit env (Message_start (assistant m)) s) s'" by auto
    with new show ?thesis
      using emits_trans[OF emits_one[of "(Ph_turn, {#})" "Message_start (assistant m)" "(Ph_message, {#})" "[]" s env]]
      by simp
  next
    case (St_update k m)
    show ?thesis
    proof (cases added)
      case True
      let ?s = "emit env (Message_update (assistant m) (St_update k m)) s"
      have "set_last (base @ added_messages) (assistant m) = base @ [assistant m]"
        using Cons.prems(2,3) True by (cases added_messages) (auto simp: set_last_def butlast_append)
      with Cons.IH[of True "[assistant m]" ?s] Cons.prems St_update True
      have "messages = base @ [assistant final]"
        "emits (Ph_message, {#}) (Ph_turn, {#}) [assistant final] ?s s'" by auto
      with True show ?thesis
        using emits_trans[OF emits_one[of "(Ph_message, {#})" "Message_update (assistant m) (St_update k m)" "(Ph_message, {#})" "[]" s env]]
        by simp
    next
      case False
      then show ?thesis using Cons.IH[of False added_messages s] Cons.prems St_update by auto
    qed
  next
    case St_done
    then show ?thesis
      using Cons.prems by (cases added_messages)
        (auto simp: finish_response_def set_last_def butlast_append emits_def)
  next
    case St_error
    then show ?thesis
      using Cons.prems by (cases added_messages)
        (auto simp: finish_response_def set_last_def butlast_append emits_def)
  qed
qed

lemma response_emits:
  assumes "streams_ok env" and "streamAssistantResponse env ctx cfg s = (am, ctx', s')"
  shows "emits (Ph_turn, {#}) (Ph_turn, {#}) [assistant am] s s'"
    and "ctx' = ctx\<lparr>ag_messages := ag_messages ctx @ [assistant am]\<rparr>"
proof -
  obtain llm s1 where llm: "buildProviderContext ctx cfg s = (llm, s1)" by (metis prod.collapse)
  obtain key s2 where key: "call_opt (map_option (\<lambda>f. f (lm_provider (ac_model cfg))) (ac_getApiKey cfg)) None s1 = (key, s2)"
    by (metis prod.collapse)
  then have key': "(case ac_getApiKey cfg of None \<Rightarrow> (None, s1)
      | Some getApiKey \<Rightarrow> call (getApiKey (lm_provider (ac_model cfg))) s1) = (key, s2)"
    by (simp add: call_opt_def split: option.splits)
  obtain r s3 where r: "call (ae_stream env cfg llm (if truthy_string key then key else ac_apiKey cfg)) s2 = (r, s3)"
    by (metis prod.collapse)
  obtain messages s4 where m: "consume_stream env (sm_result r) (sm_events r) False (ag_messages ctx) s3 = (messages, s4)"
    by (metis prod.collapse)
  have result: "am = sm_result r" "ctx' = ctx\<lparr>ag_messages := messages\<rparr>" "s' = s4"
    using assms(2) llm key' r m by (simp_all add: streamAssistantResponse_def)
  have "starts (sm_events r) \<le> 1"
    using assms(1) r by (auto simp: streams_ok_def call_def split: prod.splits) (metis fst_conv)
  with consume_emits[of "sm_events r" False "[]" env "sm_result r" "ag_messages ctx" s3 messages s4] m
  have "messages = ag_messages ctx @ [assistant am]" "emits (Ph_turn, {#}) (Ph_turn, {#}) [assistant am] s3 s'"
    using result by simp_all
  moreover have "rn_events s3 = rn_events s"
    using provider_quiet[OF llm] call_opt_quiet[OF key] call_quiet[OF r] by simp
  ultimately show "emits (Ph_turn, {#}) (Ph_turn, {#}) [assistant am] s s'"
    "ctx' = ctx\<lparr>ag_messages := ag_messages ctx @ [assistant am]\<rparr>"
    using result emits_trans[OF emits_quiet[of s3 s]] by simp_all
qed

end
