(* ===== verification/Agent_Runs.thy ===== *)
theory Agent_Runs
  imports Agent_Trace
begin

text \<open>
  Whole runs of the agent loop: the invariant of its state between turns, what a finished run has
  emitted and returned, when it returns, and what a batch of tool calls answers.
\<close>

section \<open>The state between turns\<close>

definition loop_inv :: "agent_message list \<Rightarrow> 'w loop_state \<Rightarrow> bool" where
  "loop_inv base l \<longleftrightarrow>
     trace_run (Ph_init, {#}) (rn_events (lp_run l)) = Some (if lp_firstTurn l then Ph_turn else Ph_between, {#}) \<and>
     message_ends (rn_events (lp_run l)) = lp_newMessages l \<and>
     (ac_prepareNextTurn (lp_config l) = None \<longrightarrow> ag_messages (lp_context l) = base @ lp_newMessages l)"

text \<open>How a run that started with some messages ends.\<close>

definition run_ended :: "agent_message list \<Rightarrow> 'w loop_state \<Rightarrow> bool" where
  "run_ended base l \<longleftrightarrow>
     trace_run (Ph_init, {#}) (rn_events (lp_run l)) = Some (Ph_ended, {#}) \<and>
     message_ends (rn_events (lp_run l)) = lp_newMessages l \<and>
     last (rn_events (lp_run l)) = Agent_end (lp_newMessages l) \<and>
     (ac_prepareNextTurn (lp_config l) = None \<longrightarrow> ag_messages (lp_context l) = base @ lp_newMessages l)"

lemma emitsD:
  assumes "emits t t' ms s s'" and "trace_run t0 (rn_events s) = Some t"
  shows "trace_run t0 (rn_events s') = Some t'" and "message_ends (rn_events s') = message_ends (rn_events s) @ ms"
  using assms by (auto simp: emits_def trace_run_append)

lemma inject_emits:
  assumes "inject_messages env pending ctx s = (ctx', s')"
  shows "emits (Ph_turn, {#}) (Ph_turn, {#}) pending s s'"
    and "ctx' = ctx\<lparr>ag_messages := ag_messages ctx @ pending\<rparr>"
proof -
  have "trace_run (Ph_turn, {#}) (concat (map message_events ms)) = Some (Ph_turn, {#}) \<and>
      message_ends (concat (map message_events ms)) = ms" for ms
    by (induction ms) (simp_all add: message_events_def)
  then show "emits (Ph_turn, {#}) (Ph_turn, {#}) pending s s'"
    using assms emits_all[of "(Ph_turn, {#})" "concat (map message_events pending)" "(Ph_turn, {#})" pending s env]
    by (simp add: inject_messages_def)
  show "ctx' = ctx\<lparr>ag_messages := ag_messages ctx @ pending\<rparr>"
    using assms by (simp add: inject_messages_def)
qed

lemma turn_response_ok:
  assumes "streams_ok env" and inv: "loop_inv base l" and step: "turn_response env l = (am, l')"
  shows "trace_run (Ph_init, {#}) (rn_events (lp_run l')) = Some (Ph_turn, {#})"
    and "message_ends (rn_events (lp_run l')) = lp_newMessages l'"
    and "ac_prepareNextTurn (lp_config l) = None \<Longrightarrow> ag_messages (lp_context l') = base @ lp_newMessages l'"
    and "lp_newMessages l' = lp_newMessages l @ lp_pending l @ [assistant am]"
    and "lp_config l' = lp_config l" "\<not> lp_firstTurn l'" "lp_pending l' = []"
proof -
  let ?s0 = "if lp_firstTurn l then lp_run l else emit env Turn_start (lp_run l)"
  obtain ctx1 s1 where inject: "inject_messages env (lp_pending l) (lp_context l) ?s0 = (ctx1, s1)"
    by (rule that[OF prod.collapse[symmetric]])
  obtain ctx2 s2 where response: "streamAssistantResponse env ctx1 (lp_config l) s1 = (am, ctx2, s2)"
    and l': "l' = l\<lparr>lp_context := ctx2, lp_firstTurn := False, lp_pending := [],
               lp_newMessages := lp_newMessages l @ lp_pending l @ [assistant am], lp_run := s2\<rparr>"
    using step inject by (auto simp: turn_response_def Let_def split: prod.splits)
  have "trace_run (Ph_init, {#}) (rn_events ?s0) = Some (Ph_turn, {#}) \<and> message_ends (rn_events ?s0) = lp_newMessages l"
    using inv by (auto simp: loop_inv_def trace_run_append)
  moreover have "emits (Ph_turn, {#}) (Ph_turn, {#}) (lp_pending l @ [assistant am]) ?s0 s2"
    by (rule emits_trans[OF inject_emits(1)[OF inject] response_emits(1)[OF assms(1) response]])
  ultimately show "trace_run (Ph_init, {#}) (rn_events (lp_run l')) = Some (Ph_turn, {#})"
    "message_ends (rn_events (lp_run l')) = lp_newMessages l'"
    using emitsD[of "(Ph_turn, {#})" "(Ph_turn, {#})" _ ?s0 s2 "(Ph_init, {#})"] l' by simp_all
  show "ac_prepareNextTurn (lp_config l) = None \<Longrightarrow> ag_messages (lp_context l') = base @ lp_newMessages l'"
    using inv l' inject_emits(2)[OF inject] response_emits(2)[OF assms(1) response] by (simp add: loop_inv_def)
qed (use step in \<open>auto simp: turn_response_def Let_def split: prod.splits\<close>)

lemma turn_tools_ok:
  assumes "turn_tools env am l = (results, l')"
    and "trace_run (Ph_init, {#}) (rn_events (lp_run l)) = Some (Ph_turn, {#})"
    and "message_ends (rn_events (lp_run l)) = lp_newMessages l"
  shows "trace_run (Ph_init, {#}) (rn_events (lp_run l')) = Some (Ph_between, {#})"
    and "message_ends (rn_events (lp_run l')) = lp_newMessages l'"
    and "lp_newMessages l' = lp_newMessages l @ tool_messages results"
    and "ag_messages (lp_context l') = ag_messages (lp_context l) @ tool_messages results"
    and "lp_config l' = lp_config l" "lp_firstTurn l' = lp_firstTurn l"
proof -
  obtain hasMore s where calls: "execute_turn_calls env (lp_context l) am (lp_config l) (lp_run l) = (results, hasMore, s)"
    and l': "l' = l\<lparr>lp_context := (lp_context l)\<lparr>ag_messages := ag_messages (lp_context l) @ tool_messages results\<rparr>,
                    lp_newMessages := lp_newMessages l @ tool_messages results, lp_hasMoreToolCalls := hasMore,
                    lp_run := emit env (Turn_end am results) s\<rparr>"
    using assms(1) by (auto simp: turn_tools_def Let_def split: prod.splits)
  from emitsD[OF execute_emits[OF calls] assms(2)] assms(3) l'
  show "trace_run (Ph_init, {#}) (rn_events (lp_run l')) = Some (Ph_between, {#})"
    "message_ends (rn_events (lp_run l')) = lp_newMessages l'"
    by (simp_all add: trace_run_append)
qed (use assms(1) in \<open>auto simp: turn_tools_def Let_def split: prod.splits\<close>)

lemma turn_hooks_ok:
  assumes "turn_hooks am results l = (stop, l')"
  shows "rn_events (lp_run l') = rn_events (lp_run l)" "lp_newMessages l' = lp_newMessages l"
    "lp_firstTurn l' = lp_firstTurn l"
    "ac_prepareNextTurn (lp_config l') = ac_prepareNextTurn (lp_config l)"
    "ac_shouldStopAfterTurn (lp_config l') = ac_shouldStopAfterTurn (lp_config l)"
    "ac_prepareNextTurn (lp_config l) = None \<Longrightarrow> lp_context l' = lp_context l"
proof -
  let ?hook = "map_option (\<lambda>f. f \<lparr>tu_message = am, tu_toolResults = results, tu_context = lp_context l,
      tu_newMessages = lp_newMessages l\<rparr>) (ac_prepareNextTurn (lp_config l))"
  obtain update s1 where update: "call_opt ?hook None (lp_run l) = (update, s1)" by (metis prod.collapse)
  obtain ctx cfg where next_cfg: "next_config update (lp_context l) (lp_config l) = (ctx, cfg)" by (metis prod.collapse)
  let ?stop = "map_option (\<lambda>f. f \<lparr>tu_message = am, tu_toolResults = results, tu_context = ctx,
      tu_newMessages = lp_newMessages l\<rparr>) (ac_shouldStopAfterTurn cfg)"
  obtain st s2 where stop: "call_opt ?stop False s1 = (st, s2)" by (metis prod.collapse)
  obtain pending s3 where pending: "call_opt (ac_getSteeringMessages cfg) [] s2 = (pending, s3)" by (metis prod.collapse)
  have l': "l' = (if st then l\<lparr>lp_context := ctx, lp_config := cfg, lp_run := s2\<rparr>
      else l\<lparr>lp_context := ctx, lp_config := cfg, lp_pending := pending, lp_run := s3\<rparr>)"
    using assms update next_cfg stop pending by (auto simp: turn_hooks_def Let_def)
  show "rn_events (lp_run l') = rn_events (lp_run l)"
    using l' call_opt_quiet[OF update] call_opt_quiet[OF stop] call_opt_quiet[OF pending] by simp
  show "lp_newMessages l' = lp_newMessages l" "lp_firstTurn l' = lp_firstTurn l" by (simp_all add: l')
  have "ac_prepareNextTurn cfg = ac_prepareNextTurn (lp_config l)"
    "ac_shouldStopAfterTurn cfg = ac_shouldStopAfterTurn (lp_config l)" "update = None \<Longrightarrow> ctx = lp_context l"
    using next_cfg by (auto simp: next_config_def split: option.splits)
  moreover have "update = None" if "ac_prepareNextTurn (lp_config l) = None"
    using update that by (simp add: call_opt_def)
  ultimately show "ac_prepareNextTurn (lp_config l') = ac_prepareNextTurn (lp_config l)"
    "ac_shouldStopAfterTurn (lp_config l') = ac_shouldStopAfterTurn (lp_config l)"
    "ac_prepareNextTurn (lp_config l) = None \<Longrightarrow> lp_context l' = lp_context l"
    by (simp_all add: l')
qed

text \<open>One turn: the run has ended, or its state is as before the turn.\<close>

lemma run_turn_ok:
  assumes "streams_ok env" and inv: "loop_inv base l" and step: "run_turn env l = (stop, l')"
  shows "if stop then run_ended base l' else loop_inv base l' \<and> \<not> lp_firstTurn l'"
    and "\<exists>new. lp_newMessages l' = lp_newMessages l @ new"
proof -
  obtain am l1 where response: "turn_response env l = (am, l1)" by (metis prod.collapse)
  note r = turn_response_ok[OF assms(1) inv response]
  have "(if stop then run_ended base l' else loop_inv base l' \<and> \<not> lp_firstTurn l') \<and>
      (\<exists>new. lp_newMessages l' = lp_newMessages l @ new)"
  proof (cases "am_stopReason am = SR_error \<or> am_stopReason am = SR_aborted")
    case True
    then have "stop" "l' = finish_loop env (l1\<lparr>lp_run := emit env (Turn_end am []) (lp_run l1)\<rparr>)"
      using step response by (auto simp: run_turn_def)
    with r show ?thesis by (simp add: run_ended_def finish_loop_def trace_run_append)
  next
    case False
    obtain results l2 where tools: "turn_tools env am l1 = (results, l2)" by (metis prod.collapse)
    obtain st l3 where hooks: "turn_hooks am results l2 = (st, l3)" by (metis prod.collapse)
    note t = turn_tools_ok[OF tools r(1,2)]
    note h = turn_hooks_ok[OF hooks]
    have l': "stop = st" "l' = (if st then finish_loop env l3 else l3)"
      using step response tools hooks False by (auto simp: run_turn_def split: if_splits)
    have ctx: "ag_messages (lp_context l3) = base @ lp_newMessages l3" if "ac_prepareNextTurn (lp_config l3) = None"
      using that h r(3,5) t(3-5) by simp
    show ?thesis
      using l' h t r(4,6) ctx by (auto simp: run_ended_def loop_inv_def finish_loop_def trace_run_append)
  qed
  then show "if stop then run_ended base l' else loop_inv base l' \<and> \<not> lp_firstTurn l'"
    "\<exists>new. lp_newMessages l' = lp_newMessages l @ new" by simp_all
qed

lemma runLoop_ok:
  "runLoop env l = Some l' \<Longrightarrow> streams_ok env \<Longrightarrow> loop_inv base l \<Longrightarrow> (lp_firstTurn l \<Longrightarrow> lp_hasMoreToolCalls l) \<Longrightarrow>
     run_ended base l' \<and> (\<exists>new. lp_newMessages l' = lp_newMessages l @ new)"
proof (induction rule: runLoop.raw_induct[rotated 1, consumes 1, case_names step])
  case (step f env l l')
  note 1 = step
  show ?case
  proof (cases "lp_hasMoreToolCalls l \<or> lp_pending l \<noteq> []")
    case True
    obtain stop l1 where turn: "run_turn env l = (stop, l1)" by (metis prod.collapse)
    note ok = run_turn_ok[OF 1(3,4) turn]
    show ?thesis
    proof (cases stop)
      case True
      then show ?thesis using ok 1(2) turn \<open>lp_hasMoreToolCalls l \<or> lp_pending l \<noteq> []\<close> by auto
    next
      case False
      then have "f env l1 = Some l'" "loop_inv base l1" "\<not> lp_firstTurn l1"
        using 1(2) turn ok \<open>lp_hasMoreToolCalls l \<or> lp_pending l \<noteq> []\<close> by auto
      from 1(1)[OF this(1) 1(3) this(2)] this(3) ok(2) show ?thesis by auto
    qed
  next
    case False
    obtain ms s where q: "call_opt (ac_getFollowUpMessages (lp_config l)) [] (lp_run l) = (ms, s)" by (metis prod.collapse)
    then have follow: "followUpMessages l = (ms, l\<lparr>lp_run := s\<rparr>)" by (simp add: followUpMessages_def)
    have inv: "loop_inv base (l\<lparr>lp_run := s\<rparr>)" using 1(4) call_opt_quiet[OF q] by (simp add: loop_inv_def)
    show ?thesis
    proof (cases "ms = []")
      case True
      have "\<not> lp_firstTurn l" using 1(5) False by blast
      then show ?thesis
        using inv 1(2) False follow True by (auto simp: run_ended_def loop_inv_def finish_loop_def trace_run_append)
    next
      case more: False
      let ?l = "l\<lparr>lp_run := s, lp_pending := ms, lp_hasMoreToolCalls := True\<rparr>"
      have "f env ?l = Some l'" using 1(2) False follow more by simp
      moreover have "loop_inv base ?l" using inv by (simp add: loop_inv_def)
      ultimately show ?thesis using 1(1)[of env ?l l'] 1(3) by simp
    qed
  qed
qed

lemma start_loop_ok:
  "loop_inv (ag_messages ctx) (start_loop (ctx\<lparr>ag_messages := ag_messages ctx @ prompts\<rparr>) prompts cfg (begin_run env prompts w)) \<and>
   lp_hasMoreToolCalls (start_loop (ctx\<lparr>ag_messages := ag_messages ctx @ prompts\<rparr>) prompts cfg (begin_run env prompts w)) \<and>
   lp_newMessages (start_loop (ctx\<lparr>ag_messages := ag_messages ctx @ prompts\<rparr>) prompts cfg (begin_run env prompts w)) = prompts \<and>
   lp_config (start_loop (ctx\<lparr>ag_messages := ag_messages ctx @ prompts\<rparr>) prompts cfg (begin_run env prompts w)) = cfg"
proof -
  obtain pending s where p: "call_opt (ac_getSteeringMessages cfg) [] (begin_run env prompts w) = (pending, s)"
    by (metis prod.collapse)
  have "trace_run (Ph_turn, {#}) (concat (map message_events ms)) = Some (Ph_turn, {#}) \<and>
      message_ends (concat (map message_events ms)) = ms" for ms
    by (induction ms) (simp_all add: message_events_def)
  then show ?thesis
    using p call_opt_quiet[OF p] by (simp add: start_loop_def loop_inv_def begin_run_def)
qed

lemma continue_is_start:
  "runAgentLoopContinue env ctx cfg w = Inr r \<Longrightarrow>
     r = runAgentLoop env [] ctx cfg w \<and> ag_messages ctx \<noteq> [] \<and> message_role (last (ag_messages ctx)) \<noteq> R_assistant"
  by (auto simp: runAgentLoopContinue_def runAgentLoop_def split: if_splits)

lemma run_ok:
  assumes "runAgentLoop env prompts ctx cfg w = Some l" and "streams_ok env"
  shows "run_ended (ag_messages ctx) l" and "\<exists>new. lp_newMessages l = prompts @ new"
proof -
  from runLoop_ok[OF assms(1)[unfolded runAgentLoop_def] assms(2), of "ag_messages ctx"]
    start_loop_ok[of ctx prompts cfg env w]
  show "run_ended (ag_messages ctx) l" "\<exists>new. lp_newMessages l = prompts @ new" by auto
qed

end
