(* ===== verification/Agent_Batches.thy ===== *)
theory Agent_Batches
  imports Agent_Trace
begin

text \<open>
  What a batch of tool calls answers: one result per call in source order, up to the point where
  the run was aborted, in sequence and in parallel; and nothing but errors, in order, for a response
  that was cut off.
\<close>

section \<open>Results answer calls in order\<close>

definition answers :: "tool_result_message \<Rightarrow> tool_call \<Rightarrow> bool" where
  "answers m c \<longleftrightarrow> tr_toolCallId m = tc_id c \<and> tr_toolName m = tc_name c"

definition in_order :: "tool_result_message list \<Rightarrow> tool_call list \<Rightarrow> bool" where
  "in_order ms calls \<longleftrightarrow> length ms \<le> length calls \<and> list_all2 answers ms (take (length ms) calls)"

lemma in_order_Cons: "answers m c \<Longrightarrow> in_order ms cs \<Longrightarrow> in_order (m # ms) (c # cs)"
  by (simp add: in_order_def)

lemma in_order_one: "answers m c \<Longrightarrow> in_order [m] (c # cs)"
  by (simp add: in_order_def)

text \<open>A batch answers all its calls unless the signal has been raised.\<close>

definition complete :: "'w agent_env \<Rightarrow> 'a list \<Rightarrow> 'b list \<Rightarrow> bool" where
  "complete env ms calls \<longleftrightarrow> (calls \<noteq> [] \<longrightarrow> ms \<noteq> []) \<and> ((\<forall>w. \<not> ae_aborted env w) \<longrightarrow> length ms = length calls)"

lemma sequential_in_order:
  "executeToolCallsSequential env ctx am cfg tcs s = (fs, ms, s') \<Longrightarrow> in_order ms tcs \<and> complete env ms tcs"
proof (induction tcs arbitrary: s fs ms s')
  case (Cons tc tcs)
  let ?s0 = "emit env (start_event tc) s"
  obtain f s1 where f: "run_call env ctx am cfg tc ?s0 = (f, s1)" by (metis prod.collapse)
  obtain m s2 where m: "createToolResultMessage env f (emit env (end_event f) s1) = (m, s2)" by (metis prod.collapse)
  have a: "answers m tc"
    using result_quiet(2,3)[OF m] run_call_emits(2)[OF f, of "{#tc_id tc#}"] by (simp add: answers_def)
  show ?case
  proof (cases "aborted env (emitToolResultMessage env m s2)")
    case True
    then have "ms = [m]" using Cons.prems f m by (simp add: Let_def)
    with in_order_one[OF a] True show ?thesis by (auto simp: complete_def aborted_def)
  next
    case False
    obtain fs' ms' s4 where rest: "executeToolCallsSequential env ctx am cfg tcs (emitToolResultMessage env m s2) = (fs', ms', s4)"
      by (metis prod_cases3)
    then have "ms = m # ms'" using Cons.prems f m False by (simp add: Let_def)
    with in_order_Cons[OF a] Cons.IH[OF rest] show ?thesis by (auto simp: complete_def)
  qed
qed (simp add: in_order_def complete_def)

lemma emit_results_answers:
  "emit_results env fs s = (ms, s') \<Longrightarrow> list_all2 (\<lambda>m f. answers m (fc_toolCall f)) ms fs"
proof (induction fs arbitrary: s ms s')
  case (Cons f fs)
  obtain m s1 where m: "createToolResultMessage env f s = (m, s1)" by (metis prod.collapse)
  obtain ms' s2 where ms: "emit_results env fs (emitToolResultMessage env m s1) = (ms', s2)" by (metis prod.collapse)
  have "ms = m # ms'" using Cons.prems m ms by auto
  with Cons.IH[OF ms] result_quiet(2,3)[OF m] show ?case by (simp add: answers_def)
qed simp

lemma finished_results:
  "\<forall>t \<in> set ts. task_size t = 0 \<Longrightarrow>
     map fc_toolCall (List.map_filter task_result ts) = map task_call ts \<and> length (List.map_filter task_result ts) = length ts"
proof (induction ts)
  case (Cons t ts)
  then show ?case by (cases t) (auto simp: List.map_filter_simps)
qed (simp add: List.map_filter_simps)

lemma prepare_calls_complete:
  "prepare_calls env ctx am cfg tcs s = (es, s') \<Longrightarrow> complete env es tcs"
proof (induction tcs arbitrary: s es s')
  case (Cons tc tcs)
  then show ?case
    by (auto simp: complete_def aborted_def split: prod.splits preparation.splits if_splits)
qed (simp add: complete_def)

lemma parallel_in_order:
  assumes "executeToolCallsParallel env ctx am cfg tcs s = (fs, ms, s')"
  shows "in_order ms tcs \<and> complete env ms tcs"
proof -
  obtain es s1 where es: "prepare_calls env ctx am cfg tcs s = (es, s1)" by (metis prod.collapse)
  obtain ts s2 where ts: "start_tasks env es s1 = (ts, s2)" by (metis prod.collapse)
  obtain ts' s3 where ts': "run_tasks env ctx am cfg ts s2 = (ts', s3)" by (metis prod.collapse)
  let ?fs = "List.map_filter task_result ts'"
  have r: "emit_results env ?fs s3 = (ms, s')"
    using assms es ts ts' by (auto simp: executeToolCallsParallel_def Let_def split: prod.splits)
  have same: "map task_call ts' = map entry_call es"
    using start_tasks_emits[OF ts, of "entries_open es"] run_tasks_emits[OF ts'] by simp
  have calls: "map fc_toolCall ?fs = take (length es) tcs" "length ?fs = length es"
    using prepare_calls_emits[OF es, of "{#}"] run_tasks_emits[OF ts'] finished_results[of ts'] same
      map_eq_imp_length_eq[OF same] by simp_all
  have len: "length ms = length ?fs" using emit_results_answers[OF r] by (rule list_all2_lengthD)
  have "list_all2 answers ms (map fc_toolCall ?fs)"
    using emit_results_answers[OF r] by (simp add: list_all2_map2)
  moreover have "length es \<le> length tcs" using calls by (metis length_map length_take min.cobounded1)
  ultimately show ?thesis
    using calls len prepare_calls_complete[OF es] by (auto simp: in_order_def complete_def)
qed

lemma truncated_in_order:
  "failToolCallsFromTruncatedMessage env tcs s = (ms, s') \<Longrightarrow>
     in_order ms tcs \<and> length ms = length tcs \<and> list_all tr_isError ms"
proof (induction tcs arbitrary: s ms s')
  case (Cons tc tcs)
  let ?s1 = "emit env (end_event (truncated_call tc)) (emit env (start_event tc) s)"
  obtain m s2 where m: "createToolResultMessage env (truncated_call tc) ?s1 = (m, s2)" by (metis prod.collapse)
  obtain ms' s3 where rest: "failToolCallsFromTruncatedMessage env tcs (emitToolResultMessage env m s2) = (ms', s3)"
    by (metis prod.collapse)
  have "ms = m # ms'" using Cons.prems m rest by auto
  moreover have "answers m tc" "tr_isError m"
    using result_quiet[OF m] by (simp_all add: answers_def truncated_call_def)
  ultimately show ?case using Cons.IH[OF rest] in_order_Cons by simp
qed (simp add: in_order_def)

end
