(* ===== verification/Agent_Properties.thy ===== *)
theory Agent_Properties
  imports Agent_Runs Agent_Batches
begin

text \<open>
  The properties of the agent loop, and a small world to run it in: a provider that calls two
  tools and then stops.
\<close>

section \<open>When a run returns\<close>

fun is_assistant :: "agent_message \<Rightarrow> bool" where
  "is_assistant (Llm (AssistantMsg am)) = True"
| "is_assistant _ = False"

definition responses :: "agent_message list \<Rightarrow> nat" where
  "responses ms = length (filter is_assistant ms)"

text \<open>A stop hook that ends the run once there have been \<open>N\<close> responses.\<close>

definition turn_limit :: "nat \<Rightarrow> 'w agent_config \<Rightarrow> bool" where
  "turn_limit N cfg \<longleftrightarrow> (\<exists>stop. ac_shouldStopAfterTurn cfg = Some stop \<and>
     (\<forall>turn w. N \<le> responses (tu_newMessages turn) \<longrightarrow> fst (stop turn w)))"

lemma run_turn_progress:
  assumes "run_turn env l = (False, l')" and "turn_limit N (lp_config l)"
  shows "responses (lp_newMessages l) < responses (lp_newMessages l')" "responses (lp_newMessages l') < N"
    "turn_limit N (lp_config l')"
proof -
  obtain am l1 where response: "turn_response env l = (am, l1)" by (metis prod.collapse)
  obtain results l2 where tools: "turn_tools env am l1 = (results, l2)" by (metis prod.collapse)
  have hooks: "turn_hooks am results l2 = (False, l')"
    using assms(1) response tools by (auto simp: run_turn_def split: prod.splits if_splits)
  have l1: "lp_newMessages l1 = lp_newMessages l @ lp_pending l @ [assistant am]" "lp_config l1 = lp_config l"
    using response by (auto simp: turn_response_def Let_def split: prod.splits)
  have l2: "lp_newMessages l2 = lp_newMessages l1 @ tool_messages results" "lp_config l2 = lp_config l1"
    using tools by (auto simp: turn_tools_def Let_def split: prod.splits)
  note h = turn_hooks_ok[OF hooks]
  show "responses (lp_newMessages l) < responses (lp_newMessages l')"
    using h(2) l1 l2 by (simp add: responses_def)
  show limit: "turn_limit N (lp_config l')"
    using assms(2) h(5) l1(2) l2(2) by (simp add: turn_limit_def)
  show "responses (lp_newMessages l') < N"
  proof (rule ccontr)
    assume "\<not> responses (lp_newMessages l') < N"
    then have reached: "N \<le> responses (lp_newMessages l2)" using h(2) by simp
    from assms(2) l1(2) l2(2) obtain stop where stop: "ac_shouldStopAfterTurn (lp_config l2) = Some stop"
      "\<And>turn w. N \<le> responses (tu_newMessages turn) \<Longrightarrow> fst (stop turn w)"
      by (auto simp: turn_limit_def)
    have "ac_shouldStopAfterTurn (snd (next_config u c cfg)) = ac_shouldStopAfterTurn cfg"
      for u :: "'a turn_update option" and c and cfg :: "'a agent_config"
      by (simp add: next_config_def split: option.splits)
    then have "fst (turn_hooks am results l2)"
      using stop reached
      by (auto simp: turn_hooks_def call_opt_def call_def Let_def split: prod.splits option.splits)
        (metis fst_conv snd_conv option.inject option.distinct(1) turn_context.select_convs(4))+
    with hooks show False by simp
  qed
qed

lemma runLoop_turn_returns:
  assumes IH: "\<And>l'. N - responses (lp_newMessages l') < N - responses (lp_newMessages l) \<Longrightarrow>
      turn_limit N (lp_config l') \<Longrightarrow> \<exists>r. runLoop env l' = Some r"
    and "lp_hasMoreToolCalls l \<or> lp_pending l \<noteq> []" and "turn_limit N (lp_config l)"
  shows "\<exists>r. runLoop env l = Some r"
proof -
  obtain stop l' where turn: "run_turn env l = (stop, l')" by (metis prod.collapse)
  show ?thesis
  proof (cases stop)
    case True
    then show ?thesis using assms(2) turn by (subst runLoop.simps) auto
  next
    case False
    with turn have "run_turn env l = (False, l')" by simp
    note p = run_turn_progress[OF this assms(3)]
    then have "N - responses (lp_newMessages l') < N - responses (lp_newMessages l)" by linarith
    from IH[OF this p(3)] show ?thesis using assms(2) turn False by (subst runLoop.simps) auto
  qed
qed

lemma runLoop_returns:
  "turn_limit N (lp_config l) \<Longrightarrow> \<exists>r. runLoop env l = Some r"
proof (induction "N - responses (lp_newMessages l)" arbitrary: l rule: less_induct)
  case less
  note turn = runLoop_turn_returns[where N = N, OF less.hyps]
  show ?case
  proof (cases "lp_hasMoreToolCalls l \<or> lp_pending l \<noteq> []")
    case True
    then show ?thesis using turn less.prems by blast
  next
    case False
    obtain ms l1 where follow: "followUpMessages l = (ms, l1)" by (metis prod.collapse)
    then have l1: "lp_config l1 = lp_config l" "lp_newMessages l1 = lp_newMessages l"
      by (auto simp: followUpMessages_def split: prod.splits)
    show ?thesis
    proof (cases "ms = []")
      case True
      then show ?thesis using False follow by (subst runLoop.simps) simp
    next
      case more: False
      let ?l = "l1\<lparr>lp_pending := ms, lp_hasMoreToolCalls := True\<rparr>"
      have "\<exists>r. runLoop env ?l = Some r"
        by (rule runLoop_turn_returns[where N = N]) (use less l1 in simp_all)
      then show ?thesis using False follow more by (subst runLoop.simps) simp
    qed
  qed
qed

section \<open>A world\<close>

definition sample_usage :: usage where
  "sample_usage = \<lparr>us_input = 1, us_output = 1, us_cacheRead = 0, us_cacheWrite = 0, us_cacheWrite1h = None,
     us_reasoning = None, us_totalTokens = 2, us_cost = \<lparr>uc_input = 0, uc_output = 0, uc_cacheRead = 0,
     uc_cacheWrite = 0, uc_total = 0\<rparr>\<rparr>"

definition sample_response :: "content_block list \<Rightarrow> stop_reason \<Rightarrow> assistant_message" where
  "sample_response content reason =
     \<lparr>am_content = content, am_api = ''a'', am_provider = ''p'', am_model = ''m'', am_responseModel = None,
      am_responseId = None, am_diagnostics = None, am_usage = sample_usage, am_stopReason = reason,
      am_deferred = None, am_errorMessage = None, am_errorCode = None, am_errorStatus = None,
      am_rawStopReason = None, am_endTurn = None, am_timestamp = 0\<rparr>"

definition sample_tool_call :: "string \<Rightarrow> tool_call" where
  "sample_tool_call i = \<lparr>tc_id = i, tc_name = ''read'', tc_arguments = [], tc_thoughtSignature = None, tc_namespace = None\<rparr>"

definition sample_calls :: "stop_reason \<Rightarrow> assistant_message" where
  "sample_calls reason =
     sample_response [Text ''reading'' None, ToolCall (sample_tool_call ''c1''), ToolCall (sample_tool_call ''c2'')] reason"

definition sample_agent_tool :: "nat agent_tool" where
  "sample_agent_tool =
     \<lparr>at_name = ''read'', at_executionMode = None, at_prepareArguments = None,
      at_execute = (\<lambda>i args w. (\<lparr>run_sync = [], run_updates = [createErrorToolResult ''so far''],
        run_outcome = Inr (createErrorToolResult i), run_late = []\<rparr>, Suc w))\<rparr>"

definition sample_context :: "nat agent_context" where
  "sample_context = \<lparr>ag_systemPrompt = ''sys'', ag_messages = [], ag_tools = Some [sample_agent_tool]\<rparr>"

definition sample_env :: "nat agent_env" where
  "sample_env =
     \<lparr>ae_stream = (\<lambda>cfg llm key w.
        (if w = 0 then \<lparr>sm_events = [St_start (sample_response [] SR_pending),
                          St_update Text_delta (sample_response [Text ''read'' None] SR_pending), St_done],
                        sm_result = sample_calls SR_toolUse\<rparr>
         else \<lparr>sm_events = [St_done], sm_result = sample_response [Text ''done'' None] SR_stop\<rparr>, Suc w)),
      ae_validate = (\<lambda>t c. Inr (JObj (tc_arguments c))), ae_emit = (\<lambda>e w. w), ae_aborted = (\<lambda>w. False),
      ae_now = (\<lambda>w. (7, w)), ae_next = (\<lambda>w. (w, Suc w))\<rparr>"

definition sample_config :: "nat agent_config" where
  "sample_config =
     \<lparr>ac_model = \<lparr>lm_provider = ''p'', lm_id = ''m''\<rparr>, ac_reasoning = None, ac_apiKey = None,
      ac_convertToLlm = (\<lambda>ms w. ([], w)), ac_transformContext = None, ac_getApiKey = None,
      ac_shouldStopAfterTurn = Some (\<lambda>turn w. (3 \<le> responses (tu_newMessages turn), w)),
      ac_prepareNextTurn = None, ac_getSteeringMessages = None, ac_getFollowUpMessages = None,
      ac_toolExecution = None, ac_beforeToolCall = None, ac_afterToolCall = None\<rparr>"

definition sample_prompt :: agent_message where
  "sample_prompt = Llm (UserMsg \<lparr>um_content = Body_String ''go'', um_timestamp = 0\<rparr>)"

lemma sample_streams: "streams_ok sample_env"
  by (simp add: streams_ok_def sample_env_def)

lemma sample_limit: "turn_limit 3 sample_config"
  by (simp add: turn_limit_def sample_config_def)

lemma sample_run: "\<exists>l. runAgentLoop sample_env [sample_prompt] sample_context sample_config 0 = Some l"
  unfolding runAgentLoop_def
  by (rule runLoop_returns[of 3]) (use start_loop_ok[of sample_context "[sample_prompt]" sample_config sample_env 0] sample_limit in simp)

section \<open>Properties\<close>

text \<open>
  C24: the events of a run are well bracketed, for prompts and for continuations. A run starts
  once and ends with \<open>agent_end\<close>; between, turns do not overlap; every message and every tool
  execution starts and ends within one turn; updates come only for the message being streamed
  and for tool calls that have started and not ended; no message starts while a tool is running;
  and a turn ends with no message or tool execution open.
\<close>

theorem run_events_bracketed:
  assumes "streams_ok env"
    and "runAgentLoop env prompts ctx cfg w = Some l \<or> runAgentLoopContinue env ctx cfg w = Inr (Some l)"
  shows "trace_run (Ph_init, {#}) (rn_events (lp_run l)) = Some (Ph_ended, {#})"
  using assms run_ok(1) continue_is_start unfolding run_ended_def by metis

lemma run_events_bracketed_witness:
  "\<exists>l. runAgentLoop sample_env [sample_prompt] sample_context sample_config 0 = Some l \<and>
     trace_run (Ph_init, {#}) (rn_events (lp_run l)) = Some (Ph_ended, {#})"
  using sample_run run_events_bracketed[OF sample_streams] by blast

text \<open>
  C25: a run returns exactly the messages it has announced. The messages that ended, in the order
  of their \<open>message_end\<close> events, are the returned messages, which start with the prompts; the last
  event carries the same list; and unless a hook replaces the context, the context is the initial
  one followed by them.
\<close>

theorem run_returns_announced:
  assumes "streams_ok env" and "runAgentLoop env prompts ctx cfg w = Some l"
  shows "message_ends (rn_events (lp_run l)) = lp_newMessages l \<and>
    last (rn_events (lp_run l)) = Agent_end (lp_newMessages l) \<and>
    take (length prompts) (lp_newMessages l) = prompts \<and>
    (ac_prepareNextTurn (lp_config l) = None \<longrightarrow> ag_messages (lp_context l) = ag_messages ctx @ lp_newMessages l)"
  using run_ok[OF assms(2,1)] by (auto simp: run_ended_def)

lemma run_returns_announced_witness:
  "\<exists>l. runAgentLoop sample_env [sample_prompt] sample_context sample_config 0 = Some l \<and>
     message_ends (rn_events (lp_run l)) = lp_newMessages l \<and> take 1 (lp_newMessages l) = [sample_prompt]"
  using sample_run run_returns_announced[OF sample_streams] by fastforce

text \<open>
  C26: tool calls are answered. The results of a turn answer the calls of the assistant message in
  source order, one each, with their ids and names, whether the batch runs in sequence or in
  parallel; at least the first call is answered, and all of them unless the signal was raised.
\<close>

theorem tool_calls_answered:
  assumes "execute_turn_calls env ctx am cfg s = (results, hasMore, s')"
  shows "in_order results (message_calls am) \<and> (message_calls am \<noteq> [] \<longrightarrow> results \<noteq> []) \<and>
    ((\<forall>w. \<not> ae_aborted env w) \<longrightarrow> length results = length (message_calls am))"
proof -
  have "in_order results (message_calls am) \<and> complete env results (message_calls am)"
    using assms sequential_in_order[of env ctx am cfg "message_calls am" s]
      parallel_in_order[of env ctx am cfg "message_calls am" s] truncated_in_order[of env "message_calls am" s]
    by (auto simp: execute_turn_calls_def executeToolCalls_def Let_def in_order_def complete_def
        split: if_splits prod.splits)
  then show ?thesis by (simp add: complete_def)
qed

definition sample_start :: "nat run" where
  "sample_start = \<lparr>rn_world = 0, rn_events = []\<rparr>"

lemma tool_calls_answered_witness:
  "\<exists>results hasMore s'. execute_turn_calls sample_env sample_context (sample_calls SR_toolUse) sample_config sample_start
       = (results, hasMore, s') \<and> length results = 2 \<and>
     in_order results [sample_tool_call ''c1'', sample_tool_call ''c2'']"
proof -
  obtain results hasMore s' where run: "execute_turn_calls sample_env sample_context (sample_calls SR_toolUse)
      sample_config sample_start = (results, hasMore, s')" by (metis prod_cases3)
  have "message_calls (sample_calls SR_toolUse) = [sample_tool_call ''c1'', sample_tool_call ''c2'']" by code_simp
  moreover have "\<not> ae_aborted sample_env w" for w by (simp add: sample_env_def)
  ultimately show ?thesis using tool_calls_answered[OF run] run by auto
qed

text \<open>
  C27: a response cut off by the token limit executes nothing. Whatever the tools and the hooks
  are, its calls are all answered, in order, with errors, no tool or hook is asked, and the model
  gets another turn to issue them again.
\<close>

theorem truncated_calls_not_executed:
  assumes "am_stopReason am = SR_length" and "execute_turn_calls env ctx am cfg s = (results, hasMore, s')"
  shows "execute_turn_calls env (ctx\<lparr>ag_tools := tools\<rparr>) am cfg' s = (results, hasMore, s') \<and>
    length results = length (message_calls am) \<and> in_order results (message_calls am) \<and>
    list_all tr_isError results \<and> hasMore = (message_calls am \<noteq> [])"
  using assms truncated_in_order[of env "message_calls am" s]
  by (auto simp: execute_turn_calls_def Let_def in_order_def split: if_splits prod.splits)

lemma truncated_calls_not_executed_witness:
  "\<exists>results s'. execute_turn_calls sample_env sample_context (sample_calls SR_length) sample_config sample_start
       = (results, True, s') \<and> length results = 2 \<and> list_all tr_isError results"
proof -
  obtain results hasMore s' where run: "execute_turn_calls sample_env sample_context (sample_calls SR_length)
      sample_config sample_start = (results, hasMore, s')" by (metis prod_cases3)
  have "message_calls (sample_calls SR_length) = [sample_tool_call ''c1'', sample_tool_call ''c2'']"
    "am_stopReason (sample_calls SR_length) = SR_length" by code_simp+
  with truncated_calls_not_executed[OF _ run] run show ?thesis by auto
qed

text \<open>
  C29: a run with a turn limit returns. If the stop hook ends the run once there have been \<open>N\<close>
  assistant messages among the new ones, the loop returns, whatever the provider answers and
  whatever is queued: every iteration adds a response, and follow-up messages lead to another.
\<close>

theorem turn_limit_returns:
  assumes "turn_limit N cfg"
  shows "\<exists>l. runAgentLoop env prompts ctx cfg w = Some l"
  unfolding runAgentLoop_def
  by (rule runLoop_returns[of N]) (use start_loop_ok[of ctx prompts cfg env w] assms in simp)

lemma turn_limit_returns_witness:
  "\<exists>l. runAgentLoop sample_env [sample_prompt] sample_context sample_config 0 = Some l"
  using turn_limit_returns[OF sample_limit] .

end
