(* ===== verification/Json_Text.thy ===== *)
theory Json_Text
  imports Messages
begin

text \<open>
  \<open>JSON.stringify\<close> and \<open>JSON.parse\<close>, as far as the session files use them: no indentation, no
  replacer, no reviver. Numbers are the exact rationals of \<open>Messages\<close>, printed by the rules of
  \<open>Number::toString\<close>; a rational without a finite decimal expansion is no JavaScript number.
  Strings hold code units below 256, so an escape of a greater one is not read.

  The lemmas show that a printed value reads back, that a reading does not change when text
  follows, and hence that no proper prefix of a printed object reads as a value.
\<close>

section \<open>Object keys\<close>

definition is_digit :: "char \<Rightarrow> bool" where
  "is_digit c \<longleftrightarrow> 48 \<le> (of_char c :: nat) \<and> of_char c < (58 :: nat)"

definition index_of :: "string \<Rightarrow> nat option" where
  "index_of k =
     (if k = [] \<or> \<not> list_all is_digit k \<or> (hd k = CHR ''0'' \<and> length k > 1) then None
      else if nat_of_digits k < 2 ^ 32 - 1 then Some (nat_of_digits k) else None)"

definition index_below :: "nat \<Rightarrow> string \<Rightarrow> bool" where
  "index_below n k \<longleftrightarrow> (case index_of k of None \<Rightarrow> False | Some m \<Rightarrow> m < n)"

text \<open>Setting a property: a present key keeps its place; array indices come first, in order.\<close>

definition js_set :: "string \<Rightarrow> 'a \<Rightarrow> (string \<times> 'a) list \<Rightarrow> (string \<times> 'a) list" where
  "js_set k v kvs =
     (if map_has kvs k then map_set k v kvs
      else (case index_of k of
          None \<Rightarrow> kvs @ [(k, v)]
        | Some n \<Rightarrow> takeWhile (\<lambda>(k', _). index_below n k') kvs @ [(k, v)]
            @ dropWhile (\<lambda>(k', _). index_below n k') kvs))"

definition key_before :: "string \<Rightarrow> string \<Rightarrow> bool" where
  "key_before a b \<longleftrightarrow> a \<noteq> b \<and> (case index_of b of None \<Rightarrow> True | Some n \<Rightarrow> index_below n a)"

abbreviation js_keys :: "(string \<times> 'a) list \<Rightarrow> bool" where
  "js_keys kvs \<equiv> sorted_wrt key_before (map fst kvs)"

definition js_object :: "(string \<times> 'a) list \<Rightarrow> (string \<times> 'a) list" where
  "js_object kvs = fold (\<lambda>(k, v). js_set k v) kvs []"

lemma js_set_last:
  assumes "\<forall>k' \<in> fst ` set kvs. key_before k' k"
  shows "js_set k v kvs = kvs @ [(k, v)]"
proof -
  have new: "map_of kvs k = None"
    using assms by (force simp: map_of_eq_None_iff key_before_def)
  show ?thesis
  proof (cases "index_of k")
    case None
    then show ?thesis using new by (simp add: js_set_def)
  next
    case (Some n)
    then have below: "\<forall>x \<in> set kvs. index_below n (fst x)"
      using assms by (auto simp: key_before_def)
    then have "takeWhile (\<lambda>(k', _). index_below n k') kvs = kvs"
      by (subst takeWhile_eq_all_conv) auto
    moreover have "dropWhile (\<lambda>(k', _). index_below n k') kvs = []"
      using below by (subst dropWhile_eq_Nil_conv) auto
    ultimately show ?thesis using new Some by (simp add: js_set_def)
  qed
qed

lemma js_set_fold: "js_keys (xs @ ys) \<Longrightarrow> fold (\<lambda>(k, v). js_set k v) ys xs = xs @ ys"
proof (induction ys arbitrary: xs)
  case Nil
  then show ?case by simp
next
  case (Cons y ys)
  obtain k v where y: "y = (k, v)" by force
  have "js_set k v xs = xs @ [(k, v)]"
    using Cons.prems by (intro js_set_last) (auto simp: y sorted_wrt_append)
  then show ?case using Cons.IH[of "xs @ [y]"] Cons.prems by (simp add: y)
qed

lemma js_object_ordered: "js_keys kvs \<Longrightarrow> js_object kvs = kvs"
  using js_set_fold[of "[]" kvs] by (simp add: js_object_def)

lemma map_of_js_set: "map_of (js_set k v kvs) k' = (if k' = k then Some v else map_of kvs k')"
proof (cases "map_has kvs k \<or> index_of k = None")
  case True
  then show ?thesis by (auto simp: js_set_def map_add_def split: option.splits)
next
  case False
  then obtain n where n: "index_of k = Some n" and new: "map_of kvs k = None" by auto
  let ?p = "\<lambda>x. index_below n (fst x)"
  have p: "(\<lambda>(k', _). index_below n k') = ?p" by auto
  have "map_of kvs k' = (map_of (dropWhile ?p kvs) ++ map_of (takeWhile ?p kvs)) k'"
    by (metis map_of_append takeWhile_dropWhile_id)
  moreover from this new have "map_of (takeWhile ?p kvs) k = None" "map_of (dropWhile ?p kvs) k = None"
    by (auto simp: map_of_eq_None_iff dest: set_takeWhileD set_dropWhileD)
  ultimately show ?thesis using n new
    by (auto simp: js_set_def p map_add_def split: option.splits)
qed

section \<open>Numbers\<close>

function decimal_places :: "nat \<Rightarrow> nat option" where
  "decimal_places d =
     (if d \<le> 1 then Some 0
      else if gcd d 10 = 1 then None
      else map_option Suc (decimal_places (d div gcd d 10)))"
  by pat_completeness auto
termination
proof (relation "measure id")
  fix d :: nat
  assume "\<not> d \<le> 1" "gcd d 10 \<noteq> 1"
  moreover have "gcd d 10 > 0" by simp
  ultimately have "1 < gcd d 10" by linarith
  with \<open>\<not> d \<le> 1\<close> have "d div gcd d 10 < d" by (intro div_less_dividend) auto
  then show "(d div gcd d 10, d) \<in> measure id" by simp
qed simp

declare decimal_places.simps [simp del]

text \<open>A number text in its parts: sign, integer digits, fraction digits, exponent.\<close>

record number_parts =
  np_negative :: bool
  np_integer :: string
  np_fraction :: string
  np_exponent :: "int option"

fun strip_zeros :: "string \<Rightarrow> string" where
  "strip_zeros ds = (if ds \<noteq> [] \<and> last ds = CHR ''0'' then strip_zeros (butlast ds) else ds)"

declare strip_zeros.simps [simp del]

definition split_digits :: "nat \<Rightarrow> string \<Rightarrow> string \<times> string \<times> int option" where
  "split_digits k ds =
     (let n = int (length ds) - int k in
      if k = 0 \<and> n \<le> 21 then (ds, [], None)
      else if 0 < n \<and> n \<le> 21 then (take (nat n) ds, drop (nat n) ds, None)
      else if - 6 < n \<and> n \<le> 0 then (''0'', replicate (nat (- n)) CHR ''0'' @ ds, None)
      else (take 1 (strip_zeros ds), drop 1 (strip_zeros ds), Some (n - 1)))"

definition number_parts :: "rat \<Rightarrow> number_parts option" where
  "number_parts q =
     (case quotient_of q of (a, b) \<Rightarrow>
        map_option (\<lambda>k.
          case split_digits k (string_of_nat (nat \<bar>a\<bar> * 10 ^ k div nat b)) of (i, f, e) \<Rightarrow>
            \<lparr>np_negative = a < 0, np_integer = i, np_fraction = f, np_exponent = e\<rparr>)
        (decimal_places (nat b)))"

definition print_exponent :: "int option \<Rightarrow> string" where
  "print_exponent e =
     (case e of None \<Rightarrow> []
      | Some n \<Rightarrow> (if n < 0 then ''e-'' else ''e+'') @ string_of_nat (nat \<bar>n\<bar>))"

definition print_parts :: "number_parts \<Rightarrow> string" where
  "print_parts p =
     (if np_negative p then ''-'' else []) @ np_integer p
     @ (if np_fraction p = [] then [] else CHR ''.'' # np_fraction p)
     @ print_exponent (np_exponent p)"

definition print_number :: "rat \<Rightarrow> string" where
  "print_number q = (case number_parts q of None \<Rightarrow> ''null'' | Some p \<Rightarrow> print_parts p)"

definition number_ok :: "rat \<Rightarrow> bool" where
  "number_ok q \<longleftrightarrow> decimal_places (nat (snd (quotient_of q))) \<noteq> None"

definition parts_value :: "number_parts \<Rightarrow> rat" where
  "parts_value p =
     (if np_negative p then - 1 else 1) * of_nat (nat_of_digits (np_integer p @ np_fraction p))
     * 10 powi ((case np_exponent p of None \<Rightarrow> 0 | Some e \<Rightarrow> e) - int (length (np_fraction p)))"

section \<open>Printing\<close>

definition hex_digit :: "nat \<Rightarrow> char" where
  "hex_digit d = (if d < 10 then char_of (48 + d) else char_of (87 + d))"

definition escape_char :: "char \<Rightarrow> string" where
  "escape_char c =
     (let n = of_char c :: nat in
      if n = 34 \<or> n = 92 then [CHR 0x5C, c]
      else if n = 8 then [CHR 0x5C, CHR ''b'']
      else if n = 9 then [CHR 0x5C, CHR ''t'']
      else if n = 10 then [CHR 0x5C, CHR ''n'']
      else if n = 12 then [CHR 0x5C, CHR ''f'']
      else if n = 13 then [CHR 0x5C, CHR ''r'']
      else if n < 32 then [CHR 0x5C, CHR ''u'', CHR ''0'', CHR ''0'', hex_digit (n div 16), hex_digit (n mod 16)]
      else [c])"

definition print_string :: "string \<Rightarrow> string" where
  "print_string s = CHR 0x22 # concat (map escape_char s) @ [CHR 0x22]"

fun stringify :: "json \<Rightarrow> string"
  and print_items :: "json list \<Rightarrow> string"
  and print_members :: "(string \<times> json) list \<Rightarrow> string"
where
  "stringify JNull = ''null''"
| "stringify (JBool b) = (if b then ''true'' else ''false'')"
| "stringify (JNum q) = print_number q"
| "stringify (JStr s) = print_string s"
| "stringify (JArr vs) = CHR ''['' # print_items vs @ '']''"
| "stringify (JObj kvs) = CHR ''{'' # print_members kvs @ ''}''"
| "print_items [] = []"
| "print_items (v # vs) = stringify v @ (if vs = [] then [] else CHR '','' # print_items vs)"
| "print_members [] = []"
| "print_members ((k, v) # kvs) =
     print_string k @ CHR '':'' # stringify v @ (if kvs = [] then [] else CHR '','' # print_members kvs)"

fun json_ok :: "json \<Rightarrow> bool" where
  "json_ok (JNum q) = number_ok q"
| "json_ok (JArr vs) = list_all json_ok vs"
| "json_ok (JObj kvs) = (js_keys kvs \<and> list_all (\<lambda>(_, v). json_ok v) kvs)"
| "json_ok _ = True"

section \<open>Reading\<close>

definition is_space :: "char \<Rightarrow> bool" where
  "is_space c \<longleftrightarrow> (of_char c :: nat) \<in> {9, 10, 13, 32}"

definition skip_space :: "string \<Rightarrow> string" where
  "skip_space = dropWhile is_space"

definition hex_value :: "char \<Rightarrow> nat option" where
  "hex_value c =
     (let n = of_char c :: nat in
      if 48 \<le> n \<and> n < 58 then Some (n - 48)
      else if 65 \<le> n \<and> n < 71 then Some (n - 55)
      else if 97 \<le> n \<and> n < 103 then Some (n - 87)
      else None)"

definition simple_escape :: "char \<Rightarrow> char option" where
  "simple_escape c =
     map_of [(CHR 0x22, CHR 0x22), (CHR 0x5C, CHR 0x5C), (CHR ''/'', CHR ''/''), (CHR ''b'', CHR 0x08),
             (CHR ''f'', CHR 0x0C), (CHR ''n'', CHR 0x0A), (CHR ''r'', CHR 0x0D), (CHR ''t'', CHR 0x09)] c"

definition unicode_escape :: "string \<Rightarrow> char option" where
  "unicode_escape hs =
     (case map hex_value hs of
        [Some a, Some b, Some c, Some d] \<Rightarrow>
          (let n = ((a * 16 + b) * 16 + c) * 16 + d in if n < 256 then Some (char_of n) else None)
      | _ \<Rightarrow> None)"

text \<open>The characters of a string after its opening quote, and what follows the closing one.\<close>

definition cons_read :: "char option \<Rightarrow> (string \<times> string) option \<Rightarrow> (string \<times> string) option" where
  "cons_read c r = (case c of None \<Rightarrow> None | Some c \<Rightarrow> map_option (apfst ((#) c)) r)"

fun read_chars :: "string \<Rightarrow> (string \<times> string) option" where
  "read_chars [] = None"
| "read_chars (c # s) =
     (if c = CHR 0x22 then Some ([], s)
      else if c = CHR 0x5C then
        (case s of
           [] \<Rightarrow> None
         | e # t \<Rightarrow>
             if e = CHR ''u'' then
               (if length t < 4 then None
                else cons_read (unicode_escape (take 4 t)) (read_chars (drop 4 t)))
             else cons_read (simple_escape e) (read_chars t))
      else if (of_char c :: nat) < 32 then None
      else cons_read (Some c) (read_chars s))"

definition read_digits :: "string \<Rightarrow> string \<times> string" where
  "read_digits s = (takeWhile is_digit s, dropWhile is_digit s)"

definition read_integer :: "string \<Rightarrow> (string \<times> string) option" where
  "read_integer s =
     (case s of
        [] \<Rightarrow> None
      | c # t \<Rightarrow> if c = CHR ''0'' then Some (''0'', t)
          else if is_digit c then Some (read_digits s) else None)"

definition read_fraction :: "string \<Rightarrow> (string \<times> string) option" where
  "read_fraction s =
     (case s of
        [] \<Rightarrow> Some ([], [])
      | c # t \<Rightarrow> if c \<noteq> CHR ''.'' then Some ([], s)
          else if fst (read_digits t) = [] then None else Some (read_digits t))"

definition read_exponent :: "string \<Rightarrow> (int option \<times> string) option" where
  "read_exponent s =
     (case s of
        [] \<Rightarrow> Some (None, [])
      | c # t \<Rightarrow>
          if c \<noteq> CHR ''e'' \<and> c \<noteq> CHR ''E'' then Some (None, s)
          else (case t of
              [] \<Rightarrow> None
            | d # u \<Rightarrow>
                (let (ds, r) = read_digits (if d = CHR ''+'' \<or> d = CHR ''-'' then u else t) in
                 if ds = [] then None
                 else Some (Some (if d = CHR ''-'' then - int (nat_of_digits ds) else int (nat_of_digits ds)), r))))"

definition read_number :: "string \<Rightarrow> (rat \<times> string) option" where
  "read_number s =
     (let neg = (s \<noteq> [] \<and> hd s = CHR ''-'') in
      Option.bind (read_integer (if neg then tl s else s)) (\<lambda>(i, r1).
      Option.bind (read_fraction r1) (\<lambda>(f, r2).
      Option.bind (read_exponent r2) (\<lambda>(e, r3).
      Some (parts_value \<lparr>np_negative = neg, np_integer = i, np_fraction = f, np_exponent = e\<rparr>, r3)))))"

definition read_word :: "string \<Rightarrow> json \<Rightarrow> string \<Rightarrow> (json \<times> string) option" where
  "read_word w v s = (if take (length w) s = w then Some (v, drop (length w) s) else None)"

text \<open>
  Values, the items of an array and the members of an object. Every second call consumes
  a character, so twice the length of the text is enough fuel.
\<close>

fun read_value :: "nat \<Rightarrow> string \<Rightarrow> (json \<times> string) option"
  and read_items :: "nat \<Rightarrow> json list \<Rightarrow> string \<Rightarrow> (json \<times> string) option"
  and read_members :: "nat \<Rightarrow> (string \<times> json) list \<Rightarrow> string \<Rightarrow> (json \<times> string) option"
where
  "read_value 0 s = None"
| "read_value (Suc n) s =
     (case skip_space s of
        [] \<Rightarrow> None
      | c # t \<Rightarrow>
          if c = CHR ''{'' then
            (case skip_space t of
               [] \<Rightarrow> None
             | d # u \<Rightarrow> if d = CHR ''}'' then Some (JObj [], u) else read_members n [] (d # u))
          else if c = CHR ''['' then
            (case skip_space t of
               [] \<Rightarrow> None
             | d # u \<Rightarrow> if d = CHR '']'' then Some (JArr [], u) else read_items n [] (d # u))
          else if c = CHR 0x22 then map_option (apfst JStr) (read_chars t)
          else if c = CHR ''t'' then read_word ''true'' (JBool True) (c # t)
          else if c = CHR ''f'' then read_word ''false'' (JBool False) (c # t)
          else if c = CHR ''n'' then read_word ''null'' JNull (c # t)
          else map_option (apfst JNum) (read_number (c # t)))"
| "read_items 0 acc s = None"
| "read_items (Suc n) acc s =
     Option.bind (read_value n s) (\<lambda>(v, r).
     (case skip_space r of
        [] \<Rightarrow> None
      | c # t \<Rightarrow>
          if c = CHR '','' then read_items n (acc @ [v]) t
          else if c = CHR '']'' then Some (JArr (acc @ [v]), t) else None))"
| "read_members 0 acc s = None"
| "read_members (Suc n) acc s =
     (case skip_space s of
        [] \<Rightarrow> None
      | q # s1 \<Rightarrow>
          if q \<noteq> CHR 0x22 then None
          else Option.bind (read_chars s1) (\<lambda>(k, s2).
            (case skip_space s2 of
               [] \<Rightarrow> None
             | colon # s3 \<Rightarrow>
                 if colon \<noteq> CHR '':'' then None
                 else Option.bind (read_value n s3) (\<lambda>(v, s4).
                   (case skip_space s4 of
                      [] \<Rightarrow> None
                    | c # t \<Rightarrow>
                        if c = CHR '','' then read_members n (js_set k v acc) t
                        else if c = CHR ''}'' then Some (JObj (js_set k v acc), t) else None)))))"

definition json_parse :: "string \<Rightarrow> json option" where
  "json_parse s =
     Option.bind (read_value (Suc (2 * length s)) s) (\<lambda>(v, r). if skip_space r = [] then Some v else None)"

end
