(* ===== verification/Json_Objects.thy ===== *)
theory Json_Objects
  imports Json_Text "HOL-Library.Monad_Syntax"
begin

text \<open>
  The typed messages as the JavaScript objects they are: \<open>x_json\<close> is the object of a typed
  value, with the property names of \<open>packages/ai/src/types.ts\<close> and
  \<open>packages/agent/src/harness/messages.ts\<close>, and \<open>as_x\<close> views an object at the type, or fails when
  it is none of the type. Session files are written and read through these; the source needs no
  such functions, its types describe the objects themselves.
\<close>

section \<open>Objects and their properties\<close>

text \<open>An object literal; \<open>JSON.stringify\<close> leaves out a property that is undefined.\<close>

definition obj :: "(string \<times> json option) list \<Rightarrow> (string \<times> json) list" where
  "obj = List.map_filter (\<lambda>(k, v). map_option (Pair k) v)"

definition first_of :: "'a option \<Rightarrow> 'a option \<Rightarrow> 'a option" where
  "first_of v w = (case v of None \<Rightarrow> w | Some x \<Rightarrow> Some x)"

lemma first_of_simps [simp]:
  "first_of (Some x) w = Some x" "first_of None w = w" "first_of v None = v"
  by (simp_all add: first_of_def split: option.splits)

lemma map_of_obj [simp]:
  "map_of (obj []) k = None"
  "map_of (obj ((k', v) # l)) k = (if k' = k then first_of v (map_of (obj l) k) else map_of (obj l) k)"
  by (simp_all add: obj_def map_filter_simps first_of_def split: option.splits)

lemma obj_append: "obj (xs @ ys) = obj xs @ obj ys"
  by (induction xs) (auto simp: obj_def map_filter_simps split: option.splits)

definition optional :: "(json \<Rightarrow> 'a option) \<Rightarrow> json option \<Rightarrow> 'a option option" where
  "optional as v = (case v of None \<Rightarrow> Some None | Some x \<Rightarrow> map_option Some (as x))"

lemma optional_simps [simp]:
  "optional as None = Some None"
  "optional as (Some x) = map_option Some (as x)"
  by (simp_all add: optional_def)

lemma optional_map [simp]: "(\<And>x. as (w x) = Some x) \<Longrightarrow> optional as (map_option w y) = Some y"
  by (cases y) simp_all

lemma optional_same [simp]: "optional Some y = Some y"
  by (cases y) simp_all

definition flag :: "json option \<Rightarrow> bool" where
  "flag v \<longleftrightarrow> v = Some (JBool True)"

definition flag_json :: "bool \<Rightarrow> json option" where
  "flag_json b = (if b then Some (JBool True) else None)"

lemma flag_trip [simp]: "flag (flag_json b) = b"
  by (simp add: flag_def flag_json_def)

fun as_string :: "json \<Rightarrow> string option" where
  "as_string (JStr s) = Some s"
| "as_string _ = None"

fun as_bool :: "json \<Rightarrow> bool option" where
  "as_bool (JBool b) = Some b"
| "as_bool _ = None"

fun as_rat :: "json \<Rightarrow> rat option" where
  "as_rat (JNum q) = Some q"
| "as_rat _ = None"

fun as_int :: "json \<Rightarrow> int option" where
  "as_int (JNum q) = (if of_int \<lfloor>q\<rfloor> = q then Some \<lfloor>q\<rfloor> else None)"
| "as_int _ = None"

fun as_object :: "json \<Rightarrow> (string \<times> json) list option" where
  "as_object (JObj kvs) = Some kvs"
| "as_object _ = None"

fun as_list :: "(json \<Rightarrow> 'a option) \<Rightarrow> json \<Rightarrow> 'a list option" where
  "as_list as (JArr vs) = those (map as vs)"
| "as_list as _ = None"

definition int_json :: "int \<Rightarrow> json" where
  "int_json i = JNum (of_int i)"

lemma as_int_json [simp]: "as_int (int_json i) = Some i"
  by (simp add: int_json_def)

definition list_json :: "('a \<Rightarrow> json) \<Rightarrow> 'a list \<Rightarrow> json" where
  "list_json f xs = JArr (map f xs)"

lemma as_list_json:
  assumes "\<And>x. x \<in> set xs \<Longrightarrow> as (f x) = Some x"
  shows "as_list as (list_json f xs) = Some xs"
  using assms by (induction xs) (auto simp: list_json_def)

lemma as_list_json_all [simp]: "(\<And>x. as (f x) = Some x) \<Longrightarrow> as_list as (list_json f xs) = Some xs"
  by (rule as_list_json)

text \<open>A value of a string enumeration, looked up in its table.\<close>

definition name_in :: "(string \<times> 'a) list \<Rightarrow> 'a \<Rightarrow> json" where
  "name_in table x = JStr (the (map_of (map prod.swap table) x))"

definition as_name :: "(string \<times> 'a) list \<Rightarrow> json \<Rightarrow> 'a option" where
  "as_name table v = as_string v \<bind> map_of table"

section \<open>Contents\<close>

definition tool_call_fields :: "tool_call \<Rightarrow> (string \<times> json) list" where
  "tool_call_fields x = obj
     [(''type'', Some (JStr ''toolCall'')),
      (''id'', Some (JStr (tc_id x))),
      (''name'', Some (JStr (tc_name x))),
      (''arguments'', Some (JObj (tc_arguments x))),
      (''thoughtSignature'', map_option JStr (tc_thoughtSignature x)),
      (''namespace'', map_option JStr (tc_namespace x))]"

definition as_tool_call :: "(string \<times> json) list \<Rightarrow> tool_call option" where
  "as_tool_call kvs = do {
     v0 \<leftarrow> map_of kvs ''id'' \<bind> as_string;
     v1 \<leftarrow> map_of kvs ''name'' \<bind> as_string;
     v2 \<leftarrow> map_of kvs ''arguments'' \<bind> as_object;
     v3 \<leftarrow> optional as_string (map_of kvs ''thoughtSignature'');
     v4 \<leftarrow> optional as_string (map_of kvs ''namespace'');
     Some \<lparr>tc_id = v0, tc_name = v1, tc_arguments = v2, tc_thoughtSignature = v3, tc_namespace = v4\<rparr>
   }"

lemma tool_call_trip [simp]: "as_tool_call (tool_call_fields x) = Some x"
  by (cases x) (simp add: as_tool_call_def tool_call_fields_def)

fun block_json :: "content_block \<Rightarrow> json" where
  "block_json (Text t signature) =
     JObj (obj [(''type'', Some (JStr ''text'')), (''text'', Some (JStr t)), (''textSignature'', map_option JStr signature)])"
| "block_json (Thinking t signature redacted) =
     JObj (obj [(''type'', Some (JStr ''thinking'')), (''thinking'', Some (JStr t)),
       (''thinkingSignature'', map_option JStr signature), (''redacted'', map_option JBool redacted)])"
| "block_json (Image data mime) =
     JObj (obj [(''type'', Some (JStr ''image'')), (''data'', Some (JStr data)), (''mimeType'', Some (JStr mime))])"
| "block_json (ToolCall c) = JObj (tool_call_fields c)"

definition as_block :: "json \<Rightarrow> content_block option" where
  "as_block v = do {
     kvs \<leftarrow> as_object v;
     tag \<leftarrow> map_of kvs ''type'' \<bind> as_string;
     if tag = ''text'' then do {
       t \<leftarrow> map_of kvs ''text'' \<bind> as_string;
       signature \<leftarrow> optional as_string (map_of kvs ''textSignature'');
       Some (Text t signature)
     } else if tag = ''thinking'' then do {
       t \<leftarrow> map_of kvs ''thinking'' \<bind> as_string;
       signature \<leftarrow> optional as_string (map_of kvs ''thinkingSignature'');
       redacted \<leftarrow> optional as_bool (map_of kvs ''redacted'');
       Some (Thinking t signature redacted)
     } else if tag = ''image'' then do {
       data \<leftarrow> map_of kvs ''data'' \<bind> as_string;
       mime \<leftarrow> map_of kvs ''mimeType'' \<bind> as_string;
       Some (Image data mime)
     } else if tag = ''toolCall'' then map_option ToolCall (as_tool_call kvs) else None
   }"

lemma tool_call_tag [simp]: "map_of (tool_call_fields c) ''type'' = Some (JStr ''toolCall'')"
  by (simp add: tool_call_fields_def)

lemma block_trip [simp]: "as_block (block_json b) = Some b"
  by (cases b) (simp_all add: as_block_def)

fun body_json :: "body \<Rightarrow> json" where
  "body_json (Body_String s) = JStr s"
| "body_json (Body_Blocks bs) = list_json block_json bs"

definition as_body :: "json \<Rightarrow> body option" where
  "as_body v = (case v of JStr s \<Rightarrow> Some (Body_String s) | _ \<Rightarrow> map_option Body_Blocks (as_list as_block v))"

lemma body_trip [simp]: "as_body (body_json b) = Some b"
proof (cases b)
  case (Body_Blocks bs)
  then show ?thesis using as_list_json_all[OF block_trip, of bs]
    by (simp add: as_body_def list_json_def)
qed (simp add: as_body_def)

section \<open>Messages\<close>

definition usage_cost_fields :: "usage_cost \<Rightarrow> (string \<times> json) list" where
  "usage_cost_fields x = obj
     [(''input'', Some (JNum (uc_input x))),
      (''output'', Some (JNum (uc_output x))),
      (''cacheRead'', Some (JNum (uc_cacheRead x))),
      (''cacheWrite'', Some (JNum (uc_cacheWrite x))),
      (''total'', Some (JNum (uc_total x)))]"

definition as_usage_cost :: "(string \<times> json) list \<Rightarrow> usage_cost option" where
  "as_usage_cost kvs = do {
     v0 \<leftarrow> map_of kvs ''input'' \<bind> as_rat;
     v1 \<leftarrow> map_of kvs ''output'' \<bind> as_rat;
     v2 \<leftarrow> map_of kvs ''cacheRead'' \<bind> as_rat;
     v3 \<leftarrow> map_of kvs ''cacheWrite'' \<bind> as_rat;
     v4 \<leftarrow> map_of kvs ''total'' \<bind> as_rat;
     Some \<lparr>uc_input = v0, uc_output = v1, uc_cacheRead = v2, uc_cacheWrite = v3, uc_total = v4\<rparr>
   }"

lemma usage_cost_trip [simp]: "as_usage_cost (usage_cost_fields x) = Some x"
  by (cases x) (simp add: as_usage_cost_def usage_cost_fields_def)

definition usage_fields :: "usage \<Rightarrow> (string \<times> json) list" where
  "usage_fields x = obj
     [(''input'', Some (int_json (us_input x))),
      (''output'', Some (int_json (us_output x))),
      (''cacheRead'', Some (int_json (us_cacheRead x))),
      (''cacheWrite'', Some (int_json (us_cacheWrite x))),
      (''cacheWrite1h'', map_option int_json (us_cacheWrite1h x)),
      (''reasoning'', map_option int_json (us_reasoning x)),
      (''totalTokens'', Some (int_json (us_totalTokens x))),
      (''cost'', Some ((\<lambda>x. JObj (usage_cost_fields x)) (us_cost x)))]"

definition as_usage :: "(string \<times> json) list \<Rightarrow> usage option" where
  "as_usage kvs = do {
     v0 \<leftarrow> map_of kvs ''input'' \<bind> as_int;
     v1 \<leftarrow> map_of kvs ''output'' \<bind> as_int;
     v2 \<leftarrow> map_of kvs ''cacheRead'' \<bind> as_int;
     v3 \<leftarrow> map_of kvs ''cacheWrite'' \<bind> as_int;
     v4 \<leftarrow> optional as_int (map_of kvs ''cacheWrite1h'');
     v5 \<leftarrow> optional as_int (map_of kvs ''reasoning'');
     v6 \<leftarrow> map_of kvs ''totalTokens'' \<bind> as_int;
     v7 \<leftarrow> map_of kvs ''cost'' \<bind> (\<lambda>v. as_object v \<bind> as_usage_cost);
     Some \<lparr>us_input = v0, us_output = v1, us_cacheRead = v2, us_cacheWrite = v3, us_cacheWrite1h = v4, us_reasoning = v5, us_totalTokens = v6, us_cost = v7\<rparr>
   }"

lemma usage_trip [simp]: "as_usage (usage_fields x) = Some x"
  by (cases x) (simp add: as_usage_def usage_fields_def)

definition stop_reason_names :: "(string \<times> stop_reason) list" where
  "stop_reason_names = [(''pending'', SR_pending), (''stop'', SR_stop), (''length'', SR_length), (''toolUse'', SR_toolUse), (''error'', SR_error), (''aborted'', SR_aborted), (''deferred'', SR_deferred)]"

lemma stop_reason_trip [simp]: "as_name stop_reason_names (name_in stop_reason_names x) = Some x"
  by (cases x) (simp_all add: as_name_def name_in_def stop_reason_names_def)

definition deferred_handle_fields :: "deferred_handle \<Rightarrow> (string \<times> json) list" where
  "deferred_handle_fields x = obj
     [(''provider'', Some (JStr (dh_provider x))),
      (''modelId'', Some (JStr (dh_modelId x))),
      (''api'', Some (JStr (dh_api x))),
      (''id'', Some (JStr (dh_id x))),
      (''expiresAt'', map_option int_json (dh_expiresAt x)),
      (''pollAfterMs'', map_option int_json (dh_pollAfterMs x)),
      (''data'', dh_data x)]"

definition as_deferred_handle :: "(string \<times> json) list \<Rightarrow> deferred_handle option" where
  "as_deferred_handle kvs = do {
     v0 \<leftarrow> map_of kvs ''provider'' \<bind> as_string;
     v1 \<leftarrow> map_of kvs ''modelId'' \<bind> as_string;
     v2 \<leftarrow> map_of kvs ''api'' \<bind> as_string;
     v3 \<leftarrow> map_of kvs ''id'' \<bind> as_string;
     v4 \<leftarrow> optional as_int (map_of kvs ''expiresAt'');
     v5 \<leftarrow> optional as_int (map_of kvs ''pollAfterMs'');
     v6 \<leftarrow> optional Some (map_of kvs ''data'');
     Some \<lparr>dh_provider = v0, dh_modelId = v1, dh_api = v2, dh_id = v3, dh_expiresAt = v4, dh_pollAfterMs = v5, dh_data = v6\<rparr>
   }"

lemma deferred_handle_trip [simp]: "as_deferred_handle (deferred_handle_fields x) = Some x"
  by (cases x) (simp add: as_deferred_handle_def deferred_handle_fields_def)

definition user_message_fields :: "user_message \<Rightarrow> (string \<times> json) list" where
  "user_message_fields x = obj
     [(''role'', Some (JStr ''user'')),
      (''content'', Some (body_json (um_content x))),
      (''timestamp'', Some (int_json (um_timestamp x)))]"

definition as_user_message :: "(string \<times> json) list \<Rightarrow> user_message option" where
  "as_user_message kvs = do {
     v0 \<leftarrow> map_of kvs ''content'' \<bind> as_body;
     v1 \<leftarrow> map_of kvs ''timestamp'' \<bind> as_int;
     Some \<lparr>um_content = v0, um_timestamp = v1\<rparr>
   }"

lemma user_message_trip [simp]: "as_user_message (user_message_fields x) = Some x"
  by (cases x) (simp add: as_user_message_def user_message_fields_def)

definition developer_message_fields :: "developer_message \<Rightarrow> (string \<times> json) list" where
  "developer_message_fields x = obj
     [(''role'', Some (JStr ''developer'')),
      (''content'', Some (body_json (dm_content x))),
      (''addedToolNames'', map_option (list_json JStr) (dm_addedToolNames x)),
      (''timestamp'', Some (int_json (dm_timestamp x)))]"

definition as_developer_message :: "(string \<times> json) list \<Rightarrow> developer_message option" where
  "as_developer_message kvs = do {
     v0 \<leftarrow> map_of kvs ''content'' \<bind> as_body;
     v1 \<leftarrow> optional (as_list as_string) (map_of kvs ''addedToolNames'');
     v2 \<leftarrow> map_of kvs ''timestamp'' \<bind> as_int;
     Some \<lparr>dm_content = v0, dm_addedToolNames = v1, dm_timestamp = v2\<rparr>
   }"

lemma developer_message_trip [simp]: "as_developer_message (developer_message_fields x) = Some x"
  by (cases x) (simp add: as_developer_message_def developer_message_fields_def)

definition assistant_message_fields :: "assistant_message \<Rightarrow> (string \<times> json) list" where
  "assistant_message_fields x = obj
     [(''role'', Some (JStr ''assistant'')),
      (''content'', Some ((list_json block_json) (am_content x))),
      (''api'', Some (JStr (am_api x))),
      (''provider'', Some (JStr (am_provider x))),
      (''model'', Some (JStr (am_model x))),
      (''responseModel'', map_option JStr (am_responseModel x)),
      (''responseId'', map_option JStr (am_responseId x)),
      (''diagnostics'', am_diagnostics x),
      (''usage'', Some ((\<lambda>x. JObj (usage_fields x)) (am_usage x))),
      (''stopReason'', Some ((name_in stop_reason_names) (am_stopReason x))),
      (''deferred'', map_option (\<lambda>x. JObj (deferred_handle_fields x)) (am_deferred x)),
      (''errorMessage'', map_option JStr (am_errorMessage x)),
      (''errorCode'', map_option JStr (am_errorCode x)),
      (''errorStatus'', map_option int_json (am_errorStatus x)),
      (''rawStopReason'', map_option JStr (am_rawStopReason x)),
      (''endTurn'', map_option JBool (am_endTurn x)),
      (''timestamp'', Some (int_json (am_timestamp x)))]"

definition as_assistant_message :: "(string \<times> json) list \<Rightarrow> assistant_message option" where
  "as_assistant_message kvs = do {
     v0 \<leftarrow> map_of kvs ''content'' \<bind> (as_list as_block);
     v1 \<leftarrow> map_of kvs ''api'' \<bind> as_string;
     v2 \<leftarrow> map_of kvs ''provider'' \<bind> as_string;
     v3 \<leftarrow> map_of kvs ''model'' \<bind> as_string;
     v4 \<leftarrow> optional as_string (map_of kvs ''responseModel'');
     v5 \<leftarrow> optional as_string (map_of kvs ''responseId'');
     v6 \<leftarrow> optional Some (map_of kvs ''diagnostics'');
     v7 \<leftarrow> map_of kvs ''usage'' \<bind> (\<lambda>v. as_object v \<bind> as_usage);
     v8 \<leftarrow> map_of kvs ''stopReason'' \<bind> (as_name stop_reason_names);
     v9 \<leftarrow> optional (\<lambda>v. as_object v \<bind> as_deferred_handle) (map_of kvs ''deferred'');
     v10 \<leftarrow> optional as_string (map_of kvs ''errorMessage'');
     v11 \<leftarrow> optional as_string (map_of kvs ''errorCode'');
     v12 \<leftarrow> optional as_int (map_of kvs ''errorStatus'');
     v13 \<leftarrow> optional as_string (map_of kvs ''rawStopReason'');
     v14 \<leftarrow> optional as_bool (map_of kvs ''endTurn'');
     v15 \<leftarrow> map_of kvs ''timestamp'' \<bind> as_int;
     Some \<lparr>am_content = v0, am_api = v1, am_provider = v2, am_model = v3, am_responseModel = v4, am_responseId = v5, am_diagnostics = v6, am_usage = v7, am_stopReason = v8, am_deferred = v9, am_errorMessage = v10, am_errorCode = v11, am_errorStatus = v12, am_rawStopReason = v13, am_endTurn = v14, am_timestamp = v15\<rparr>
   }"

lemma assistant_message_trip [simp]: "as_assistant_message (assistant_message_fields x) = Some x"
  by (cases x) (simp add: as_assistant_message_def assistant_message_fields_def)

definition tool_result_message_fields :: "tool_result_message \<Rightarrow> (string \<times> json) list" where
  "tool_result_message_fields x = obj
     [(''role'', Some (JStr ''toolResult'')),
      (''toolCallId'', Some (JStr (tr_toolCallId x))),
      (''toolName'', Some (JStr (tr_toolName x))),
      (''content'', Some ((list_json block_json) (tr_content x))),
      (''details'', tr_details x),
      (''usage'', map_option (\<lambda>x. JObj (usage_fields x)) (tr_usage x)),
      (''addedToolNames'', map_option (list_json JStr) (tr_addedToolNames x)),
      (''isError'', Some (JBool (tr_isError x))),
      (''timestamp'', Some (int_json (tr_timestamp x)))]"

definition as_tool_result_message :: "(string \<times> json) list \<Rightarrow> tool_result_message option" where
  "as_tool_result_message kvs = do {
     v0 \<leftarrow> map_of kvs ''toolCallId'' \<bind> as_string;
     v1 \<leftarrow> map_of kvs ''toolName'' \<bind> as_string;
     v2 \<leftarrow> map_of kvs ''content'' \<bind> (as_list as_block);
     v3 \<leftarrow> optional Some (map_of kvs ''details'');
     v4 \<leftarrow> optional (\<lambda>v. as_object v \<bind> as_usage) (map_of kvs ''usage'');
     v5 \<leftarrow> optional (as_list as_string) (map_of kvs ''addedToolNames'');
     v6 \<leftarrow> map_of kvs ''isError'' \<bind> as_bool;
     v7 \<leftarrow> map_of kvs ''timestamp'' \<bind> as_int;
     Some \<lparr>tr_toolCallId = v0, tr_toolName = v1, tr_content = v2, tr_details = v3, tr_usage = v4, tr_addedToolNames = v5, tr_isError = v6, tr_timestamp = v7\<rparr>
   }"

lemma tool_result_message_trip [simp]: "as_tool_result_message (tool_result_message_fields x) = Some x"
  by (cases x) (simp add: as_tool_result_message_def tool_result_message_fields_def)

definition bash_execution_fields :: "bash_execution_message \<Rightarrow> (string \<times> json) list" where
  "bash_execution_fields x = obj
     [(''role'', Some (JStr ''bashExecution'')),
      (''command'', Some (JStr (be_command x))),
      (''output'', Some (JStr (be_output x))),
      (''exitCode'', map_option int_json (be_exitCode x)),
      (''cancelled'', Some (JBool (be_cancelled x))),
      (''truncated'', Some (JBool (be_truncated x))),
      (''fullOutputPath'', map_option JStr (be_fullOutputPath x)),
      (''timestamp'', Some (int_json (be_timestamp x))),
      (''excludeFromContext'', flag_json (be_excludeFromContext x))]"

definition as_bash_execution :: "(string \<times> json) list \<Rightarrow> bash_execution_message option" where
  "as_bash_execution kvs = do {
     v0 \<leftarrow> map_of kvs ''command'' \<bind> as_string;
     v1 \<leftarrow> map_of kvs ''output'' \<bind> as_string;
     v2 \<leftarrow> optional as_int (map_of kvs ''exitCode'');
     v3 \<leftarrow> map_of kvs ''cancelled'' \<bind> as_bool;
     v4 \<leftarrow> map_of kvs ''truncated'' \<bind> as_bool;
     v5 \<leftarrow> optional as_string (map_of kvs ''fullOutputPath'');
     v6 \<leftarrow> map_of kvs ''timestamp'' \<bind> as_int;
     Some \<lparr>be_command = v0, be_output = v1, be_exitCode = v2, be_cancelled = v3, be_truncated = v4, be_fullOutputPath = v5, be_timestamp = v6, be_excludeFromContext = flag (map_of kvs ''excludeFromContext'')\<rparr>
   }"

lemma bash_execution_trip [simp]: "as_bash_execution (bash_execution_fields x) = Some x"
  by (cases x) (simp add: as_bash_execution_def bash_execution_fields_def)

definition custom_fields :: "custom_message \<Rightarrow> (string \<times> json) list" where
  "custom_fields x = obj
     [(''role'', Some (JStr ''custom'')),
      (''customType'', Some (JStr (cm_customType x))),
      (''content'', Some (body_json (cm_content x))),
      (''display'', Some (JBool (cm_display x))),
      (''details'', cm_details x),
      (''timestamp'', Some (int_json (cm_timestamp x)))]"

definition as_custom :: "(string \<times> json) list \<Rightarrow> custom_message option" where
  "as_custom kvs = do {
     v0 \<leftarrow> map_of kvs ''customType'' \<bind> as_string;
     v1 \<leftarrow> map_of kvs ''content'' \<bind> as_body;
     v2 \<leftarrow> map_of kvs ''display'' \<bind> as_bool;
     v3 \<leftarrow> optional Some (map_of kvs ''details'');
     v4 \<leftarrow> map_of kvs ''timestamp'' \<bind> as_int;
     Some \<lparr>cm_customType = v0, cm_content = v1, cm_display = v2, cm_details = v3, cm_timestamp = v4\<rparr>
   }"

lemma custom_trip [simp]: "as_custom (custom_fields x) = Some x"
  by (cases x) (simp add: as_custom_def custom_fields_def)

definition branch_summary_fields :: "branch_summary_message \<Rightarrow> (string \<times> json) list" where
  "branch_summary_fields x = obj
     [(''role'', Some (JStr ''branchSummary'')),
      (''summary'', Some (JStr (bs_summary x))),
      (''fromId'', Some (JStr (bs_fromId x))),
      (''timestamp'', Some (int_json (bs_timestamp x)))]"

definition as_branch_summary :: "(string \<times> json) list \<Rightarrow> branch_summary_message option" where
  "as_branch_summary kvs = do {
     v0 \<leftarrow> map_of kvs ''summary'' \<bind> as_string;
     v1 \<leftarrow> map_of kvs ''fromId'' \<bind> as_string;
     v2 \<leftarrow> map_of kvs ''timestamp'' \<bind> as_int;
     Some \<lparr>bs_summary = v0, bs_fromId = v1, bs_timestamp = v2\<rparr>
   }"

lemma branch_summary_trip [simp]: "as_branch_summary (branch_summary_fields x) = Some x"
  by (cases x) (simp add: as_branch_summary_def branch_summary_fields_def)

definition compaction_summary_fields :: "compaction_summary_message \<Rightarrow> (string \<times> json) list" where
  "compaction_summary_fields x = obj
     [(''role'', Some (JStr ''compactionSummary'')),
      (''summary'', Some (JStr (cs_summary x))),
      (''tokensBefore'', Some (int_json (cs_tokensBefore x))),
      (''timestamp'', Some (int_json (cs_timestamp x)))]"

definition as_compaction_summary :: "(string \<times> json) list \<Rightarrow> compaction_summary_message option" where
  "as_compaction_summary kvs = do {
     v0 \<leftarrow> map_of kvs ''summary'' \<bind> as_string;
     v1 \<leftarrow> map_of kvs ''tokensBefore'' \<bind> as_int;
     v2 \<leftarrow> map_of kvs ''timestamp'' \<bind> as_int;
     Some \<lparr>cs_summary = v0, cs_tokensBefore = v1, cs_timestamp = v2\<rparr>
   }"

lemma compaction_summary_trip [simp]: "as_compaction_summary (compaction_summary_fields x) = Some x"
  by (cases x) (simp add: as_compaction_summary_def compaction_summary_fields_def)

fun agent_message_fields :: "agent_message \<Rightarrow> (string \<times> json) list" where
  "agent_message_fields (Llm (UserMsg m)) = user_message_fields m"
| "agent_message_fields (Llm (DeveloperMsg m)) = developer_message_fields m"
| "agent_message_fields (Llm (AssistantMsg m)) = assistant_message_fields m"
| "agent_message_fields (Llm (ToolResultMsg m)) = tool_result_message_fields m"
| "agent_message_fields (BashExecution m) = bash_execution_fields m"
| "agent_message_fields (Custom m) = custom_fields m"
| "agent_message_fields (BranchSummary m) = branch_summary_fields m"
| "agent_message_fields (CompactionSummary m) = compaction_summary_fields m"

lemma role_tags [simp]:
  "map_of (user_message_fields x0) ''role'' = Some (JStr ''user'')"
  "map_of (developer_message_fields x1) ''role'' = Some (JStr ''developer'')"
  "map_of (assistant_message_fields x2) ''role'' = Some (JStr ''assistant'')"
  "map_of (tool_result_message_fields x3) ''role'' = Some (JStr ''toolResult'')"
  "map_of (bash_execution_fields x4) ''role'' = Some (JStr ''bashExecution'')"
  "map_of (custom_fields x5) ''role'' = Some (JStr ''custom'')"
  "map_of (branch_summary_fields x6) ''role'' = Some (JStr ''branchSummary'')"
  "map_of (compaction_summary_fields x7) ''role'' = Some (JStr ''compactionSummary'')"
  by (simp_all add: user_message_fields_def developer_message_fields_def assistant_message_fields_def tool_result_message_fields_def bash_execution_fields_def custom_fields_def branch_summary_fields_def compaction_summary_fields_def)

definition as_agent_message :: "(string \<times> json) list \<Rightarrow> agent_message option" where
  "as_agent_message kvs = do {
     role \<leftarrow> map_of kvs ''role'' \<bind> as_string;
     if role = ''user'' then map_option (Llm \<circ> UserMsg) (as_user_message kvs)
     else if role = ''developer'' then map_option (Llm \<circ> DeveloperMsg) (as_developer_message kvs)
     else if role = ''assistant'' then map_option (Llm \<circ> AssistantMsg) (as_assistant_message kvs)
     else if role = ''toolResult'' then map_option (Llm \<circ> ToolResultMsg) (as_tool_result_message kvs)
     else if role = ''bashExecution'' then map_option BashExecution (as_bash_execution kvs)
     else if role = ''custom'' then map_option Custom (as_custom kvs)
     else if role = ''branchSummary'' then map_option BranchSummary (as_branch_summary kvs)
     else if role = ''compactionSummary'' then map_option CompactionSummary (as_compaction_summary kvs)
     else None
   }"

lemma agent_message_trip [simp]: "as_agent_message (agent_message_fields m) = Some m"
  by (cases m rule: agent_message_fields.cases) (simp_all add: as_agent_message_def)

end
