(* ===== verification/Record_Objects.thy ===== *)
theory Record_Objects
  imports Json_Objects Session_Types
begin

text \<open>
  Entries and lane records as JavaScript objects, with the property names of
  \<open>packages/agent/src/harness/session/types.ts\<close>. A provisioned entry is the object of its type,
  id and body; the storage adds \<open>parentId\<close>, \<open>seq\<close> and \<open>timestamp\<close> behind them, and to a new
  record \<open>seq\<close> and \<open>timestamp\<close>.
\<close>

section \<open>Entries\<close>

definition nullable_json :: "string option \<Rightarrow> json" where
  "nullable_json s = (case s of None \<Rightarrow> JNull | Some t \<Rightarrow> JStr t)"

definition as_nullable :: "json \<Rightarrow> string option option" where
  "as_nullable v = (if v = JNull then Some None else map_option Some (as_string v))"

lemma nullable_trip [simp]: "as_nullable (nullable_json s) = Some s"
  by (cases s) (simp_all add: as_nullable_def nullable_json_def)

definition nat_json :: "nat \<Rightarrow> json" where
  "nat_json n = int_json (int n)"

definition as_nat :: "json \<Rightarrow> nat option" where
  "as_nat v = as_int v \<bind> (\<lambda>i. if i < 0 then None else Some (nat i))"

lemma nat_trip [simp]: "as_nat (nat_json n) = Some n"
  by (simp add: as_nat_def nat_json_def)

definition message_json :: "agent_message \<Rightarrow> json" where
  "message_json m = JObj (agent_message_fields m)"

definition as_message :: "json \<Rightarrow> agent_message option" where
  "as_message v = as_object v \<bind> as_agent_message"

lemma message_trip [simp]: "as_message (message_json m) = Some m"
  by (simp add: as_message_def message_json_def)

definition entry_type_names :: "(string \<times> entry_type) list" where
  "entry_type_names = [(''message'', ET_message), (''model_change'', ET_model_change), (''thinking_level_change'', ET_thinking_level_change), (''active_tools_change'', ET_active_tools_change), (''compaction'', ET_compaction), (''branch_summary'', ET_branch_summary), (''custom'', ET_custom)]"

lemma entry_type_trip [simp]: "as_name entry_type_names (name_in entry_type_names x) = Some x"
  by (cases x) (simp_all add: as_name_def name_in_def entry_type_names_def)

fun entry_body_props :: "entry_body \<Rightarrow> (string \<times> json option) list" where
  "entry_body_props (E_message m terminate) =
     [(''message'', Some (message_json (m))),
      (''terminate'', flag_json (terminate))]"
| "entry_body_props (E_model_change provider modelId) =
     [(''provider'', Some (JStr (provider))),
      (''modelId'', Some (JStr (modelId)))]"
| "entry_body_props (E_thinking_level_change level) =
     [(''thinkingLevel'', Some (JStr (level)))]"
| "entry_body_props (E_active_tools_change names) =
     [(''activeToolNames'', Some ((list_json JStr) (names)))]"
| "entry_body_props (E_compaction x) =
     [(''summary'', Some (JStr (cd_summary x))),
      (''retainedTail'', Some ((list_json message_json) (cd_retainedTail x))),
      (''tokensBefore'', Some (int_json (cd_tokensBefore x))),
      (''details'', cd_details x),
      (''usage'', map_option (\<lambda>x. JObj (usage_fields x)) (cd_usage x))]"
| "entry_body_props (E_branch_summary x) =
     [(''fromId'', Some (JStr (bd_fromId x))),
      (''summary'', Some (JStr (bd_summary x))),
      (''details'', bd_details x),
      (''usage'', map_option (\<lambda>x. JObj (usage_fields x)) (bd_usage x))]"
| "entry_body_props (E_custom customType data) =
     [(''customType'', Some (JStr (customType))),
      (''data'', data)]"

definition as_entry_body :: "entry_type \<Rightarrow> (string \<times> json) list \<Rightarrow> entry_body option" where
  "as_entry_body tag kvs = (case tag of
       ET_message \<Rightarrow> do {
       v0 \<leftarrow> map_of kvs ''message'' \<bind> as_message;
       Some (E_message v0 (flag (map_of kvs ''terminate'')))
     }
     | ET_model_change \<Rightarrow> do {
       v0 \<leftarrow> map_of kvs ''provider'' \<bind> as_string;
       v1 \<leftarrow> map_of kvs ''modelId'' \<bind> as_string;
       Some (E_model_change v0 v1)
     }
     | ET_thinking_level_change \<Rightarrow> do {
       v0 \<leftarrow> map_of kvs ''thinkingLevel'' \<bind> as_string;
       Some (E_thinking_level_change v0)
     }
     | ET_active_tools_change \<Rightarrow> do {
       v0 \<leftarrow> map_of kvs ''activeToolNames'' \<bind> (as_list as_string);
       Some (E_active_tools_change v0)
     }
     | ET_compaction \<Rightarrow> do {
       v0 \<leftarrow> map_of kvs ''summary'' \<bind> as_string;
       v1 \<leftarrow> map_of kvs ''retainedTail'' \<bind> (as_list as_message);
       v2 \<leftarrow> map_of kvs ''tokensBefore'' \<bind> as_int;
       v3 \<leftarrow> optional Some (map_of kvs ''details'');
       v4 \<leftarrow> optional (\<lambda>v. as_object v \<bind> as_usage) (map_of kvs ''usage'');
       Some (E_compaction \<lparr>cd_summary = v0, cd_retainedTail = v1, cd_tokensBefore = v2, cd_details = v3, cd_usage = v4\<rparr>)
     }
     | ET_branch_summary \<Rightarrow> do {
       v0 \<leftarrow> map_of kvs ''fromId'' \<bind> as_string;
       v1 \<leftarrow> map_of kvs ''summary'' \<bind> as_string;
       v2 \<leftarrow> optional Some (map_of kvs ''details'');
       v3 \<leftarrow> optional (\<lambda>v. as_object v \<bind> as_usage) (map_of kvs ''usage'');
       Some (E_branch_summary \<lparr>bd_fromId = v0, bd_summary = v1, bd_details = v2, bd_usage = v3\<rparr>)
     }
     | ET_custom \<Rightarrow> do {
       v0 \<leftarrow> map_of kvs ''customType'' \<bind> as_string;
       v1 \<leftarrow> optional Some (map_of kvs ''data'');
       Some (E_custom v0 v1)
     })"

definition provisioned_props :: "'a provisioned_entry_scheme \<Rightarrow> (string \<times> json option) list" where
  "provisioned_props e =
     [(''type'', Some (name_in entry_type_names (entry_type_of e))), (''id'', Some (JStr (en_id e)))]
     @ entry_body_props (en_body e)"

definition as_provisioned :: "(string \<times> json) list \<Rightarrow> provisioned_entry option" where
  "as_provisioned kvs = do {
     tag \<leftarrow> map_of kvs ''type'' \<bind> as_name entry_type_names;
     i \<leftarrow> map_of kvs ''id'' \<bind> as_string;
     body \<leftarrow> as_entry_body tag kvs;
     Some \<lparr>en_id = i, en_body = body\<rparr>
   }"

definition provisioned_json :: "provisioned_entry \<Rightarrow> json" where
  "provisioned_json e = JObj (obj (provisioned_props e))"

definition as_provisioned_json :: "json \<Rightarrow> provisioned_entry option" where
  "as_provisioned_json v = as_object v \<bind> as_provisioned"

definition stored_entry_props :: "entry \<Rightarrow> (string \<times> json option) list" where
  "stored_entry_props e =
     [(''parentId'', Some (nullable_json (en_parentId e))), (''seq'', Some (nat_json (en_seq e))),
      (''timestamp'', Some (int_json (en_timestamp e)))]"

definition entry_fields :: "entry \<Rightarrow> (string \<times> json) list" where
  "entry_fields e = obj (provisioned_props e @ stored_entry_props e)"

definition as_entry :: "(string \<times> json) list \<Rightarrow> entry option" where
  "as_entry kvs = do {
     e \<leftarrow> as_provisioned kvs;
     parent \<leftarrow> map_of kvs ''parentId'' \<bind> as_nullable;
     n \<leftarrow> map_of kvs ''seq'' \<bind> as_nat;
     ts \<leftarrow> map_of kvs ''timestamp'' \<bind> as_int;
     Some (provisioned_entry.extend e (entry.fields n parent ts))
   }"

lemma as_provisioned_trip [simp]:
  "as_provisioned (obj (provisioned_props e)) = Some (provisioned_entry.truncate e)"
  by (cases "en_body e") (simp_all add: as_provisioned_def provisioned_props_def as_entry_body_def
      provisioned_entry.truncate_def)

lemma provisioned_trip [simp]: "as_provisioned_json (provisioned_json e) = Some e"
  by (cases e) (simp add: as_provisioned_json_def provisioned_json_def provisioned_entry.truncate_def)

lemma entry_trip: "as_entry (entry_fields e) = Some e"
  by (cases e; cases "en_body e")
    (simp_all add: as_entry_def entry_fields_def as_provisioned_def provisioned_props_def as_entry_body_def
      stored_entry_props_def provisioned_entry.extend_def entry.fields_def)

section \<open>Records\<close>

definition operation_outcome_names :: "(string \<times> outcome) list" where
  "operation_outcome_names = [(''completed'', O_completed), (''aborted'', O_aborted), (''failed'', O_failed), (''declined'', O_declined)]"

lemma operation_outcome_trip [simp]: "as_name operation_outcome_names (name_in operation_outcome_names x) = Some x"
  by (cases x) (simp_all add: as_name_def name_in_def operation_outcome_names_def)

definition step_names :: "(string \<times> step_kind) list" where
  "step_names = [(''assistant'', S_assistant), (''compaction'', S_compaction), (''branch_summary'', S_branch_summary)]"

lemma step_trip [simp]: "as_name step_names (name_in step_names x) = Some x"
  by (cases x) (simp_all add: as_name_def name_in_def step_names_def)

definition replay_names :: "(string \<times> replay) list" where
  "replay_names = [(''never'', Replay_never), (''safe'', Replay_safe)]"

lemma replay_trip [simp]: "as_name replay_names (name_in replay_names x) = Some x"
  by (cases x) (simp_all add: as_name_def name_in_def replay_names_def)

definition queue_names :: "(string \<times> queue) list" where
  "queue_names = [(''steer'', Q_steer), (''followUp'', Q_followUp), (''nextRun'', Q_nextRun)]"

lemma queue_trip [simp]: "as_name queue_names (name_in queue_names x) = Some x"
  by (cases x) (simp_all add: as_name_def name_in_def queue_names_def)

definition llm_cause_names :: "(string \<times> llm_cause) list" where
  "llm_cause_names = [(''assistant'', LC_assistant), (''compaction'', LC_compaction), (''branch_summary'', LC_branch_summary), (''deferred_fetch'', LC_deferred_fetch)]"

lemma llm_cause_trip [simp]: "as_name llm_cause_names (name_in llm_cause_names x) = Some x"
  by (cases x) (simp_all add: as_name_def name_in_def llm_cause_names_def)

definition record_type_names :: "(string \<times> record_type) list" where
  "record_type_names = [(''operation_started'', RT_operation_started), (''abort_requested'', RT_abort_requested), (''operation_finished'', RT_operation_finished), (''step_attempt'', RT_step_attempt), (''tool_started'', RT_tool_started), (''queue_enqueued'', RT_queue_enqueued), (''queue_cancelled'', RT_queue_cancelled), (''write_deferred'', RT_write_deferred), (''usage'', RT_usage)]"

lemma record_type_trip [simp]: "as_name record_type_names (name_in record_type_names x) = Some x"
  by (cases x) (simp_all add: as_name_def name_in_def record_type_names_def)

definition operation_kind_names :: "(string \<times> operation_kind) list" where
  "operation_kind_names = [(''run'', OK_run), (''compaction'', OK_compaction), (''navigation'', OK_navigation)]"

lemma operation_kind_trip [simp]: "as_name operation_kind_names (name_in operation_kind_names x) = Some x"
  by (cases x) (simp_all add: as_name_def name_in_def operation_kind_names_def)

text \<open>A compaction reason outside the three names is kept as the value it is.\<close>

fun reason_json :: "compaction_reason \<Rightarrow> json" where
  "reason_json CR_manual = JStr ''manual''"
| "reason_json CR_threshold = JStr ''threshold''"
| "reason_json CR_overflow = JStr ''overflow''"
| "reason_json (CR_other v) = v"

definition as_reason :: "json \<Rightarrow> compaction_reason option" where
  "as_reason v = Some
     (if v = JStr ''manual'' then CR_manual else if v = JStr ''threshold'' then CR_threshold
      else if v = JStr ''overflow'' then CR_overflow else CR_other v)"

definition reason_named :: "compaction_reason \<Rightarrow> bool" where
  "reason_named r \<longleftrightarrow> (case r of CR_other _ \<Rightarrow> False | _ \<Rightarrow> True)"

lemma reason_trip [simp]: "reason_named r \<Longrightarrow> as_reason (reason_json r) = Some r"
  by (cases r) (simp_all add: as_reason_def reason_named_def)

definition failure_json :: "string \<times> string \<Rightarrow> json" where
  "failure_json e = JObj (obj [(''code'', Some (JStr (fst e))), (''message'', Some (JStr (snd e)))])"

definition as_failure :: "json \<Rightarrow> (string \<times> string) option" where
  "as_failure v = do {
     kvs \<leftarrow> as_object v;
     code \<leftarrow> map_of kvs ''code'' \<bind> as_string;
     message \<leftarrow> map_of kvs ''message'' \<bind> as_string;
     Some (code, message)
   }"

lemma failure_trip [simp]: "as_failure (failure_json e) = Some e"
  by (cases e) (simp add: as_failure_def failure_json_def)

fun intent_props :: "intent \<Rightarrow> (string \<times> json option) list" where
  "intent_props (Run x) =
     [(''originalPrompt'', Some ((list_json message_json) (ri_originalPrompt x))),
      (''initialMessages'', Some ((list_json provisioned_json) (ri_initialMessages x))),
      (''systemPromptOverride'', map_option JStr (ri_systemPromptOverride x)),
      (''resumeData'', map_option JObj (ri_resumeData x))]"
| "intent_props (Compaction x) =
     [(''customInstructions'', map_option JStr (ci_customInstructions x)),
      (''resultEntryId'', Some (JStr (ci_resultEntryId x)))]"
| "intent_props (Navigation x) =
     [(''targetId'', Some (nullable_json (ni_targetId x))),
      (''summarize'', Some (JBool (ni_summarize x))),
      (''customInstructions'', map_option JStr (ni_customInstructions x)),
      (''label'', map_option JStr (ni_label x)),
      (''summaryEntryId'', map_option JStr (ni_summaryEntryId x))]"

definition as_intent_of :: "operation_kind \<Rightarrow> (string \<times> json) list \<Rightarrow> intent option" where
  "as_intent_of tag kvs = (case tag of
       OK_run \<Rightarrow> do {
       v0 \<leftarrow> map_of kvs ''originalPrompt'' \<bind> (as_list as_message);
       v1 \<leftarrow> map_of kvs ''initialMessages'' \<bind> (as_list as_provisioned_json);
       v2 \<leftarrow> optional as_string (map_of kvs ''systemPromptOverride'');
       v3 \<leftarrow> optional as_object (map_of kvs ''resumeData'');
       Some (Run \<lparr>ri_originalPrompt = v0, ri_initialMessages = v1, ri_systemPromptOverride = v2, ri_resumeData = v3\<rparr>)
     }
     | OK_compaction \<Rightarrow> do {
       v0 \<leftarrow> optional as_string (map_of kvs ''customInstructions'');
       v1 \<leftarrow> map_of kvs ''resultEntryId'' \<bind> as_string;
       Some (Compaction \<lparr>ci_customInstructions = v0, ci_resultEntryId = v1\<rparr>)
     }
     | OK_navigation \<Rightarrow> do {
       v0 \<leftarrow> map_of kvs ''targetId'' \<bind> as_nullable;
       v1 \<leftarrow> map_of kvs ''summarize'' \<bind> as_bool;
       v2 \<leftarrow> optional as_string (map_of kvs ''customInstructions'');
       v3 \<leftarrow> optional as_string (map_of kvs ''label'');
       v4 \<leftarrow> optional as_string (map_of kvs ''summaryEntryId'');
       Some (Navigation \<lparr>ni_targetId = v0, ni_summarize = v1, ni_customInstructions = v2, ni_label = v3, ni_summaryEntryId = v4\<rparr>)
     })"

definition intent_json :: "intent \<Rightarrow> json" where
  "intent_json i = JObj (obj ((''kind'', Some (name_in operation_kind_names (intent_kind i))) # intent_props i))"

definition as_intent :: "json \<Rightarrow> intent option" where
  "as_intent v = do {
     kvs \<leftarrow> as_object v;
     tag \<leftarrow> map_of kvs ''kind'' \<bind> as_name operation_kind_names;
     as_intent_of tag kvs
   }"

lemma intent_trip [simp]: "as_intent (intent_json i) = Some i"
  by (cases i) (simp_all add: as_intent_def intent_json_def as_intent_of_def)

fun cause_props :: "usage_cause \<Rightarrow> (string \<times> json option) list" where
  "cause_props (UC_llm c run e attempt reason) =
     [(''cause'', Some (name_in llm_cause_names c)), (''runId'', Some (JStr run)), (''entryId'', Some (JStr e)),
      (''attempt'', Some (int_json attempt)), (''stopReason'', Some (name_in stop_reason_names reason))]"
| "cause_props (UC_tool run e call) =
     [(''cause'', Some (JStr ''tool'')), (''runId'', Some (JStr run)), (''entryId'', Some (JStr e)),
      (''toolCallId'', Some (JStr call))]"
| "cause_props (UC_hook run e) =
     [(''cause'', Some (JStr ''hook'')), (''runId'', Some (JStr run)), (''entryId'', Some (JStr e))]"
| "cause_props (UC_adjustment run e details) =
     [(''cause'', Some (JStr ''adjustment'')), (''runId'', map_option JStr run), (''entryId'', map_option JStr e),
      (''details'', details)]"

definition as_cause :: "(string \<times> json) list \<Rightarrow> usage_cause option" where
  "as_cause kvs = do {
     tag \<leftarrow> map_of kvs ''cause'' \<bind> as_string;
     run \<leftarrow> optional as_string (map_of kvs ''runId'');
     e \<leftarrow> optional as_string (map_of kvs ''entryId'');
     if tag = ''adjustment'' then Some (UC_adjustment run e (map_of kvs ''details''))
     else do {
       run' \<leftarrow> run;
       e' \<leftarrow> e;
       if tag = ''tool'' then map_option (UC_tool run' e') (map_of kvs ''toolCallId'' \<bind> as_string)
       else if tag = ''hook'' then Some (UC_hook run' e')
       else do {
         c \<leftarrow> as_name llm_cause_names (JStr tag);
         attempt \<leftarrow> map_of kvs ''attempt'' \<bind> as_int;
         reason \<leftarrow> map_of kvs ''stopReason'' \<bind> as_name stop_reason_names;
         Some (UC_llm c run' e' attempt reason)
       }
     }
   }"

fun record_body_props :: "record_body \<Rightarrow> (string \<times> json option) list" where
  "record_body_props (RB_operation_started source i) =
     [(''sourceLeafId'', Some (nullable_json (source))),
      (''intent'', Some (intent_json (i)))]"
| "record_body_props (RB_abort_requested run) =
     [(''runId'', Some (JStr (run)))]"
| "record_body_props (RB_operation_finished run result err) =
     [(''runId'', Some (JStr (run))),
      (''outcome'', Some ((name_in operation_outcome_names) (result))),
      (''error'', map_option failure_json (err))]"
| "record_body_props (RB_step_attempt x) =
     [(''runId'', Some (JStr (sa_runId x))),
      (''step'', Some ((name_in step_names) (sa_step x))),
      (''attempt'', Some (int_json (sa_attempt x))),
      (''resultEntryId'', Some (JStr (sa_resultEntryId x))),
      (''compactionReason'', map_option reason_json (sa_compactionReason x))]"
| "record_body_props (RB_tool_started x) =
     [(''runId'', Some (JStr (ts_runId x))),
      (''assistantEntryId'', Some (JStr (ts_assistantEntryId x))),
      (''toolIndex'', Some (int_json (ts_toolIndex x))),
      (''toolCallId'', Some (JStr (ts_toolCallId x))),
      (''toolName'', Some (JStr (ts_toolName x))),
      (''effectiveArgs'', Some (JObj (ts_effectiveArgs x))),
      (''resultEntryId'', Some (JStr (ts_resultEntryId x))),
      (''replay'', Some ((name_in replay_names) (ts_replay x)))]"
| "record_body_props (RB_queue_enqueued x) =
     [(''queue'', Some ((name_in queue_names) (qe_queue x))),
      (''runId'', map_option JStr (qe_runId x)),
      (''target'', Some (provisioned_json (qe_target x)))]"
| "record_body_props (RB_queue_cancelled run e) =
     [(''runId'', map_option JStr (run)),
      (''entryId'', Some (JStr (e)))]"
| "record_body_props (RB_write_deferred run target) =
     [(''runId'', Some (JStr (run))),
      (''target'', Some (provisioned_json (target)))]"
| "record_body_props (RB_usage u c) = (''usage'', Some (JObj (usage_fields u))) # cause_props c"

definition as_record_body :: "record_type \<Rightarrow> (string \<times> json) list \<Rightarrow> record_body option" where
  "as_record_body tag kvs = (case tag of
       RT_operation_started \<Rightarrow> do {
       v0 \<leftarrow> map_of kvs ''sourceLeafId'' \<bind> as_nullable;
       v1 \<leftarrow> map_of kvs ''intent'' \<bind> as_intent;
       Some (RB_operation_started v0 v1)
     }
     | RT_abort_requested \<Rightarrow> do {
       v0 \<leftarrow> map_of kvs ''runId'' \<bind> as_string;
       Some (RB_abort_requested v0)
     }
     | RT_operation_finished \<Rightarrow> do {
       v0 \<leftarrow> map_of kvs ''runId'' \<bind> as_string;
       v1 \<leftarrow> map_of kvs ''outcome'' \<bind> (as_name operation_outcome_names);
       v2 \<leftarrow> optional as_failure (map_of kvs ''error'');
       Some (RB_operation_finished v0 v1 v2)
     }
     | RT_step_attempt \<Rightarrow> do {
       v0 \<leftarrow> map_of kvs ''runId'' \<bind> as_string;
       v1 \<leftarrow> map_of kvs ''step'' \<bind> (as_name step_names);
       v2 \<leftarrow> map_of kvs ''attempt'' \<bind> as_int;
       v3 \<leftarrow> map_of kvs ''resultEntryId'' \<bind> as_string;
       v4 \<leftarrow> optional as_reason (map_of kvs ''compactionReason'');
       Some (RB_step_attempt \<lparr>sa_runId = v0, sa_step = v1, sa_attempt = v2, sa_resultEntryId = v3, sa_compactionReason = v4\<rparr>)
     }
     | RT_tool_started \<Rightarrow> do {
       v0 \<leftarrow> map_of kvs ''runId'' \<bind> as_string;
       v1 \<leftarrow> map_of kvs ''assistantEntryId'' \<bind> as_string;
       v2 \<leftarrow> map_of kvs ''toolIndex'' \<bind> as_int;
       v3 \<leftarrow> map_of kvs ''toolCallId'' \<bind> as_string;
       v4 \<leftarrow> map_of kvs ''toolName'' \<bind> as_string;
       v5 \<leftarrow> map_of kvs ''effectiveArgs'' \<bind> as_object;
       v6 \<leftarrow> map_of kvs ''resultEntryId'' \<bind> as_string;
       v7 \<leftarrow> map_of kvs ''replay'' \<bind> (as_name replay_names);
       Some (RB_tool_started \<lparr>ts_runId = v0, ts_assistantEntryId = v1, ts_toolIndex = v2, ts_toolCallId = v3, ts_toolName = v4, ts_effectiveArgs = v5, ts_resultEntryId = v6, ts_replay = v7\<rparr>)
     }
     | RT_queue_enqueued \<Rightarrow> do {
       v0 \<leftarrow> map_of kvs ''queue'' \<bind> (as_name queue_names);
       v1 \<leftarrow> optional as_string (map_of kvs ''runId'');
       v2 \<leftarrow> map_of kvs ''target'' \<bind> as_provisioned_json;
       Some (RB_queue_enqueued \<lparr>qe_queue = v0, qe_runId = v1, qe_target = v2\<rparr>)
     }
     | RT_queue_cancelled \<Rightarrow> do {
       v0 \<leftarrow> optional as_string (map_of kvs ''runId'');
       v1 \<leftarrow> map_of kvs ''entryId'' \<bind> as_string;
       Some (RB_queue_cancelled v0 v1)
     }
     | RT_write_deferred \<Rightarrow> do {
       v0 \<leftarrow> map_of kvs ''runId'' \<bind> as_string;
       v1 \<leftarrow> map_of kvs ''target'' \<bind> as_provisioned_json;
       Some (RB_write_deferred v0 v1)
     }
     | RT_usage \<Rightarrow> do {
       u \<leftarrow> map_of kvs ''usage'' \<bind> (\<lambda>v. as_object v \<bind> as_usage);
       c \<leftarrow> as_cause kvs;
       Some (RB_usage u c)
     })"

definition new_record_props :: "'a new_record_scheme \<Rightarrow> (string \<times> json option) list" where
  "new_record_props r =
     [(''type'', Some (name_in record_type_names (record_type_of r))), (''id'', Some (JStr (rc_id r))),
      (''lane'', Some (JStr (rc_lane r)))]
     @ record_body_props (rc_body r)"

definition record_fields :: "lane_record \<Rightarrow> (string \<times> json) list" where
  "record_fields r = obj (new_record_props r
     @ [(''seq'', Some (nat_json (rc_seq r))), (''timestamp'', Some (int_json (rc_timestamp r)))])"

definition as_record :: "(string \<times> json) list \<Rightarrow> lane_record option" where
  "as_record kvs = do {
     tag \<leftarrow> map_of kvs ''type'' \<bind> as_name record_type_names;
     i \<leftarrow> map_of kvs ''id'' \<bind> as_string;
     lane \<leftarrow> map_of kvs ''lane'' \<bind> as_string;
     body \<leftarrow> as_record_body tag kvs;
     n \<leftarrow> map_of kvs ''seq'' \<bind> as_nat;
     ts \<leftarrow> map_of kvs ''timestamp'' \<bind> as_int;
     Some \<lparr>rc_id = i, rc_lane = lane, rc_body = body, rc_seq = n, rc_timestamp = ts\<rparr>
   }"

text \<open>A record reads back unless its compaction reason is a value outside the three names.\<close>

fun reason_typed :: "record_body \<Rightarrow> bool" where
  "reason_typed (RB_step_attempt s) = (case sa_compactionReason s of None \<Rightarrow> True | Some r \<Rightarrow> reason_named r)"
| "reason_typed _ = True"

lemma llm_cause_name [simp]:
  "name_in llm_cause_names LC_assistant = JStr ''assistant''" "as_name llm_cause_names (JStr ''assistant'') = Some LC_assistant"
  "name_in llm_cause_names LC_compaction = JStr ''compaction''" "as_name llm_cause_names (JStr ''compaction'') = Some LC_compaction"
  "name_in llm_cause_names LC_branch_summary = JStr ''branch_summary''" "as_name llm_cause_names (JStr ''branch_summary'') = Some LC_branch_summary"
  "name_in llm_cause_names LC_deferred_fetch = JStr ''deferred_fetch''" "as_name llm_cause_names (JStr ''deferred_fetch'') = Some LC_deferred_fetch"
  by (simp_all add: name_in_def as_name_def llm_cause_names_def)

lemma record_trip:
  assumes "reason_typed (rc_body r)"
  shows "as_record (record_fields r) = Some r"
proof (cases "rc_body r")
  case (RB_step_attempt s)
  then show ?thesis using assms
    by (cases r; cases s; cases "sa_compactionReason s")
      (simp_all add: as_record_def record_fields_def new_record_props_def as_record_body_def)
next
  case (RB_usage u c)
  show ?thesis
  proof (cases c)
    case (UC_llm l run e attempt reason)
    then show ?thesis using RB_usage
      by (cases r; cases l) (simp_all add: as_record_def record_fields_def new_record_props_def
          as_record_body_def as_cause_def)
  qed (use RB_usage in \<open>cases r; simp add: as_record_def record_fields_def new_record_props_def
      as_record_body_def as_cause_def\<close>)+
qed (cases r; simp add: as_record_def record_fields_def new_record_props_def as_record_body_def)+

end
