(* ===== verification/Jsonl_Codec.thy ===== *)
theory Jsonl_Codec
  imports Record_Objects Session_State
begin

text \<open>
  The lines of a session file: \<open>packages/agent/src/harness/session/jsonl/codec.ts\<close>,
  \<open>errors.ts\<close> and \<open>types.ts\<close>. The first line is the header, every further one a mutation. The
  decoder checks only some properties and takes the rest of the object over as it is, so a
  decoded entry or record is still an object here; \<open>typed_mutation\<close> is the cast that follows in
  the source, with \<open>None\<close> for an object that is none of the type.
\<close>

section \<open>Errors\<close>

datatype decode_kind = DK_syntax | DK_schema

datatype decode_error = JsonlDecodeError decode_kind string

definition schema_error :: "string \<Rightarrow> (decode_error, 'a) result" where
  "schema_error message = Inl (JsonlDecodeError DK_schema message)"

datatype file_error_code = FE_not_found | FE_other

datatype file_error = FileError file_error_code string

definition fileResult :: "(file_error, 'a) result \<Rightarrow> string \<Rightarrow> (session_error, 'a) result" where
  "fileResult r message =
     (case r of
        Inr x \<Rightarrow> Inr x
      | Inl (FileError code m) \<Rightarrow>
          Inl (SessionError (if code = FE_not_found then SE_not_found else SE_storage) (message @ '': '' @ m)))"

definition invalidFile :: "string \<Rightarrow> nat \<Rightarrow> string \<Rightarrow> session_error" where
  "invalidFile path line message =
     SessionError SE_invalid_entry (''Invalid JSONL v4 session '' @ path @ '': line '' @ string_of_nat line @ '' '' @ message)"

section \<open>Checks of single values\<close>

type_synonym fields = "(string \<times> json) list"

definition parseObject :: "string \<Rightarrow> (decode_error, fields) result" where
  "parseObject line =
     (case json_parse line of
        None \<Rightarrow> Inl (JsonlDecodeError DK_syntax ''is not valid JSON'')
      | Some (JObj kvs) \<Rightarrow> Inr kvs
      | Some _ \<Rightarrow> schema_error ''is not a JSON object'')"

definition requireString :: "json option \<Rightarrow> string \<Rightarrow> (decode_error, string) result" where
  "requireString v field =
     (case v of Some (JStr s) \<Rightarrow> Inr s | _ \<Rightarrow> schema_error (''has invalid '' @ field))"

definition safe_integer :: "json option \<Rightarrow> int option" where
  "safe_integer v =
     (case v of
        Some (JNum q) \<Rightarrow> if of_int \<lfloor>q\<rfloor> = q \<and> \<bar>\<lfloor>q\<rfloor>\<bar> < 2 ^ 53 then Some \<lfloor>q\<rfloor> else None
      | _ \<Rightarrow> None)"

definition requireSequence :: "json option \<Rightarrow> (decode_error, nat) result" where
  "requireSequence v =
     (case safe_integer v of
        Some i \<Rightarrow> if i \<le> 0 then schema_error ''has invalid seq'' else Inr (nat i)
      | None \<Rightarrow> schema_error ''has invalid seq'')"

definition requireTimestamp :: "json option \<Rightarrow> (decode_error, int) result" where
  "requireTimestamp v =
     (case safe_integer v of
        Some i \<Rightarrow> if i < 0 then schema_error ''has invalid timestamp'' else Inr i
      | None \<Rightarrow> schema_error ''has invalid timestamp'')"

definition requireNullableId :: "json option \<Rightarrow> string \<Rightarrow> (decode_error, string option) result" where
  "requireNullableId v field =
     (case v of
        Some JNull \<Rightarrow> Inr None
      | Some (JStr s) \<Rightarrow> Inr (Some s)
      | _ \<Rightarrow> schema_error (''has invalid '' @ field))"

text \<open>An optional string: absent, or a string.\<close>

definition optionalString :: "json option \<Rightarrow> string \<Rightarrow> (decode_error, string option) result" where
  "optionalString v field =
     (case v of
        None \<Rightarrow> Inr None
      | Some (JStr s) \<Rightarrow> Inr (Some s)
      | _ \<Rightarrow> schema_error (''has invalid '' @ field))"

section \<open>The header\<close>

record jsonl_header =
  jh_id :: string
  jh_createdAt :: int
  jh_cwd :: string
  jh_parentSessionId :: "string option"
  jh_legacyParentSessionPath :: "string option"
  jh_metadata :: "fields option"

record jsonl_metadata =
  jm_id :: string
  jm_createdAt :: int
  jm_cwd :: string
  jm_path :: string
  jm_modifiedAt :: int
  jm_sourceFormat :: nat
  jm_parentSessionId :: "string option"
  jm_legacyParentSessionPath :: "string option"
  jm_metadata :: "fields option"

definition decodeHeader :: "string \<Rightarrow> (decode_error, jsonl_header) result" where
  "decodeHeader line =
     bind_result (parseObject line) (\<lambda>kvs.
     if map_of kvs ''kind'' \<noteq> Some (JStr ''header'') then schema_error ''is not a header''
     else if map_of kvs ''version'' \<noteq> Some (JNum 4) then schema_error ''has unsupported session version''
     else
     bind_result (optionalString (map_of kvs ''parentSessionId'') ''parentSessionId'') (\<lambda>parent.
     bind_result (optionalString (map_of kvs ''legacyParentSessionPath'') ''legacyParentSessionPath'') (\<lambda>legacy.
     if parent \<noteq> None \<and> legacy \<noteq> None
       then schema_error ''has both parentSessionId and legacyParentSessionPath''
     else
     bind_result (case map_of kvs ''metadata'' of None \<Rightarrow> Inr None | Some (JObj m) \<Rightarrow> Inr (Some m)
       | _ \<Rightarrow> schema_error ''has invalid metadata'') (\<lambda>metadata.
     bind_result (requireString (map_of kvs ''id'') ''id'') (\<lambda>i.
     bind_result (requireTimestamp (map_of kvs ''createdAt'')) (\<lambda>createdAt.
     bind_result (requireString (map_of kvs ''cwd'') ''cwd'') (\<lambda>cwd.
     Inr \<lparr>jh_id = i, jh_createdAt = createdAt, jh_cwd = cwd, jh_parentSessionId = parent,
          jh_legacyParentSessionPath = legacy, jh_metadata = metadata\<rparr>)))))))"

definition parseHeader :: "string \<Rightarrow> (decode_error, jsonl_header) result" where
  "parseHeader line = decodeHeader line"

definition header_fields :: "jsonl_header \<Rightarrow> fields" where
  "header_fields h = obj
     [(''kind'', Some (JStr ''header'')), (''version'', Some (JNum 4)), (''id'', Some (JStr (jh_id h))),
      (''createdAt'', Some (int_json (jh_createdAt h))), (''cwd'', Some (JStr (jh_cwd h))),
      (''parentSessionId'', map_option JStr (jh_parentSessionId h)),
      (''legacyParentSessionPath'', map_option JStr (jh_legacyParentSessionPath h)),
      (''metadata'', map_option JObj (jh_metadata h))]"

definition encodeHeader :: "jsonl_header \<Rightarrow> string" where
  "encodeHeader h = stringify (JObj (header_fields h)) @ newline"

definition metadataFromHeader :: "jsonl_header \<Rightarrow> string \<Rightarrow> int \<Rightarrow> jsonl_metadata" where
  "metadataFromHeader h path modifiedAt =
     \<lparr>jm_id = jh_id h, jm_createdAt = jh_createdAt h, jm_cwd = jh_cwd h, jm_path = path,
      jm_modifiedAt = modifiedAt, jm_sourceFormat = 4, jm_parentSessionId = jh_parentSessionId h,
      jm_legacyParentSessionPath = jh_legacyParentSessionPath h, jm_metadata = jh_metadata h\<rparr>"

section \<open>Mutations\<close>

datatype raw_mutation =
    Raw_entry "string option" fields
  | Raw_record fields
  | Raw_lane nat string "string option"
  | Raw_name nat "string option"
  | Raw_label nat string "string option"

text \<open>\<open>{ ...kvs, k: v }\<close> for several properties, and the rest of a destructuring.\<close>

definition spread :: "fields \<Rightarrow> fields \<Rightarrow> fields" where
  "spread kvs props = fold (\<lambda>(k, v). js_set k v) props kvs"

definition without :: "string list \<Rightarrow> fields \<Rightarrow> fields" where
  "without ks kvs = filter (\<lambda>(k, _). k \<notin> set ks) kvs"

definition ENTRY_TYPES :: "string list" where
  "ENTRY_TYPES = [''message'', ''model_change'', ''thinking_level_change'', ''active_tools_change'',
     ''compaction'', ''branch_summary'', ''custom'']"

definition RECORD_TYPES :: "string list" where
  "RECORD_TYPES = [''operation_started'', ''abort_requested'', ''operation_finished'', ''step_attempt'',
     ''tool_started'', ''queue_enqueued'', ''queue_cancelled'', ''write_deferred'', ''usage'']"

definition OPERATION_KINDS :: "string list" where
  "OPERATION_KINDS = [''run'', ''compaction'', ''navigation'']"

definition parseEntryMutation :: "fields \<Rightarrow> nat \<Rightarrow> (decode_error, raw_mutation) result" where
  "parseEntryMutation kvs n =
     bind_result (case map_of kvs ''lane'' of None \<Rightarrow> Inr None
       | v \<Rightarrow> map_sum id Some (requireString v ''lane'')) (\<lambda>lane.
     bind_result (requireString (map_of kvs ''id'') ''id'') (\<lambda>i.
     bind_result (requireString (map_of kvs ''type'') ''entry type'') (\<lambda>type.
     if type \<notin> set ENTRY_TYPES then schema_error (''has unknown entry type '' @ type)
     else
     bind_result (requireNullableId (map_of kvs ''parentId'') ''parentId'') (\<lambda>parentId.
     bind_result (requireTimestamp (map_of kvs ''timestamp'')) (\<lambda>timestamp.
     bind_result (if type = ''custom'' then map_sum id (\<lambda>_. ()) (requireString (map_of kvs ''customType'') ''customType'')
       else Inr ()) (\<lambda>_.
     Inr (Raw_entry lane (spread (without [''kind'', ''lane''] kvs)
       [(''id'', JStr i), (''type'', JStr type), (''parentId'', nullable_json parentId),
        (''seq'', nat_json n), (''timestamp'', int_json timestamp)]))))))))"

definition check_record_type :: "string \<Rightarrow> fields \<Rightarrow> (decode_error, unit) result" where
  "check_record_type type kvs =
     bind_result
       (if type = ''operation_started'' then
          (case map_of kvs ''intent'' of
             Some (JObj intent) \<Rightarrow>
               bind_result (requireString (map_of intent ''kind'') ''operation kind'') (\<lambda>kind.
               if kind \<in> set OPERATION_KINDS then Inr ()
               else schema_error (''has unknown operation kind '' @ kind))
           | _ \<Rightarrow> schema_error ''has invalid intent'')
        else Inr ()) (\<lambda>_.
     if type = ''operation_finished'' then map_sum id (\<lambda>_. ()) (requireString (map_of kvs ''runId'') ''runId'')
     else Inr ())"

definition parseRecordMutation :: "fields \<Rightarrow> nat \<Rightarrow> (decode_error, raw_mutation) result" where
  "parseRecordMutation kvs n =
     bind_result (requireString (map_of kvs ''id'') ''id'') (\<lambda>i.
     bind_result (requireString (map_of kvs ''lane'') ''lane'') (\<lambda>lane.
     bind_result (requireString (map_of kvs ''type'') ''record type'') (\<lambda>type.
     if type \<notin> set RECORD_TYPES then schema_error (''has unknown record type '' @ type)
     else
     bind_result (requireTimestamp (map_of kvs ''timestamp'')) (\<lambda>timestamp.
     bind_result (check_record_type type kvs) (\<lambda>_.
     Inr (Raw_record (spread (without [''kind''] kvs)
       [(''id'', JStr i), (''lane'', JStr lane), (''type'', JStr type),
        (''seq'', nat_json n), (''timestamp'', int_json timestamp)])))))))"

definition parseLaneMutation :: "fields \<Rightarrow> nat \<Rightarrow> (decode_error, raw_mutation) result" where
  "parseLaneMutation kvs n =
     bind_result (requireString (map_of kvs ''lane'') ''lane'') (\<lambda>lane.
     bind_result (requireNullableId (map_of kvs ''leafId'') ''leafId'') (\<lambda>leaf.
     Inr (Raw_lane n lane leaf)))"

definition parseFactMutation :: "fields \<Rightarrow> nat \<Rightarrow> (decode_error, raw_mutation) result" where
  "parseFactMutation kvs n =
     (if map_of kvs ''fact'' = Some (JStr ''name'') then
        bind_result (optionalString (map_of kvs ''name'') ''name'') (\<lambda>name. Inr (Raw_name n name))
      else if map_of kvs ''fact'' = Some (JStr ''label'') then
        bind_result (optionalString (map_of kvs ''label'') ''label'') (\<lambda>label.
        bind_result (requireString (map_of kvs ''targetId'') ''targetId'') (\<lambda>target.
        Inr (Raw_label n target label)))
      else schema_error ''has unknown fact type'')"

definition decodeMutation :: "string \<Rightarrow> (decode_error, raw_mutation) result" where
  "decodeMutation line =
     bind_result (parseObject line) (\<lambda>kvs.
     bind_result (requireSequence (map_of kvs ''seq'')) (\<lambda>n.
     if map_of kvs ''kind'' = Some (JStr ''entry'') then parseEntryMutation kvs n
     else if map_of kvs ''kind'' = Some (JStr ''record'') then parseRecordMutation kvs n
     else if map_of kvs ''kind'' = Some (JStr ''lane'') then parseLaneMutation kvs n
     else if map_of kvs ''kind'' = Some (JStr ''fact'') then parseFactMutation kvs n
     else schema_error ''has unknown mutation kind''))"

definition parseMutation :: "string \<Rightarrow> (decode_error, raw_mutation) result" where
  "parseMutation line = decodeMutation line"

fun typed_mutation :: "raw_mutation \<Rightarrow> session_mutation option" where
  "typed_mutation (Raw_entry lane kvs) = map_option (Mut_entry lane) (as_entry kvs)"
| "typed_mutation (Raw_record kvs) = map_option Mut_record (as_record kvs)"
| "typed_mutation (Raw_lane n lane leaf) = Some (Mut_lane n lane leaf)"
| "typed_mutation (Raw_name n name) = Some (Mut_name n name)"
| "typed_mutation (Raw_label n target label) = Some (Mut_label n target label)"

fun mutation_fields :: "session_mutation \<Rightarrow> fields" where
  "mutation_fields (Mut_entry lane e) =
     obj [(''kind'', Some (JStr ''entry'')), (''lane'', map_option JStr lane)] @ entry_fields e"
| "mutation_fields (Mut_record r) = obj [(''kind'', Some (JStr ''record''))] @ record_fields r"
| "mutation_fields (Mut_lane n lane leaf) = obj
     [(''kind'', Some (JStr ''lane'')), (''seq'', Some (nat_json n)), (''lane'', Some (JStr lane)),
      (''leafId'', Some (nullable_json leaf))]"
| "mutation_fields (Mut_name n name) = obj
     [(''kind'', Some (JStr ''fact'')), (''seq'', Some (nat_json n)), (''fact'', Some (JStr ''name'')),
      (''name'', map_option JStr name)]"
| "mutation_fields (Mut_label n target label) = obj
     [(''kind'', Some (JStr ''fact'')), (''seq'', Some (nat_json n)), (''fact'', Some (JStr ''label'')),
      (''targetId'', Some (JStr target)), (''label'', map_option JStr label)]"

definition encodeMutation :: "session_mutation \<Rightarrow> string" where
  "encodeMutation m = stringify (JObj (mutation_fields m)) @ newline"

end
