(* ===== verification/Jsonl_Storage.thy ===== *)
theory Jsonl_Storage
  imports Jsonl_Codec Session_Storage
begin

text \<open>
  The storage that keeps a session in a file:
  \<open>packages/agent/src/harness/session/jsonl/storage.ts\<close>. Each operation appends a line and then
  changes the state in memory; \<open>load\<close> replays the lines of a file and repairs a tail that a crash
  has torn; \<open>fork\<close> writes a temporary file and renames it. The file system is the record of its
  operations on a world \<open>'w\<close>; the operations of one storage wait for each other, so each runs to
  its end before the next.
\<close>

section \<open>The file system\<close>

datatype file_kind = FK_file | FK_directory | FK_symlink

record file_info =
  fi_name :: string
  fi_path :: string
  fi_kind :: file_kind
  fi_mtimeMs :: int

record 'w file_system =
  fs_absolutePath :: "string \<Rightarrow> 'w \<Rightarrow> (file_error, string) result \<times> 'w"
  fs_joinPath :: "string list \<Rightarrow> 'w \<Rightarrow> (file_error, string) result \<times> 'w"
  fs_readTextFile :: "string \<Rightarrow> 'w \<Rightarrow> (file_error, string) result \<times> 'w"
  fs_readTextLines :: "string \<Rightarrow> nat \<Rightarrow> 'w \<Rightarrow> (file_error, string list) result \<times> 'w"
  fs_writeFile :: "string \<Rightarrow> string \<Rightarrow> 'w \<Rightarrow> (file_error, unit) result \<times> 'w"
  fs_appendFile :: "string \<Rightarrow> string \<Rightarrow> 'w \<Rightarrow> (file_error, unit) result \<times> 'w"
  fs_renameFile :: "string \<Rightarrow> string \<Rightarrow> 'w \<Rightarrow> (file_error, unit) result \<times> 'w"
  fs_fileInfo :: "string \<Rightarrow> 'w \<Rightarrow> (file_error, file_info) result \<times> 'w"
  fs_listDir :: "string \<Rightarrow> 'w \<Rightarrow> (file_error, file_info list) result \<times> 'w"
  fs_exists :: "string \<Rightarrow> 'w \<Rightarrow> (file_error, bool) result \<times> 'w"
  fs_createDir :: "string \<Rightarrow> 'w \<Rightarrow> (file_error, unit) result \<times> 'w"
  fs_remove :: "string \<Rightarrow> 'w \<Rightarrow> (file_error, unit) result \<times> 'w"

text \<open>
  What a load may fail with: a session error, or a line whose object is none of the type it is
  cast to, which is outside the model.
\<close>

datatype load_error = Session_failure session_error | Foreign_object

definition file_io :: "('w, file_error, 'a) io \<Rightarrow> string \<Rightarrow> ('w, load_error, 'a) io" where
  "file_io f message w = (case f w of (r, w1) \<Rightarrow> (map_sum Session_failure id (fileResult r message), w1))"

section \<open>Storage operations\<close>

record jsonl_storage =
  jl_metadata :: jsonl_metadata
  jl_state :: session_state

type_synonym ('w, 'a) storage_result = "(session_error, 'a) result \<times> jsonl_storage \<times> 'w"

definition appendMutation ::
  "'w file_system \<Rightarrow> session_mutation \<Rightarrow> jsonl_storage \<Rightarrow> ('w, session_error, unit) io" where
  "appendMutation fs m st w =
     (case fs_appendFile fs (jm_path (jl_metadata st)) (encodeMutation m) w of
        (r, w1) \<Rightarrow> (fileResult r (''Failed to append session '' @ jm_path (jl_metadata st)), w1))"

definition commit ::
  "'w file_system \<Rightarrow> session_mutation \<Rightarrow> 'a \<Rightarrow> jsonl_storage \<Rightarrow> 'w \<Rightarrow> ('w, 'a) storage_result" where
  "commit fs m x st w =
     (case appendMutation fs m st w of
        (Inl e, w1) \<Rightarrow> (Inl e, st, w1)
      | (Inr _, w1) \<Rightarrow>
          (case applyMutation m (jl_state st) of
             Inl e \<Rightarrow> (Inl e, st, w1)
           | Inr s \<Rightarrow> (Inr x, st\<lparr>jl_state := s\<rparr>, w1)))"

definition checked ::
  "(session_error, 'b) result \<Rightarrow> ('b \<Rightarrow> jsonl_storage \<Rightarrow> 'w \<Rightarrow> ('w, 'a) storage_result)
    \<Rightarrow> jsonl_storage \<Rightarrow> 'w \<Rightarrow> ('w, 'a) storage_result" where
  "checked r k st w = (case r of Inl e \<Rightarrow> (Inl e, st, w) | Inr x \<Rightarrow> k x st w)"

definition jsonl_createLane ::
  "'w file_system \<Rightarrow> string \<Rightarrow> string option \<Rightarrow> jsonl_storage \<Rightarrow> 'w \<Rightarrow> ('w, unit) storage_result" where
  "jsonl_createLane fs lane leaf st =
     (let s = jl_state st in
      checked (validateNewLane s lane) (\<lambda>_.
      checked (validateTarget s leaf) (\<lambda>_.
      commit fs (Mut_lane (nextSequence s) lane leaf) ())) st)"

definition jsonl_moveLane ::
  "'w file_system \<Rightarrow> string \<Rightarrow> string option \<Rightarrow> jsonl_storage \<Rightarrow> 'w \<Rightarrow> ('w, unit) storage_result" where
  "jsonl_moveLane fs lane leaf st =
     (let s = jl_state st in
      checked (requireLane s lane) (\<lambda>_.
      checked (validateTarget s leaf) (\<lambda>_.
      commit fs (Mut_lane (nextSequence s) lane leaf) ())) st)"

definition jsonl_appendEntry ::
  "'w file_system \<Rightarrow> provisioned_entry \<Rightarrow> string \<Rightarrow> int \<Rightarrow> jsonl_storage \<Rightarrow> 'w \<Rightarrow> ('w, entry) storage_result" where
  "jsonl_appendEntry fs newEntry lane now st =
     (let s = jl_state st in
      checked (requireLane s lane) (\<lambda>parentId.
      checked (validateUnusedId s (en_id newEntry)) (\<lambda>_.
      let e = provisioned_entry.extend newEntry (entry.fields (nextSequence s) parentId now)
      in commit fs (Mut_entry (Some lane) e) e)) st)"

definition jsonl_appendRecord ::
  "'w file_system \<Rightarrow> new_record \<Rightarrow> int \<Rightarrow> jsonl_storage \<Rightarrow> 'w \<Rightarrow> ('w, lane_record) storage_result" where
  "jsonl_appendRecord fs newRecord now st =
     (let s = jl_state st in
      checked (requireLane s (rc_lane newRecord)) (\<lambda>_.
      checked (validateUnusedId s (rc_id newRecord)) (\<lambda>_.
      checked (findOpenOperations s (rc_lane newRecord) (Some 1)) (\<lambda>open_ops.
      if record_type_of newRecord = RT_operation_started \<and> open_ops \<noteq> []
        then (\<lambda>st w. (Inl (SessionError SE_storage (''Lane '' @ rc_lane newRecord @
               '' already has an open operation '' @ rc_id (hd open_ops))), st, w))
      else (let r = new_record.extend newRecord (lane_record.fields (nextSequence s) now)
            in commit fs (Mut_record r) r)))) st)"

definition jsonl_setName ::
  "'w file_system \<Rightarrow> string option \<Rightarrow> jsonl_storage \<Rightarrow> 'w \<Rightarrow> ('w, unit) storage_result" where
  "jsonl_setName fs name st = commit fs (Mut_name (nextSequence (jl_state st)) name) () st"

definition jsonl_setLabel ::
  "'w file_system \<Rightarrow> string \<Rightarrow> string option \<Rightarrow> jsonl_storage \<Rightarrow> 'w \<Rightarrow> ('w, unit) storage_result" where
  "jsonl_setLabel fs i label st =
     (let s = jl_state st in
      checked (validateTarget s (Some i)) (\<lambda>_.
      commit fs (Mut_label (nextSequence s) i label) ()) st)"

section \<open>Files\<close>

definition new_jsonl_storage :: "jsonl_metadata \<Rightarrow> jsonl_storage" where
  "new_jsonl_storage md = \<lparr>jl_metadata = md, jl_state = initial_state\<rparr>"

definition jsonl_create ::
  "'w file_system \<Rightarrow> string \<Rightarrow> jsonl_header \<Rightarrow> ('w, load_error, jsonl_storage) io" where
  "jsonl_create fs path header =
     io_bind (file_io (fs_writeFile fs path (encodeHeader header)) (''Failed to initialize session '' @ path)) (\<lambda>_.
     io_bind (file_io (fs_fileInfo fs path) (''Failed to read session metadata '' @ path)) (\<lambda>info.
     io_return (new_jsonl_storage (metadataFromHeader header path (fi_mtimeMs info)))))"

definition publishFileAtomically ::
  "'w file_system \<Rightarrow> string \<Rightarrow> (string \<Rightarrow> ('w, load_error, unit) io) \<Rightarrow> ('w, load_error, unit) io" where
  "publishFileAtomically fs destination populate w =
     (let temp = destination @ ''.tmp'' in
      case io_bind (populate temp) (\<lambda>_.
        file_io (fs_renameFile fs temp destination) (''Failed to publish staged file '' @ destination)) w of
        (Inr u, w1) \<Rightarrow> (Inr u, w1)
      | (Inl e, w1) \<Rightarrow> (Inl e, snd (fs_remove fs temp w1)))"

fun split_lines :: "string \<Rightarrow> string list" where
  "split_lines [] = [[]]"
| "split_lines (c # s) =
     (if c = CHR 0x0A then [] # split_lines s
      else (case split_lines s of [] \<Rightarrow> [[c]] | l # ls \<Rightarrow> (c # l) # ls))"

definition physical_lines :: "string \<Rightarrow> string list" where
  "physical_lines content =
     (let ls = split_lines content in if last ls = [] then butlast ls else ls)"

text \<open>
  The replay of the lines behind the header: the index of a torn last line, if there is one, and
  the state.
\<close>

fun load_lines ::
  "string \<Rightarrow> nat \<Rightarrow> string list \<Rightarrow> session_state \<Rightarrow> (load_error, nat option \<times> session_state) result" where
  "load_lines path index [] s = Inr (None, s)"
| "load_lines path index (line # rest) s =
     (case parseMutation line of
        Inl (JsonlDecodeError kind message) \<Rightarrow>
          if rest = [] \<and> kind = DK_syntax then Inr (Some index, s)
          else Inl (Session_failure (invalidFile path (index + 1) message))
      | Inr raw \<Rightarrow>
          (case typed_mutation raw of
             None \<Rightarrow> Inl Foreign_object
           | Some m \<Rightarrow>
               (case applyMutation m s of
                  Inr s1 \<Rightarrow> load_lines path (index + 1) rest s1
                | Inl e \<Rightarrow> Inl (Session_failure
                    (if error_code e = SE_invalid_entry then invalidFile path (index + 1) (error_message e) else e)))))"

definition repair_tail ::
  "'w file_system \<Rightarrow> string \<Rightarrow> string list \<Rightarrow> nat option \<Rightarrow> string \<Rightarrow> ('w, load_error, unit) io" where
  "repair_tail fs path lines torn content =
     (case torn of
        Some index \<Rightarrow>
          publishFileAtomically fs path (\<lambda>temp.
            file_io (fs_writeFile fs temp (js_join newline (take index lines) @ newline))
              (''Failed to stage torn-tail repair '' @ path))
      | None \<Rightarrow>
          if suffix newline content then io_return ()
          else file_io (fs_appendFile fs path newline) (''Failed to repair unterminated session tail '' @ path))"

definition jsonl_load :: "'w file_system \<Rightarrow> string \<Rightarrow> ('w, load_error, jsonl_storage) io" where
  "jsonl_load fs path =
     io_bind (file_io (fs_readTextFile fs path) (''Failed to read session '' @ path)) (\<lambda>content.
     let lines = physical_lines content in
     if lines = [] \<or> hd lines = [] then io_throw (Session_failure (invalidFile path 1 ''is missing a header''))
     else (case parseHeader (hd lines) of
        Inl (JsonlDecodeError _ message) \<Rightarrow> io_throw (Session_failure (invalidFile path 1 message))
      | Inr header \<Rightarrow>
          io_bind (file_io (fs_fileInfo fs path) (''Failed to read session metadata '' @ path)) (\<lambda>info.
          io_bind (io_result (load_lines path 1 (tl lines) initial_state)) (\<lambda>(torn, s).
          io_bind (repair_tail fs path lines torn content) (\<lambda>_.
          io_return \<lparr>jl_metadata = metadataFromHeader header path (fi_mtimeMs info), jl_state = s\<rparr>)))))"

text \<open>The mutations of a fork go through the storage of the temporary file.\<close>

fun append_mutations ::
  "'w file_system \<Rightarrow> session_mutation list \<Rightarrow> jsonl_storage \<Rightarrow> ('w, load_error, unit) io" where
  "append_mutations fs [] st w = (Inr (), w)"
| "append_mutations fs (m # ms) st w =
     (case commit fs m () st w of
        (Inl e, st1, w1) \<Rightarrow> (Inl (Session_failure e), w1)
      | (Inr _, st1, w1) \<Rightarrow> append_mutations fs ms st1 w1)"

definition jsonl_fork ::
  "'w file_system \<Rightarrow> string \<Rightarrow> jsonl_header \<Rightarrow> fork_options \<Rightarrow> jsonl_storage \<Rightarrow> ('w, load_error, jsonl_storage) io" where
  "jsonl_fork fs path header opts st =
     io_bind (io_result (map_sum Session_failure id (createForkMutations (jl_state st) opts))) (\<lambda>mutations.
     io_bind (publishFileAtomically fs path (\<lambda>temp.
       io_bind (jsonl_create fs temp header) (append_mutations fs mutations))) (\<lambda>_.
     jsonl_load fs path))"

end
