(* ===== verification/Json_Round_Trip.thy ===== *)
theory Json_Round_Trip
  imports Json_Text
begin

text \<open>
  What \<open>JSON.stringify\<close> prints, \<open>JSON.parse\<close> reads back; a printed text has no line break; and no
  proper prefix of a printed object is a JSON text.
\<close>

section \<open>Digits\<close>

lemma nat_of_digits_append:
  "nat_of_digits (xs @ ys) = nat_of_digits xs * 10 ^ length ys + nat_of_digits ys"
proof (induction ys rule: rev_induct)
  case Nil
  then show ?case by (simp add: nat_of_digits_def)
next
  case (snoc y ys)
  have "nat_of_digits (zs @ [y]) = 10 * nat_of_digits zs + (of_char y - 48)" for zs
    by (simp add: nat_of_digits_def)
  from this[of "xs @ ys"] this[of ys] snoc.IH show ?case by (simp add: algebra_simps)
qed

lemma nat_of_zeros: "nat_of_digits (replicate n CHR ''0'') = 0"
  by (induction n) (simp_all add: nat_of_digits_def)

lemma nat_of_zero [simp]: "nat_of_digits ''0'' = 0" "nat_of_digits [] = 0"
  by (simp_all add: nat_of_digits_def)

lemma string_of_nat_zero: "string_of_nat 0 = ''0''"
  by (subst string_of_nat.simps) (simp add: digit_char_def, code_simp)

lemma digit_char_is_digit: "d < 10 \<Longrightarrow> is_digit (digit_char d)"
  by (simp add: is_digit_def digit_char_def)

lemma string_of_nat_is_digits: "list_all is_digit (string_of_nat n)"
  using string_of_nat_digits[of n] digit_char_is_digit by (fastforce simp: list_all_iff)

lemma string_of_nat_nonempty [simp]: "string_of_nat n \<noteq> []"
  by (subst string_of_nat.simps) auto

lemma digit_char_zero: "d < 10 \<Longrightarrow> digit_char d = CHR ''0'' \<Longrightarrow> d = 0"
proof -
  assume d: "d < 10" and "digit_char d = CHR ''0''"
  then have "of_char (char_of (48 + d)) = (48::nat)" by (simp add: digit_char_def)
  with d show "d = 0" by simp
qed

lemma string_of_nat_leading: "0 < n \<Longrightarrow> hd (string_of_nat n) \<noteq> CHR ''0''"
proof (induction n rule: string_of_nat.induct)
  case (1 n)
  show ?case
  proof (cases "n < 10")
    case True
    then show ?thesis using digit_char_zero[of n] "1.prems" by (subst string_of_nat.simps) auto
  next
    case False
    then have "hd (string_of_nat (n div 10)) \<noteq> CHR ''0''" using "1.IH" by simp
    then show ?thesis using False by (subst string_of_nat.simps) (simp add: hd_append)
  qed
qed

section \<open>Numbers\<close>

lemma decimal_places_dvd: "decimal_places d = Some k \<Longrightarrow> 0 < d \<Longrightarrow> d dvd 10 ^ k"
proof (induction d arbitrary: k rule: decimal_places.induct)
  case (1 d)
  show ?case
  proof (cases "d \<le> 1")
    case True
    with "1.prems" have "d = 1" by linarith
    then show ?thesis by simp
  next
    case False
    with "1.prems" obtain j where j: "gcd d 10 \<noteq> 1" "decimal_places (d div gcd d 10) = Some j" "k = Suc j"
      by (subst (asm) decimal_places.simps) (auto split: if_splits)
    moreover have "0 < d div gcd d 10" using "1.prems" by (simp add: div_greater_zero_iff)
    ultimately have "d div gcd d 10 dvd 10 ^ j" using "1.IH" False by simp
    then have "gcd d 10 * (d div gcd d 10) dvd 10 * 10 ^ j" by (rule mult_dvd_mono[rotated]) simp
    then show ?thesis using j by simp
  qed
qed

lemma decimal_places_one: "decimal_places (Suc 0) = Some 0"
  by (subst decimal_places.simps) simp

definition parts_ok :: "number_parts \<Rightarrow> bool" where
  "parts_ok p \<longleftrightarrow> list_all is_digit (np_integer p @ np_fraction p) \<and> np_integer p \<noteq> [] \<and>
     (np_integer p = ''0'' \<or> hd (np_integer p) \<noteq> CHR ''0'')"

lemma strip_zeros_split: "\<exists>j. ds = strip_zeros ds @ replicate j CHR ''0''"
proof (induction ds rule: strip_zeros.induct)
  case (1 ds)
  show ?case
  proof (cases "ds \<noteq> [] \<and> last ds = CHR ''0''")
    case True
    with "1.IH" obtain j where "butlast ds = strip_zeros (butlast ds) @ replicate j CHR ''0''" by auto
    then have "ds = strip_zeros ds @ replicate (Suc j) CHR ''0''"
      using True append_butlast_last_id[of ds]
      by (subst strip_zeros.simps) (metis append.assoc replicate_append_same replicate_Suc)
    then show ?thesis by blast
  next
    case False
    then have "ds = strip_zeros ds @ replicate 0 CHR ''0''" by (subst strip_zeros.simps) auto
    then show ?thesis by blast
  qed
qed

lemma split_digits_ok:
  assumes split: "split_digits k (string_of_nat m) = (i, f, e)" and pos: "0 < k \<Longrightarrow> 0 < m"
  shows "parts_ok \<lparr>np_negative = neg, np_integer = i, np_fraction = f, np_exponent = e\<rparr>"
    and "of_nat (nat_of_digits (i @ f)) * 10 powi ((case e of None \<Rightarrow> 0 | Some e \<Rightarrow> e) - int (length f))
      = (of_nat m * 10 powi (- int k) :: rat)"
proof -
  define ds where "ds = string_of_nat m"
  define n where "n = int (length ds) - int k"
  have digits: "list_all is_digit ds" and num: "nat_of_digits ds = m" and ne: "ds \<noteq> []"
    by (simp_all add: ds_def string_of_nat_is_digits nat_of_string_of_nat)
  have lead: "hd ds \<noteq> CHR ''0''" if "0 < m" using that by (simp add: ds_def string_of_nat_leading)
  have zero: "ds = ''0''" if "m = 0" using that
    by (simp add: ds_def string_of_nat_zero)
  let ?P = "parts_ok \<lparr>np_negative = neg, np_integer = i, np_fraction = f, np_exponent = e\<rparr> \<and>
    of_nat (nat_of_digits (i @ f)) * 10 powi ((case e of None \<Rightarrow> 0 | Some e \<Rightarrow> e) - int (length f))
      = (of_nat m * 10 powi (- int k) :: rat)"
  consider (whole) "k = 0" "n \<le> 21" | (point) "0 < k" "0 < n" "n \<le> 21" | (small) "- 6 < n" "n \<le> 0"
    | (exponent) "n \<le> - 6 \<or> 21 < n" by linarith
  then have ?P
  proof cases
    case whole
    then have "i = ds" "f = []" "e = None"
      using split unfolding split_digits_def ds_def[symmetric] n_def[symmetric] by auto
    with whole show ?thesis using digits ne lead zero by (cases "m = 0") (auto simp: parts_ok_def num)
  next
    case point
    then have p: "i = take (nat n) ds" "f = drop (nat n) ds" "e = None"
      using split unfolding split_digits_def ds_def[symmetric] n_def[symmetric] by auto
    from point n_def have "nat n < length ds" "0 < nat n" by linarith+
    moreover from point n_def this have "int (length ds - nat n) = int k" by linarith
    ultimately show ?thesis using p digits ne lead pos point num
      by (auto simp: parts_ok_def hd_take list_all_iff dest: in_set_takeD in_set_dropD)
  next
    case small
    then have k: "0 < k" using ne n_def by (cases ds) auto
    with small have p: "i = ''0''" "f = replicate (nat (- n)) CHR ''0'' @ ds" "e = None"
      using split unfolding split_digits_def ds_def[symmetric] n_def[symmetric] by auto
    have "int (length f) = int k" using p small n_def by simp
    moreover have "nat_of_digits (i @ f) = m" by (simp only: p nat_of_digits_append nat_of_zeros num) simp
    moreover have "list_all is_digit (i @ f)" using digits p by (auto simp: list_all_iff is_digit_def)
    ultimately show ?thesis using p by (simp add: parts_ok_def)
  next
    case exponent
    have m: "0 < m"
    proof (rule ccontr)
      assume "\<not> 0 < m"
      then have "ds = ''0''" "k = 0" using zero pos by auto
      with exponent n_def show False by simp
    qed
    define t where "t = strip_zeros ds"
    obtain j where j: "ds = t @ replicate j CHR ''0''" using strip_zeros_split t_def by blast
    have tne: "t \<noteq> []" using lead[OF m] j ne by (cases j) auto
    have "\<not> (k = 0 \<and> n \<le> 21)" using exponent n_def by auto
    with exponent have p: "i = take 1 t" "f = drop 1 t" "e = Some (n - 1)"
      using split unfolding split_digits_def ds_def[symmetric] n_def[symmetric] t_def[symmetric] Let_def by auto
    have t: "list_all is_digit t" "hd t \<noteq> CHR ''0''" using digits j lead[OF m] tne by (auto simp: hd_append)
    have m_eq: "m = nat_of_digits t * 10 ^ j"
      using num j by (simp add: nat_of_digits_append nat_of_zeros)
    have "n - 1 - int (length f) = int j - int k" using p(2) n_def j tne by (cases t) auto
    moreover have "(10::rat) powi (int j - int k) = 10 ^ j * 10 powi (- int k)"
      by (simp add: power_int_diff power_int_minus field_simps)
    ultimately have "of_nat (nat_of_digits (i @ f)) * 10 powi ((case e of None \<Rightarrow> 0 | Some e \<Rightarrow> e) - int (length f))
      = (of_nat m * 10 powi (- int k) :: rat)"
      using p by (simp add: m_eq del: One_nat_def)
    moreover have "parts_ok \<lparr>np_negative = neg, np_integer = i, np_fraction = f, np_exponent = e\<rparr>"
      using p t tne by (cases t) (auto simp: parts_ok_def)
    ultimately show ?thesis by blast
  qed
  then show "parts_ok \<lparr>np_negative = neg, np_integer = i, np_fraction = f, np_exponent = e\<rparr>"
    "of_nat (nat_of_digits (i @ f)) * 10 powi ((case e of None \<Rightarrow> 0 | Some e \<Rightarrow> e) - int (length f))
      = (of_nat m * 10 powi (- int k) :: rat)" by blast+
qed

lemma number_parts_ok:
  assumes "number_parts q = Some p"
  shows "parts_ok p" and "parts_value p = q"
proof -
  obtain a b where ab: "quotient_of q = (a, b)" by force
  then have b: "0 < b" and q: "q = of_int a / of_int b" and cop: "coprime a b"
    by (auto simp: quotient_of_denom_pos quotient_of_div quotient_of_coprime)
  obtain k where k: "decimal_places (nat b) = Some k" using assms ab by (auto simp: number_parts_def)
  define m where "m = nat \<bar>a\<bar> * 10 ^ k div nat b"
  obtain i f e where split: "split_digits k (string_of_nat m) = (i, f, e)" by (metis prod_cases3)
  have p: "p = \<lparr>np_negative = a < 0, np_integer = i, np_fraction = f, np_exponent = e\<rparr>"
    using assms ab k split by (simp add: number_parts_def m_def)
  have "nat b dvd nat \<bar>a\<bar> * 10 ^ k" using decimal_places_dvd[OF k] b by simp
  then have mb: "m * nat b = nat \<bar>a\<bar> * 10 ^ k" by (simp add: m_def)
  have pos: "0 < m" if "0 < k"
  proof -
    have "a \<noteq> 0"
    proof
      assume "a = 0"
      with cop b have "b = 1" by simp
      then have "k = 0" using k decimal_places_one by simp
      with that show False by simp
    qed
    then have "0 < nat \<bar>a\<bar> * 10 ^ k" by simp
    with mb show ?thesis by (metis gr0I mult_is_0)
  qed
  show "parts_ok p" using split_digits_ok(1)[OF split pos] p by simp
  have "of_nat m * of_int b = (of_int \<bar>a\<bar> * 10 ^ k :: rat)"
  proof -
    have "of_nat (m * nat b) = (of_nat (nat \<bar>a\<bar> * 10 ^ k) :: rat)" using mb by simp
    then show ?thesis using b by simp
  qed
  then have "of_nat m * 10 powi (- int k) = (of_int \<bar>a\<bar> / of_int b :: rat)"
    using b by (simp add: power_int_minus field_simps)
  then have "parts_value p = (if a < 0 then - 1 else 1) * (of_int \<bar>a\<bar> / of_int b)"
    using split_digits_ok(2)[OF split pos] p by (simp add: parts_value_def mult.assoc)
  then show "parts_value p = q" using q by auto
qed

text \<open>The rest after a number starts with none of its characters.\<close>

definition stops :: "string \<Rightarrow> bool" where
  "stops s \<longleftrightarrow> (case s of [] \<Rightarrow> True
     | c # _ \<Rightarrow> \<not> is_digit c \<and> c \<noteq> CHR ''.'' \<and> c \<noteq> CHR ''e'' \<and> c \<noteq> CHR ''E'')"

lemma read_digits_append:
  assumes "list_all is_digit ds" and "s = [] \<or> \<not> is_digit (hd s)"
  shows "read_digits (ds @ s) = (ds, s)"
proof -
  have "takeWhile is_digit s = []" "dropWhile is_digit s = s"
    using assms(2) by (cases s; simp)+
  with assms(1) show ?thesis by (simp add: read_digits_def list_all_iff)
qed

lemma stops_no_digit: "stops s \<Longrightarrow> s = [] \<or> \<not> is_digit (hd s)"
  by (cases s) (simp_all add: stops_def)

lemma digit_simps [simp]:
  "\<not> is_digit CHR ''.''" "\<not> is_digit CHR ''e''" "\<not> is_digit CHR ''E''" "\<not> is_digit CHR ''-''"
  "\<not> is_digit CHR ''+''" "\<not> is_digit CHR '',''" "\<not> is_digit CHR '']''" "\<not> is_digit CHR ''}''"
  by (simp_all add: is_digit_def)

lemma exponent_no_digit:
  "stops s \<Longrightarrow> print_exponent e @ s = [] \<or> \<not> is_digit (hd (print_exponent e @ s))"
  using stops_no_digit[of s] by (cases e) (simp_all add: print_exponent_def)

lemma exponent_no_point:
  "stops s \<Longrightarrow> print_exponent e @ s = [] \<or> hd (print_exponent e @ s) \<noteq> CHR ''.''"
  by (cases e; cases s) (simp_all add: print_exponent_def stops_def)

lemma read_exponent_print:
  assumes "stops s"
  shows "read_exponent (print_exponent e @ s) = Some (e, s)"
proof (cases e)
  case None
  then show ?thesis using assms by (cases s) (simp_all add: print_exponent_def read_exponent_def stops_def)
next
  case (Some n)
  have "read_digits (string_of_nat (nat \<bar>n\<bar>) @ s) = (string_of_nat (nat \<bar>n\<bar>), s)"
    by (rule read_digits_append) (simp_all add: string_of_nat_is_digits stops_no_digit assms)
  then show ?thesis using Some
    by (cases "n < 0") (simp_all add: print_exponent_def read_exponent_def nat_of_string_of_nat)
qed

lemma read_fraction_print:
  assumes "list_all is_digit f" and "stops s"
  shows "read_fraction ((if f = [] then [] else CHR ''.'' # f) @ print_exponent e @ s) = Some (f, print_exponent e @ s)"
proof (cases "f = []")
  case True
  then show ?thesis using exponent_no_point[OF assms(2), of e]
    by (cases "print_exponent e @ s") (simp_all add: read_fraction_def)
next
  case False
  then show ?thesis
    using read_digits_append[OF assms(1) exponent_no_digit[OF assms(2), of e]]
    by (simp add: read_fraction_def)
qed

lemma read_integer_print:
  assumes "list_all is_digit i" "i \<noteq> []" "i = ''0'' \<or> hd i \<noteq> CHR ''0''" and "s = [] \<or> \<not> is_digit (hd s)"
  shows "read_integer (i @ s) = Some (i, s)"
  using assms read_digits_append[OF assms(1,4)]
  by (cases i) (auto simp: read_integer_def)

lemma read_number_parts:
  assumes "parts_ok p" and "stops s"
  shows "read_number (print_parts p @ s) = Some (parts_value p, s)"
proof -
  let ?frac = "(if np_fraction p = [] then [] else CHR ''.'' # np_fraction p) @ print_exponent (np_exponent p) @ s"
  have ok: "list_all is_digit (np_integer p)" "list_all is_digit (np_fraction p)" "np_integer p \<noteq> []"
    "np_integer p = ''0'' \<or> hd (np_integer p) \<noteq> CHR ''0''"
    using assms(1) by (auto simp: parts_ok_def)
  have "?frac = [] \<or> \<not> is_digit (hd ?frac)"
    using exponent_no_digit[OF assms(2), of "np_exponent p"] by simp
  note int = read_integer_print[OF ok(1,3,4) this]
  have "hd (np_integer p @ ?frac) \<noteq> CHR ''-''" using ok(1,3) by (cases "np_integer p") auto
  then have "read_number (print_parts p @ s) = Some (parts_value \<lparr>np_negative = np_negative p,
      np_integer = np_integer p, np_fraction = np_fraction p, np_exponent = np_exponent p\<rparr>, s)"
    using int read_fraction_print[OF ok(2) assms(2), of "np_exponent p"] read_exponent_print[OF assms(2), of "np_exponent p"]
      ok(3)
    by (cases "np_negative p") (simp_all add: read_number_def print_parts_def Let_def)
  then show ?thesis by (cases p) simp
qed

lemma number_ok_parts:
  assumes "number_ok q" obtains p where "number_parts q = Some p"
  using assms by (auto simp: number_ok_def number_parts_def case_prod_beta)

lemma read_number_print:
  assumes "number_ok q" and "stops s"
  shows "read_number (print_number q @ s) = Some (q, s)"
proof -
  obtain p where "number_parts q = Some p" using number_ok_parts[OF assms(1)] .
  with number_parts_ok[OF this] read_number_parts[OF _ assms(2)] show ?thesis
    by (simp add: print_number_def)
qed

lemma print_number_start:
  assumes "number_ok q"
  shows "\<exists>c t. print_number q = c # t \<and> (is_digit c \<or> c = CHR ''-'')"
proof -
  obtain p where p: "number_parts q = Some p" using number_ok_parts[OF assms] .
  with number_parts_ok(1)[OF p] show ?thesis
    by (cases "np_integer p") (auto simp: print_number_def print_parts_def parts_ok_def)
qed

section \<open>Strings\<close>

lemma hex_value_digit: "d < 16 \<Longrightarrow> hex_value (hex_digit d) = Some d"
  by (auto simp: hex_value_def hex_digit_def Let_def)

lemma named_codes:
  "of_char c = (34::nat) \<longleftrightarrow> c = CHR 0x22" "of_char c = (92::nat) \<longleftrightarrow> c = CHR 0x5C"
  "of_char c = (8::nat) \<longleftrightarrow> c = CHR 0x08" "of_char c = (9::nat) \<longleftrightarrow> c = CHR 0x09"
  "of_char c = (10::nat) \<longleftrightarrow> c = CHR 0x0A" "of_char c = (12::nat) \<longleftrightarrow> c = CHR 0x0C"
  "of_char c = (13::nat) \<longleftrightarrow> c = CHR 0x0D"
  by (subst of_char_eq_iff[symmetric, where 'a = nat], simp)+

lemma read_escaped:
  "read_chars (escape_char c @ s) = cons_read (Some c) (read_chars s)"
proof -
  let ?n = "of_char c :: nat"
  consider (named) "?n \<in> {34, 92, 8, 9, 10, 12, 13}" | (control) "?n < 32" "?n \<notin> {8, 9, 10, 12, 13}"
    | (plain) "32 \<le> ?n" "?n \<notin> {34, 92}" by force
  then show ?thesis
  proof cases
    case named
    then have "c \<in> {CHR 0x22, CHR 0x5C, CHR 0x08, CHR 0x09, CHR 0x0A, CHR 0x0C, CHR 0x0D}"
      by (auto simp: named_codes)
    then obtain e where "escape_char c = [CHR 0x5C, e]" "e \<noteq> CHR ''u''" "simple_escape e = Some c"
      by (elim insertE emptyE) (simp_all add: escape_char_def simple_escape_def)
    then show ?thesis by simp
  next
    case control
    then have "unicode_escape [CHR ''0'', CHR ''0'', hex_digit (?n div 16), hex_digit (?n mod 16)] = Some c"
      by (simp add: unicode_escape_def hex_value_digit Let_def) (simp add: hex_value_def Let_def)
    then show ?thesis using control by (simp add: escape_char_def Let_def)
  next
    case plain
    then have "c \<noteq> CHR 0x22" "c \<noteq> CHR 0x5C" by auto
    then show ?thesis using plain by (simp add: escape_char_def Let_def)
  qed
qed

lemma read_string: "read_chars (concat (map escape_char s) @ CHR 0x22 # r) = Some (s, r)"
  by (induction s) (simp_all add: read_escaped cons_read_def)

section \<open>Values\<close>

declare read_chars.simps [simp del]

lemma skip_space_stay [simp]: "\<not> is_space c \<Longrightarrow> skip_space (c # s) = c # s"
  by (simp add: skip_space_def)

lemma not_space [simp]:
  "\<not> is_space CHR ''{''" "\<not> is_space CHR ''}''" "\<not> is_space CHR ''[''" "\<not> is_space CHR '']''"
  "\<not> is_space CHR '',''" "\<not> is_space CHR '':''" "\<not> is_space CHR 0x22" "\<not> is_space CHR ''t''"
  "\<not> is_space CHR ''f''" "\<not> is_space CHR ''n''" "\<not> is_space CHR ''-''"
  by (simp_all add: is_space_def)

lemma digit_not_space: "is_digit c \<Longrightarrow> \<not> is_space c"
  by (auto simp: is_digit_def is_space_def)

lemma digit_not_mark:
  "is_digit c \<or> c = CHR ''-'' \<Longrightarrow> c \<notin> {CHR ''{'', CHR ''}'', CHR ''['', CHR '']'', CHR 0x22, CHR ''t'', CHR ''f'', CHR ''n'', CHR '',''}"
  by (auto simp: is_digit_def)

definition value_start :: "string \<Rightarrow> bool" where
  "value_start s \<longleftrightarrow> s \<noteq> [] \<and> \<not> is_space (hd s) \<and> hd s \<noteq> CHR '']'' \<and> hd s \<noteq> CHR ''}''"

lemma value_start_simps [simp]:
  "value_start (c # s) \<longleftrightarrow> \<not> is_space c \<and> c \<noteq> CHR '']'' \<and> c \<noteq> CHR ''}''"
  by (simp add: value_start_def)

lemma stringify_start: "json_ok v \<Longrightarrow> value_start (stringify v)"
proof (cases v)
  case (JNum q)
  assume "json_ok v"
  then have "number_ok q" using JNum by simp
  then obtain c t where ct: "stringify v = c # t" and c: "is_digit c \<or> c = CHR ''-''"
    using print_number_start[of q] JNum by fastforce
  have "\<not> is_space c" using c digit_not_space[of c] by (elim disjE) simp_all
  then show ?thesis using digit_not_mark[OF c] by (simp add: ct)
next
  case (JBool b)
  then show ?thesis by (cases b) simp_all
qed (simp_all add: print_string_def)

lemma print_members_start: "kvs \<noteq> [] \<Longrightarrow> \<exists>t. print_members kvs = CHR 0x22 # t"
  by (cases kvs) (auto simp: print_string_def)

lemma print_items_start:
  assumes "vs \<noteq> []" "list_all json_ok vs"
  obtains c t where "print_items vs = c # t" "\<not> is_space c" "c \<noteq> CHR '']''"
proof -
  from assms obtain v ws where vs: "vs = v # ws" "json_ok v" by (cases vs) auto
  obtain c t where ct: "stringify v = c # t"
    using stringify_start[OF vs(2)] by (cases "stringify v") (simp_all add: value_start_def)
  moreover from this have "\<not> is_space c" "c \<noteq> CHR '']''"
    using stringify_start[OF vs(2)] by simp_all
  ultimately show thesis by (intro that[of c "t @ (if ws = [] then [] else CHR '','' # print_items ws)"])
      (simp_all add: vs(1))
qed

lemma read_value_number:
  assumes "number_ok q" "stops s"
  shows "read_value (Suc n) (print_number q @ s) = Some (JNum q, s)"
proof -
  obtain c t where ct: "print_number q = c # t" "is_digit c \<or> c = CHR ''-''"
    using print_number_start[OF assms(1)] by blast
  then have "\<not> is_space c" using digit_not_space[of c] by auto
  with ct digit_not_mark[OF ct(2)] read_number_print[OF assms] show ?thesis by simp
qed

lemma stops_mark [simp]: "stops (CHR '','' # s)" "stops (CHR '']'' # s)" "stops (CHR ''}'' # s)" "stops []"
  by (simp_all add: stops_def)

lemma read_print:
  "json_ok v \<Longrightarrow> stops s \<Longrightarrow> length (stringify v) \<le> f \<Longrightarrow> read_value f (stringify v @ s) = Some (v, s)"
  "list_all json_ok vs \<Longrightarrow> vs \<noteq> [] \<Longrightarrow> length (print_items vs) < f \<Longrightarrow>
     read_items f acc (print_items vs @ CHR '']'' # s) = Some (JArr (acc @ vs), s)"
  "list_all (\<lambda>(_, v). json_ok v) kvs \<Longrightarrow> kvs \<noteq> [] \<Longrightarrow> js_keys (ms @ kvs) \<Longrightarrow> length (print_members kvs) < f \<Longrightarrow>
     read_members f ms (print_members kvs @ CHR ''}'' # s) = Some (JObj (ms @ kvs), s)"
proof (induction v and vs and kvs arbitrary: f s and f s acc and f s ms
    rule: stringify_print_items_print_members.induct)
  case 1
  then show ?case by (cases f) (simp_all add: read_word_def)
next
  case (2 b)
  then show ?case by (cases f; cases b) (simp_all add: read_word_def)
next
  case (3 q)
  from print_number_start 3 obtain c t where "print_number q = c # t" by fastforce
  then obtain n where "f = Suc n" using 3 by (cases f) auto
  then show ?case using read_value_number 3 by simp
next
  case (4 s)
  then show ?case by (cases f) (simp_all add: print_string_def read_string)
next
  case (5 vs)
  then obtain n where f: "f = Suc n" by (cases f) auto
  show ?case
  proof (cases "vs = []")
    case True
    then show ?thesis by (simp add: f)
  next
    case False
    obtain c t where ct: "print_items vs = c # t" "\<not> is_space c" "c \<noteq> CHR '']''"
      using print_items_start[OF False] 5 by auto
    have "read_items n [] (print_items vs @ CHR '']'' # s) = Some (JArr vs, s)"
      using "5.IH"[where f = n and acc = "[]" and s = s] 5 False f by simp
    then show ?thesis using ct by (simp add: f)
  qed
next
  case (6 kvs)
  then obtain n where f: "f = Suc n" by (cases f) auto
  show ?case
  proof (cases "kvs = []")
    case True
    then show ?thesis by (simp add: f)
  next
    case False
    obtain t where ct: "print_members kvs = CHR 0x22 # t" using print_members_start[OF False] by blast
    have "read_members n [] (print_members kvs @ CHR ''}'' # s) = Some (JObj kvs, s)"
      using "6.IH"[where ms = "[]" and f = n and s = s] 6 False f by simp
    then show ?thesis using ct by (simp add: f)
  qed
next
  case (8 v vs)
  then obtain n where f: "f = Suc n" by (cases f) auto
  show ?case
  proof (cases "vs = []")
    case True
    then show ?thesis using "8.IH"(1)[where s = "CHR '']'' # s" and f = n] 8 f by simp
  next
    case False
    then show ?thesis using "8.IH"(1)[where s = "CHR '','' # print_items vs @ CHR '']'' # s" and f = n]
      "8.IH"(2)[where f = n and s = s and acc = "acc @ [v]"] 8 f by simp
  qed
next
  case (10 k v kvs)
  then obtain n where f: "f = Suc n" by (cases f) auto
  have set: "js_set k v ms = ms @ [(k, v)]"
    using 10 by (intro js_set_last) (auto simp: sorted_wrt_append)
  have key: "print_string k @ r = CHR 0x22 # concat (map escape_char k) @ CHR 0x22 # r" for r
    by (simp add: print_string_def)
  show ?case
  proof (cases "kvs = []")
    case True
    then show ?thesis using "10.IH"(1)[where s = "CHR ''}'' # s" and f = n] 10 f
      by (simp add: key read_string set)
  next
    case False
    then show ?thesis using "10.IH"(1)[where s = "CHR '','' # print_members kvs @ CHR ''}'' # s" and f = n]
      "10.IH"(2)[where ms = "ms @ [(k, v)]" and f = n and s = s] 10 f by (simp add: key read_string set)
  qed
qed simp_all

lemma parse_stringify: "json_ok v \<Longrightarrow> json_parse (stringify v) = Some v"
  using read_print(1)[of v "[]" "Suc (2 * length (stringify v))"]
  by (simp add: json_parse_def skip_space_def)

section \<open>A printed text has no line break\<close>

lemma escape_char_visible: "c' \<in> set (escape_char c) \<Longrightarrow> 32 \<le> (of_char c' :: nat)"
  by (auto simp: escape_char_def hex_digit_def Let_def split: if_splits)

lemma print_string_visible: "c \<in> set (print_string s) \<Longrightarrow> 32 \<le> (of_char c :: nat)"
  using escape_char_visible by (auto simp: print_string_def)

lemma digits_visible: "list_all is_digit ds \<Longrightarrow> c \<in> set ds \<Longrightarrow> 32 \<le> (of_char c :: nat)"
  by (auto simp: list_all_iff is_digit_def)

lemma print_number_visible: "c \<in> set (print_number q) \<Longrightarrow> 32 \<le> (of_char c :: nat)"
proof (cases "number_parts q")
  case (Some p)
  assume c: "c \<in> set (print_number q)"
  have "list_all is_digit (np_integer p)" "list_all is_digit (np_fraction p)"
    using number_parts_ok(1)[OF Some] by (auto simp: parts_ok_def)
  then show ?thesis using c Some digits_visible string_of_nat_is_digits
    by (auto simp: print_number_def print_parts_def print_exponent_def split: if_splits option.splits)
qed (auto simp: print_number_def)

lemma stringify_visible:
  "c \<in> set (stringify v) \<Longrightarrow> 32 \<le> (of_char c :: nat)"
  "c \<in> set (print_items vs) \<Longrightarrow> 32 \<le> (of_char c :: nat)"
  "c \<in> set (print_members kvs) \<Longrightarrow> 32 \<le> (of_char c :: nat)"
  by (induction v and vs and kvs rule: stringify_print_items_print_members.induct)
    (auto simp: print_number_visible print_string_visible split: if_splits)

lemma stringify_one_line: "CHR 0x0A \<notin> set (stringify v)"
  using stringify_visible(1)[of "CHR 0x0A" v] by auto

end
