(* ===== verification/Json_Prefix.thy ===== *)
theory Json_Prefix
  imports Json_Round_Trip
begin

text \<open>
  How readings extend: with more fuel, and with text that follows. Hence no proper prefix of a
  printed object is a JSON text, which is what a torn line of a session file is.
\<close>

section \<open>Reading does not depend on the fuel\<close>

lemma dropWhile_shorter: "length (dropWhile P s) \<le> length s"
  by (metis dropWhile_eq_drop length_drop diff_le_self)

lemma skip_space_shorter: "skip_space s = t \<Longrightarrow> length t \<le> length s"
  using dropWhile_shorter by (auto simp: skip_space_def)

text \<open>How a successful reading of characters begins.\<close>

lemma read_chars_cases:
  assumes "read_chars s = Some (k, r)"
  obtains (closed) "s = CHR 0x22 # r" "k = []"
  | (unicode) t c k' where "s = CHR 0x5C # CHR ''u'' # t" "4 \<le> length t" "unicode_escape (take 4 t) = Some c"
      "read_chars (drop 4 t) = Some (k', r)" "k = c # k'"
  | (escape) e t c k' where "s = CHR 0x5C # e # t" "e \<noteq> CHR ''u''" "simple_escape e = Some c"
      "read_chars t = Some (k', r)" "k = c # k'"
  | (plain) c t k' where "s = c # t" "c \<noteq> CHR 0x22" "c \<noteq> CHR 0x5C" "32 \<le> (of_char c :: nat)"
      "read_chars t = Some (k', r)" "k = c # k'"
proof (cases s)
  case Nil
  then show ?thesis using assms by (simp add: read_chars.simps)
next
  case (Cons c t)
  then have eq: "read_chars (c # t) = Some (k, r)" using assms by simp
  show ?thesis
  proof (cases "c = CHR 0x22")
    case True
    then show ?thesis using eq Cons closed by (simp add: read_chars.simps)
  next
    case not_quote: False
    show ?thesis
    proof (cases "c = CHR 0x5C")
      case True
      with eq obtain e u where t: "t = e # u" by (cases t) (simp_all add: read_chars.simps)
      show ?thesis
      proof (cases "e = CHR ''u''")
        case True
        then show ?thesis using eq Cons t \<open>c = CHR 0x5C\<close> unicode[of u]
          by (auto simp: read_chars.simps(2)[of "CHR 0x5C"] cons_read_def split: if_splits option.splits)
      next
        case False
        then show ?thesis using eq Cons t \<open>c = CHR 0x5C\<close> escape[of e u]
          by (auto simp: read_chars.simps(2)[of "CHR 0x5C"] cons_read_def split: if_splits option.splits)
      qed
    next
      case False
      then show ?thesis using eq Cons not_quote plain[of c t]
        by (auto simp: read_chars.simps(2)[of c t] cons_read_def split: if_splits)
    qed
  qed
qed

lemma read_chars_shorter: "read_chars s = Some (k, r) \<Longrightarrow> length r < length s"
proof (induction s arbitrary: k rule: measure_induct_rule[of length])
  case (less s)
  from less.prems show ?case
  proof (cases rule: read_chars_cases)
    case (unicode t c k')
    then have "length r < length (drop 4 t)" by (intro less.IH) simp_all
    then show ?thesis by (simp add: unicode)
  next
    case (escape e t c k')
    then show ?thesis using less.IH[of t k'] by simp
  next
    case (plain c t k')
    then show ?thesis using less.IH[of t k'] by simp
  qed simp
qed

lemma read_chars_append: "read_chars s = Some (k, r) \<Longrightarrow> read_chars (s @ q) = Some (k, r @ q)"
proof (induction s arbitrary: k rule: measure_induct_rule[of length])
  case (less s)
  from less.prems show ?case
  proof (cases rule: read_chars_cases)
    case closed
    then show ?thesis by (simp add: read_chars.simps)
  next
    case (unicode t c k')
    then show ?thesis using less.IH[of "drop 4 t" k'] by (simp add: read_chars.simps cons_read_def)
  next
    case (escape e t c k')
    then show ?thesis using less.IH[of t k'] by (simp add: read_chars.simps cons_read_def)
  next
    case (plain c t k')
    then show ?thesis using less.IH[of t k'] by (simp add: read_chars.simps cons_read_def)
  qed
qed

lemma read_digits_shorter: "read_digits s = (ds, r) \<Longrightarrow> length r \<le> length s"
  using dropWhile_shorter by (auto simp: read_digits_def)

lemma read_integer_shorter: "read_integer s = Some (i, r) \<Longrightarrow> length r < length s"
  by (cases s) (auto simp: read_integer_def read_digits_def less_Suc_eq_le intro: dropWhile_shorter split: if_splits)

lemma read_fraction_shorter: "read_fraction s = Some (f, r) \<Longrightarrow> length r \<le> length s"
  by (cases s) (auto simp: read_fraction_def read_digits_def intro: le_SucI dropWhile_shorter split: if_splits)

lemma read_exponent_shorter: "read_exponent s = Some (e, r) \<Longrightarrow> length r \<le> length s"
  by (cases s) (auto simp: read_exponent_def read_digits_def Let_def intro: le_SucI dropWhile_shorter
      split: if_splits list.splits)

lemma read_number_shorter:
  assumes "read_number s = Some (x, r)"
  shows "length r < length s"
proof -
  let ?s = "if s \<noteq> [] \<and> hd s = CHR ''-'' then tl s else s"
  from assms obtain i r1 f r2 e where "read_integer ?s = Some (i, r1)" "read_fraction r1 = Some (f, r2)"
    "read_exponent r2 = Some (e, r)"
    by (auto simp: read_number_def Let_def bind_eq_Some_conv)
  then have "length r < length ?s"
    using read_integer_shorter read_fraction_shorter read_exponent_shorter by (meson le_less_trans le_trans)
  then show ?thesis by (auto split: if_splits)
qed

lemma read_word_shorter: "w \<noteq> [] \<Longrightarrow> read_word w v s = Some (x, r) \<Longrightarrow> length r < length s"
  by (cases w; cases s) (auto simp: read_word_def split: if_splits)

lemma skip_space_cons: "skip_space s = c # t \<Longrightarrow> length t < length s"
  using skip_space_shorter[of s "c # t"] by simp

lemma read_value_cases:
  assumes "read_value f s = Some (v, r)"
  obtains
    (empty_object) n t where "f = Suc n" "skip_space s = CHR ''{'' # t" "skip_space t = CHR ''}'' # r" "v = JObj []"
  | (object) n t d u where "f = Suc n" "skip_space s = CHR ''{'' # t" "skip_space t = d # u" "d \<noteq> CHR ''}''"
      "read_members n [] (d # u) = Some (v, r)"
  | (empty_array) n t where "f = Suc n" "skip_space s = CHR ''['' # t" "skip_space t = CHR '']'' # r" "v = JArr []"
  | (array) n t d u where "f = Suc n" "skip_space s = CHR ''['' # t" "skip_space t = d # u" "d \<noteq> CHR '']''"
      "read_items n [] (d # u) = Some (v, r)"
  | (string) n t k where "f = Suc n" "skip_space s = CHR 0x22 # t" "read_chars t = Some (k, r)" "v = JStr k"
  | (literal) n c t w where "f = Suc n" "skip_space s = w @ r" "w @ r = c # t" "w \<noteq> []"
      "(w, v) \<in> {(''true'', JBool True), (''false'', JBool False), (''null'', JNull)}"
  | (number) n c t x where "f = Suc n" "skip_space s = c # t"
      "c \<notin> {CHR ''{'', CHR ''['', CHR 0x22, CHR ''t'', CHR ''f'', CHR ''n''}"
      "read_number (c # t) = Some (x, r)" "v = JNum x"
proof -
  from assms obtain n where f: "f = Suc n" by (cases f) auto
  with assms obtain c t where ct: "skip_space s = c # t" by (cases "skip_space s") auto
  note eq = assms[unfolded f, simplified, unfolded ct, simplified]
  have word: "c # t = w @ r \<and> v = x" if "read_word w x (c # t) = Some (v, r)" for w x
    using that by (auto simp: read_word_def split: if_splits) (metis append_take_drop_id)
  consider "c = CHR ''{''" | "c = CHR ''[''" | "c = CHR 0x22" | "c = CHR ''t''" | "c = CHR ''f''" | "c = CHR ''n''"
    | "c \<notin> {CHR ''{'', CHR ''['', CHR 0x22, CHR ''t'', CHR ''f'', CHR ''n''}" by blast
  then show thesis
  proof cases
    case 1
    with eq obtain d u where "skip_space t = d # u" by (cases "skip_space t") simp_all
    with 1 eq ct f empty_object object show thesis by (cases "d = CHR ''}''") simp_all
  next
    case 2
    with eq obtain d u where "skip_space t = d # u" by (cases "skip_space t") simp_all
    with 2 eq ct f empty_array array show thesis by (cases "d = CHR '']''") simp_all
  next
    case 3
    with eq ct f string show thesis by (cases "read_chars t") auto
  next
    case 4
    then have "c # t = ''true'' @ r \<and> v = JBool True" using eq by (intro word) simp
    with ct f literal[of n "''true''" c t] show thesis by simp
  next
    case 5
    then have "c # t = ''false'' @ r \<and> v = JBool False" using eq by (intro word) simp
    with ct f literal[of n "''false''" c t] show thesis by simp
  next
    case 6
    then have "c # t = ''null'' @ r \<and> v = JNull" using eq by (intro word) simp
    with ct f literal[of n "''null''" c t] show thesis by simp
  next
    case 7
    with eq ct f number[of n c t] show thesis by (cases "read_number (c # t)") auto
  qed
qed

lemma read_items_cases:
  assumes "read_items f acc s = Some (v, r)"
  obtains
    (last) n x r1 where "f = Suc n" "read_value n s = Some (x, r1)" "skip_space r1 = CHR '']'' # r" "v = JArr (acc @ [x])"
  | (more) n x r1 t where "f = Suc n" "read_value n s = Some (x, r1)" "skip_space r1 = CHR '','' # t"
      "read_items n (acc @ [x]) t = Some (v, r)"
proof -
  from assms obtain n where f: "f = Suc n" by (cases f) auto
  from assms[unfolded f, simplified] obtain x r1 where x: "read_value n s = Some (x, r1)"
    by (auto simp: bind_eq_Some_conv)
  note eq = assms[unfolded f, simplified, unfolded x, simplified]
  then obtain c t where ct: "skip_space r1 = c # t" by (cases "skip_space r1") simp_all
  with eq f x last more show thesis by (simp split: if_splits)
qed

lemma read_members_cases:
  assumes "read_members f ms s = Some (v, r)"
  obtains
    (last) n s1 k s2 s3 x s4 where "f = Suc n" "skip_space s = CHR 0x22 # s1" "read_chars s1 = Some (k, s2)"
      "skip_space s2 = CHR '':'' # s3" "read_value n s3 = Some (x, s4)" "skip_space s4 = CHR ''}'' # r"
      "v = JObj (js_set k x ms)"
  | (more) n s1 k s2 s3 x s4 t where "f = Suc n" "skip_space s = CHR 0x22 # s1" "read_chars s1 = Some (k, s2)"
      "skip_space s2 = CHR '':'' # s3" "read_value n s3 = Some (x, s4)" "skip_space s4 = CHR '','' # t"
      "read_members n (js_set k x ms) t = Some (v, r)"
proof -
  from assms obtain n where f: "f = Suc n" by (cases f) auto
  note eq = assms[unfolded f, simplified]
  from eq obtain s1 where s1: "skip_space s = CHR 0x22 # s1" by (cases "skip_space s") (simp_all split: if_splits)
  note eq = eq[unfolded s1, simplified]
  from eq obtain k s2 where k: "read_chars s1 = Some (k, s2)" by (auto simp: bind_eq_Some_conv)
  note eq = eq[unfolded k, simplified]
  from eq obtain s3 where s3: "skip_space s2 = CHR '':'' # s3" by (cases "skip_space s2") (simp_all split: if_splits)
  note eq = eq[unfolded s3, simplified]
  from eq obtain x s4 where x: "read_value n s3 = Some (x, s4)" by (auto simp: bind_eq_Some_conv)
  note eq = eq[unfolded x, simplified]
  then obtain c t where ct: "skip_space s4 = c # t" by (cases "skip_space s4") simp_all
  with eq f s1 k s3 x last more show thesis by (simp split: if_splits)
qed

lemma read_shorter:
  "read_value f s = Some (v, r) \<Longrightarrow> length r < length s"
  "read_items f acc s = Some (v, r) \<Longrightarrow> length r < length s"
  "read_members f ms s = Some (v, r) \<Longrightarrow> length r < length s"
proof (induction f arbitrary: s v r acc ms)
  case (Suc f)
  {
    case 1
    then show ?case
    proof (cases rule: read_value_cases)
      case (object n t d u)
      then show ?thesis using Suc.IH(3)[of "[]" "d # u" v r] skip_space_cons[of t d u] skip_space_cons[of s] by force
    next
      case (array n t d u)
      then show ?thesis using Suc.IH(2)[of "[]" "d # u" v r] skip_space_cons[of t d u] skip_space_cons[of s] by force
    next
      case (string n t k)
      then show ?thesis using read_chars_shorter[of t k r] skip_space_cons[of s] by force
    next
      case (literal n c t w)
      have "length w + length r \<le> length s"
        using skip_space_shorter[OF literal(2)] by (simp only: length_append)
      moreover have "0 < length w" using literal(4) by simp
      ultimately show ?thesis by linarith
    next
      case (number n c t x)
      then show ?thesis using read_number_shorter[of "c # t" x r] skip_space_shorter[of s "c # t"] by simp
    qed (drule skip_space_cons, drule skip_space_cons, simp)+
  next
    case 2
    then show ?case
    proof (cases rule: read_items_cases)
      case (last n x r1)
      then show ?thesis using Suc.IH(1)[of s x r1] skip_space_cons[of r1] by force
    next
      case (more n x r1 t)
      then show ?thesis using Suc.IH(1)[of s x r1] Suc.IH(2)[of "acc @ [x]" t v r] skip_space_cons[of r1] by force
    qed
  next
    case 3
    then show ?case
    proof (cases rule: read_members_cases)
      case (last n s1 k s2 s3 x s4)
      then show ?thesis using Suc.IH(1)[of s3 x s4] skip_space_cons[of s] skip_space_cons[of s2] skip_space_cons[of s4]
        read_chars_shorter[of s1 k s2] by force
    next
      case (more n s1 k s2 s3 x s4 t)
      then show ?thesis using Suc.IH(1)[of s3 x s4] Suc.IH(3)[of "js_set k x ms" t v r] skip_space_cons[of s]
        skip_space_cons[of s2] skip_space_cons[of s4] read_chars_shorter[of s1 k s2] by force
    qed
  }
qed simp_all

text \<open>More fuel than twice the length changes nothing.\<close>

lemma read_more_fuel:
  "read_value f s = Some (v, r) \<Longrightarrow> f \<le> g \<Longrightarrow> read_value g s = Some (v, r)"
  "read_items f acc s = Some (v, r) \<Longrightarrow> f \<le> g \<Longrightarrow> read_items g acc s = Some (v, r)"
  "read_members f ms s = Some (v, r) \<Longrightarrow> f \<le> g \<Longrightarrow> read_members g ms s = Some (v, r)"
proof (induction f arbitrary: g s v r acc ms)
  case (Suc f)
  {
    case 1
    then obtain h where g: "g = Suc h" "f \<le> h" by (cases g) auto
    from 1(1) show ?case
    proof (cases rule: read_value_cases)
      case (object n t d u)
      then show ?thesis using Suc.IH(3)[of "[]" "d # u" v r h] g by simp
    next
      case (array n t d u)
      then show ?thesis using Suc.IH(2)[of "[]" "d # u" v r h] g by simp
    next
      case (literal n c t w)
      then show ?thesis using 1(1) g by (auto split: if_splits)
    next
      case (number n c t x)
      then show ?thesis using g by simp
    qed (use g in simp_all)
  next
    case 2
    then obtain h where g: "g = Suc h" "f \<le> h" by (cases g) auto
    from 2(1) show ?case
    proof (cases rule: read_items_cases)
      case (last n x r1)
      then show ?thesis using Suc.IH(1)[of s x r1 h] g by simp
    next
      case (more n x r1 t)
      then show ?thesis using Suc.IH(1)[of s x r1 h] Suc.IH(2)[of "acc @ [x]" t v r h] g by simp
    qed
  next
    case 3
    then obtain h where g: "g = Suc h" "f \<le> h" by (cases g) auto
    from 3(1) show ?case
    proof (cases rule: read_members_cases)
      case (last n s1 k s2 s3 x s4)
      then show ?thesis using Suc.IH(1)[of s3 x s4 h] g by simp
    next
      case (more n s1 k s2 s3 x s4 t)
      then show ?thesis using Suc.IH(1)[of s3 x s4 h] Suc.IH(3)[of "js_set k x ms" t v r h] g by simp
    qed
  }
qed simp_all

lemma read_enough_fuel:
  "read_value g s = Some (v, r) \<Longrightarrow> 2 * length s < f \<Longrightarrow> read_value f s = Some (v, r)"
  "read_items g acc s = Some (v, r) \<Longrightarrow> 2 * length s + 1 < f \<Longrightarrow> read_items f acc s = Some (v, r)"
  "read_members g ms s = Some (v, r) \<Longrightarrow> 2 * length s < f \<Longrightarrow> read_members f ms s = Some (v, r)"
proof (induction f arbitrary: g s v r acc ms)
  case (Suc f)
  {
    case 1
    from 1(1) show ?case
    proof (cases rule: read_value_cases)
      case (object n t d u)
      with 1(2) Suc.IH(3)[of n "[]" "d # u" v r] skip_space_cons[of s] skip_space_shorter[of t "d # u"]
      have "read_members f [] (d # u) = Some (v, r)" by simp
      with object show ?thesis by simp
    next
      case (array n t d u)
      with 1(2) Suc.IH(2)[of n "[]" "d # u" v r] skip_space_cons[of s] skip_space_shorter[of t "d # u"]
      have "read_items f [] (d # u) = Some (v, r)" by simp
      with array show ?thesis by simp
    next
      case (literal n c t w)
      then show ?thesis using 1(1) by (auto split: if_splits)
    next
      case (number n c t x)
      then show ?thesis by simp
    qed simp_all
  next
    case 2
    from 2(1) show ?case
    proof (cases rule: read_items_cases)
      case (last n x r1)
      then show ?thesis using Suc.IH(1)[of n s x r1] 2(2) by simp
    next
      case (more n x r1 t)
      then have "length t + 2 \<le> length s"
        using read_shorter(1)[of n s x r1] skip_space_cons[of r1] by force
      then show ?thesis using more Suc.IH(1)[of n s x r1] Suc.IH(2)[of n "acc @ [x]" t v r] 2(2) by simp
    qed
  next
    case 3
    from 3(1) show ?case
    proof (cases rule: read_members_cases)
      case (last n s1 k s2 s3 x s4)
      then have "length s3 + 3 \<le> length s"
        using read_chars_shorter[of s1 k s2] skip_space_cons[of s] skip_space_cons[of s2] by force
      then show ?thesis using last Suc.IH(1)[of n s3 x s4] 3(2) by simp
    next
      case (more n s1 k s2 s3 x s4 t)
      then have "length s3 + 3 \<le> length s" "length t + 2 \<le> length s3"
        using read_chars_shorter[of s1 k s2] skip_space_cons[of s] skip_space_cons[of s2]
          read_shorter(1)[of n s3 x s4] skip_space_cons[of s4] by force+
      then show ?thesis using more Suc.IH(1)[of n s3 x s4] Suc.IH(3)[of n "js_set k x ms" t v r] 3(2) by simp
    qed
  }
qed simp_all

section \<open>Reading does not depend on what follows\<close>

lemma skip_space_append: "skip_space s = c # t \<Longrightarrow> skip_space (s @ q) = c # t @ q"
  by (induction s) (auto simp: skip_space_def split: if_splits)

lemma read_digits_more: "read_digits s = (ds, r) \<Longrightarrow> r \<noteq> [] \<Longrightarrow> read_digits (s @ q) = (ds, r @ q)"
  by (induction s arbitrary: ds) (auto simp: read_digits_def split: if_splits)

lemma read_integer_more: "read_integer s = Some (i, r) \<Longrightarrow> r \<noteq> [] \<Longrightarrow> read_integer (s @ q) = Some (i, r @ q)"
  using read_digits_more[of s i r q] by (cases s) (auto simp: read_integer_def split: if_splits)

lemma read_fraction_more: "read_fraction s = Some (f, r) \<Longrightarrow> r \<noteq> [] \<Longrightarrow> read_fraction (s @ q) = Some (f, r @ q)"
  using read_digits_more[of "tl s" f r q] by (cases s) (auto simp: read_fraction_def split: if_splits)

lemma read_exponent_more:
  "read_exponent s = Some (e, r) \<Longrightarrow> r \<noteq> [] \<Longrightarrow> read_exponent (s @ q) = Some (e, r @ q)"
  using read_digits_more[of "tl s" _ r q] read_digits_more[of "tl (tl s)" _ r q]
  by (cases s) (auto simp: read_exponent_def Let_def split: if_splits list.splits prod.splits)

lemma read_number_more:
  assumes "read_number s = Some (x, r)" and "r \<noteq> []"
  shows "read_number (s @ q) = Some (x, r @ q)"
proof -
  let ?neg = "\<lambda>s. s \<noteq> [] \<and> hd s = CHR ''-''"
  let ?s = "\<lambda>s. if ?neg s then tl s else s"
  from assms(1) obtain i r1 f r2 e where parts: "read_integer (?s s) = Some (i, r1)" "read_fraction r1 = Some (f, r2)"
    "read_exponent r2 = Some (e, r)"
    and x: "x = parts_value \<lparr>np_negative = ?neg s, np_integer = i, np_fraction = f, np_exponent = e\<rparr>"
    by (auto simp: read_number_def Let_def bind_eq_Some_conv)
  have r2: "r2 \<noteq> []" using read_exponent_shorter[OF parts(3)] assms(2) by auto
  then have r1: "r1 \<noteq> []" using read_fraction_shorter[OF parts(2)] by auto
  have "s \<noteq> []" using read_number_shorter[OF assms(1)] by auto
  then have "?neg (s @ q) = ?neg s" "?s (s @ q) = ?s s @ q" by auto
  then show ?thesis
    using read_integer_more[OF parts(1) r1, of q] read_fraction_more[OF parts(2) r2, of q]
      read_exponent_more[OF parts(3) assms(2), of q]
    by (simp add: read_number_def Let_def x)
qed

lemma read_more:
  "read_value f s = Some (v, r) \<Longrightarrow> r \<noteq> [] \<or> (\<exists>t. skip_space s = CHR ''{'' # t) \<Longrightarrow>
     read_value f (s @ q) = Some (v, r @ q)"
  "read_items f acc s = Some (v, r) \<Longrightarrow> read_items f acc (s @ q) = Some (v, r @ q)"
  "read_members f ms s = Some (v, r) \<Longrightarrow> read_members f ms (s @ q) = Some (v, r @ q)"
proof (induction f arbitrary: s v r acc ms)
  case (Suc f)
  {
    case 1
    from 1(1) show ?case
    proof (cases rule: read_value_cases)
      case (empty_object n t)
      then show ?thesis by (simp add: skip_space_append)
    next
      case (object n t d u)
      then show ?thesis using Suc.IH(3)[of "[]" "d # u" v r] by (simp add: skip_space_append)
    next
      case (empty_array n t)
      then show ?thesis by (simp add: skip_space_append)
    next
      case (array n t d u)
      then show ?thesis using Suc.IH(2)[of "[]" "d # u" v r] by (simp add: skip_space_append)
    next
      case (string n t k)
      then show ?thesis by (simp add: skip_space_append read_chars_append)
    next
      case (literal n c t w)
      from literal(2,3) have "skip_space (s @ q) = c # t @ q" by (intro skip_space_append) simp
      also have "\<dots> = w @ r @ q" using literal(3) by (metis append.assoc append_Cons)
      finally have "skip_space (s @ q) = w @ r @ q" .
      with literal(5) show ?thesis by (elim insertE emptyE) (simp_all add: read_word_def)
    next
      case (number n c t x)
      then have "r \<noteq> []" using 1(2) by auto
      with number show ?thesis
        using read_number_more[of "c # t" x r q] by (simp add: skip_space_append)
    qed
  next
    case 2
    from 2(1) show ?case
    proof (cases rule: read_items_cases)
      case (last n x r1)
      then have "r1 \<noteq> []" by (auto simp: skip_space_def)
      with last Suc.IH(1)[of s x r1] show ?thesis by (simp add: skip_space_append)
    next
      case (more n x r1 t)
      then have "r1 \<noteq> []" by (auto simp: skip_space_def)
      with more Suc.IH(1)[of s x r1] Suc.IH(2)[of "acc @ [x]" t v r] show ?thesis
        by (simp add: skip_space_append)
    qed
  next
    case 3
    from 3(1) show ?case
    proof (cases rule: read_members_cases)
      case (last n s1 k s2 s3 x s4)
      then have "s4 \<noteq> []" by (auto simp: skip_space_def)
      with last Suc.IH(1)[of s3 x s4] show ?thesis by (simp add: skip_space_append read_chars_append)
    next
      case (more n s1 k s2 s3 x s4 t)
      then have "s4 \<noteq> []" by (auto simp: skip_space_def)
      with more Suc.IH(1)[of s3 x s4] Suc.IH(3)[of "js_set k x ms" t v r] show ?thesis
        by (simp add: skip_space_append read_chars_append)
    qed
  }
qed simp_all

lemma parse_proper_prefix:
  assumes ok: "json_ok (JObj kvs)" and cut: "stringify (JObj kvs) = p @ q" and "q \<noteq> []"
  shows "json_parse p = None"
proof (rule ccontr)
  assume "json_parse p \<noteq> None"
  then obtain v r where read: "read_value (Suc (2 * length p)) p = Some (v, r)"
    by (auto simp: json_parse_def bind_eq_Some_conv split: if_splits)
  then have "p \<noteq> []" by (auto simp: skip_space_def)
  with cut obtain t where "p = CHR ''{'' # t" by (cases p) auto
  then have "read_value (Suc (2 * length p)) (p @ q) = Some (v, r @ q)"
    using read_more(1)[OF read] by simp
  then have "read_value (Suc (2 * length (p @ q))) (p @ q) = Some (v, r @ q)"
    by (rule read_more_fuel(1)) simp
  moreover have "read_value (Suc (2 * length (p @ q))) (p @ q) = Some (JObj kvs, [])"
    using read_print(1)[OF ok, of "[]" "Suc (2 * length (p @ q))"]
    by (simp add: cut del: read_value.simps stringify.simps)
  ultimately show False using \<open>q \<noteq> []\<close> by simp
qed

end
