(* ===== verification/Jsonl_Lines.thy ===== *)
theory Jsonl_Lines
  imports Jsonl_Codec Json_Prefix
begin

text \<open>
  What a written line reads back as. A mutation can be stored when its object is a JSON value with
  proper numbers, its sequence number and its timestamp are in the range the decoder accepts, and
  its compaction reason is one of the three.
\<close>

fun mutation_timestamp :: "session_mutation \<Rightarrow> int" where
  "mutation_timestamp (Mut_entry _ e) = en_timestamp e"
| "mutation_timestamp (Mut_record r) = rc_timestamp r"
| "mutation_timestamp _ = 0"

fun mutation_reason_ok :: "session_mutation \<Rightarrow> bool" where
  "mutation_reason_ok (Mut_record r) = reason_typed (rc_body r)"
| "mutation_reason_ok _ = True"

definition storable :: "session_mutation \<Rightarrow> bool" where
  "storable m \<longleftrightarrow> json_ok (JObj (mutation_fields m)) \<and> 0 < mutation_seq m \<and> int (mutation_seq m) < 2 ^ 53 \<and>
     0 \<le> mutation_timestamp m \<and> mutation_timestamp m < 2 ^ 53 \<and> mutation_reason_ok m"

definition mutation_line :: "session_mutation \<Rightarrow> string" where
  "mutation_line m = stringify (JObj (mutation_fields m))"

lemma encodeMutation_line: "encodeMutation m = mutation_line m @ newline"
  by (simp add: encodeMutation_def mutation_line_def)

lemma mutation_line_no_newline: "CHR 0x0A \<notin> set (mutation_line m)"
  unfolding mutation_line_def by (rule stringify_one_line)

lemma parseObject_line: "json_ok (JObj kvs) \<Longrightarrow> parseObject (stringify (JObj kvs)) = Inr kvs"
  using parse_stringify[of "JObj kvs"] by (simp add: parseObject_def del: stringify.simps)

section \<open>Reading properties back\<close>

lemma js_set_same: "map_of kvs k = Some v \<Longrightarrow> js_set k v kvs = kvs"
  by (simp add: js_set_def update_triv)

lemma spread_same: "list_all (\<lambda>(k, v). map_of kvs k = Some v) props \<Longrightarrow> spread kvs props = kvs"
  unfolding spread_def by (induction props) (auto simp: js_set_same)

lemma map_of_without: "map_of (without ks kvs) k = (if k \<in> set ks then None else map_of kvs k)"
  by (induction kvs) (auto simp: without_def)

lemma without_append: "without ks (xs @ ys) = without ks xs @ without ks ys"
  by (simp add: without_def)

lemma without_obj: "without ks (obj l) = obj (filter (\<lambda>(k, _). k \<notin> set ks) l)"
  by (induction l) (auto simp: without_def obj_def map_filter_simps split: option.splits)

lemma require_simps [simp]:
  "requireString (Some (JStr s)) f = Inr s"
  "requireNullableId (Some (nullable_json p)) f = Inr p"
  "optionalString (map_option JStr p) f = Inr p"
  by (simp_all add: requireString_def requireNullableId_def nullable_json_def optionalString_def split: option.splits)

lemma requireTimestamp_json [simp]:
  "0 \<le> t \<Longrightarrow> t < 2 ^ 53 \<Longrightarrow> requireTimestamp (Some (int_json t)) = Inr t"
  by (simp add: requireTimestamp_def safe_integer_def int_json_def)

lemma requireSequence_json [simp]:
  "0 < n \<Longrightarrow> int n < 2 ^ 53 \<Longrightarrow> requireSequence (Some (nat_json n)) = Inr n"
  by (simp add: requireSequence_def safe_integer_def nat_json_def int_json_def)

section \<open>Entries\<close>

lemma entry_property:
  "map_of (entry_fields e) ''type'' = Some (name_in entry_type_names (entry_type_of e))"
  "map_of (entry_fields e) ''id'' = Some (JStr (en_id e))"
  "map_of (entry_fields e) ''parentId'' = Some (nullable_json (en_parentId e))"
  "map_of (entry_fields e) ''seq'' = Some (nat_json (en_seq e))"
  "map_of (entry_fields e) ''timestamp'' = Some (int_json (en_timestamp e))"
  "map_of (entry_fields e) ''kind'' = None" "map_of (entry_fields e) ''lane'' = None"
  by (cases "en_body e"; simp add: entry_fields_def provisioned_props_def stored_entry_props_def)+

lemma entry_without: "without [''kind'', ''lane''] (entry_fields e) = entry_fields e"
  by (cases "en_body e") (simp_all add: entry_fields_def provisioned_props_def stored_entry_props_def without_obj)

lemma entry_type_named: "\<exists>t. name_in entry_type_names ty = JStr t \<and> t \<in> set ENTRY_TYPES"
  by (cases ty) (simp_all add: name_in_def entry_type_names_def ENTRY_TYPES_def)

lemma custom_type:
  "name_in entry_type_names (entry_type_of e) = JStr ''custom'' \<Longrightarrow> \<exists>c. map_of (entry_fields e) ''customType'' = Some (JStr c)"
  by (cases "en_body e")
    (simp_all add: name_in_def entry_type_names_def entry_fields_def provisioned_props_def)

lemma parse_entry:
  assumes "0 \<le> en_timestamp e" "en_timestamp e < 2 ^ 53"
  shows "parseEntryMutation (mutation_fields (Mut_entry lane e)) (en_seq e) = Inr (Raw_entry lane (entry_fields e))"
proof -
  let ?kvs = "mutation_fields (Mut_entry lane e)"
  obtain t where t: "name_in entry_type_names (entry_type_of e) = JStr t" "t \<in> set ENTRY_TYPES"
    using entry_type_named by blast
  have get: "map_of ?kvs k = (if k = ''kind'' then Some (JStr ''entry'') else if k = ''lane'' then map_option JStr lane
      else map_of (entry_fields e) k)" for k
    by (cases lane) (auto simp: map_add_def entry_property split: option.splits)
  have rest: "without [''kind'', ''lane''] ?kvs = entry_fields e"
    by (simp add: without_append without_obj entry_without) (simp add: obj_def map_filter_simps)
  have "spread (entry_fields e) [(''id'', JStr (en_id e)), (''type'', JStr t), (''parentId'', nullable_json (en_parentId e)),
      (''seq'', nat_json (en_seq e)), (''timestamp'', int_json (en_timestamp e))] = entry_fields e"
    by (rule spread_same) (simp add: entry_property t(1))
  moreover have "(if t = ''custom'' then map_sum id (\<lambda>_. ()) (requireString (map_of ?kvs ''customType'') ''customType'')
       else Inr ()) = Inr ()"
    using custom_type[of e] t(1) by (auto simp: get simp del: mutation_fields.simps)
  moreover have "(case map_of ?kvs ''lane'' of None \<Rightarrow> Inr None | v \<Rightarrow> map_sum id Some (requireString v ''lane'')) = Inr lane"
  proof -
    have "map_of ?kvs ''lane'' = map_option JStr lane" by (simp add: get del: mutation_fields.simps)
    then show ?thesis by (cases lane) (simp_all del: mutation_fields.simps)
  qed
  ultimately show ?thesis
    using t assms by (simp add: parseEntryMutation_def get rest entry_property del: mutation_fields.simps)
qed

section \<open>Records\<close>

lemma record_property:
  "map_of (record_fields r) ''type'' = Some (name_in record_type_names (record_type_of r))"
  "map_of (record_fields r) ''id'' = Some (JStr (rc_id r))"
  "map_of (record_fields r) ''lane'' = Some (JStr (rc_lane r))"
  by (simp_all add: record_fields_def new_record_props_def)

lemma record_stored_property:
  "map_of (record_fields r) ''seq'' = Some (nat_json (rc_seq r))"
  "map_of (record_fields r) ''timestamp'' = Some (int_json (rc_timestamp r))"
  "map_of (record_fields r) ''kind'' = None"
proof -
  have "map_of (record_fields r) ''seq'' = Some (nat_json (rc_seq r)) \<and>
    map_of (record_fields r) ''timestamp'' = Some (int_json (rc_timestamp r)) \<and> map_of (record_fields r) ''kind'' = None"
  proof (cases "rc_body r")
    case (RB_usage u c)
    then show ?thesis by (cases c) (simp_all add: record_fields_def new_record_props_def)
  qed (simp_all add: record_fields_def new_record_props_def)
  then show "map_of (record_fields r) ''seq'' = Some (nat_json (rc_seq r))"
    "map_of (record_fields r) ''timestamp'' = Some (int_json (rc_timestamp r))"
    "map_of (record_fields r) ''kind'' = None" by blast+
qed

lemma record_without: "without [''kind''] (record_fields r) = record_fields r"
proof (cases "rc_body r")
  case (RB_usage u c)
  then show ?thesis by (cases c) (simp_all add: record_fields_def new_record_props_def without_obj)
qed (simp_all add: record_fields_def new_record_props_def without_obj)

lemma record_type_named: "\<exists>t. name_in record_type_names ty = JStr t \<and> t \<in> set RECORD_TYPES"
  by (cases ty) (simp_all add: name_in_def record_type_names_def RECORD_TYPES_def)

lemma intent_kind_named: "\<exists>t. name_in operation_kind_names k = JStr t \<and> t \<in> set OPERATION_KINDS"
  by (cases k) (simp_all add: name_in_def operation_kind_names_def OPERATION_KINDS_def)

lemma record_type_checked:
  assumes t: "name_in record_type_names (record_type_of r) = JStr t"
  shows "check_record_type t (record_fields r) = Inr ()"
proof (cases "rc_body r")
  case (RB_operation_started source i)
  obtain k where k: "name_in operation_kind_names (intent_kind i) = JStr k" "k \<in> set OPERATION_KINDS"
    using intent_kind_named by blast
  have "map_of (record_fields r) ''intent'' = Some (intent_json i)" "t = ''operation_started''"
    using RB_operation_started t
    by (simp_all add: record_fields_def new_record_props_def name_in_def record_type_names_def)
  then show ?thesis using k by (simp add: check_record_type_def intent_json_def)
next
  case (RB_operation_finished run result err)
  then have "map_of (record_fields r) ''runId'' = Some (JStr run)" "t = ''operation_finished''"
    using t by (simp_all add: record_fields_def new_record_props_def name_in_def record_type_names_def)
  then show ?thesis by (simp add: check_record_type_def)
qed (use t in \<open>auto simp: check_record_type_def name_in_def record_type_names_def\<close>)

lemma parse_record:
  assumes "0 \<le> rc_timestamp r" "rc_timestamp r < 2 ^ 53"
  shows "parseRecordMutation (mutation_fields (Mut_record r)) (rc_seq r) = Inr (Raw_record (record_fields r))"
proof -
  let ?kvs = "(''kind'', JStr ''record'') # record_fields r"
  obtain t where t: "name_in record_type_names (record_type_of r) = JStr t" "t \<in> set RECORD_TYPES"
    using record_type_named by blast
  have kvs: "mutation_fields (Mut_record r) = ?kvs" by (simp add: obj_def map_filter_simps)
  have rest: "without [''kind''] ?kvs = record_fields r"
    using record_without[of r] by (simp add: without_def)
  have "check_record_type t ?kvs = check_record_type t (record_fields r)"
    by (simp add: check_record_type_def)
  then have "check_record_type t ?kvs = Inr ()" using record_type_checked[OF t(1)] by simp
  moreover have "spread (record_fields r) [(''id'', JStr (rc_id r)), (''lane'', JStr (rc_lane r)), (''type'', JStr t),
      (''seq'', nat_json (rc_seq r)), (''timestamp'', int_json (rc_timestamp r))] = record_fields r"
    by (rule spread_same) (simp add: record_property record_stored_property t(1))
  ultimately show ?thesis unfolding parseRecordMutation_def kvs rest
    using t assms by (simp add: record_property record_stored_property)
qed

section \<open>Whole lines\<close>

lemma parse_mutation_line:
  assumes "storable m"
  shows "\<exists>raw. parseMutation (mutation_line m) = Inr raw \<and> typed_mutation raw = Some m"
proof -
  have ok: "json_ok (JObj (mutation_fields m))" "0 < mutation_seq m" "int (mutation_seq m) < 2 ^ 53"
    "0 \<le> mutation_timestamp m" "mutation_timestamp m < 2 ^ 53" "mutation_reason_ok m"
    using assms by (auto simp: storable_def)
  note line = parseObject_line[OF ok(1)]
  show ?thesis
  proof (cases m)
    case (Mut_entry lane e)
    have "map_of (mutation_fields m) ''kind'' = Some (JStr ''entry'')"
      "map_of (mutation_fields m) ''seq'' = Some (nat_json (en_seq e))"
      using Mut_entry by (cases lane; auto simp: map_add_def entry_property split: option.splits)+
    then show ?thesis using Mut_entry ok line parse_entry[of e lane]
      by (simp add: parseMutation_def decodeMutation_def mutation_line_def entry_trip
          del: mutation_fields.simps stringify.simps)
  next
    case (Mut_record r)
    have "map_of (mutation_fields m) ''kind'' = Some (JStr ''record'')"
      "map_of (mutation_fields m) ''seq'' = Some (nat_json (rc_seq r))"
      using Mut_record by (auto simp: map_add_def record_stored_property split: option.splits)
    then show ?thesis using Mut_record ok line parse_record[of r]
      by (simp add: parseMutation_def decodeMutation_def mutation_line_def record_trip
          del: mutation_fields.simps stringify.simps)
  qed (use ok line in \<open>simp add: parseMutation_def decodeMutation_def mutation_line_def
      parseLaneMutation_def parseFactMutation_def del: stringify.simps\<close>)+
qed

lemma parse_torn_line:
  assumes "storable m" and "mutation_line m = p @ q" and "q \<noteq> []"
  shows "parseMutation p = Inl (JsonlDecodeError DK_syntax ''is not valid JSON'')"
  using parse_proper_prefix[of "mutation_fields m" p q] assms
  by (simp add: parseMutation_def decodeMutation_def parseObject_def mutation_line_def storable_def)

section \<open>The header line\<close>

definition header_ok :: "jsonl_header \<Rightarrow> bool" where
  "header_ok h \<longleftrightarrow> json_ok (JObj (header_fields h)) \<and> 0 \<le> jh_createdAt h \<and> jh_createdAt h < 2 ^ 53 \<and>
     (jh_parentSessionId h = None \<or> jh_legacyParentSessionPath h = None)"

definition header_line :: "jsonl_header \<Rightarrow> string" where
  "header_line h = stringify (JObj (header_fields h))"

lemma header_property:
  "map_of (header_fields h) ''kind'' = Some (JStr ''header'')"
  "map_of (header_fields h) ''version'' = Some (JNum 4)"
  "map_of (header_fields h) ''id'' = Some (JStr (jh_id h))"
  "map_of (header_fields h) ''createdAt'' = Some (int_json (jh_createdAt h))"
  "map_of (header_fields h) ''cwd'' = Some (JStr (jh_cwd h))"
  "map_of (header_fields h) ''parentSessionId'' = map_option JStr (jh_parentSessionId h)"
  "map_of (header_fields h) ''legacyParentSessionPath'' = map_option JStr (jh_legacyParentSessionPath h)"
  "map_of (header_fields h) ''metadata'' = map_option JObj (jh_metadata h)"
  by (simp_all add: header_fields_def)

lemma parse_header_line:
  assumes "header_ok h"
  shows "parseHeader (header_line h) = Inr h"
proof -
  have ok: "json_ok (JObj (header_fields h))" "0 \<le> jh_createdAt h" "jh_createdAt h < 2 ^ 53"
    "\<not> (jh_parentSessionId h \<noteq> None \<and> jh_legacyParentSessionPath h \<noteq> None)"
    using assms by (auto simp: header_ok_def)
  have "(case map_of (header_fields h) ''metadata'' of None \<Rightarrow> Inr None | Some (JObj m) \<Rightarrow> Inr (Some m)
       | _ \<Rightarrow> schema_error ''has invalid metadata'') = Inr (jh_metadata h)"
    by (cases "jh_metadata h") (simp_all add: header_property)
  then show ?thesis unfolding parseHeader_def decodeHeader_def header_line_def parseObject_line[OF ok(1)]
    using ok(2-4) by (simp only: bind_result_simps header_property require_simps simp_thms if_False
        requireTimestamp_json) simp
qed

section \<open>What a line can hold\<close>

lemma map_of_spread: "map_of (spread kvs props) = map_of kvs ++ map_of (rev props)"
  unfolding spread_def
  by (induction props arbitrary: kvs) (auto simp: map_of_js_set fun_eq_iff map_add_def split: option.splits)

lemma require_ranges:
  "requireSequence v = Inr n \<Longrightarrow> 0 < n \<and> int n < 2 ^ 53"
  "requireTimestamp v = Inr t \<Longrightarrow> 0 \<le> t \<and> t < 2 ^ 53"
  by (auto simp: requireSequence_def requireTimestamp_def safe_integer_def schema_error_def
      split: option.splits json.splits if_splits)

lemma entry_line_typed:
  assumes "parseEntryMutation kvs n = Inr raw" and "typed_mutation raw = Some m"
  shows "mutation_seq m = n \<and> 0 \<le> mutation_timestamp m \<and> mutation_timestamp m < 2 ^ 53"
  using assms
  by (auto simp: parseEntryMutation_def bind_result_Inr_iff schema_error_def map_of_spread as_entry_def
      bind_eq_Some_conv entry.defs provisioned_entry.defs dest!: require_ranges split: if_splits)

lemma record_line_typed:
  assumes "parseRecordMutation kvs n = Inr raw" and "typed_mutation raw = Some m"
  shows "mutation_seq m = n \<and> 0 \<le> mutation_timestamp m \<and> mutation_timestamp m < 2 ^ 53"
  using assms
  by (auto simp: parseRecordMutation_def bind_result_Inr_iff schema_error_def map_of_spread as_record_def
      bind_eq_Some_conv dest!: require_ranges split: if_splits)

lemma other_line_typed:
  assumes "parseLaneMutation kvs n = Inr raw \<or> parseFactMutation kvs n = Inr raw" and "typed_mutation raw = Some m"
  shows "mutation_seq m = n \<and> 0 \<le> mutation_timestamp m \<and> mutation_timestamp m < 2 ^ 53"
  using assms
  by (auto simp: parseLaneMutation_def parseFactMutation_def bind_result_Inr_iff schema_error_def split: if_splits)

lemma line_typed:
  assumes "parseMutation line = Inr raw" and "typed_mutation raw = Some m"
  shows "0 < mutation_seq m \<and> int (mutation_seq m) < 2 ^ 53 \<and> 0 \<le> mutation_timestamp m \<and> mutation_timestamp m < 2 ^ 53"
proof -
  obtain kvs n where n: "requireSequence (map_of kvs ''seq'') = Inr n"
    and cases: "parseEntryMutation kvs n = Inr raw \<or> parseRecordMutation kvs n = Inr raw \<or>
      parseLaneMutation kvs n = Inr raw \<or> parseFactMutation kvs n = Inr raw"
    using assms(1) by (auto simp: parseMutation_def decodeMutation_def bind_result_Inr_iff schema_error_def split: if_splits)
  from cases have "mutation_seq m = n \<and> 0 \<le> mutation_timestamp m \<and> mutation_timestamp m < 2 ^ 53"
    using entry_line_typed[OF _ assms(2)] record_line_typed[OF _ assms(2)] other_line_typed[OF _ assms(2)] by blast
  with require_ranges(1)[OF n] show ?thesis by simp
qed

section \<open>What a header line can hold\<close>

text \<open>The object a header is written as, whatever else it holds and in whatever order.\<close>

definition header_object :: "fields \<Rightarrow> jsonl_header \<Rightarrow> bool" where
  "header_object kvs h \<longleftrightarrow>
     map_of kvs ''kind'' = Some (JStr ''header'') \<and> map_of kvs ''version'' = Some (JNum 4) \<and>
     map_of kvs ''id'' = Some (JStr (jh_id h)) \<and>
     map_of kvs ''createdAt'' = Some (int_json (jh_createdAt h)) \<and>
     0 \<le> jh_createdAt h \<and> jh_createdAt h < 2 ^ 53 \<and>
     map_of kvs ''cwd'' = Some (JStr (jh_cwd h)) \<and>
     map_of kvs ''parentSessionId'' = map_option JStr (jh_parentSessionId h) \<and>
     map_of kvs ''legacyParentSessionPath'' = map_option JStr (jh_legacyParentSessionPath h) \<and>
     map_of kvs ''metadata'' = map_option JObj (jh_metadata h) \<and>
     (jh_parentSessionId h = None \<or> jh_legacyParentSessionPath h = None)"

lemma require_iff:
  "requireString v f = Inr s \<longleftrightarrow> v = Some (JStr s)"
  "optionalString v f = Inr p \<longleftrightarrow> v = map_option JStr p"
  "requireTimestamp v = Inr t \<longleftrightarrow> v = Some (int_json t) \<and> 0 \<le> t \<and> t < 2 ^ 53"
proof -
  show "requireString v f = Inr s \<longleftrightarrow> v = Some (JStr s)"
    by (auto simp: requireString_def schema_error_def split: option.splits json.splits)
  show "optionalString v f = Inr p \<longleftrightarrow> v = map_option JStr p"
    by (cases p) (auto simp: optionalString_def schema_error_def split: option.splits json.splits)
  show "requireTimestamp v = Inr t \<longleftrightarrow> v = Some (int_json t) \<and> 0 \<le> t \<and> t < 2 ^ 53"
  proof
    assume "requireTimestamp v = Inr t"
    moreover from this have "v = Some (int_json t)"
      by (auto simp: requireTimestamp_def safe_integer_def schema_error_def int_json_def
          split: option.splits json.splits if_splits)
    ultimately show "v = Some (int_json t) \<and> 0 \<le> t \<and> t < 2 ^ 53" using require_ranges(2) by blast
  qed auto
qed

lemma metadata_iff:
  "(case v of None \<Rightarrow> Inr None | Some (JObj m) \<Rightarrow> Inr (Some m) | _ \<Rightarrow> schema_error e) = Inr x \<longleftrightarrow> v = map_option JObj x"
  by (cases x) (auto simp: schema_error_def split: option.splits json.splits)

lemma parseObject_Inr: "parseObject line = Inr kvs \<longleftrightarrow> json_parse line = Some (JObj kvs)"
  by (auto simp: parseObject_def schema_error_def split: option.splits json.splits)

lemma parse_header_iff:
  "parseHeader line = Inr h \<longleftrightarrow> (\<exists>kvs. json_parse line = Some (JObj kvs) \<and> header_object kvs h)"
proof
  assume "parseHeader line = Inr h"
  then show "\<exists>kvs. json_parse line = Some (JObj kvs) \<and> header_object kvs h"
    by (auto simp: parseHeader_def decodeHeader_def bind_result_Inr_iff parseObject_Inr require_iff
        metadata_iff header_object_def schema_error_def split: if_splits)
next
  assume "\<exists>kvs. json_parse line = Some (JObj kvs) \<and> header_object kvs h"
  then obtain kvs where kvs: "parseObject line = Inr kvs" "header_object kvs h" unfolding parseObject_Inr by blast
  note h = kvs(2)[unfolded header_object_def]
  have parts: "optionalString (map_of kvs ''parentSessionId'') f = Inr (jh_parentSessionId h)"
    "optionalString (map_of kvs ''legacyParentSessionPath'') f = Inr (jh_legacyParentSessionPath h)"
    "(case map_of kvs ''metadata'' of None \<Rightarrow> Inr None | Some (JObj m) \<Rightarrow> Inr (Some m)
       | _ \<Rightarrow> schema_error e) = Inr (jh_metadata h)"
    "requireString (map_of kvs ''id'') f = Inr (jh_id h)" "requireString (map_of kvs ''cwd'') f = Inr (jh_cwd h)"
    "requireTimestamp (map_of kvs ''createdAt'') = Inr (jh_createdAt h)" for f e
    unfolding require_iff metadata_iff using h by simp_all
  have "\<not> (jh_parentSessionId h \<noteq> None \<and> jh_legacyParentSessionPath h \<noteq> None)"
    using kvs(2) by (auto simp: header_object_def)
  moreover have "map_of kvs ''kind'' = Some (JStr ''header'')" "map_of kvs ''version'' = Some (JNum 4)"
    using kvs(2) by (simp_all add: header_object_def)
  ultimately show "parseHeader line = Inr h"
    by (simp only: parseHeader_def decodeHeader_def kvs(1) bind_result_simps parts if_False simp_thms) simp
qed

lemma parse_header_syntax:
  "parseHeader line = Inl (JsonlDecodeError DK_syntax msg) \<longleftrightarrow>
     json_parse line = None \<and> msg = ''is not valid JSON''"
proof -
  have schema: "requireString v f \<noteq> Inl (JsonlDecodeError DK_syntax msg)"
    "requireTimestamp v \<noteq> Inl (JsonlDecodeError DK_syntax msg)"
    "optionalString v f \<noteq> Inl (JsonlDecodeError DK_syntax msg)" for v f
    by (auto simp: requireString_def requireTimestamp_def optionalString_def schema_error_def
        split: option.splits json.splits)
  have bind: "bind_result r f = Inl e \<longleftrightarrow> r = Inl e \<or> (\<exists>x. r = Inr x \<and> f x = Inl e)"
    for r :: "(decode_error, 'x) result" and f :: "'x \<Rightarrow> (decode_error, jsonl_header) result" and e
    by (cases r) auto
  show ?thesis
    unfolding parseHeader_def decodeHeader_def
    by (cases "json_parse line")
      (auto simp: parseObject_def schema_error_def schema bind split: json.splits option.splits if_splits)
qed

lemma encodeHeader_line: "encodeHeader h = header_line h @ newline"
  unfolding encodeHeader_def header_line_def ..

lemma header_line_no_newline: "CHR 0x0A \<notin> set (header_line h)"
  unfolding header_line_def by (rule stringify_one_line)

lemma parse_torn_header:
  assumes "header_ok h" and "header_line h = p @ q" and "q \<noteq> []"
  shows "parseHeader p = Inl (JsonlDecodeError DK_syntax ''is not valid JSON'')"
  using parse_proper_prefix[of "header_fields h" p q] assms
  by (simp add: parse_header_syntax header_line_def header_ok_def)

end
