(* ===== verification/Jsonl_Recovery.thy ===== *)
theory Jsonl_Recovery
  imports Jsonl_Storage Jsonl_Lines
begin

text \<open>
  Memory and file agree. The contract of the file system is the locale \<open>durable_files\<close>: what
  \<open>content\<close> holds changes only as the operation says, a failed or crashed append leaves a prefix
  of its text, and a rename is all or nothing.
\<close>

section \<open>The contract of the file system\<close>

locale durable_files =
  fixes fs :: "'w file_system" and content :: "'w \<Rightarrow> string \<Rightarrow> string option"
  assumes read_same: "content (snd (fs_readTextFile fs p w)) = content w"
    and read_text: "fs_readTextFile fs p w = (Inr t, w1) \<Longrightarrow> content w p = Some t"
    and info_same: "content (snd (fs_fileInfo fs p w)) = content w"
    and write_text: "fs_writeFile fs p t w = (Inr u, w1) \<Longrightarrow> content w1 = (content w)(p \<mapsto> t)"
    and write_other: "q \<noteq> p \<Longrightarrow> content (snd (fs_writeFile fs p t w)) q = content w q"
    and append_text: "fs_appendFile fs p t w = (Inr u, w1) \<Longrightarrow>
      content w1 = (content w)(p \<mapsto> (case content w p of None \<Rightarrow> t | Some s \<Rightarrow> s @ t))"
    and append_failed: "fs_appendFile fs p t w = (Inl e, w1) \<Longrightarrow> content w p = Some s \<Longrightarrow>
      \<exists>r. prefix r t \<and> content w1 p = Some (s @ r)"
    and append_other: "q \<noteq> p \<Longrightarrow> content (snd (fs_appendFile fs p t w)) q = content w q"
    and rename_moved: "fs_renameFile fs p q w = (Inr u, w1) \<Longrightarrow>
      content w1 = (content w)(p := None, q := content w p)"
    and rename_failed: "fs_renameFile fs p q w = (Inl e, w1) \<Longrightarrow> content w1 = content w"
    and remove_other: "q \<noteq> p \<Longrightarrow> content (snd (fs_remove fs p w)) q = content w q"

section \<open>The text of a session\<close>

definition session_text :: "jsonl_header \<Rightarrow> session_mutation list \<Rightarrow> string" where
  "session_text h ms = encodeHeader h @ concat (map encodeMutation ms)"

text \<open>A file holds a session: its header, and mutations that lead to the state.\<close>

definition holds :: "jsonl_header \<Rightarrow> session_mutation list \<Rightarrow> session_state \<Rightarrow> bool" where
  "holds h ms s \<longleftrightarrow> header_ok h \<and> list_all storable ms \<and> fold_result applyMutation ms initial_state = Inr s"

lemma holds_snoc:
  "holds h ms s \<Longrightarrow> storable m \<Longrightarrow> applyMutation m s = Inr t \<Longrightarrow> holds h (ms @ [m]) t"
  by (simp add: holds_def fold_result_snoc)

lemma session_text_snoc: "session_text h (ms @ [m]) = session_text h ms @ encodeMutation m"
  by (simp add: session_text_def)

section \<open>Lines\<close>

lemma encodeMutation_fun: "encodeMutation = (\<lambda>m. mutation_line m @ newline)"
  by (rule ext) (rule encodeMutation_line)

lemma split_lines_nonempty [simp]: "split_lines s \<noteq> []"
  by (induction s) (simp_all split: list.splits)

lemma split_lines_line: "CHR 0x0A \<notin> set l \<Longrightarrow> split_lines (l @ CHR 0x0A # s) = l # split_lines s"
  by (induction l) auto

lemma split_lines_last: "CHR 0x0A \<notin> set l \<Longrightarrow> split_lines l = [l]"
  by (induction l) auto

lemma split_lines_mutations:
  assumes "CHR 0x0A \<notin> set p"
  shows "split_lines (concat (map encodeMutation ms) @ p) = map mutation_line ms @ [p]"
proof (induction ms)
  case Nil
  then show ?case using split_lines_last[OF assms] by simp
next
  case (Cons m ms)
  then show ?case
    using split_lines_line[OF mutation_line_no_newline[of m], of "concat (map encodeMutation ms) @ p"]
    by (simp add: encodeMutation_fun)
qed

lemma header_line_nonempty: "header_line h \<noteq> []"
  by (simp add: header_line_def)

lemma physical_lines_text:
  assumes "CHR 0x0A \<notin> set p"
  shows "physical_lines (session_text h ms @ p) =
     header_line h # map mutation_line ms @ (if p = [] then [] else [p])"
proof -
  have "encodeHeader h = header_line h @ [CHR 0x0A]" by (simp add: encodeHeader_def header_line_def)
  then have "split_lines (session_text h ms @ p) = header_line h # map mutation_line ms @ [p]"
    using split_lines_line[OF header_line_no_newline, of h "concat (map encodeMutation ms) @ p"]
      split_lines_mutations[OF assms, of ms]
    by (simp add: session_text_def)
  then show ?thesis by (simp add: physical_lines_def butlast_append)
qed

lemma join_lines:
  "js_join newline (header_line h # map mutation_line ms) @ newline = session_text h ms"
proof -
  have "js_join newline (l # ls) @ newline = l @ newline @ concat (map (\<lambda>l. l @ newline) ls)" for l :: string and ls
    by (induction ls arbitrary: l) simp_all
  from this[of "header_line h" "map mutation_line ms"] show ?thesis
    by (simp add: session_text_def encodeHeader_def header_line_def encodeMutation_fun comp_def del: stringify.simps)
qed

lemma mutation_line_nonempty [simp]: "mutation_line m \<noteq> []"
  by (simp add: mutation_line_def)

lemma session_text_terminated: "suffix newline (session_text h ms)"
proof (cases ms rule: rev_cases)
  case Nil
  then show ?thesis by (simp add: session_text_def encodeHeader_def suffix_def del: stringify.simps)
next
  case (snoc ns m)
  then have "session_text h ms = (session_text h ns @ mutation_line m) @ newline"
    by (simp add: session_text_snoc encodeMutation_line)
  then show ?thesis unfolding suffix_def by blast
qed

section \<open>Replaying a file\<close>

lemma load_lines_step:
  assumes "storable m"
  shows "load_lines path k (mutation_line m # ls) s =
     (case applyMutation m s of
        Inr t \<Rightarrow> load_lines path (k + 1) ls t
      | Inl e \<Rightarrow> Inl (Session_failure
          (if error_code e = SE_invalid_entry then invalidFile path (k + 1) (error_message e) else e)))"
  using parse_mutation_line[OF assms] by auto

lemma load_lines_mutations:
  assumes "list_all storable ms" and "fold_result applyMutation ms s = Inr t"
  shows "load_lines path k (map mutation_line ms @ ls) s = load_lines path (k + length ms) ls t"
  using assms
proof (induction ms arbitrary: s k)
  case (Cons m ms)
  then obtain u where u: "applyMutation m s = Inr u" "fold_result applyMutation ms u = Inr t"
    by (auto simp: bind_result_Inr_iff)
  with Cons show ?case by (simp add: load_lines_step del: load_lines.simps(2))
qed simp

text \<open>
  A text that stops inside a line, at its beginning, or behind it: the torn line is not read, and
  a complete one is.
\<close>

lemma load_lines_torn:
  assumes ok: "holds h ms s" and m: "storable m" "applyMutation m s = Inr t" and p: "prefix p (mutation_line m)"
  shows "load_lines path 1 (tl (physical_lines (session_text h ms @ p))) initial_state =
     (if p = [] then Inr (None, s) else if p = mutation_line m then Inr (None, t) else Inr (Some (length ms + 1), s))"
proof -
  obtain q where q: "mutation_line m = p @ q" using p by (auto simp: prefix_def)
  then have nl: "CHR 0x0A \<notin> set p" using mutation_line_no_newline[of m] by auto
  have "load_lines path 1 (tl (physical_lines (session_text h ms @ p))) initial_state =
      load_lines path (1 + length ms) (if p = [] then [] else [p]) s"
    using load_lines_mutations[of ms initial_state s path 1 "if p = [] then [] else [p]"] ok
    by (simp add: physical_lines_text[OF nl] holds_def)
  moreover have "load_lines path (1 + length ms) [mutation_line m] s = Inr (None, t)"
    using m by (simp add: load_lines_step del: load_lines.simps(2))
  moreover have "load_lines path (1 + length ms) [p] s = Inr (Some (length ms + 1), s)" if "q \<noteq> []"
    using parse_torn_line[OF m(1) q that] by simp
  ultimately show ?thesis using q by auto
qed

section \<open>Errors\<close>

text \<open>An error that comes from the file system and not from what the file holds.\<close>

definition file_failure :: "load_error \<Rightarrow> bool" where
  "file_failure e \<longleftrightarrow> (\<exists>c m. e = Session_failure (SessionError c m) \<and> c \<in> {SE_not_found, SE_storage})"

lemma fileResult_simps [simp]:
  "fileResult (Inr x) message = Inr x"
  "fileResult r message = Inr x \<longleftrightarrow> r = Inr x"
  by (auto simp: fileResult_def split: sum.splits file_error.splits)

lemma fileResult_Inl:
  "fileResult r message = Inl e \<Longrightarrow> (\<exists>fe. r = Inl fe) \<and> file_failure (Session_failure e)"
  by (auto simp: fileResult_def file_failure_def split: sum.splits file_error.splits)

lemma file_io_cases:
  assumes "file_io f message w = (r, w1)"
  obtains (ok) x where "f w = (Inr x, w1)" "r = Inr x"
  | (failed) fe e where "f w = (Inl fe, w1)" "r = Inl e" "file_failure e"
proof -
  obtain fr where f: "f w = (fr, w1)" and r: "r = map_sum Session_failure id (fileResult fr message)"
    using assms by (auto simp: file_io_def split: prod.splits)
  show thesis
  proof (cases fr)
    case (Inr x)
    then show ?thesis using ok f r by simp
  next
    case (Inl fe)
    obtain e where e: "fileResult fr message = Inl e"
      using Inl by (cases "fileResult fr message") simp_all
    then show ?thesis using failed[of fe "Session_failure e"] f r Inl fileResult_Inl[OF e] by simp
  qed
qed

lemma temp_path_neq [simp]: "path @ ''.tmp'' \<noteq> path" "path \<noteq> path @ ''.tmp''"
  by simp_all

section \<open>Publishing\<close>

context durable_files
begin

text \<open>
  A publication either replaces the destination by what was staged, or fails and leaves the
  destination as it was. No other file than the staged one is touched.
\<close>

lemma publish_atomic:
  assumes publish: "publishFileAtomically fs path populate w = (r, w2)"
    and stage: "\<And>r1 w1. populate (path @ ''.tmp'') w = (r1, w1) \<Longrightarrow>
      (\<forall>q. q \<noteq> path @ ''.tmp'' \<longrightarrow> content w1 q = content w q) \<and>
      (\<forall>u. r1 = Inr u \<longrightarrow> content w1 (path @ ''.tmp'') = Some t) \<and> (\<forall>e. r1 = Inl e \<longrightarrow> P e)"
  shows "(\<forall>q. q \<noteq> path \<longrightarrow> q \<noteq> path @ ''.tmp'' \<longrightarrow> content w2 q = content w q) \<and>
    (case r of Inr _ \<Rightarrow> content w2 path = Some t
     | Inl e \<Rightarrow> content w2 path = content w path \<and> (P e \<or> file_failure e))"
proof -
  let ?temp = "path @ ''.tmp''"
  let ?body = "io_bind (populate ?temp) (\<lambda>_.
        file_io (fs_renameFile fs ?temp path) (''Failed to publish staged file '' @ path))"
  obtain r1 w1 where body: "?body w = (r1, w1)" by force
  have same: "content w1 q = content w q" if "q \<noteq> ?temp" "q \<noteq> path" for q
    using body
  proof (cases rule: io_bind_cases)
    case (failed e)
    then show ?thesis using stage that by blast
  next
    case (ok x w')
    have "content w' q = content w q" using stage[OF ok(1)] that by blast
    moreover have "content w1 q = content w' q" using ok(2)
      by (cases rule: file_io_cases) (use rename_moved rename_failed that in auto)
    ultimately show ?thesis by simp
  qed
  show ?thesis
  proof (cases r1)
    case (Inr u)
    then have w2: "r = Inr u" "w2 = w1" using publish body by (auto simp: publishFileAtomically_def Let_def)
    from body[unfolded Inr] obtain w' where pop: "populate ?temp w = (Inr (), w')"
      and ren: "file_io (fs_renameFile fs ?temp path) (''Failed to publish staged file '' @ path) w' = (Inr u, w1)"
      by (cases rule: io_bind_cases) auto
    from ren obtain v where "fs_renameFile fs ?temp path w' = (Inr v, w1)" by (cases rule: file_io_cases) auto
    from rename_moved[OF this] stage[OF pop] have "content w1 path = Some t" by simp
    with w2 same show ?thesis by auto
  next
    case (Inl e)
    then have w2: "r = Inl e" "w2 = snd (fs_remove fs ?temp w1)"
      using publish body by (auto simp: publishFileAtomically_def Let_def)
    have "content w1 path = content w path \<and> (P e \<or> file_failure e)" using body[unfolded Inl]
    proof (cases rule: io_bind_cases)
      case (failed e')
      then show ?thesis using stage by auto
    next
      case (ok x w')
      have "content w' path = content w path" using stage[OF ok(1)] by auto
      moreover have "content w1 path = content w' path \<and> file_failure e" using ok(2)
        by (cases rule: file_io_cases) (use rename_failed in auto)
      ultimately show ?thesis by simp
    qed
    with w2 same remove_other show ?thesis by auto
  qed
qed

section \<open>Loading\<close>

lemma load_core:
  assumes stored: "content w path = Some text" and lines: "physical_lines text = header_line h # ls"
    and h: "header_ok h" and ls: "load_lines path 1 ls initial_state = Inr (torn, s)"
    and load: "jsonl_load fs path w = (r, w2)"
  obtains (read_failed) e where "r = Inl e" "file_failure e" "content w2 = content w"
  | (tail_failed) e w1 where "r = Inl e" "content w1 = content w"
      "repair_tail fs path (header_line h # ls) torn text w1 = (Inl e, w2)"
  | (loaded) w1 md where "r = Inr \<lparr>jl_metadata = md, jl_state = s\<rparr>" "content w1 = content w"
      "repair_tail fs path (header_line h # ls) torn text w1 = (Inr (), w2)" "jm_path md = path" "jm_id md = jh_id h"
  using load unfolding jsonl_load_def
proof (cases rule: io_bind_cases)
  case (failed e)
  from failed(1) show ?thesis
    by (cases rule: file_io_cases) (use failed(2) read_same[of path w] read_failed in auto)
next
  case (ok t w')
  from ok(1) have read: "fs_readTextFile fs path w = (Inr t, w')" by (cases rule: file_io_cases) auto
  with stored read_text have t: "t = text" by fastforce
  have w': "content w' = content w" using read_same[of path w] read by simp
  from ok(2) have "io_bind (file_io (fs_fileInfo fs path) (''Failed to read session metadata '' @ path)) (\<lambda>info.
      io_bind (io_result (load_lines path 1 ls initial_state)) (\<lambda>(torn, s).
      io_bind (repair_tail fs path (header_line h # ls) torn text) (\<lambda>_.
      io_return \<lparr>jl_metadata = metadataFromHeader h path (fi_mtimeMs info), jl_state = s\<rparr>))) w' = (r, w2)"
    by (simp add: t lines Let_def header_line_nonempty parse_header_line[OF h])
  then show ?thesis
  proof (cases rule: io_bind_cases)
    case (failed e)
    from failed(1) show ?thesis
      by (cases rule: file_io_cases) (use failed(2) info_same[of path w'] w' read_failed in auto)
  next
    case (ok info w1)
    from ok(1) have w1: "content w1 = content w"
      by (cases rule: file_io_cases) (use info_same[of path w'] w' in auto)
    obtain r1 w3 where tail: "repair_tail fs path (header_line h # ls) torn text w1 = (r1, w3)" by force
    moreover from tail have "w3 = w2 \<and> r = map_sum id (\<lambda>_. \<lparr>jl_metadata = metadataFromHeader h path (fi_mtimeMs info), jl_state = s\<rparr>) r1"
      using ok(2) by (cases r1) (simp_all add: ls[unfolded One_nat_def] io_bind_def io_result_def io_return_def)
    ultimately show ?thesis
      using w1 tail_failed loaded[of "metadataFromHeader h path (fi_mtimeMs info)" w1]
      by (cases r1) (simp_all add: metadataFromHeader_def)
  qed
qed

lemma repair_torn:
  assumes tail: "repair_tail fs path ls (Some k) text w = (r, w2)"
    and prefix: "js_join newline (take k ls) @ newline = good"
  shows "case r of Inr _ \<Rightarrow> content w2 path = Some good
    | Inl e \<Rightarrow> content w2 path = content w path \<and> file_failure e"
proof -
  let ?stage = "\<lambda>temp. file_io (fs_writeFile fs temp good) (''Failed to stage torn-tail repair '' @ path)"
  have publish: "publishFileAtomically fs path ?stage w = (r, w2)"
    using tail prefix by (simp add: repair_tail_def)
  have "(\<forall>q. q \<noteq> path @ ''.tmp'' \<longrightarrow> content w1 q = content w q) \<and>
      (\<forall>u. r1 = Inr u \<longrightarrow> content w1 (path @ ''.tmp'') = Some good) \<and> (\<forall>e. r1 = Inl e \<longrightarrow> file_failure e)"
    if "?stage (path @ ''.tmp'') w = (r1, w1)" for r1 w1
    using that
  proof (cases rule: file_io_cases)
    case (ok x)
    then show ?thesis using write_text[of "path @ ''.tmp''" good w x w1] by auto
  next
    case (failed fe e)
    then show ?thesis using write_other[of _ "path @ ''.tmp''" good w] by auto
  qed
  from publish_atomic[of path ?stage w r w2 good file_failure, OF publish this] show ?thesis
    by (cases r) auto
qed

lemma repair_whole:
  assumes tail: "repair_tail fs path ls None text w = (r, w2)" and stored: "content w path = Some text"
  shows "case r of Inr _ \<Rightarrow> content w2 path = Some (if suffix newline text then text else text @ newline)
    | Inl e \<Rightarrow> content w2 path \<in> {Some text, Some (text @ newline)} \<and> file_failure e"
proof (cases "suffix newline text")
  case True
  then show ?thesis using tail stored by (auto simp: repair_tail_def io_return_def)
next
  case False
  then have "file_io (fs_appendFile fs path newline) (''Failed to repair unterminated session tail '' @ path) w = (r, w2)"
    using tail by (simp add: repair_tail_def)
  then show ?thesis
  proof (cases rule: file_io_cases)
    case (ok x)
    then show ?thesis using append_text[of path newline w x w2] stored False by simp
  next
    case (failed fe e)
    then obtain q where "prefix q newline" "content w2 path = Some (text @ q)"
      using append_failed[of path newline w fe w2 "text"] stored by blast
    moreover from this have "q = [] \<or> q = newline" by (simp add: prefix_Cons)
    ultimately show ?thesis using failed by auto
  qed
qed

text \<open>
  A file whose last line is whole, torn, or still without its line break: loading it gives the
  state before or after the mutation and leaves exactly the text of that state; when a file
  operation fails, what is stored can still be loaded to the same state.
\<close>

lemma load_whole:
  assumes ok: "holds h ms s" and stored: "content w path = Some (session_text h ms)"
    and load: "jsonl_load fs path w = (r, w2)"
  shows "case r of
      Inr st \<Rightarrow> jl_state st = s \<and> jm_path (jl_metadata st) = path \<and> jm_id (jl_metadata st) = jh_id h \<and>
        content w2 path = Some (session_text h ms)
    | Inl e \<Rightarrow> file_failure e \<and> content w2 path = Some (session_text h ms)"
proof -
  have "header_ok h" using ok by (simp add: holds_def)
  moreover have "physical_lines (session_text h ms) = header_line h # map mutation_line ms"
    using physical_lines_text[of "[]" h ms] by simp
  moreover have "load_lines path 1 (map mutation_line ms) initial_state = Inr (None, s)"
    using load_lines_mutations[of ms initial_state s path 1 "[]"] ok by (simp add: holds_def)
  moreover have "suffix newline (session_text h ms)" by (rule session_text_terminated)
  ultimately show ?thesis
    by (cases rule: load_core[OF stored _ _ _ load, of h "map mutation_line ms" None s])
      (use stored in \<open>auto simp: repair_tail_def io_return_def\<close>)
qed

lemma load_recovers:
  assumes ok: "holds h ms s" and m: "storable m" "applyMutation m s = Inr t" and p: "prefix p (encodeMutation m)"
    and stored: "content w path = Some (session_text h ms @ p)"
    and load: "jsonl_load fs path w = (r, w2)"
  shows "let (ms', s') = (if prefix (mutation_line m) p then (ms @ [m], t) else (ms, s)) in
    case r of
      Inr st \<Rightarrow> jl_state st = s' \<and> jm_path (jl_metadata st) = path \<and> jm_id (jl_metadata st) = jh_id h \<and>
        content w2 path = Some (session_text h ms')
    | Inl e \<Rightarrow> file_failure e \<and> content w2 path \<in> {Some (session_text h ms @ p), Some (session_text h ms')}"
proof -
  have h: "header_ok h" using ok by (simp add: holds_def)
  have "prefix p (mutation_line m) \<or> p = encodeMutation m"
    using p by (auto simp: encodeMutation_line prefix_append prefix_Cons)
  then consider (clean) "p = []" | (torn) q where "p \<noteq> []" "mutation_line m = p @ q" "q \<noteq> []"
    | (unterminated) "p = mutation_line m" | (whole) "p = encodeMutation m"
    by (cases "p = []") (auto elim!: prefixE, metis append_Nil2)
  then show ?thesis
  proof cases
    case clean
    then show ?thesis using load_whole[OF ok _ load] stored by (cases r) simp_all
  next
    case whole
    then have "content w path = Some (session_text h (ms @ [m]))" using stored by (simp add: session_text_snoc)
    then show ?thesis using load_whole[OF holds_snoc[OF ok m] _ load] whole
      by (cases r) (simp_all add: encodeMutation_line session_text_snoc)
  next
    case unterminated
    have lines: "physical_lines (session_text h ms @ p) = header_line h # map mutation_line ms @ [p]"
      using physical_lines_text[of p h ms] mutation_line_no_newline[of m] unterminated by simp
    have replay: "load_lines path 1 (map mutation_line ms @ [p]) initial_state = Inr (None, t)"
      using load_lines_torn[OF ok m, of p path] unterminated unfolding lines by simp
    have "\<not> suffix newline (session_text h ms @ p)"
    proof
      assume "suffix newline (session_text h ms @ p)"
      then have "last (session_text h ms @ p) = CHR 0x0A" by (auto simp: suffix_def)
      then have "last (mutation_line m) = CHR 0x0A" using unterminated by simp
      then show False using mutation_line_no_newline[of m] last_in_set[of "mutation_line m"] by simp
    qed
    moreover have "session_text h ms @ p @ newline = session_text h (ms @ [m])"
      using unterminated by (simp add: session_text_snoc encodeMutation_line)
    ultimately have repaired: "case r1 of Inr _ \<Rightarrow> content w2 path = Some (session_text h (ms @ [m]))
        | Inl e \<Rightarrow> content w2 path \<in> {Some (session_text h ms @ p), Some (session_text h (ms @ [m]))} \<and> file_failure e"
      if "repair_tail fs path (header_line h # map mutation_line ms @ [p]) None (session_text h ms @ p) w1 = (r1, w2)"
        "content w1 = content w" for r1 w1
      using repair_whole[OF that(1)] that(2) stored by (simp split: sum.splits)
    from stored lines h replay load show ?thesis
    proof (cases rule: load_core)
      case (tail_failed e w1)
      then show ?thesis using repaired[of w1 "Inl e"] unterminated by simp
    next
      case (loaded w1 md)
      then show ?thesis using repaired[of w1 "Inr ()"] unterminated by simp
    qed (use stored unterminated in simp)
  next
    case (torn q)
    then have nl: "CHR 0x0A \<notin> set p" using mutation_line_no_newline[of m] by simp
    have lines: "physical_lines (session_text h ms @ p) = header_line h # map mutation_line ms @ [p]"
      using physical_lines_text[OF nl, of h ms] torn by simp
    have replay: "load_lines path 1 (map mutation_line ms @ [p]) initial_state = Inr (Some (length ms + 1), s)"
      using load_lines_torn[OF ok m, of p path] torn unfolding lines by simp
    have "js_join newline (take (length ms + 1) (header_line h # map mutation_line ms @ [p])) @ newline = session_text h ms"
      using join_lines[of h ms] by simp
    then have repaired: "case r1 of Inr _ \<Rightarrow> content w2 path = Some (session_text h ms)
        | Inl e \<Rightarrow> content w2 path = Some (session_text h ms @ p) \<and> file_failure e"
      if "repair_tail fs path (header_line h # map mutation_line ms @ [p]) (Some (length ms + 1)) (session_text h ms @ p) w1 = (r1, w2)"
        "content w1 = content w" for r1 w1
      using repair_torn[OF that(1)] that(2) stored by (simp split: sum.splits)
    have np: "\<not> prefix (mutation_line m) p" using torn by (auto simp: prefix_def)
    from stored lines h replay load show ?thesis
    proof (cases rule: load_core)
      case (tail_failed e w1)
      then show ?thesis using repaired[of w1 "Inl e"] np by simp
    next
      case (loaded w1 md)
      then show ?thesis using repaired[of w1 "Inr ()"] np by simp
    qed (use stored np in simp)
  qed
qed

end

end
