(* ===== verification/Jsonl_Operations.thy ===== *)
theory Jsonl_Operations
  imports Jsonl_Recovery
begin

text \<open>
  The operations of the file storage against those of the storage in memory: the same results,
  with every acknowledged mutation in the file; and forks, which appear whole or not at all.
\<close>

section \<open>One operation\<close>

datatype storage_op =
    Op_createLane string "string option"
  | Op_moveLane string "string option"
  | Op_appendEntry provisioned_entry string
  | Op_appendRecord new_record
  | Op_setName "string option"
  | Op_setLabel string "string option"

datatype op_value = V_unit | V_entry entry | V_record lane_record

fun memory_step :: "storage_op \<Rightarrow> int \<Rightarrow> session_state \<Rightarrow> (session_error, op_value \<times> session_state) result" where
  "memory_step (Op_createLane lane leaf) now s = map_sum id (Pair V_unit) (createLane lane leaf s)"
| "memory_step (Op_moveLane lane leaf) now s = map_sum id (Pair V_unit) (moveLane lane leaf s)"
| "memory_step (Op_appendEntry e lane) now s = map_sum id (apfst V_entry) (appendEntry e lane now s)"
| "memory_step (Op_appendRecord r) now s = map_sum id (apfst V_record) (appendRecord r now s)"
| "memory_step (Op_setName name) now s = map_sum id (Pair V_unit) (setName name s)"
| "memory_step (Op_setLabel i label) now s = map_sum id (Pair V_unit) (setLabel i label s)"

definition with_value :: "('a \<Rightarrow> 'b) \<Rightarrow> ('w, 'a) storage_result \<Rightarrow> ('w, 'b) storage_result" where
  "with_value f r = apfst (map_sum id f) r"

fun jsonl_step :: "'w file_system \<Rightarrow> storage_op \<Rightarrow> int \<Rightarrow> jsonl_storage \<Rightarrow> 'w \<Rightarrow> ('w, op_value) storage_result" where
  "jsonl_step fs (Op_createLane lane leaf) now st w = with_value (\<lambda>_. V_unit) (jsonl_createLane fs lane leaf st w)"
| "jsonl_step fs (Op_moveLane lane leaf) now st w = with_value (\<lambda>_. V_unit) (jsonl_moveLane fs lane leaf st w)"
| "jsonl_step fs (Op_appendEntry e lane) now st w = with_value V_entry (jsonl_appendEntry fs e lane now st w)"
| "jsonl_step fs (Op_appendRecord r) now st w = with_value V_record (jsonl_appendRecord fs r now st w)"
| "jsonl_step fs (Op_setName name) now st w = with_value (\<lambda>_. V_unit) (jsonl_setName fs name st w)"
| "jsonl_step fs (Op_setLabel i label) now st w = with_value (\<lambda>_. V_unit) (jsonl_setLabel fs i label st w)"

text \<open>Both validate alike and arrive at the same mutation.\<close>

fun op_mutation :: "storage_op \<Rightarrow> int \<Rightarrow> session_state \<Rightarrow> (session_error, session_mutation \<times> op_value) result" where
  "op_mutation (Op_createLane lane leaf) now s =
     bind_result (validateNewLane s lane) (\<lambda>_. bind_result (validateTarget s leaf) (\<lambda>_.
     Inr (Mut_lane (nextSequence s) lane leaf, V_unit)))"
| "op_mutation (Op_moveLane lane leaf) now s =
     bind_result (requireLane s lane) (\<lambda>_. bind_result (validateTarget s leaf) (\<lambda>_.
     Inr (Mut_lane (nextSequence s) lane leaf, V_unit)))"
| "op_mutation (Op_appendEntry newEntry lane) now s =
     bind_result (requireLane s lane) (\<lambda>parentId. bind_result (validateUnusedId s (en_id newEntry)) (\<lambda>_.
     let e = provisioned_entry.extend newEntry (entry.fields (nextSequence s) parentId now)
     in Inr (Mut_entry (Some lane) e, V_entry e)))"
| "op_mutation (Op_appendRecord newRecord) now s =
     bind_result (requireLane s (rc_lane newRecord)) (\<lambda>_. bind_result (validateUnusedId s (rc_id newRecord)) (\<lambda>_.
     bind_result (findOpenOperations s (rc_lane newRecord) (Some 1)) (\<lambda>open_ops.
     if record_type_of newRecord = RT_operation_started \<and> open_ops \<noteq> []
       then Inl (SessionError SE_storage (''Lane '' @ rc_lane newRecord @
              '' already has an open operation '' @ rc_id (hd open_ops)))
     else let r = new_record.extend newRecord (lane_record.fields (nextSequence s) now)
       in Inr (Mut_record r, V_record r))))"
| "op_mutation (Op_setName name) now s = Inr (Mut_name (nextSequence s) name, V_unit)"
| "op_mutation (Op_setLabel i label) now s =
     bind_result (validateTarget s (Some i)) (\<lambda>_. Inr (Mut_label (nextSequence s) i label, V_unit))"

lemma bind_result_map: "bind_result (map_sum id f r) g = bind_result r (\<lambda>x. g (f x))"
  by (cases r) simp_all

lemma map_bind_result: "map_sum id f (bind_result r g) = bind_result r (\<lambda>x. map_sum id f (g x))"
  by (cases r) simp_all

lemma bind_result_assoc: "bind_result (bind_result r f) g = bind_result r (\<lambda>x. bind_result (f x) g)"
  by (cases r) simp_all

lemma map_sum_bind: "map_sum id f r = bind_result r (\<lambda>x. Inr (f x))"
  by (cases r) simp_all

lemma memory_step_mutation:
  "memory_step op now s =
     bind_result (op_mutation op now s) (\<lambda>(m, v). bind_result (applyMutation m s) (\<lambda>t. Inr (v, t)))"
  by (cases op) (simp_all add: storage_op_defs Let_def bind_result_assoc map_sum_bind
      if_distrib[of "\<lambda>r. bind_result r _"] cong: if_cong)

lemma with_value_commit: "with_value f (commit fs m x st w) = commit fs m (f x) st w"
  by (simp add: with_value_def commit_def split: prod.splits sum.splits)

lemma with_value_checked: "with_value f (checked r k st w) = checked r (\<lambda>x st w. with_value f (k x st w)) st w"
  by (simp add: with_value_def checked_def split: sum.splits)

lemma checked_bind:
  "checked (bind_result r f) k = checked r (\<lambda>x. checked (f x) k)"
  by (cases r; rule ext; rule ext) (simp_all add: checked_def)

lemma checked_simps:
  "checked (Inr x) k = k x" "checked (Inl e) k st w = (Inl e, st, w)"
  by (rule ext, rule ext) (simp_all add: checked_def)

lemma jsonl_step_mutation:
  "jsonl_step fs op now st w = checked (op_mutation op now (jl_state st)) (\<lambda>(m, v). commit fs m v) st w"
proof (cases op)
  case (Op_appendRecord r)
  then show ?thesis
    by (auto simp: jsonl_appendRecord_def checked_def with_value_def commit_def Let_def
        split: sum.splits prod.splits)
qed (simp_all add: jsonl_createLane_def jsonl_moveLane_def jsonl_appendEntry_def jsonl_setName_def jsonl_setLabel_def
    with_value_checked with_value_commit checked_bind checked_simps Let_def)

text \<open>In a well-formed state the mutation an operation arrives at is always applied.\<close>

lemma op_mutation_applies:
  assumes wf: "wf_state s" and m: "op_mutation op now s = Inr (m, v)"
  shows "\<exists>t. applyMutation m s = Inr t"
proof (cases op)
  case (Op_appendEntry e lane)
  then obtain leaf where leaf: "map_get (ss_lanes s) lane = Some leaf" "en_id e \<notin> ss_usedIds s"
    and m: "m = Mut_entry (Some lane) (provisioned_entry.extend e (entry.fields (nextSequence s) leaf now))"
    using m by (auto simp: validate_Inr Let_def bind_result_Inr_iff)
  from appendEntry_succeeds[OF wf leaf, of now] show ?thesis
    by (auto simp: appendEntry_Inr leaf m nextSequence_def)
qed (use m in \<open>auto simp: validate_Inr applyMutation_lane applyMutation_record applyMutation_name applyMutation_label
    apply_record_Inr nextSequence_def Let_def bind_result_Inr_iff split: if_splits\<close>)

lemma holds_wf: "holds h ms s \<Longrightarrow> wf_state s"
  using wf_state_mutations wf_initial by (auto simp: holds_def)

context durable_files
begin

lemma append_mutation_cases:
  assumes "appendMutation fs m st w = (r, w1)" and "content w (jm_path (jl_metadata st)) = Some s"
  shows "(\<forall>q. q \<noteq> jm_path (jl_metadata st) \<longrightarrow> content w1 q = content w q) \<and>
    (case r of Inr _ \<Rightarrow> content w1 (jm_path (jl_metadata st)) = Some (s @ encodeMutation m)
     | Inl e \<Rightarrow> file_failure (Session_failure e) \<and>
        (\<exists>p. prefix p (encodeMutation m) \<and> content w1 (jm_path (jl_metadata st)) = Some (s @ p)))"
proof -
  let ?path = "jm_path (jl_metadata st)"
  obtain fr where f: "fs_appendFile fs ?path (encodeMutation m) w = (fr, w1)"
    and r: "r = fileResult fr (''Failed to append session '' @ ?path)"
    using assms(1) by (auto simp: appendMutation_def split: prod.splits)
  have "\<forall>q. q \<noteq> ?path \<longrightarrow> content w1 q = content w q"
    using append_other[of _ ?path "encodeMutation m" w] f by auto
  moreover have "case r of Inr _ \<Rightarrow> content w1 ?path = Some (s @ encodeMutation m)
     | Inl e \<Rightarrow> file_failure (Session_failure e) \<and> (\<exists>p. prefix p (encodeMutation m) \<and> content w1 ?path = Some (s @ p))"
  proof (cases fr)
    case (Inr u)
    then show ?thesis using append_text[of ?path "encodeMutation m" w u w1] f r assms(2) by simp
  next
    case (Inl fe)
    then obtain e where "r = Inl e" using r by (auto simp: fileResult_def split: file_error.splits)
    moreover have "file_failure (Session_failure e)" using fileResult_Inl[of fr _ e] r calculation by metis
    ultimately show ?thesis using append_failed[of ?path "encodeMutation m" w fe w1 s] f Inl assms(2) by auto
  qed
  ultimately show ?thesis by blast
qed

text \<open>
  An acknowledged operation has its result in memory and its line in the file; a refused one
  changes nothing; and one whose append failed leaves the state, and at most a part of its line.
\<close>

lemma step_durable:
  assumes stored: "content w path = Some (session_text h ms)" and path: "path = jm_path (jl_metadata st)"
    and ok: "holds h ms (jl_state st)"
    and storable: "\<And>m v. op_mutation op now (jl_state st) = Inr (m, v) \<Longrightarrow> storable m"
    and step: "jsonl_step fs op now st w = (r, st1, w1)"
  shows "jl_metadata st1 = jl_metadata st \<and> (\<forall>q. q \<noteq> path \<longrightarrow> content w1 q = content w q) \<and>
    (case r of
       Inr v \<Rightarrow> memory_step op now (jl_state st) = Inr (v, jl_state st1) \<and>
         (\<exists>m. content w1 path = Some (session_text h (ms @ [m])) \<and> holds h (ms @ [m]) (jl_state st1))
     | Inl e \<Rightarrow> st1 = st \<and>
         (memory_step op now (jl_state st) = Inl e \<and> w1 = w \<or>
          file_failure (Session_failure e) \<and> (\<exists>m v p. op_mutation op now (jl_state st) = Inr (m, v) \<and>
            prefix p (encodeMutation m) \<and> content w1 path = Some (session_text h ms @ p))))"
proof (cases "op_mutation op now (jl_state st)")
  case (Inl e)
  then show ?thesis using step by (auto simp: jsonl_step_mutation memory_step_mutation checked_simps)
next
  case (Inr mv)
  obtain m v where mv: "op_mutation op now (jl_state st) = Inr (m, v)" using Inr by (cases mv) auto
  then have commit: "commit fs m v st w = (r, st1, w1)" using step by (simp add: jsonl_step_mutation checked_simps)
  obtain ar w' where append: "appendMutation fs m st w = (ar, w')" by force
  note disk = append_mutation_cases[OF append, folded path, OF stored]
  show ?thesis
  proof (cases ar)
    case (Inl e)
    then have "r = Inl e" "st1 = st" "w1 = w'" using commit append by (auto simp: commit_def)
    then show ?thesis using disk Inl mv by auto
  next
    case ack: (Inr u)
    obtain t where t: "applyMutation m (jl_state st) = Inr t"
      using op_mutation_applies[OF holds_wf[OF ok] mv] by blast
    then have "r = Inr v" "st1 = st\<lparr>jl_state := t\<rparr>" "w1 = w'" using commit append ack by (auto simp: commit_def)
    then show ?thesis using disk ack mv t holds_snoc[OF ok storable[OF mv] t]
      by (auto simp: memory_step_mutation session_text_snoc)
  qed
qed

end

end
