(* ===== verification/Jsonl_Forks.thy ===== *)
theory Jsonl_Forks
  imports Jsonl_Operations
begin

text \<open>
  Forks of a stored session: the copy is staged in a temporary file, mutation by mutation, and
  renamed. The destination has the state of the fork in memory, or is what it was.
\<close>

section \<open>What a load leaves alone\<close>

definition untouched :: "('w \<Rightarrow> string \<Rightarrow> string option) \<Rightarrow> string \<Rightarrow> ('w \<Rightarrow> 'r \<times> 'w) \<Rightarrow> bool" where
  "untouched content q f \<longleftrightarrow> (\<forall>w. content (snd (f w)) q = content w q)"

lemma untouched_steps:
  "untouched content q (io_return x)" "untouched content q (io_throw e)" "untouched content q (io_result r)"
  by (simp_all add: untouched_def io_return_def io_throw_def io_result_def)

lemma untouched_bind:
  "untouched content q f \<Longrightarrow> (\<And>x. untouched content q (g x)) \<Longrightarrow> untouched content q (io_bind f g)"
  by (auto simp: untouched_def io_bind_def split: prod.splits sum.splits) (metis snd_conv)+

lemma untouched_file_io: "untouched content q f \<Longrightarrow> untouched content q (file_io f message)"
  by (auto simp: untouched_def file_io_def split: prod.splits) (metis snd_conv)

lemma untouchedD: "untouched content q f \<Longrightarrow> f w = (r, w1) \<Longrightarrow> content w1 q = content w q"
  unfolding untouched_def by (metis snd_conv)

context durable_files
begin

lemma untouched_operations:
  "untouched content q (fs_readTextFile fs p)" "untouched content q (fs_fileInfo fs p)"
  "q \<noteq> p \<Longrightarrow> untouched content q (fs_writeFile fs p t)"
  "q \<noteq> p \<Longrightarrow> untouched content q (fs_appendFile fs p t)"
  "q \<noteq> p \<Longrightarrow> untouched content q (fs_remove fs p)"
  by (simp_all add: untouched_def read_same info_same write_other append_other remove_other)

lemma untouched_rename: "q \<noteq> p \<Longrightarrow> q \<noteq> d \<Longrightarrow> untouched content q (fs_renameFile fs p d)"
  unfolding untouched_def
proof (intro allI)
  fix w assume "q \<noteq> p" "q \<noteq> d"
  then show "content (snd (fs_renameFile fs p d w)) q = content w q"
    using rename_moved[of p d w] rename_failed[of p d w]
    by (cases "fs_renameFile fs p d w"; cases "fst (fs_renameFile fs p d w)") auto
qed

lemma untouched_publish:
  assumes "q \<noteq> path" "q \<noteq> path @ ''.tmp''" and "untouched content q (populate (path @ ''.tmp''))"
  shows "untouched content q (publishFileAtomically fs path populate)"
proof -
  let ?temp = "path @ ''.tmp''"
  have body: "untouched content q (io_bind (populate ?temp) (\<lambda>_.
      file_io (fs_renameFile fs ?temp path) (''Failed to publish staged file '' @ path)))"
    by (intro untouched_bind untouched_file_io untouched_rename assms)
  show ?thesis unfolding untouched_def
  proof (intro allI)
    fix w
    show "content (snd (publishFileAtomically fs path populate w)) q = content w q"
      using untouchedD[OF body, of w] remove_other[OF assms(2)]
      by (auto simp: publishFileAtomically_def Let_def split: prod.splits sum.splits)
  qed
qed

lemma load_other:
  assumes "jsonl_load fs path w = (r, w2)" and "q \<noteq> path" "q \<noteq> path @ ''.tmp''"
  shows "content w2 q = content w q"
proof -
  have repair: "untouched content q (repair_tail fs path ls torn text)" for ls torn "text"
    by (auto simp: repair_tail_def split: option.splits
        intro!: untouched_publish untouched_file_io untouched_operations untouched_steps assms)
  have "untouched content q (jsonl_load fs path)"
    unfolding jsonl_load_def
    by (auto simp: Let_def split: sum.splits decode_error.splits
        intro!: untouched_bind untouched_file_io untouched_operations untouched_steps repair)
  from untouchedD[OF this assms(1)] show ?thesis .
qed

end

section \<open>Forks\<close>

lemma holds_append:
  assumes "holds h ms s" and "list_all storable ns" and "fold_result applyMutation ns s = Inr t"
  shows "holds h (ms @ ns) t"
  using assms by (simp add: holds_def fold_result_append)

lemma session_text_append: "session_text h (ms @ ns) = session_text h ms @ concat (map encodeMutation ns)"
  by (simp add: session_text_def)

context durable_files
begin

lemma append_mutations_staged:
  assumes "append_mutations fs ns st w = (r, w1)" and "jm_path (jl_metadata st) = temp"
    and "content w temp = Some s" and "fold_result applyMutation ns (jl_state st) = Inr t"
  shows "(\<forall>q. q \<noteq> temp \<longrightarrow> content w1 q = content w q) \<and>
    (case r of Inr _ \<Rightarrow> content w1 temp = Some (s @ concat (map encodeMutation ns)) | Inl e \<Rightarrow> file_failure e)"
  using assms
proof (induction ns arbitrary: st w s)
  case Nil
  then show ?case by auto
next
  case (Cons m ns)
  obtain u where u: "applyMutation m (jl_state st) = Inr u" "fold_result applyMutation ns u = Inr t"
    using Cons.prems(4) by (auto simp: bind_result_Inr_iff)
  obtain ar w' where append: "appendMutation fs m st w = (ar, w')" by force
  note disk = append_mutation_cases[OF append, unfolded Cons.prems(2), OF Cons.prems(3)]
  show ?case
  proof (cases ar)
    case (Inl e)
    then show ?thesis using Cons.prems(1) append disk by (auto simp: commit_def)
  next
    case (Inr x)
    let ?st = "st\<lparr>jl_state := u\<rparr>"
    have rest: "append_mutations fs ns ?st w' = (r, w1)"
      using Cons.prems(1) append Inr u(1) by (simp add: commit_def)
    have "content w' temp = Some (s @ encodeMutation m)" using disk Inr by simp
    from Cons.IH[OF rest _ this] u(2) Cons.prems(2) disk show ?thesis by (auto split: sum.splits)
  qed
qed

lemma fork_staged:
  assumes stage: "io_bind (jsonl_create fs temp h) (append_mutations fs ns) w = (r, w1)"
    and ns: "fold_result applyMutation ns initial_state = Inr t"
  shows "(\<forall>q. q \<noteq> temp \<longrightarrow> content w1 q = content w q) \<and>
    (\<forall>u. r = Inr u \<longrightarrow> content w1 temp = Some (session_text h ns)) \<and> (\<forall>e. r = Inl e \<longrightarrow> file_failure e)"
proof -
  obtain r0 w0 where create: "jsonl_create fs temp h w = (r0, w0)" by force
  have created: "(\<forall>q. q \<noteq> temp \<longrightarrow> content w0 q = content w q) \<and>
    (case r0 of Inr st \<Rightarrow> content w0 temp = Some (session_text h []) \<and> jm_path (jl_metadata st) = temp \<and> jl_state st = initial_state
     | Inl e \<Rightarrow> file_failure e)"
    using create unfolding jsonl_create_def
  proof (cases rule: io_bind_cases)
    case (failed e)
    from failed(1) show ?thesis
      by (cases rule: file_io_cases) (use failed(2) write_other[of _ temp "encodeHeader h" w] in auto)
  next
    case (ok x w')
    from ok(1) obtain v where "fs_writeFile fs temp (encodeHeader h) w = (Inr v, w')" by (cases rule: file_io_cases) auto
    from write_text[OF this] have w': "content w' = (content w)(temp \<mapsto> session_text h [])" by (simp add: session_text_def)
    from ok(2) show ?thesis
    proof (cases rule: io_bind_cases)
      case (failed e)
      from failed(1) show ?thesis
        by (cases rule: file_io_cases) (use failed(2) w' info_same[of temp w'] in auto)
    next
      case (ok info w'')
      from ok(1) have "content w'' = content w'"
        by (cases rule: file_io_cases) (use info_same[of temp w'] in auto)
      with ok(2) w' show ?thesis by (auto simp: io_return_def new_jsonl_storage_def metadataFromHeader_def)
    qed
  qed
  show ?thesis
  proof (cases r0)
    case (Inl e)
    then show ?thesis using stage create created by (auto simp: io_bind_def)
  next
    case (Inr st)
    then have rest: "append_mutations fs ns st w0 = (r, w1)" using stage create by (simp add: io_bind_def)
    have stored: "content w0 temp = Some (session_text h [])" and path: "jm_path (jl_metadata st) = temp"
      and init: "fold_result applyMutation ns (jl_state st) = Inr t" using created Inr ns by simp_all
    from append_mutations_staged[OF rest path stored init] created show ?thesis
      using session_text_append[of h "[]" ns] by (auto split: sum.splits)
  qed
qed

lemma fork_atomic:
  assumes wf: "wf_state (jl_state st)" and h: "header_ok h"
    and storable: "\<And>ns. createForkMutations (jl_state st) opts = Inr ns \<Longrightarrow> list_all storable ns"
    and fork: "jsonl_fork fs path h opts st w = (r, w2)"
  shows "(\<forall>q. q \<noteq> path \<longrightarrow> q \<noteq> path @ ''.tmp'' \<longrightarrow> content w2 q = content w q) \<and>
    (case createForkMutations (jl_state st) opts of
       Inl e \<Rightarrow> r = Inl (Session_failure e) \<and> w2 = w
     | Inr ns \<Rightarrow> \<exists>t. holds h ns t \<and>
         (case r of
            Inr st2 \<Rightarrow> jl_state st2 = t \<and> jm_path (jl_metadata st2) = path \<and> content w2 path = Some (session_text h ns)
          | Inl e \<Rightarrow> file_failure e \<and> content w2 path \<in> {content w path, Some (session_text h ns)}))"
proof (cases "createForkMutations (jl_state st) opts")
  case (Inl e)
  then show ?thesis using fork by (simp add: jsonl_fork_def io_bind_def io_result_def)
next
  case (Inr ns)
  obtain t where t: "fold_result applyMutation ns initial_state = Inr t" using fork_replay_any[OF wf Inr] by blast
  have ok: "holds h ns t" using h storable[OF Inr] t by (simp add: holds_def)
  let ?stage = "\<lambda>temp. io_bind (jsonl_create fs temp h) (append_mutations fs ns)"
  have "io_bind (publishFileAtomically fs path ?stage) (\<lambda>_. jsonl_load fs path) w = (r, w2)"
    using fork Inr by (simp add: jsonl_fork_def io_bind_def[of "io_result _"] io_result_def)
  then show ?thesis
  proof (cases rule: io_bind_cases)
    case (failed e)
    have "(\<forall>q. q \<noteq> path \<longrightarrow> q \<noteq> path @ ''.tmp'' \<longrightarrow> content w2 q = content w q) \<and>
      content w2 path = content w path \<and> file_failure e"
      using publish_atomic[of path ?stage w "Inl e" w2 "session_text h ns" file_failure, OF failed(1)
          fork_staged[OF _ t]] by auto
    with failed(2) Inr ok show ?thesis by auto
  next
    case loading: (ok u w1)
    have pub: "(\<forall>q. q \<noteq> path \<longrightarrow> q \<noteq> path @ ''.tmp'' \<longrightarrow> content w1 q = content w q) \<and>
      content w1 path = Some (session_text h ns)"
      using publish_atomic[of path ?stage w "Inr u" w1 "session_text h ns" file_failure, OF loading(1)
          fork_staged[OF _ t]] by auto
    then have "content w1 path = Some (session_text h ns)" by blast
    from load_whole[OF ok this loading(2)] load_other[OF loading(2)] pub Inr ok show ?thesis
      by (cases r) auto
  qed
qed

end

end
