(* ===== verification/Jsonl_Repo.thy ===== *)
theory Jsonl_Repo
  imports Jsonl_Forks
begin

text \<open>
  The repository of session files: \<open>packages/agent/src/harness/session/jsonl/repo.ts\<close>. A session
  is a file named by its creation time and its id in a directory named by the working directory.
  The repository remembers the resolved root and the destinations being created; a \<open>Session\<close> only
  wraps a storage, so the operations return the storage. The clock and the random id are
  arguments.
\<close>

section \<open>Names\<close>

definition ascii_alnum :: "char \<Rightarrow> bool" where
  "ascii_alnum c \<longleftrightarrow> (let n = (of_char c :: nat) in 48 \<le> n \<and> n \<le> 57 \<or> 65 \<le> n \<and> n \<le> 90 \<or> 97 \<le> n \<and> n \<le> 122)"

definition session_id_pattern :: "string \<Rightarrow> bool" where
  "session_id_pattern i \<longleftrightarrow>
     i \<noteq> [] \<and> ascii_alnum (hd i) \<and> ascii_alnum (last i) \<and>
     list_all (\<lambda>c. ascii_alnum c \<or> c \<in> {CHR ''.'', CHR ''_'', CHR ''-''}) i"

definition validateSessionId :: "string \<Rightarrow> (session_error, unit) result" where
  "validateSessionId i =
     (if session_id_pattern i then Inr ()
      else Inl (SessionError SE_invalid_payload
        (''Session id must be non-empty, contain only alphanumeric characters, '' @ [CHR 0x27, CHR ''-'', CHR 0x27] @
         '', '' @ [CHR 0x27, CHR ''_'', CHR 0x27] @ '', and '' @ [CHR 0x27, CHR ''.'', CHR 0x27] @
         '', and start and end with an alphanumeric character'')))"

definition path_separator :: "char \<Rightarrow> bool" where
  "path_separator c \<longleftrightarrow> c = CHR ''/'' \<or> c = CHR 0x5C"

definition jsonlSessionDirectoryName :: "string \<Rightarrow> string" where
  "jsonlSessionDirectoryName cwd =
     (let rest = (case cwd of c # cs \<Rightarrow> if path_separator c then cs else cwd | [] \<Rightarrow> [])
      in ''--'' @ map (\<lambda>c. if path_separator c \<or> c = CHR '':'' then CHR ''-'' else c) rest @ ''--'')"

text \<open>\<open>new Date(ms).toISOString()\<close>: the calendar of the days before and since 1970, and UTC.\<close>

definition civil_from_days :: "int \<Rightarrow> int \<times> int \<times> int" where
  "civil_from_days days =
     (let z = days + 719468;
          era = z div 146097;
          day_of_era = z mod 146097;
          year_of_era = (day_of_era - day_of_era div 1460 + day_of_era div 36524 - day_of_era div 146096) div 365;
          day_of_year = day_of_era - (365 * year_of_era + year_of_era div 4 - year_of_era div 100);
          shifted = (5 * day_of_year + 2) div 153;
          day = day_of_year - (153 * shifted + 2) div 5 + 1;
          month = (if shifted < 10 then shifted + 3 else shifted - 9);
          year = year_of_era + era * 400
      in (if month \<le> 2 then year + 1 else year, month, day))"

definition pad_number :: "nat \<Rightarrow> int \<Rightarrow> string" where
  "pad_number k n = (let s = string_of_nat (nat n) in replicate (k - length s) (CHR ''0'') @ s)"

definition iso_year :: "int \<Rightarrow> string" where
  "iso_year y =
     (if 0 \<le> y \<and> y \<le> 9999 then pad_number 4 y
      else if y < 0 then ''-'' @ pad_number 6 (- y)
      else ''+'' @ pad_number 6 y)"

definition toISOString :: "int \<Rightarrow> string" where
  "toISOString ms =
     (case civil_from_days (ms div 86400000) of (y, mo, d) \<Rightarrow>
        let t = ms mod 86400000
        in iso_year y @ ''-'' @ pad_number 2 mo @ ''-'' @ pad_number 2 d @ ''T'' @
           pad_number 2 (t div 3600000) @ '':'' @ pad_number 2 (t div 60000 mod 60) @ '':'' @
           pad_number 2 (t div 1000 mod 60) @ ''.'' @ pad_number 3 (t mod 1000) @ ''Z'')"

definition sessionFileName :: "int \<Rightarrow> string \<Rightarrow> string" where
  "sessionFileName createdAt i =
     map (\<lambda>c. if c = CHR '':'' \<or> c = CHR ''.'' then CHR ''-'' else c) (toISOString createdAt)
       @ ''_'' @ i @ ''.jsonl''"

section \<open>Listing\<close>

fun io_concat :: "('a \<Rightarrow> ('w, 'e, 'b list) io) \<Rightarrow> 'a list \<Rightarrow> ('w, 'e, 'b list) io" where
  "io_concat f [] = io_return []"
| "io_concat f (x # xs) = io_bind (f x) (\<lambda>ys. io_bind (io_concat f xs) (\<lambda>zs. io_return (ys @ zs)))"

definition jsonlSessionsRoot :: "'w file_system \<Rightarrow> string \<Rightarrow> ('w, load_error, string) io" where
  "jsonlSessionsRoot fs base =
     file_io (fs_absolutePath fs base) (''Failed to resolve sessions root '' @ base)"

definition jsonlSessionDirectory :: "'w file_system \<Rightarrow> string \<Rightarrow> string \<Rightarrow> ('w, load_error, string) io" where
  "jsonlSessionDirectory fs base cwd =
     file_io (fs_joinPath fs [base, jsonlSessionDirectoryName cwd]) (''Failed to resolve sessions directory for '' @ cwd)"

definition jsonlSessionDirectories ::
  "'w file_system \<Rightarrow> string \<Rightarrow> string option \<Rightarrow> ('w, load_error, string list) io" where
  "jsonlSessionDirectories fs rootInput cwd =
     io_bind (jsonlSessionsRoot fs rootInput) (\<lambda>base.
     case cwd of
       Some c \<Rightarrow>
         io_bind (file_io (fs_absolutePath fs c) (''Failed to resolve session cwd '' @ c)) (\<lambda>resolved.
         io_bind (jsonlSessionDirectory fs base resolved) (\<lambda>directory.
         io_bind (file_io (fs_exists fs directory) (''Failed to check sessions directory '' @ directory)) (\<lambda>there.
         io_return (if there then [directory] else []))))
     | None \<Rightarrow>
         io_bind (file_io (fs_exists fs base) (''Failed to check sessions directory '' @ base)) (\<lambda>there.
         if \<not> there then io_return []
         else io_bind (file_io (fs_listDir fs base) (''Failed to list sessions directory '' @ base)) (\<lambda>infos.
           io_return (map fi_path (filter (\<lambda>i. fi_kind i \<in> {FK_directory, FK_symlink}) infos)))))"

definition file_metadata :: "'w file_system \<Rightarrow> file_info \<Rightarrow> ('w, load_error, jsonl_metadata list) io" where
  "file_metadata fs f =
     io_bind (file_io (fs_readTextLines fs (fi_path f) 1) (''Failed to read session header '' @ fi_path f)) (\<lambda>lines.
     io_return (case lines of
        [] \<Rightarrow> []
      | firstLine # _ \<Rightarrow>
          if firstLine = [] then []
          else (case parseHeader firstLine of
                  Inl _ \<Rightarrow> []
                | Inr h \<Rightarrow> [metadataFromHeader h (fi_path f) (fi_mtimeMs f)])))"

definition directory_metadata :: "'w file_system \<Rightarrow> string \<Rightarrow> ('w, load_error, jsonl_metadata list) io" where
  "directory_metadata fs directory =
     io_bind (file_io (fs_listDir fs directory) (''Failed to list sessions directory '' @ directory)) (\<lambda>infos.
     io_concat (file_metadata fs) (filter (\<lambda>i. fi_kind i \<noteq> FK_directory \<and> suffix ''.jsonl'' (fi_name i)) infos))"

definition listJsonlSessionMetadata ::
  "'w file_system \<Rightarrow> string \<Rightarrow> string option \<Rightarrow> ('w, load_error, jsonl_metadata list) io" where
  "listJsonlSessionMetadata fs rootInput cwd =
     io_bind (jsonlSessionDirectories fs rootInput cwd) (\<lambda>directories.
     io_bind (io_concat (directory_metadata fs) directories) (\<lambda>metadata.
     io_return (sort_key (\<lambda>m. - jm_modifiedAt m) metadata)))"

definition session_throw :: "session_error \<Rightarrow> ('w, load_error, 'a) io" where
  "session_throw e = io_throw (Session_failure e)"

definition loadJsonlSessionStorage ::
  "'w file_system \<Rightarrow> jsonl_metadata \<Rightarrow> ('w, load_error, jsonl_storage) io" where
  "loadJsonlSessionStorage fs md =
     io_bind (file_io (fs_exists fs (jm_path md)) (''Failed to check session '' @ jm_path md)) (\<lambda>there.
     if \<not> there then session_throw (SessionError SE_not_found (''Session not found: '' @ jm_id md))
     else io_bind (jsonl_load fs (jm_path md)) (\<lambda>storage.
       if jm_id (jl_metadata storage) \<noteq> jm_id md
         then session_throw (SessionError SE_invalid_entry (''Session id does not match header: '' @ jm_id md))
       else io_return storage))"

section \<open>The repository\<close>

record jsonl_repo =
  jr_sessionsRootInput :: string
  jr_activeCreateDestinations :: "string list"
  jr_rootPromise :: "(load_error, string) result option"

type_synonym ('w, 'a) repo_io = "('w \<times> jsonl_repo, load_error, 'a) io"

definition on_disk :: "('w, load_error, 'a) io \<Rightarrow> ('w, 'a) repo_io" where
  "on_disk f = (\<lambda>(w, r). case f w of (x, w1) \<Rightarrow> (x, (w1, r)))"

definition new_jsonl_repo :: "string \<Rightarrow> jsonl_repo" where
  "new_jsonl_repo base =
     \<lparr>jr_sessionsRootInput = base, jr_activeCreateDestinations = [], jr_rootPromise = None\<rparr>"

text \<open>The promise of the root is kept whether it was fulfilled or rejected.\<close>

definition repo_root :: "'w file_system \<Rightarrow> ('w, string) repo_io" where
  "repo_root fs = (\<lambda>(w, r).
     case jr_rootPromise r of
       Some promise \<Rightarrow> (promise, (w, r))
     | None \<Rightarrow> (case jsonlSessionsRoot fs (jr_sessionsRootInput r) w of
          (promise, w1) \<Rightarrow> (promise, (w1, r\<lparr>jr_rootPromise := Some promise\<rparr>))))"

definition sessionDirectory :: "'w file_system \<Rightarrow> string \<Rightarrow> ('w, string) repo_io" where
  "sessionDirectory fs cwd =
     io_bind (repo_root fs) (\<lambda>base. on_disk (jsonlSessionDirectory fs base cwd))"

definition sessionIdExists :: "'w file_system \<Rightarrow> string \<Rightarrow> string \<Rightarrow> ('w, bool) repo_io" where
  "sessionIdExists fs i cwd =
     io_bind (sessionDirectory fs cwd) (\<lambda>directory.
     io_bind (on_disk (file_io (fs_exists fs directory) (''Failed to check sessions directory '' @ directory))) (\<lambda>there.
     if \<not> there then io_return False
     else io_bind (on_disk (file_io (fs_listDir fs directory) (''Failed to list sessions directory '' @ directory))) (\<lambda>infos.
       io_return (list_ex (\<lambda>f. fi_kind f \<noteq> FK_directory \<and> suffix (''_'' @ i @ ''.jsonl'') (fi_name f)) infos))))"

record create_options =
  co_id :: "string option"
  co_cwd :: string
  co_parentSessionId :: "string option"
  co_metadata :: "fields option"

record destination =
  ds_id :: string
  ds_cwd :: string

definition resolveCreateDestination ::
  "'w file_system \<Rightarrow> create_options \<Rightarrow> string \<Rightarrow> ('w, destination) repo_io" where
  "resolveCreateDestination fs opts uuid =
     (let i = (case co_id opts of Some i \<Rightarrow> i | None \<Rightarrow> uuid) in
      io_bind (io_result (map_sum Session_failure id (validateSessionId i))) (\<lambda>_.
      io_bind (on_disk (file_io (fs_absolutePath fs (co_cwd opts)) (''Failed to resolve session cwd '' @ co_cwd opts))) (\<lambda>cwd.
      io_return \<lparr>ds_id = i, ds_cwd = cwd\<rparr>)))"

definition destination_key :: "destination \<Rightarrow> string" where
  "destination_key d = ds_cwd d @ [CHR 0x00] @ ds_id d"

definition session_taken :: "string \<Rightarrow> load_error" where
  "session_taken i = Session_failure (session_exists i)"

definition claim :: "destination \<Rightarrow> jsonl_repo \<Rightarrow> (load_error, jsonl_repo) result" where
  "claim d r =
     (let key = destination_key d in
      if key \<in> set (jr_activeCreateDestinations r) then Inl (session_taken (ds_id d))
      else Inr (r\<lparr>jr_activeCreateDestinations := jr_activeCreateDestinations r @ [key]\<rparr>))"

definition release :: "destination \<Rightarrow> jsonl_repo \<Rightarrow> jsonl_repo" where
  "release d r =
     r\<lparr>jr_activeCreateDestinations := remove1 (destination_key d) (jr_activeCreateDestinations r)\<rparr>"

definition claimCreateDestination :: "destination \<Rightarrow> ('w, 'a) repo_io \<Rightarrow> ('w, 'a) repo_io" where
  "claimCreateDestination d operation = (\<lambda>(w, r).
     case claim d r of
       Inl e \<Rightarrow> (Inl e, (w, r))
     | Inr claimed \<Rightarrow> (case operation (w, claimed) of (x, (w1, r1)) \<Rightarrow> (x, (w1, release d r1))))"

text \<open>
  The metadata of the options is JSON by its type, so \<open>assertJsonSerializable\<close> accepts it.
\<close>

definition prepare_path ::
  "'w file_system \<Rightarrow> destination \<Rightarrow> create_options \<Rightarrow> int \<Rightarrow> ('w, jsonl_header \<times> string) repo_io" where
  "prepare_path fs d opts now =
     io_bind (sessionDirectory fs (ds_cwd d)) (\<lambda>directory.
     io_bind (on_disk (file_io (fs_joinPath fs [directory, sessionFileName now (ds_id d)])
       (''Failed to resolve path for session '' @ ds_id d))) (\<lambda>path.
     io_bind (on_disk (file_io (fs_createDir fs directory) ''Failed to create sessions directory'')) (\<lambda>_.
     io_return (\<lparr>jh_id = ds_id d, jh_createdAt = now, jh_cwd = ds_cwd d,
       jh_parentSessionId = co_parentSessionId opts, jh_legacyParentSessionPath = None,
       jh_metadata = co_metadata opts\<rparr>, path))))"

definition prepareCreate ::
  "'w file_system \<Rightarrow> destination \<Rightarrow> create_options \<Rightarrow> int \<Rightarrow> ('w, jsonl_header \<times> string) repo_io" where
  "prepareCreate fs d opts now =
     io_bind (sessionIdExists fs (ds_id d) (ds_cwd d)) (\<lambda>there.
     if there then io_throw (session_taken (ds_id d)) else prepare_path fs d opts now)"

definition jsonl_repo_create ::
  "'w file_system \<Rightarrow> create_options \<Rightarrow> string \<Rightarrow> int \<Rightarrow> ('w, jsonl_storage) repo_io" where
  "jsonl_repo_create fs opts uuid now =
     io_bind (resolveCreateDestination fs opts uuid) (\<lambda>d.
     claimCreateDestination d
       (io_bind (prepareCreate fs d opts now) (\<lambda>(header, path). on_disk (jsonl_create fs path header))))"

definition jsonl_repo_open :: "'w file_system \<Rightarrow> jsonl_metadata \<Rightarrow> ('w, jsonl_storage) repo_io" where
  "jsonl_repo_open fs md = on_disk (loadJsonlSessionStorage fs md)"

definition jsonl_repo_list :: "'w file_system \<Rightarrow> string option \<Rightarrow> ('w, jsonl_metadata list) repo_io" where
  "jsonl_repo_list fs cwd =
     (\<lambda>(w, r). on_disk (listJsonlSessionMetadata fs (jr_sessionsRootInput r) cwd) (w, r))"

definition jsonl_repo_delete :: "'w file_system \<Rightarrow> jsonl_metadata \<Rightarrow> ('w, unit) repo_io" where
  "jsonl_repo_delete fs md =
     on_disk (file_io (fs_remove fs (jm_path md)) (''Failed to delete session '' @ jm_path md))"

definition jsonl_repo_fork ::
  "'w file_system \<Rightarrow> jsonl_metadata \<Rightarrow> create_options \<Rightarrow> fork_options \<Rightarrow> string \<Rightarrow> int \<Rightarrow> ('w, jsonl_storage) repo_io" where
  "jsonl_repo_fork fs source opts forkOpts uuid now =
     io_bind (on_disk (loadJsonlSessionStorage fs source)) (\<lambda>sourceStorage.
     let opts = opts\<lparr>co_parentSessionId :=
       Some (case co_parentSessionId opts of Some p \<Rightarrow> p | None \<Rightarrow> jm_id source)\<rparr> in
     io_bind (resolveCreateDestination fs opts uuid) (\<lambda>d.
     claimCreateDestination d
       (io_bind (prepareCreate fs d opts now) (\<lambda>(header, path).
          on_disk (jsonl_fork fs path header forkOpts sourceStorage)))))"

end
