(* ===== verification/Jsonl_Creation.thy ===== *)
theory Jsonl_Creation
  imports Jsonl_Repo
begin

text \<open>
  Concurrent creations through one repository. A creation waits for the file system between its
  steps, and the steps of others happen meanwhile; the claim of its destination is what keeps two
  of them from finding the same id free. The steps are those of \<open>create\<close> in
  \<open>packages/agent/src/harness/session/jsonl/repo.ts\<close>.
\<close>

section \<open>The steps\<close>

datatype create_call =
    Requested destination create_options
  | Claimed destination create_options
  | Checked destination create_options
  | Created destination jsonl_storage
  | Rejected load_error

text \<open>What follows the check of the id: the path, the directory and the file.\<close>

definition finish_create ::
  "'w file_system \<Rightarrow> destination \<Rightarrow> create_options \<Rightarrow> int \<Rightarrow> ('w, jsonl_storage) repo_io" where
  "finish_create fs d opts now =
     io_bind (prepare_path fs d opts now) (\<lambda>(header, path). on_disk (jsonl_create fs path header))"

definition next_call ::
  "'w file_system \<Rightarrow> int \<Rightarrow> create_call \<Rightarrow> 'w \<times> jsonl_repo \<Rightarrow> create_call \<times> ('w \<times> jsonl_repo)" where
  "next_call fs now c wr =
     (case c of
        Requested d opts \<Rightarrow>
          (case claim d (snd wr) of
             Inl e \<Rightarrow> (Rejected e, wr)
           | Inr r \<Rightarrow> (Claimed d opts, (fst wr, r)))
      | Claimed d opts \<Rightarrow>
          (case sessionIdExists fs (ds_id d) (ds_cwd d) wr of
             (Inl e, wr1) \<Rightarrow> (Rejected e, apsnd (release d) wr1)
           | (Inr True, wr1) \<Rightarrow> (Rejected (session_taken (ds_id d)), apsnd (release d) wr1)
           | (Inr False, wr1) \<Rightarrow> (Checked d opts, wr1))
      | Checked d opts \<Rightarrow>
          (case finish_create fs d opts now wr of
             (Inl e, wr1) \<Rightarrow> (Rejected e, apsnd (release d) wr1)
           | (Inr st, wr1) \<Rightarrow> (Created d st, apsnd (release d) wr1))
      | _ \<Rightarrow> (c, wr))"

text \<open>A state has the calls and the world with the repository; any call may take the next step.\<close>

inductive creation_steps ::
  "'w file_system \<Rightarrow> create_call list \<times> ('w \<times> jsonl_repo) \<Rightarrow> create_call list \<times> ('w \<times> jsonl_repo) \<Rightarrow> bool"
  for fs start where
  none: "creation_steps fs start start"
| step: "creation_steps fs start (calls, wr) \<Longrightarrow> k < length calls \<Longrightarrow>
    next_call fs now (calls ! k) wr = (c, wr1) \<Longrightarrow> creation_steps fs start (calls[k := c], wr1)"

text \<open>One call alone takes the steps of \<open>create\<close>.\<close>

lemma create_is_steps:
  assumes d: "resolveCreateDestination fs opts uuid wr = (Inr d, wr0)"
  shows "jsonl_repo_create fs opts uuid now wr =
    (case next_call fs now (Requested d opts) wr0 of
       (Rejected e, wr1) \<Rightarrow> (Inl e, wr1)
     | (c1, wr1) \<Rightarrow> (case next_call fs now c1 wr1 of
          (Rejected e, wr2) \<Rightarrow> (Inl e, wr2)
        | (c2, wr2) \<Rightarrow> (case next_call fs now c2 wr2 of
             (Created _ st, wr3) \<Rightarrow> (Inr st, wr3)
           | (Rejected e, wr3) \<Rightarrow> (Inl e, wr3)
           | (_, wr3) \<Rightarrow> (Inl Foreign_object, wr3))))"
  using d
  by (auto simp: jsonl_repo_create_def io_bind_def next_call_def claimCreateDestination_def prepareCreate_def
      finish_create_def io_throw_def split: sum.splits prod.splits bool.splits)

section \<open>The contract of the directory listing\<close>

locale listed_files =
  fixes fs :: "'w file_system" and listed :: "'w \<Rightarrow> string \<Rightarrow> string \<Rightarrow> bool" and join :: "string list \<Rightarrow> string"
  assumes absolute_keeps: "listed w d n \<Longrightarrow> listed (snd (fs_absolutePath fs p w)) d n"
    and join_keeps: "listed w d n \<Longrightarrow> listed (snd (fs_joinPath fs ps w)) d n"
    and exists_keeps: "listed w d n \<Longrightarrow> listed (snd (fs_exists fs p w)) d n"
    and list_keeps: "listed w d n \<Longrightarrow> listed (snd (fs_listDir fs p w)) d n"
    and create_dir_keeps: "listed w d n \<Longrightarrow> listed (snd (fs_createDir fs p w)) d n"
    and write_keeps: "listed w d n \<Longrightarrow> listed (snd (fs_writeFile fs p t w)) d n"
    and info_keeps: "listed w d n \<Longrightarrow> listed (snd (fs_fileInfo fs p w)) d n"
    and join_path: "fs_joinPath fs ps w = (Inr p, w1) \<Longrightarrow> p = join ps"
    and exists_lists: "fs_exists fs d w = (Inr False, w1) \<Longrightarrow> \<not> listed w d n"
    and list_lists: "fs_listDir fs d w = (Inr infos, w1) \<Longrightarrow> listed w d n \<Longrightarrow>
      \<exists>f \<in> set infos. fi_name f = n \<and> fi_kind f \<noteq> FK_directory"
    and write_lists: "fs_writeFile fs (join [d, n]) t w = (Inr u, w1) \<Longrightarrow> CHR ''/'' \<notin> set n \<Longrightarrow> listed w1 d n"

section \<open>What a step keeps and what it stores\<close>

lemma digit_chars: "digit_char ` {..<10} = set ''0123456789''"
proof -
  have "{..<10::nat} = set [0..<10]" by auto
  then show ?thesis by (simp only: set_map[symmetric]) code_simp
qed

lemma pad_number_slash: "CHR ''/'' \<notin> set (pad_number k n)"
  using string_of_nat_digits[of "nat n"] by (auto simp: pad_number_def Let_def digit_chars)

lemma sessionFileName_slash:
  assumes "session_id_pattern i"
  shows "CHR ''/'' \<notin> set (sessionFileName ms i)"
proof -
  have "CHR ''/'' \<notin> set i" using assms by (auto simp: session_id_pattern_def list_all_iff ascii_alnum_def)
  then show ?thesis by (auto simp: pad_number_slash sessionFileName_def toISOString_def iso_year_def Let_def split: prod.splits)
qed

text \<open>Listed files stay listed, the resolved root stays, and the claims are only changed by a claim or release.\<close>

definition kept :: "('w \<Rightarrow> string \<Rightarrow> string \<Rightarrow> bool) \<Rightarrow> 'w \<times> jsonl_repo \<Rightarrow> 'w \<times> jsonl_repo \<Rightarrow> bool" where
  "kept listed wr wr1 \<longleftrightarrow>
     (\<forall>d n. listed (fst wr) d n \<longrightarrow> listed (fst wr1) d n) \<and>
     (\<forall>p. jr_rootPromise (snd wr) = Some p \<longrightarrow> jr_rootPromise (snd wr1) = Some p) \<and>
     jr_activeCreateDestinations (snd wr1) = jr_activeCreateDestinations (snd wr)"

lemma kept_refl [simp]: "kept listed wr wr"
  by (simp add: kept_def)

lemma kept_trans [trans]: "kept listed wr wr1 \<Longrightarrow> kept listed wr1 wr2 \<Longrightarrow> kept listed wr wr2"
  by (simp add: kept_def)

definition stored ::
  "('w \<Rightarrow> string \<Rightarrow> string \<Rightarrow> bool) \<Rightarrow> (string list \<Rightarrow> string) \<Rightarrow> 'w \<times> jsonl_repo \<Rightarrow> destination \<Rightarrow> bool" where
  "stored listed join wr d \<longleftrightarrow>
     (\<exists>base n. jr_rootPromise (snd wr) = Some (Inr base) \<and>
        listed (fst wr) (join [base, jsonlSessionDirectoryName (ds_cwd d)]) n \<and>
        suffix (''_'' @ ds_id d @ ''.jsonl'') n)"

lemma stored_kept: "stored listed join wr d \<Longrightarrow> kept listed wr wr1 \<Longrightarrow> stored listed join wr1 d"
  unfolding stored_def kept_def by blast

lemma stored_same:
  "fst wr1 = fst wr \<Longrightarrow> jr_rootPromise (snd wr1) = jr_rootPromise (snd wr) \<Longrightarrow>
     stored listed join wr1 d = stored listed join wr d"
  by (simp add: stored_def)

lemma release_simps [simp]:
  "fst (apsnd (release d) wr) = fst wr" "jr_rootPromise (release d r) = jr_rootPromise r"
  "jr_activeCreateDestinations (release d r) = remove1 (destination_key d) (jr_activeCreateDestinations r)"
  "stored listed join (apsnd (release e) wr) d = stored listed join wr d"
  by (simp_all add: release_def stored_def)

lemma on_disk_kept:
  assumes "on_disk (file_io f message) wr = (x, wr1)"
    and "\<And>d n. listed (fst wr) d n \<Longrightarrow> listed (snd (f (fst wr))) d n"
  shows "kept listed wr wr1"
  using assms by (cases wr) (auto simp: on_disk_def file_io_def kept_def split: prod.splits)

lemma on_disk_result:
  "on_disk f wr = (x, wr1) \<Longrightarrow> f (fst wr) = (x, fst wr1) \<and> snd wr1 = snd wr"
  by (cases wr) (auto simp: on_disk_def split: prod.splits)

context listed_files
begin

lemma root_kept:
  assumes "repo_root fs wr = (x, wr1)"
  shows "kept listed wr wr1 \<and> jr_rootPromise (snd wr1) = Some x"
proof (cases "jr_rootPromise (snd wr)")
  case None
  then show ?thesis using assms absolute_keeps[of "fst wr"]
    by (cases wr, auto simp: repo_root_def jsonlSessionsRoot_def file_io_def kept_def split: prod.splits)
      (metis snd_conv)
next
  case (Some p)
  then show ?thesis using assms by (cases wr) (auto simp: repo_root_def)
qed

lemma directory_kept:
  assumes "sessionDirectory fs cwd wr = (x, wr1)"
  shows "kept listed wr wr1 \<and> (\<forall>dir. x = Inr dir \<longrightarrow>
     (\<exists>base. jr_rootPromise (snd wr1) = Some (Inr base) \<and> dir = join [base, jsonlSessionDirectoryName cwd]))"
  using assms unfolding sessionDirectory_def
proof (cases rule: io_bind_cases)
  case (failed e)
  then show ?thesis using root_kept by blast
next
  case (ok base w')
  note root = root_kept[OF ok(1)]
  have dir: "kept listed w' wr1"
    using on_disk_kept[where listed = listed, OF ok(2)[unfolded jsonlSessionDirectory_def] join_keeps] by blast
  have "dir = join [base, jsonlSessionDirectoryName cwd]" if "x = Inr dir" for dir
  proof -
    from on_disk_result[OF ok(2)] that
    have "file_io (fs_joinPath fs [base, jsonlSessionDirectoryName cwd])
        (''Failed to resolve sessions directory for '' @ cwd) (fst w') = (Inr dir, fst wr1)"
      by (simp add: jsonlSessionDirectory_def)
    then show ?thesis by (cases rule: file_io_cases) (auto dest: join_path)
  qed
  moreover have "jr_rootPromise (snd wr1) = Some (Inr base)" using root dir by (simp add: kept_def)
  ultimately show ?thesis using kept_trans[OF conjunct1[OF root] dir] by blast
qed

lemma id_exists_kept:
  assumes "sessionIdExists fs i cwd wr = (x, wr1)"
  shows "kept listed wr wr1 \<and>
    (stored listed join wr \<lparr>ds_id = i, ds_cwd = cwd\<rparr> \<longrightarrow> x \<noteq> Inr False)"
  using assms unfolding sessionIdExists_def
proof (cases rule: io_bind_cases)
  case (failed e)
  then show ?thesis using directory_kept by auto
next
  case (ok dir wr2)
  note directory = directory_kept[OF ok(1)]
  let ?d = "\<lparr>ds_id = i, ds_cwd = cwd\<rparr>"
  have listed2: "\<exists>n. listed (fst wr2) dir n \<and> suffix (''_'' @ i @ ''.jsonl'') n" if "stored listed join wr ?d"
    using stored_kept[OF that conjunct1[OF directory]] directory by (auto simp: stored_def)
  from ok(2) show ?thesis
  proof (cases rule: io_bind_cases)
    case (failed e)
    from on_disk_kept[where listed = listed, OF failed(1) exists_keeps] have "kept listed wr2 wr1" by blast
    with failed(2) directory show ?thesis by (auto intro: kept_trans)
  next
    case (ok there wr3)
    have k3: "kept listed wr2 wr3" using on_disk_kept[where listed = listed, OF ok(1) exists_keeps] by blast
    have there: "fs_exists fs dir (fst wr2) = (Inr there, fst wr3)"
      using conjunct1[OF on_disk_result[OF ok(1)]] by (cases rule: file_io_cases) auto
    show ?thesis
    proof (cases there)
      case False
      then have "\<not> stored listed join wr ?d" using listed2 exists_lists[of dir "fst wr2" "fst wr3"] there by auto
      with False ok(2) k3 directory show ?thesis by (auto simp: io_return_def intro: kept_trans)
    next
      case True
      with ok(2) have rest: "io_bind (on_disk (file_io (fs_listDir fs dir) (''Failed to list sessions directory '' @ dir)))
          (\<lambda>infos. io_return (list_ex (\<lambda>f. fi_kind f \<noteq> FK_directory \<and> suffix (''_'' @ i @ ''.jsonl'') (fi_name f)) infos))
          wr3 = (x, wr1)" by simp
      from rest show ?thesis
      proof (cases rule: io_bind_cases)
        case (failed e)
        from on_disk_kept[where listed = listed, OF failed(1) list_keeps] have "kept listed wr3 wr1" by blast
        with failed(2) k3 directory show ?thesis by (auto intro: kept_trans)
      next
        case (ok infos wr4)
        have "kept listed wr3 wr4" using on_disk_kept[where listed = listed, OF ok(1) list_keeps] by blast
        moreover have "fs_listDir fs dir (fst wr3) = (Inr infos, fst wr4)"
          using conjunct1[OF on_disk_result[OF ok(1)]] by (cases rule: file_io_cases) auto
        moreover have "\<exists>n. listed (fst wr3) dir n \<and> suffix (''_'' @ i @ ''.jsonl'') n" if "stored listed join wr ?d"
          using listed2[OF that] k3 by (auto simp: kept_def)
        ultimately show ?thesis using ok(2) k3 directory list_lists[of dir "fst wr3" infos]
          by (auto simp: io_return_def list_ex_iff intro: kept_trans; meson kept_trans)
      qed
    qed
  qed
qed

lemma prepare_kept:
  assumes "prepare_path fs d opts now wr = (x, wr1)"
  shows "kept listed wr wr1 \<and> (\<forall>h path. x = Inr (h, path) \<longrightarrow>
     (\<exists>base. jr_rootPromise (snd wr1) = Some (Inr base) \<and>
        path = join [join [base, jsonlSessionDirectoryName (ds_cwd d)], sessionFileName now (ds_id d)]))"
  using assms unfolding prepare_path_def
proof (cases rule: io_bind_cases)
  case (failed e)
  then show ?thesis using directory_kept by auto
next
  case (ok dir wr2)
  note directory = directory_kept[OF ok(1)]
  from ok(2) show ?thesis
  proof (cases rule: io_bind_cases)
    case (failed e)
    from on_disk_kept[where listed = listed, OF failed(1) join_keeps] have "kept listed wr2 wr1" by blast
    with failed(2) directory show ?thesis by (auto intro: kept_trans)
  next
    case (ok path wr3)
    have k3: "kept listed wr2 wr3" using on_disk_kept[where listed = listed, OF ok(1) join_keeps] by blast
    have "fs_joinPath fs [dir, sessionFileName now (ds_id d)] (fst wr2) = (Inr path, fst wr3)"
      using conjunct1[OF on_disk_result[OF ok(1)]] by (cases rule: file_io_cases) auto
    then have path: "path = join [dir, sessionFileName now (ds_id d)]" by (rule join_path)
    from ok(2) show ?thesis
    proof (cases rule: io_bind_cases)
      case (failed e)
      from on_disk_kept[where listed = listed, OF failed(1) create_dir_keeps] have "kept listed wr3 wr1" by blast
      with failed(2) k3 directory show ?thesis by (auto intro: kept_trans)
    next
      case (ok u wr4)
      have k4: "kept listed wr3 wr4" using on_disk_kept[where listed = listed, OF ok(1) create_dir_keeps] by blast
      have "kept listed wr wr4" using kept_trans[OF kept_trans[OF conjunct1[OF directory] k3] k4] .
      moreover have "\<forall>b. jr_rootPromise (snd wr2) = Some b \<longrightarrow> jr_rootPromise (snd wr4) = Some b"
        using k3 k4 by (simp add: kept_def)
      ultimately show ?thesis using ok(2) directory path by (auto simp: io_return_def)
    qed
  qed
qed

lemma finish_stores:
  assumes "finish_create fs d opts now wr = (x, wr1)" and i: "session_id_pattern (ds_id d)"
  shows "kept listed wr wr1 \<and> (\<forall>st. x = Inr st \<longrightarrow> stored listed join wr1 d)"
  using assms(1) unfolding finish_create_def
proof (cases rule: io_bind_cases)
  case (failed e)
  then show ?thesis using prepare_kept by auto
next
  case (ok hp wr2)
  obtain h path where hp: "hp = (h, path)" by force
  note prepared = prepare_kept[OF ok(1)[unfolded hp]]
  have create: "on_disk (jsonl_create fs path h) wr2 = (x, wr1)" using ok(2) hp by simp
  have steps: "jsonl_create fs path h (fst wr2) = (x, fst wr1)" and same: "snd wr1 = snd wr2"
    using on_disk_result[OF create] by auto
  have written: "(\<forall>d n. listed (fst wr2) d n \<longrightarrow> listed (fst wr1) d n) \<and>
     (\<forall>st. x = Inr st \<longrightarrow> (\<forall>dir n. path = join [dir, n] \<longrightarrow> CHR ''/'' \<notin> set n \<longrightarrow> listed (fst wr1) dir n))"
    using steps unfolding jsonl_create_def
  proof (cases rule: io_bind_cases)
    case (failed e)
    from failed(1) have "\<exists>fr. fs_writeFile fs path (encodeHeader h) (fst wr2) = (fr, fst wr1)"
      by (cases rule: file_io_cases) auto
    with failed(2) write_keeps[of "fst wr2" _ _ path "encodeHeader h"] show ?thesis by auto
  next
    case (ok u w3)
    from ok(1) have wrote: "fs_writeFile fs path (encodeHeader h) (fst wr2) = (Inr u, w3)"
      by (cases rule: file_io_cases) auto
    from ok(2) have "\<exists>fr. fs_fileInfo fs path w3 = (fr, fst wr1)"
      by (cases rule: io_bind_cases; elim file_io_cases) (auto simp: io_return_def)
    with wrote write_keeps[of "fst wr2" _ _ path "encodeHeader h"] info_keeps[of w3 _ _ path]
      write_lists[of _ _ "encodeHeader h" "fst wr2" u w3] show ?thesis by auto
  qed
  have kept2: "kept listed wr2 wr1" using written same by (simp add: kept_def)
  have "stored listed join wr1 d" if st: "x = Inr st" for st
  proof -
    from prepared obtain base where base: "jr_rootPromise (snd wr2) = Some (Inr base)"
      and path: "path = join [join [base, jsonlSessionDirectoryName (ds_cwd d)], sessionFileName now (ds_id d)]" by auto
    have "suffix (''_'' @ ds_id d @ ''.jsonl'') (sessionFileName now (ds_id d))"
      by (simp add: sessionFileName_def suffix_def)
    moreover have "listed (fst wr1) (join [base, jsonlSessionDirectoryName (ds_cwd d)]) (sessionFileName now (ds_id d))"
      using written st path sessionFileName_slash[OF i] by blast
    ultimately show ?thesis using base same unfolding stored_def by auto
  qed
  with kept2 prepared show ?thesis by (auto intro: kept_trans)
qed

end

section \<open>At most one creation of an id\<close>

fun wanted :: "create_call \<Rightarrow> destination option" where
  "wanted (Requested d _) = Some d"
| "wanted (Claimed d _) = Some d"
| "wanted (Checked d _) = Some d"
| "wanted _ = None"

fun flying :: "create_call \<Rightarrow> destination option" where
  "flying (Claimed d _) = Some d"
| "flying (Checked d _) = Some d"
| "flying _ = None"

definition call_ok ::
  "('w \<Rightarrow> string \<Rightarrow> string \<Rightarrow> bool) \<Rightarrow> (string list \<Rightarrow> string) \<Rightarrow> 'w \<times> jsonl_repo \<Rightarrow> create_call \<Rightarrow> bool" where
  "call_ok listed join wr c \<longleftrightarrow>
     (\<forall>d. wanted c = Some d \<longrightarrow> session_id_pattern (ds_id d)) \<and>
     (\<forall>d. flying c = Some d \<longrightarrow> destination_key d \<in> set (jr_activeCreateDestinations (snd wr))) \<and>
     (\<forall>d st. c = Created d st \<longrightarrow> stored listed join wr d)"

definition calls_apart :: "create_call \<Rightarrow> create_call \<Rightarrow> bool" where
  "calls_apart b c \<longleftrightarrow>
     (\<forall>d e. flying b = Some d \<longrightarrow> flying c = Some e \<longrightarrow> destination_key d \<noteq> destination_key e) \<and>
     (\<forall>d st. b = Created d st \<longrightarrow> (\<forall>opts. c \<noteq> Checked d opts) \<and> (\<forall>st. c \<noteq> Created d st))"

definition creations_ok ::
  "('w \<Rightarrow> string \<Rightarrow> string \<Rightarrow> bool) \<Rightarrow> (string list \<Rightarrow> string) \<Rightarrow> create_call list \<Rightarrow> 'w \<times> jsonl_repo \<Rightarrow> bool" where
  "creations_ok listed join calls wr \<longleftrightarrow>
     distinct (jr_activeCreateDestinations (snd wr)) \<and>
     (\<forall>k < length calls. call_ok listed join wr (calls ! k)) \<and>
     (\<forall>j < length calls. \<forall>k < length calls. j \<noteq> k \<longrightarrow> calls_apart (calls ! j) (calls ! k))"

lemma creations_ok_update:
  assumes ok: "creations_ok listed join calls wr" and k: "k < length calls"
    and active: "distinct (jr_activeCreateDestinations (snd wr1))" and c: "call_ok listed join wr1 c"
    and others: "\<And>b. call_ok listed join wr b \<Longrightarrow> calls_apart b (calls ! k) \<Longrightarrow> calls_apart (calls ! k) b \<Longrightarrow>
      call_ok listed join wr1 b \<and> calls_apart b c \<and> calls_apart c b"
  shows "creations_ok listed join (calls[k := c]) wr1"
proof -
  have "call_ok listed join wr1 (calls ! j) \<and> calls_apart (calls ! j) c \<and> calls_apart c (calls ! j)"
    if "j < length calls" "j \<noteq> k" for j
    using others[of "calls ! j"] ok that k unfolding creations_ok_def by blast
  with active c ok k show ?thesis by (auto simp: creations_ok_def nth_list_update)
qed

lemma creations_okD:
  assumes "creations_ok listed join calls wr" and "k < length calls"
  shows "call_ok listed join wr (calls ! k)" "distinct (jr_activeCreateDestinations (snd wr))"
  using assms by (simp_all add: creations_ok_def)

context listed_files
begin

lemma next_call_cases:
  assumes "next_call fs now c wr = (c1, wr1)" and "\<And>d. wanted c = Some d \<Longrightarrow> session_id_pattern (ds_id d)"
  obtains (stays) "c1 = c \<or> (\<exists>e. c1 = Rejected e) \<and> flying c = None" "wr1 = wr"
  | (claims) d opts where "c = Requested d opts" "c1 = Claimed d opts" "fst wr1 = fst wr"
      "jr_rootPromise (snd wr1) = jr_rootPromise (snd wr)"
      "destination_key d \<notin> set (jr_activeCreateDestinations (snd wr))"
      "jr_activeCreateDestinations (snd wr1) = jr_activeCreateDestinations (snd wr) @ [destination_key d]"
  | (gives_up) d e wr2 where "flying c = Some d" "c1 = Rejected e" "kept listed wr wr2" "wr1 = apsnd (release d) wr2"
  | (checks) d opts where "c = Claimed d opts" "c1 = Checked d opts" "kept listed wr wr1" "\<not> stored listed join wr d"
  | (creates) d opts st wr2 where "c = Checked d opts" "c1 = Created d st" "kept listed wr wr2"
      "stored listed join wr2 d" "wr1 = apsnd (release d) wr2"
proof (cases c)
  case (Requested d opts)
  show ?thesis
  proof (cases "claim d (snd wr)")
    case (Inl e)
    then show ?thesis using assms stays Requested by (auto simp: next_call_def)
  next
    case (Inr r)
    then show ?thesis using assms claims Requested
      by (auto simp: next_call_def claim_def Let_def split: if_splits)
  qed
next
  case (Claimed d opts)
  obtain x wr2 where x: "sessionIdExists fs (ds_id d) (ds_cwd d) wr = (x, wr2)" by (metis prod.exhaust)
  have "\<lparr>ds_id = ds_id d, ds_cwd = ds_cwd d\<rparr> = d" by (cases d) simp
  with id_exists_kept[OF x] have k: "kept listed wr wr2" "stored listed join wr d \<Longrightarrow> x \<noteq> Inr False"
    by (simp_all only: simp_thms)
  show ?thesis
  proof (cases x)
    case (Inl e)
    show ?thesis
      by (rule gives_up[of d e wr2]) (use assms Inl Claimed x k in \<open>auto simp: next_call_def\<close>)
  next
    case (Inr there)
    show ?thesis
    proof (cases there)
      case True
      show ?thesis
        by (rule gives_up[of d "session_taken (ds_id d)" wr2])
          (use assms Inr True Claimed x k in \<open>auto simp: next_call_def\<close>)
    next
      case False
      show ?thesis
        by (rule checks[of d opts]) (use assms Inr False Claimed x k in \<open>auto simp: next_call_def\<close>)
    qed
  qed
next
  case (Checked d opts)
  obtain x wr2 where x: "finish_create fs d opts now wr = (x, wr2)" by (metis prod.exhaust)
  have "session_id_pattern (ds_id d)" using assms(2) Checked by simp
  note k = finish_stores[OF x this]
  show ?thesis
  proof (cases x)
    case (Inl e)
    show ?thesis
      by (rule gives_up[of d e wr2]) (use assms Inl Checked x k in \<open>auto simp: next_call_def\<close>)
  next
    case (Inr st)
    show ?thesis
      by (rule creates[of d opts st wr2]) (use assms Inr Checked x k in \<open>auto simp: next_call_def\<close>)
  qed
qed (use assms stays in \<open>auto simp: next_call_def\<close>)

lemma kept_active:
  "kept listed wr wr1 \<Longrightarrow> jr_activeCreateDestinations (snd wr1) = jr_activeCreateDestinations (snd wr)"
  by (simp add: kept_def)

lemma creations_ok_step:
  assumes ok: "creations_ok listed join calls wr" and k: "k < length calls"
    and nxt: "next_call fs now (calls ! k) wr = (c, wr1)"
  shows "creations_ok listed join (calls[k := c]) wr1"
  using nxt
proof (cases rule: next_call_cases[consumes 1, case_names valid stays claims gives_up checks creates])
  case (valid d)
  then show ?case using creations_okD(1)[OF ok k] by (simp add: call_ok_def)
next
  case stays
  then show ?thesis
  proof (elim disjE conjE exE)
    assume "c = calls ! k"
    then show ?thesis using ok stays by simp
  next
    fix e assume c: "c = Rejected e" "flying (calls ! k) = None"
    show ?thesis unfolding stays(2)
      by (rule creations_ok_update[OF ok k]) (use creations_okD[OF ok k] c in \<open>simp_all add: call_ok_def calls_apart_def\<close>)
  qed
next
  case (claims d opts)
  have same: "stored listed join wr1 e = stored listed join wr e" for e
    using claims(3,4) by (rule stored_same)
  show ?thesis
    by (rule creations_ok_update[OF ok k])
      (use creations_okD[OF ok k] claims in \<open>auto simp: call_ok_def calls_apart_def same\<close>)
next
  case (gives_up d e wr2)
  note kept = stored_kept[OF _ gives_up(3)] kept_active[OF gives_up(3)]
  show ?thesis
    by (rule creations_ok_update[OF ok k])
      (use creations_okD[OF ok k] gives_up kept in \<open>auto simp: call_ok_def calls_apart_def in_set_remove1\<close>)
next
  case (checks d opts)
  note kept = stored_kept[OF _ checks(3)] kept_active[OF checks(3)]
  show ?thesis
    by (rule creations_ok_update[OF ok k])
      (use creations_okD[OF ok k] checks kept in \<open>auto simp: call_ok_def calls_apart_def\<close>)
next
  case (creates d opts st wr2)
  note kept = stored_kept[OF _ creates(3)] kept_active[OF creates(3)]
  show ?thesis
    by (rule creations_ok_update[OF ok k])
      (use creations_okD[OF ok k] creates kept in \<open>auto simp: call_ok_def calls_apart_def in_set_remove1\<close>)
qed

lemma creations_never_shared:
  assumes "creation_steps fs start (calls, wr)" and "distinct (jr_activeCreateDestinations (snd (snd start)))"
    and "list_all (\<lambda>c. \<exists>d opts. c = Requested d opts \<and> session_id_pattern (ds_id d)) (fst start)"
  shows "creations_ok listed join calls wr"
proof -
  have "creations_ok listed join (fst start) (snd start)"
    using assms(2,3) by (auto simp: creations_ok_def call_ok_def calls_apart_def list_all_length; force)
  moreover have "creations_ok listed join (fst s) (snd s)"
    if "creation_steps fs start s" "creations_ok listed join (fst start) (snd start)" for s
    using that by (induction rule: creation_steps.induct) (auto intro: creations_ok_step)
  ultimately show ?thesis using assms(1) by fastforce
qed

end

end
