(* ===== verification/Jsonl_Disk.thy ===== *)
theory Jsonl_Disk
  imports Jsonl_Creation
begin

text \<open>
  A disk for the file system: files with their text and the time of their last change,
  directories, and a schedule of faults. Each operation that changes the disk takes the next entry
  of the schedule: \<open>None\<close> lets it pass, \<open>Some n\<close> makes it fail after its first \<open>n\<close> characters. The
  operations answer as those of \<open>packages/agent/src/harness/env/nodejs.ts\<close> do for absolute paths;
  the disk gives the contracts \<open>durable_files\<close> and \<open>listed_files\<close>.
\<close>

section \<open>The disk\<close>

record disk =
  dk_files :: "(string, string \<times> int) js_map"
  dk_directories :: "string list"
  dk_clock :: int
  dk_faults :: "nat option list"

definition disk_text :: "disk \<Rightarrow> string \<Rightarrow> string option" where
  "disk_text w p = map_option fst (map_get (dk_files w) p)"

definition next_fault :: "disk \<Rightarrow> nat option \<times> disk" where
  "next_fault w =
     (case dk_faults w of [] \<Rightarrow> (None, w) | f # fs \<Rightarrow> (f, w\<lparr>dk_faults := fs\<rparr>))"

definition store_text :: "string \<Rightarrow> string \<Rightarrow> disk \<Rightarrow> disk" where
  "store_text p t w = w\<lparr>dk_files := map_set p (t, dk_clock w) (dk_files w), dk_clock := dk_clock w + 1\<rparr>"

definition missing :: "string \<Rightarrow> file_error" where
  "missing p = FileError FE_not_found (''no such file or directory: '' @ p)"

definition device_full :: file_error where
  "device_full = FileError FE_other ''no space left on device''"

definition with_fault ::
  "(disk \<Rightarrow> (file_error, 'a) result \<times> disk) \<Rightarrow> (nat \<Rightarrow> disk \<Rightarrow> disk) \<Rightarrow> disk \<Rightarrow> (file_error, 'a) result \<times> disk" where
  "with_fault f partial w =
     (case next_fault w of (None, w1) \<Rightarrow> f w1 | (Some n, w1) \<Rightarrow> (Inl device_full, partial n w1))"

definition path_join :: "string list \<Rightarrow> string" where
  "path_join = js_join ''/''"

definition child_name :: "string \<Rightarrow> string \<Rightarrow> string option" where
  "child_name d p =
     (let start = d @ ''/''; n = drop (length start) p
      in if prefix start p \<and> CHR ''/'' \<notin> set n then Some n else None)"

definition directory_there :: "disk \<Rightarrow> string \<Rightarrow> bool" where
  "directory_there w d \<longleftrightarrow> d \<in> set (dk_directories w) \<or> list_ex (\<lambda>(p, _). prefix (d @ ''/'') p) (dk_files w)"

definition disk_listing :: "disk \<Rightarrow> string \<Rightarrow> file_info list" where
  "disk_listing w d =
     concat (map (\<lambda>p. case child_name d p of None \<Rightarrow> []
       | Some n \<Rightarrow> [\<lparr>fi_name = n, fi_path = p, fi_kind = FK_directory, fi_mtimeMs = 0\<rparr>]) (dk_directories w)) @
     concat (map (\<lambda>(p, t, m). case child_name d p of None \<Rightarrow> []
       | Some n \<Rightarrow> [\<lparr>fi_name = n, fi_path = p, fi_kind = FK_file, fi_mtimeMs = m\<rparr>]) (dk_files w))"

definition disk_fs :: "disk file_system" where
  "disk_fs = \<lparr>
     fs_absolutePath = (\<lambda>p w. (Inr p, w)),
     fs_joinPath = (\<lambda>ps w. (Inr (path_join ps), w)),
     fs_readTextFile = (\<lambda>p w. (case disk_text w p of None \<Rightarrow> Inl (missing p) | Some t \<Rightarrow> Inr t, w)),
     fs_readTextLines = (\<lambda>p n w. (case disk_text w p of None \<Rightarrow> Inl (missing p)
       | Some t \<Rightarrow> Inr (take n (physical_lines t)), w)),
     fs_writeFile = (\<lambda>p t. with_fault (\<lambda>w. (Inr (), store_text p t w)) (\<lambda>n. store_text p (take n t))),
     fs_appendFile = (\<lambda>p t w. let old = (case disk_text w p of None \<Rightarrow> [] | Some s \<Rightarrow> s)
       in with_fault (\<lambda>w. (Inr (), store_text p (old @ t) w)) (\<lambda>n. store_text p (old @ take n t)) w),
     fs_renameFile = (\<lambda>p q. with_fault
       (\<lambda>w. case map_get (dk_files w) p of
          None \<Rightarrow> (Inl (missing p), w)
        | Some f \<Rightarrow> (Inr (), w\<lparr>dk_files := map_set q f (map_delete p (dk_files w))\<rparr>))
       (\<lambda>n w. w)),
     fs_fileInfo = (\<lambda>p w. (case map_get (dk_files w) p of
          Some (t, m) \<Rightarrow> Inr \<lparr>fi_name = p, fi_path = p, fi_kind = FK_file, fi_mtimeMs = m\<rparr>
        | None \<Rightarrow> if directory_there w p then Inr \<lparr>fi_name = p, fi_path = p, fi_kind = FK_directory, fi_mtimeMs = 0\<rparr>
            else Inl (missing p), w)),
     fs_listDir = (\<lambda>d w. (if directory_there w d then Inr (disk_listing w d) else Inl (missing d), w)),
     fs_exists = (\<lambda>p w. (Inr (map_has (dk_files w) p \<or> directory_there w p), w)),
     fs_createDir = (\<lambda>d. with_fault (\<lambda>w. (Inr (), w\<lparr>dk_directories := List.insert d (dk_directories w)\<rparr>)) (\<lambda>n w. w)),
     fs_remove = (\<lambda>p. with_fault (\<lambda>w. (Inr (), w\<lparr>dk_files := map_delete p (dk_files w)\<rparr>)) (\<lambda>n w. w))\<rparr>"

section \<open>The contracts\<close>

lemma disk_text_simps [simp]:
  "disk_text (store_text p t w) = (disk_text w)(p \<mapsto> t)"
  "disk_text (w\<lparr>dk_faults := f\<rparr>) = disk_text w"
  "disk_text (w\<lparr>dk_directories := ds\<rparr>) = disk_text w"
  by (auto simp: disk_text_def store_text_def fun_eq_iff)

lemma next_fault_text [simp]:
  "next_fault w = (f, w1) \<Longrightarrow> disk_text w1 = disk_text w"
  by (auto simp: next_fault_def split: list.splits)

interpretation disk: durable_files disk_fs disk_text
proof unfold_locales
  fix p q t w e w1 and u :: unit and s
  show "disk_text w1 = (disk_text w)(p := None, q := disk_text w p)" if "fs_renameFile disk_fs p q w = (Inr u, w1)"
    using that by (auto simp: disk_fs_def with_fault_def disk_text_def fun_eq_iff next_fault_def
        split: prod.splits option.splits list.splits)
  show "disk_text w1 = disk_text w" if "fs_renameFile disk_fs p q w = (Inl e, w1)"
    using that by (auto simp: disk_fs_def with_fault_def split: prod.splits option.splits)
  show "\<exists>r. prefix r t \<and> disk_text w1 p = Some (s @ r)"
    if "fs_appendFile disk_fs p t w = (Inl e, w1)" "disk_text w p = Some s"
    using that by (auto simp: disk_fs_def with_fault_def Let_def take_is_prefix split: prod.splits option.splits)
  show "q \<noteq> p \<Longrightarrow> disk_text (snd (fs_remove disk_fs p w)) q = disk_text w q"
    by (auto simp: disk_fs_def with_fault_def disk_text_def next_fault_def split: prod.splits option.splits list.splits)
qed (auto simp: disk_fs_def with_fault_def Let_def split: prod.splits option.splits)

definition disk_listed :: "disk \<Rightarrow> string \<Rightarrow> string \<Rightarrow> bool" where
  "disk_listed w d n \<longleftrightarrow> map_has (dk_files w) (path_join [d, n]) \<and> CHR ''/'' \<notin> set n"

lemma child_name_join: "CHR ''/'' \<notin> set n \<Longrightarrow> child_name d (path_join [d, n]) = Some n"
  by (simp add: child_name_def path_join_def)

lemma listing_lists: "disk_listed w d n \<Longrightarrow> \<exists>f \<in> set (disk_listing w d). fi_name f = n \<and> fi_kind f \<noteq> FK_directory"
  unfolding disk_listed_def disk_listing_def
  by (auto simp: child_name_join dest!: map_of_SomeD intro!: bexI)

lemma disk_listed_keeps:
  "disk_listed w d n \<Longrightarrow> disk_listed (store_text p t w) d n"
  "CHR ''/'' \<notin> set n \<Longrightarrow> disk_listed (store_text (path_join [d, n]) t w) d n"
  "disk_listed (w\<lparr>dk_directories := ds\<rparr>) d n = disk_listed w d n"
  "next_fault w = (f, w1) \<Longrightarrow> disk_listed w1 d n = disk_listed w d n"
  by (auto simp: disk_listed_def store_text_def update_Some_unfold next_fault_def update_conv' split: list.splits)

lemma listed_directory: "disk_listed w d n \<Longrightarrow> directory_there w d"
  by (auto simp: disk_listed_def directory_there_def path_join_def list_ex_iff dest!: map_of_SomeD) force

interpretation disk_dirs: listed_files disk_fs disk_listed path_join
proof unfold_locales
  fix d w w1 infos n
  show "\<exists>f \<in> set infos. fi_name f = n \<and> fi_kind f \<noteq> FK_directory"
    if "fs_listDir disk_fs d w = (Inr infos, w1)" "disk_listed w d n"
    using that listing_lists[OF that(2)] by (auto simp: disk_fs_def listed_directory)
qed (auto simp: disk_fs_def with_fault_def Let_def disk_listed_keeps dest: listed_directory
    split: prod.splits option.splits)

section \<open>Without faults\<close>

text \<open>On a disk whose schedule is empty a session file loads whenever its lines do.\<close>

lemma quiet_steps:
  assumes "dk_faults w = []"
  shows "fs_writeFile disk_fs p t w = (Inr (), store_text p t w)"
    and "fs_appendFile disk_fs p t w = (Inr (), store_text p ((case disk_text w p of None \<Rightarrow> [] | Some s \<Rightarrow> s) @ t) w)"
    and "map_get (dk_files w) p = Some f \<Longrightarrow>
      fs_renameFile disk_fs p q w = (Inr (), w\<lparr>dk_files := map_set q f (map_delete p (dk_files w))\<rparr>)"
    and "dk_faults (store_text p t w) = []"
  using assms by (simp_all add: disk_fs_def with_fault_def next_fault_def store_text_def Let_def)

lemma read_steps:
  "disk_text w p = Some t \<Longrightarrow> fs_readTextFile disk_fs p w = (Inr t, w)"
  "map_get (dk_files w) p = Some (t, m) \<Longrightarrow>
     fs_fileInfo disk_fs p w = (Inr \<lparr>fi_name = p, fi_path = p, fi_kind = FK_file, fi_mtimeMs = m\<rparr>, w)"
  by (simp_all add: disk_fs_def)

lemma quiet_repair:
  assumes "dk_faults w = []"
  shows "\<exists>w2. repair_tail disk_fs path ls torn text w = (Inr (), w2)"
proof -
  have get: "map_get (dk_files (store_text p t w)) p = Some (t, dk_clock w)" for p t
    by (simp add: store_text_def)
  show ?thesis
    by (cases torn)
      (simp_all add: repair_tail_def publishFileAtomically_def Let_def io_bind_def file_io_def fileResult_def
        quiet_steps[OF assms] quiet_steps(3)[OF quiet_steps(4)[OF assms] get] io_return_def)
qed

lemma quiet_load:
  assumes quiet: "dk_faults w = []" and there: "disk_text w path = Some t"
    and lines: "physical_lines t = header_line h # ls" and h: "header_ok h"
    and ls: "load_lines path 1 ls initial_state = Inr (torn, s)"
  shows "\<exists>st w2. jsonl_load disk_fs path w = (Inr st, w2)"
proof -
  obtain m where m: "map_get (dk_files w) path = Some (t, m)" using there by (auto simp: disk_text_def)
  obtain w2 where "repair_tail disk_fs path (header_line h # ls) torn t w = (Inr (), w2)"
    using quiet_repair[OF quiet] by blast
  then show ?thesis
    by (simp add: jsonl_load_def io_bind_def file_io_def fileResult_def read_steps(1)[OF there] read_steps(2)[OF m]
        lines Let_def header_line_nonempty parse_header_line[OF h] io_result_def io_return_def ls[unfolded One_nat_def])
qed

end
