(* ===== verification/Jsonl_Properties.thy ===== *)
theory Jsonl_Properties
  imports Jsonl_Disk
begin

text \<open>
  The properties of the session files: the lines, recovery after a crash, every operation against
  the storage in memory, forks, and concurrent creations.
\<close>

section \<open>Lines\<close>

text \<open>
  C30: a stored mutation reads back from its line as the same mutation; every proper beginning of
  the line, the empty one included, is a syntax error to the decoder, never a shorter or another
  mutation; and no line contains a line break, so lines cannot run into each other.
\<close>

theorem mutation_line_round_trip:
  assumes "storable m"
  shows "(\<exists>raw. parseMutation (mutation_line m) = Inr raw \<and> typed_mutation raw = Some m) \<and>
    (\<forall>p q. mutation_line m = p @ q \<longrightarrow> q \<noteq> [] \<longrightarrow>
      parseMutation p = Inl (JsonlDecodeError DK_syntax ''is not valid JSON'')) \<and>
    encodeMutation m = mutation_line m @ newline \<and> CHR 0x0A \<notin> set (mutation_line m)"
  using parse_mutation_line[OF assms] parse_torn_line[OF assms] encodeMutation_line mutation_line_no_newline
  by blast

definition sample_mutation :: session_mutation where
  "sample_mutation = Mut_name 1 (Some ''plan'')"

lemma sample_storable: "storable sample_mutation"
  by code_simp

theorem mutation_line_round_trip_witness:
  "(\<exists>raw. parseMutation (mutation_line sample_mutation) = Inr raw \<and> typed_mutation raw = Some sample_mutation) \<and>
   parseMutation ''{'' = Inl (JsonlDecodeError DK_syntax ''is not valid JSON'')"
proof -
  have "mutation_line sample_mutation = ''{'' @ tl (mutation_line sample_mutation)" by code_simp
  moreover have "tl (mutation_line sample_mutation) \<noteq> []" by code_simp
  ultimately show ?thesis using mutation_line_round_trip[OF sample_storable] by metis
qed

text \<open>
  C31: a session's header reads back from its line as the same header, its optional parent, legacy
  path and metadata included; every proper beginning of the line, as a torn write leaves it, is a
  syntax error, and the line contains no line break. Whatever the line, the decoder accepts it
  exactly when it is a JSON object of kind \<open>header\<close> and version 4 with string id and working
  directory, a creation time that is a non-negative safe integer, at most one of the two parents
  (a string), and metadata that is an object if present, and the header has these values; it reports
  a syntax error exactly when the line is no JSON text.
\<close>

theorem header_line_round_trip:
  assumes "header_ok h"
  shows "parseHeader (header_line h) = Inr h \<and>
    encodeHeader h = header_line h @ newline \<and> CHR 0x0A \<notin> set (header_line h) \<and>
    (\<forall>p q. header_line h = p @ q \<longrightarrow> q \<noteq> [] \<longrightarrow>
      parseHeader p = Inl (JsonlDecodeError DK_syntax ''is not valid JSON'')) \<and>
    (\<forall>line h'. parseHeader line = Inr h' \<longleftrightarrow> (\<exists>kvs. json_parse line = Some (JObj kvs) \<and> header_object kvs h')) \<and>
    (\<forall>line msg. parseHeader line = Inl (JsonlDecodeError DK_syntax msg) \<longleftrightarrow>
      json_parse line = None \<and> msg = ''is not valid JSON'')"
  by (intro conjI allI impI parse_header_line[OF assms] encodeHeader_line header_line_no_newline
      parse_torn_header[OF assms] parse_header_iff parse_header_syntax)

definition sample_child_header :: jsonl_header where
  "sample_child_header = \<lparr>jh_id = ''a2'', jh_createdAt = 5, jh_cwd = ''/w'', jh_parentSessionId = Some ''a1'',
     jh_legacyParentSessionPath = None, jh_metadata = Some [(''note'', JStr [CHR 0x0A, CHR 0x22])]\<rparr>"

theorem header_line_round_trip_witness:
  "parseHeader (header_line sample_child_header) = Inr sample_child_header \<and>
   parseHeader ''{'' = Inl (JsonlDecodeError DK_syntax ''is not valid JSON'')"
proof -
  have "header_ok sample_child_header" by code_simp
  note trip = header_line_round_trip[OF this]
  have "header_line sample_child_header = ''{'' @ tl (header_line sample_child_header)" by code_simp
  moreover have "tl (header_line sample_child_header) \<noteq> []" by code_simp
  ultimately have "parseHeader ''{'' = Inl (JsonlDecodeError DK_syntax ''is not valid JSON'')"
    by (rule trip[THEN conjunct2, THEN conjunct2, THEN conjunct2, THEN conjunct1, rule_format])
  with trip[THEN conjunct1] show ?thesis by (rule conjI)
qed

section \<open>Recovery\<close>

text \<open>
  C32: recovery after a crash. The file holds a session and behind it any beginning of the line of
  one more mutation, as a crash or a failed write leaves it. Loading it gives the state with that
  mutation when its whole text is there and the state before it otherwise, and leaves exactly the
  text of that state; other files stay as they were, the staging file apart. When the load fails,
  it is for a file operation, and the file still holds a text with the same outcome.
\<close>

theorem crash_recovery:
  assumes "durable_files fs content" and "holds h ms s" and "storable m" and "applyMutation m s = Inr t"
    and "prefix p (encodeMutation m)" and "content w path = Some (session_text h ms @ p)"
    and "jsonl_load fs path w = (r, w2)"
  shows "(let (ms', s') = (if prefix (mutation_line m) p then (ms @ [m], t) else (ms, s)) in
    case r of
      Inr st \<Rightarrow> jl_state st = s' \<and> jm_path (jl_metadata st) = path \<and> jm_id (jl_metadata st) = jh_id h \<and>
        content w2 path = Some (session_text h ms')
    | Inl e \<Rightarrow> file_failure e \<and> content w2 path \<in> {Some (session_text h ms @ p), Some (session_text h ms')}) \<and>
    (\<forall>q. q \<noteq> path \<longrightarrow> q \<noteq> path @ ''.tmp'' \<longrightarrow> content w2 q = content w q)"
  using durable_files.load_recovers[OF assms] durable_files.load_other[OF assms(1) assms(7)] by blast

definition sample_header :: jsonl_header where
  "sample_header = \<lparr>jh_id = ''a1'', jh_createdAt = 5, jh_cwd = ''/w'', jh_parentSessionId = None,
     jh_legacyParentSessionPath = None, jh_metadata = None\<rparr>"

definition sample_disk :: "string \<Rightarrow> nat option list \<Rightarrow> disk" where
  "sample_disk extra faults = \<lparr>dk_files = [(''/s'', session_text sample_header [] @ extra, 7)],
     dk_directories = [], dk_clock = 8, dk_faults = faults\<rparr>"

lemma sample_text: "disk_text (sample_disk extra faults) ''/s'' = Some (session_text sample_header [] @ extra)"
  by (simp add: disk_text_def sample_disk_def)

lemma sample_holds: "holds sample_header [] initial_state"
proof -
  have "header_ok sample_header" by code_simp
  then show ?thesis by (simp add: holds_def)
qed

lemma sample_applies: "\<exists>t. applyMutation sample_mutation initial_state = Inr t"
  by (simp add: sample_mutation_def applyMutation_name nextSequence_def initial_state_def)

theorem crash_recovery_witness:
  "\<exists>st w2. jsonl_load disk_fs ''/s'' (sample_disk ''{'' []) = (Inr st, w2) \<and> jl_state st = initial_state \<and>
     disk_text w2 ''/s'' = Some (session_text sample_header [])"
proof -
  obtain t where t: "applyMutation sample_mutation initial_state = Inr t" using sample_applies by blast
  have cut: "prefix ''{'' (encodeMutation sample_mutation)" "\<not> prefix (mutation_line sample_mutation) ''{''"
    by code_simp+
  have line: "prefix ''{'' (mutation_line sample_mutation)" by code_simp
  have "''{'' \<noteq> mutation_line sample_mutation" by code_simp
  then have replay: "load_lines ''/s'' 1 (map mutation_line [] @ [''{'']) initial_state = Inr (Some 1, initial_state)"
    using load_lines_torn[OF sample_holds sample_storable t line, of "''/s''"]
    by (simp add: physical_lines_text[of "''{''" sample_header "[]", simplified])
  obtain st w2 where load: "jsonl_load disk_fs ''/s'' (sample_disk ''{'' []) = (Inr st, w2)"
    using quiet_load[of "sample_disk ''{'' []" "''/s''" _ sample_header "[''{'']" "Some 1" initial_state]
      replay sample_text[of "''{''" "[]"] physical_lines_text[of "''{''" sample_header "[]"] sample_holds
    by (auto simp: sample_disk_def holds_def)
  from crash_recovery[OF disk.durable_files_axioms sample_holds sample_storable t cut(1) sample_text load] cut(2) load
  show ?thesis by simp
qed

section \<open>Operations\<close>

text \<open>
  C33: every operation of the file storage refines the operation of the storage in memory. An
  acknowledged operation has the value and the state of the memory operation, and the file is the
  old text with one more line, so that reloading it gives that state; a refused one fails with the
  same error and touches nothing; and one whose append failed leaves the state as it was and at
  most a part of its line in the file. No other file changes.
\<close>

theorem file_operation_refines:
  assumes "durable_files fs content" and "content w path = Some (session_text h ms)"
    and "path = jm_path (jl_metadata st)" and "holds h ms (jl_state st)"
    and "\<And>m v. op_mutation op now (jl_state st) = Inr (m, v) \<Longrightarrow> storable m"
    and "jsonl_step fs op now st w = (r, st1, w1)"
  shows "jl_metadata st1 = jl_metadata st \<and> (\<forall>q. q \<noteq> path \<longrightarrow> content w1 q = content w q) \<and>
    (case r of
       Inr v \<Rightarrow> memory_step op now (jl_state st) = Inr (v, jl_state st1) \<and>
         (\<exists>m. content w1 path = Some (session_text h (ms @ [m])) \<and> holds h (ms @ [m]) (jl_state st1))
     | Inl e \<Rightarrow> st1 = st \<and>
         (memory_step op now (jl_state st) = Inl e \<and> w1 = w \<or>
          file_failure (Session_failure e) \<and> (\<exists>m v p. op_mutation op now (jl_state st) = Inr (m, v) \<and>
            prefix p (encodeMutation m) \<and> content w1 path = Some (session_text h ms @ p))))"
  by (rule durable_files.step_durable[OF assms])

definition sample_storage :: jsonl_storage where
  "sample_storage = new_jsonl_storage (metadataFromHeader sample_header ''/s'' 7)"

lemma sample_storage_simps [simp]:
  "jm_path (jl_metadata sample_storage) = ''/s''" "jl_state sample_storage = initial_state"
  by (simp_all add: sample_storage_def new_jsonl_storage_def metadataFromHeader_def)

theorem file_operation_refines_witness:
  "\<exists>st1 w1 m. jsonl_step disk_fs (Op_setName (Some ''plan'')) 0 sample_storage (sample_disk [] []) = (Inr V_unit, st1, w1) \<and>
     memory_step (Op_setName (Some ''plan'')) 0 initial_state = Inr (V_unit, jl_state st1) \<and>
     disk_text w1 ''/s'' = Some (session_text sample_header [m])"
proof -
  let ?op = "Op_setName (Some ''plan'')"
  have "fst (jsonl_step disk_fs ?op 0 sample_storage (sample_disk [] [])) = Inr V_unit" by code_simp
  then obtain st1 w1 where step: "jsonl_step disk_fs ?op 0 sample_storage (sample_disk [] []) = (Inr V_unit, st1, w1)"
    by (metis prod.exhaust_sel)
  have line: "storable (Mut_name (nextSequence initial_state) (Some ''plan''))"
    using sample_storable by (simp add: sample_mutation_def nextSequence_def initial_state_def)
  have stored: "disk_text (sample_disk [] []) ''/s'' = Some (session_text sample_header [])"
    using sample_text[of "[]" "[]"] by simp
  have at: "''/s'' = jm_path (jl_metadata sample_storage)" and ok: "holds sample_header [] (jl_state sample_storage)"
    using sample_holds by simp_all
  from file_operation_refines[OF disk.durable_files_axioms stored at ok _ step] line
  have "memory_step ?op 0 initial_state = Inr (V_unit, jl_state st1) \<and>
    (\<exists>m. disk_text w1 ''/s'' = Some (session_text sample_header [m]))" by auto
  with step show ?thesis by blast
qed

section \<open>Forks\<close>

text \<open>
  C34: a fork is whole or not there. When \<open>fork\<close> returns, the destination holds the header and
  exactly the lines of the fork, and the storage has the state that replaying them in memory
  gives; when it fails, the destination is what it was before, or already the whole fork. The
  source and all other files, the staging file apart, stay as they were, and what the fork refuses
  in memory is refused without touching the disk.
\<close>

theorem fork_whole_or_absent:
  assumes "durable_files fs content" and "wf_state (jl_state st)" and "header_ok h"
    and "\<And>ns. createForkMutations (jl_state st) opts = Inr ns \<Longrightarrow> list_all storable ns"
    and "jsonl_fork fs path h opts st w = (r, w2)"
  shows "(\<forall>q. q \<noteq> path \<longrightarrow> q \<noteq> path @ ''.tmp'' \<longrightarrow> content w2 q = content w q) \<and>
    (case createForkMutations (jl_state st) opts of
       Inl e \<Rightarrow> r = Inl (Session_failure e) \<and> w2 = w
     | Inr ns \<Rightarrow> \<exists>t. holds h ns t \<and>
         (case r of
            Inr st2 \<Rightarrow> jl_state st2 = t \<and> jm_path (jl_metadata st2) = path \<and> content w2 path = Some (session_text h ns)
          | Inl e \<Rightarrow> file_failure e \<and> content w2 path \<in> {content w path, Some (session_text h ns)}))"
  by (rule durable_files.fork_atomic[OF assms])

theorem fork_whole_or_absent_witness:
  "\<exists>e w2. jsonl_fork disk_fs ''/t'' sample_header Fork_Tree sample_storage (sample_disk [] [None, Some 3]) = (Inl e, w2) \<and>
     disk_text w2 ''/s'' = Some (session_text sample_header []) \<and>
     disk_text w2 ''/t'' \<in> {None, Some (session_text sample_header [Mut_lane 1 ''main'' None])}"
proof -
  let ?w = "sample_disk [] [None, Some 3]"
  have ns: "createForkMutations initial_state Fork_Tree = Inr [Mut_lane 1 ''main'' None]" by code_simp
  have "isl (fst (jsonl_fork disk_fs ''/t'' sample_header Fork_Tree sample_storage ?w))" by code_simp
  then obtain e w2 where fork: "jsonl_fork disk_fs ''/t'' sample_header Fork_Tree sample_storage ?w = (Inl e, w2)"
    by (metis isl_def prod.exhaust_sel)
  have storable: "list_all storable [Mut_lane 1 ''main'' None]" by code_simp
  have absent: "disk_text ?w ''/t'' = None" by (simp add: disk_text_def sample_disk_def)
  have all: "list_all storable ns" if "createForkMutations (jl_state sample_storage) Fork_Tree = Inr ns" for ns
    using that ns storable by simp
  have wf: "wf_state (jl_state sample_storage)" using wf_initial by simp
  have "header_ok sample_header" using sample_holds by (simp add: holds_def)
  from fork_whole_or_absent[OF disk.durable_files_axioms wf this all fork]
  show ?thesis using fork absent ns sample_text[of "[]" "[None, Some 3]"] by auto
qed

section \<open>Creations\<close>

text \<open>
  C35: of the calls racing to create one session at most one succeeds. Any number of calls of
  \<open>create\<close> through one repository, with any interleaving of their steps, never give two sessions
  with the same working directory and id, and the file of every created session is listed in the
  directory of the repository.
\<close>

theorem created_once:
  assumes "listed_files fs listed join" and "distinct (jr_activeCreateDestinations r)"
    and "list_all (\<lambda>c. \<exists>d opts. c = Requested d opts \<and> session_id_pattern (ds_id d)) requests"
    and "creation_steps fs (requests, w, r) (calls, wr)"
  shows "(\<forall>k < length calls. \<forall>d st. calls ! k = Created d st \<longrightarrow> stored listed join wr d) \<and>
    (\<forall>j < length calls. \<forall>k < length calls. j \<noteq> k \<longrightarrow>
       (\<forall>d st st'. \<not> (calls ! j = Created d st \<and> calls ! k = Created d st')))"
proof -
  have "creations_ok listed join calls wr"
    using listed_files.creations_never_shared[OF assms(1,4)] assms(2,3) by simp
  then show ?thesis unfolding creations_ok_def call_ok_def calls_apart_def by metis
qed

fun run_calls ::
  "'w file_system \<Rightarrow> (nat \<times> int) list \<Rightarrow> create_call list \<times> ('w \<times> jsonl_repo) \<Rightarrow> create_call list \<times> ('w \<times> jsonl_repo)" where
  "run_calls fs [] s = s"
| "run_calls fs ((k, now) # rest) (calls, wr) =
     (case next_call fs now (calls ! k) wr of (c, wr1) \<Rightarrow> run_calls fs rest (calls[k := c], wr1))"

lemma run_calls_steps:
  assumes "creation_steps fs start (calls, wr)" and "list_all (\<lambda>(k, _). k < length calls) schedule"
  shows "creation_steps fs start (run_calls fs schedule (calls, wr))"
  using assms
proof (induction schedule arbitrary: calls wr)
  case (Cons kn schedule)
  obtain k now where kn: "kn = (k, now)" by force
  obtain c wr1 where c: "next_call fs now (calls ! k) wr = (c, wr1)" by (metis prod.exhaust)
  have "creation_steps fs start (calls[k := c], wr1)"
    by (rule creation_steps.step[OF Cons.prems(1) _ c]) (use Cons.prems(2) kn in simp)
  from Cons.IH[OF this] Cons.prems(2) kn c show ?case by simp
qed simp

definition race :: "create_call list" where
  "race = replicate 2 (Requested \<lparr>ds_id = ''a1'', ds_cwd = ''/w''\<rparr>
     \<lparr>co_id = Some ''a1'', co_cwd = ''/w'', co_parentSessionId = None, co_metadata = None\<rparr>)"

definition empty_disk :: disk where
  "empty_disk = \<lparr>dk_files = [], dk_directories = [], dk_clock = 0, dk_faults = []\<rparr>"

definition race_end :: "create_call list \<times> (disk \<times> jsonl_repo)" where
  "race_end = run_calls disk_fs [(0, 5), (1, 5), (0, 6), (0, 7)] (race, empty_disk, new_jsonl_repo ''/r'')"

theorem created_once_witness:
  "\<exists>st. fst race_end ! 0 = Created \<lparr>ds_id = ''a1'', ds_cwd = ''/w''\<rparr> st \<and>
     fst race_end ! 1 = Rejected (session_taken ''a1'') \<and>
     stored disk_listed path_join (snd race_end) \<lparr>ds_id = ''a1'', ds_cwd = ''/w''\<rparr>"
proof -
  let ?d = "\<lparr>ds_id = ''a1'', ds_cwd = ''/w''\<rparr>"
  have "(case fst race_end ! 0 of Created d st \<Rightarrow> d = ?d | _ \<Rightarrow> False)" by code_simp
  then obtain st where st: "fst race_end ! 0 = Created ?d st" by (auto split: create_call.splits)
  have rest: "fst race_end ! 1 = Rejected (session_taken ''a1'')" "length (fst race_end) = 2" by code_simp+
  have "session_id_pattern ''a1''" by code_simp
  then have requests: "list_all (\<lambda>c. \<exists>d opts. c = Requested d opts \<and> session_id_pattern (ds_id d)) race"
    by (simp add: race_def numeral_2_eq_2)
  have free: "distinct (jr_activeCreateDestinations (new_jsonl_repo ''/r''))" by (simp add: new_jsonl_repo_def)
  have "creation_steps disk_fs (race, empty_disk, new_jsonl_repo ''/r'') race_end"
    unfolding race_end_def by (intro run_calls_steps creation_steps.none) (simp add: race_def)
  then have "creation_steps disk_fs (race, empty_disk, new_jsonl_repo ''/r'') (fst race_end, snd race_end)" by simp
  note once = created_once[OF disk_dirs.listed_files_axioms free requests this]
  have "0 < length (fst race_end)" using rest(2) by simp
  from conjunct1[OF once, rule_format, OF this st]
  have "stored disk_listed path_join (snd race_end) ?d" .
  with st rest(1) show ?thesis by blast
qed

section \<open>Types\<close>

text \<open>
  C36: whatever text a line holds, a mutation that is read from it and cast has a positive sequence
  number and a timestamp that are safe integers, as the rest of the code takes for granted.
\<close>

theorem read_mutation_typed:
  assumes "parseMutation line = Inr raw" and "typed_mutation raw = Some m"
  shows "0 < mutation_seq m \<and> int (mutation_seq m) < 2 ^ 53 \<and> 0 \<le> mutation_timestamp m \<and> mutation_timestamp m < 2 ^ 53"
  by (rule line_typed[OF assms])

theorem read_mutation_typed_witness:
  "\<exists>raw. parseMutation (mutation_line sample_mutation) = Inr raw \<and> typed_mutation raw = Some sample_mutation \<and>
     0 < mutation_seq sample_mutation"
  using parse_mutation_line[OF sample_storable] read_mutation_typed by blast

section \<open>Where the code falls short\<close>

text \<open>
  A failed append is not undone: the next one continues the torn line, is acknowledged, and is lost
  with it when the file is loaded again.
\<close>

definition after_failed_append :: "(session_error, op_value) result \<times> jsonl_storage \<times> disk" where
  "after_failed_append = jsonl_step disk_fs (Op_setName (Some ''A'')) 0 sample_storage (sample_disk [] [Some 5])"

definition after_next_append :: "(session_error, op_value) result \<times> jsonl_storage \<times> disk" where
  "after_next_append = (case after_failed_append of (_, st, w) \<Rightarrow> jsonl_step disk_fs (Op_setName (Some ''B'')) 0 st w)"

theorem acknowledged_append_lost:
  "isl (fst after_failed_append) \<and> fst after_next_append = Inr V_unit \<and>
   ss_name (jl_state (fst (snd after_next_append))) = Some ''B'' \<and>
   (case fst (jsonl_load disk_fs ''/s'' (snd (snd after_next_append))) of
      Inr st \<Rightarrow> ss_name (jl_state st) = None | Inl _ \<Rightarrow> False)"
  by code_simp

text \<open>
  The check for an existing id only looks at the end of the file names: with a session \<open>x_a1\<close> in the
  directory, \<open>a1\<close> is refused as if it existed.
\<close>

definition with_prefixed_id :: "disk \<times> jsonl_repo" where
  "with_prefixed_id = snd (jsonl_repo_create disk_fs
     \<lparr>co_id = Some ''x_a1'', co_cwd = ''/w'', co_parentSessionId = None, co_metadata = None\<rparr> [] 5
     (empty_disk, new_jsonl_repo ''/r''))"

theorem free_id_refused:
  "fst (jsonl_repo_create disk_fs
     \<lparr>co_id = Some ''a1'', co_cwd = ''/w'', co_parentSessionId = None, co_metadata = None\<rparr> [] 6 with_prefixed_id)
   = Inl (session_taken ''a1'')"
  by code_simp

text \<open>
  Two working directories may share a directory of sessions, and listing the sessions of one of
  them shows those of the other.
\<close>

theorem directories_shared: "jsonlSessionDirectoryName ''/a/b'' = jsonlSessionDirectoryName ''/a-b''"
  by code_simp

end
