(* ===== verification/Truncate.thy ===== *)
theory Truncate
  imports Text_Codec
begin

text \<open>
  The limits on tool output: \<open>packages/agent/src/harness/utils/truncate.ts\<close>. Strings are UTF-16
  code units and sizes are UTF-8 bytes. \<open>Buffer.byteLength\<close>, where the runtime has it, is an
  argument; without it the source counts by itself. The limits are natural numbers.
\<close>

section \<open>Counting bytes\<close>

type_synonym byte_counter = "(utf16 \<Rightarrow> nat) option"

definition ascii_unit :: "16 word \<Rightarrow> bool" where
  "ascii_unit u \<longleftrightarrow> unat u \<le> 0x7F"

fun count_bytes :: "utf16 \<Rightarrow> nat" where
  "count_bytes [] = 0"
| "count_bytes [u] = (if unat u \<le> 0x7F then 1 else if unat u \<le> 0x7FF then 2 else 3)"
| "count_bytes (u # v # us) =
     (if unat u \<le> 0x7F then 1 + count_bytes (v # us)
      else if unat u \<le> 0x7FF then 2 + count_bytes (v # us)
      else if is_high u \<and> is_low v then 4 + count_bytes us
      else 3 + count_bytes (v # us))"

definition utf8ByteLength :: "byte_counter \<Rightarrow> utf16 \<Rightarrow> nat" where
  "utf8ByteLength buffer content =
     (case buffer of
        Some f \<Rightarrow> f content
      | None \<Rightarrow>
          (let firstNonAscii = length (takeWhile ascii_unit content) in
           if firstNonAscii = length content then length content
           else firstNonAscii + count_bytes (drop firstNonAscii content)))"

section \<open>Lines\<close>

definition line_feed :: "16 word" where
  "line_feed = 10"

fun split_at :: "16 word \<Rightarrow> utf16 \<Rightarrow> utf16 list" where
  "split_at c [] = [[]]"
| "split_at c (u # us) =
     (if u = c then [] # split_at c us
      else (case split_at c us of [] \<Rightarrow> [[u]] | l # ls \<Rightarrow> (u # l) # ls))"

definition splitLinesForCounting :: "utf16 \<Rightarrow> utf16 list" where
  "splitLinesForCounting content =
     (if content = [] then []
      else let ls = split_at line_feed content
        in if last content = line_feed then butlast ls else ls)"

fun replaceUnpairedSurrogates :: "utf16 \<Rightarrow> utf16" where
  "replaceUnpairedSurrogates [] = []"
| "replaceUnpairedSurrogates [u] = [if is_high u \<or> is_low u then 0xFFFD else u]"
| "replaceUnpairedSurrogates (u # v # us) =
     (if is_high u then
        (if is_low v then u # v # replaceUnpairedSurrogates us
         else 0xFFFD # replaceUnpairedSurrogates (v # us))
      else if is_low u then 0xFFFD # replaceUnpairedSurrogates (v # us)
      else u # replaceUnpairedSurrogates (v # us))"

text \<open>
  \<open>toFixed(1)\<close> of a quotient: the nearest tenth, the larger one of two. The quotients by a power of
  two are exact.
\<close>

definition to_fixed_1 :: "nat \<Rightarrow> nat \<Rightarrow> string" where
  "to_fixed_1 n d =
     (let tenths = (20 * n + d) div (2 * d)
      in string_of_nat (tenths div 10) @ ''.'' @ string_of_nat (tenths mod 10))"

definition formatSize :: "nat \<Rightarrow> string" where
  "formatSize bytes =
     (if bytes < 1024 then string_of_nat bytes @ ''B''
      else if bytes < 1024 * 1024 then to_fixed_1 bytes 1024 @ ''KB''
      else to_fixed_1 bytes (1024 * 1024) @ ''MB'')"

section \<open>Results\<close>

datatype truncated_by = By_lines | By_bytes

record truncation_result =
  tr_content :: utf16
  tr_truncated :: bool
  tr_truncatedBy :: "truncated_by option"
  tr_totalLines :: nat
  tr_totalBytes :: nat
  tr_outputLines :: nat
  tr_outputBytes :: nat
  tr_lastLinePartial :: bool
  tr_firstLineExceedsLimit :: bool
  tr_maxLines :: nat
  tr_maxBytes :: nat

record truncation_options =
  to_maxLines :: "nat option"
  to_maxBytes :: "nat option"

definition DEFAULT_MAX_LINES :: nat where
  "DEFAULT_MAX_LINES = 2000"

definition DEFAULT_MAX_BYTES :: nat where
  "DEFAULT_MAX_BYTES = 50 * 1024"

definition GREP_MAX_LINE_LENGTH :: nat where
  "GREP_MAX_LINE_LENGTH = 500"

definition max_lines :: "truncation_options \<Rightarrow> nat" where
  "max_lines opts = (case to_maxLines opts of Some n \<Rightarrow> n | None \<Rightarrow> DEFAULT_MAX_LINES)"

definition max_bytes :: "truncation_options \<Rightarrow> nat" where
  "max_bytes opts = (case to_maxBytes opts of Some n \<Rightarrow> n | None \<Rightarrow> DEFAULT_MAX_BYTES)"

definition untruncated :: "byte_counter \<Rightarrow> utf16 \<Rightarrow> truncation_options \<Rightarrow> truncation_result" where
  "untruncated buffer content opts =
     (let n = length (splitLinesForCounting content); b = utf8ByteLength buffer content in
      \<lparr>tr_content = content, tr_truncated = False, tr_truncatedBy = None, tr_totalLines = n,
       tr_totalBytes = b, tr_outputLines = n, tr_outputBytes = b, tr_lastLinePartial = False,
       tr_firstLineExceedsLimit = False, tr_maxLines = max_lines opts, tr_maxBytes = max_bytes opts\<rparr>)"

section \<open>The beginning of a text\<close>

fun collect_head ::
  "byte_counter \<Rightarrow> nat \<Rightarrow> nat \<Rightarrow> nat \<Rightarrow> utf16 list \<Rightarrow> nat \<Rightarrow> utf16 list \<Rightarrow> utf16 list \<times> nat \<times> truncated_by" where
  "collect_head buffer maxLines maxBytes i out bytes [] = (out, bytes, By_lines)"
| "collect_head buffer maxLines maxBytes i out bytes (line # rest) =
     (if i \<ge> maxLines then (out, bytes, By_lines)
      else let lineBytes = utf8ByteLength buffer line + (if i > 0 then 1 else 0) in
        if bytes + lineBytes > maxBytes then (out, bytes, By_bytes)
        else collect_head buffer maxLines maxBytes (Suc i) (out @ [line]) (bytes + lineBytes) rest)"

definition truncateHead :: "byte_counter \<Rightarrow> utf16 \<Rightarrow> truncation_options \<Rightarrow> truncation_result" where
  "truncateHead buffer content opts =
     (let maxLines = max_lines opts; maxBytes = max_bytes opts;
          totalBytes = utf8ByteLength buffer content;
          lines = splitLinesForCounting content; totalLines = length lines in
      if totalLines \<le> maxLines \<and> totalBytes \<le> maxBytes then untruncated buffer content opts
      else if utf8ByteLength buffer (hd lines) > maxBytes then
        \<lparr>tr_content = [], tr_truncated = True, tr_truncatedBy = Some By_bytes, tr_totalLines = totalLines,
         tr_totalBytes = totalBytes, tr_outputLines = 0, tr_outputBytes = 0, tr_lastLinePartial = False,
         tr_firstLineExceedsLimit = True, tr_maxLines = maxLines, tr_maxBytes = maxBytes\<rparr>
      else (case collect_head buffer maxLines maxBytes 0 [] 0 lines of (out, bytes, hit) \<Rightarrow>
        let truncatedBy = (if length out \<ge> maxLines \<and> bytes \<le> maxBytes then By_lines else hit);
            output = js_join [line_feed] out in
        \<lparr>tr_content = output, tr_truncated = True, tr_truncatedBy = Some truncatedBy,
         tr_totalLines = totalLines, tr_totalBytes = totalBytes, tr_outputLines = length out,
         tr_outputBytes = utf8ByteLength buffer output, tr_lastLinePartial = False,
         tr_firstLineExceedsLimit = False, tr_maxLines = maxLines, tr_maxBytes = maxBytes\<rparr>))"

section \<open>The end of a text\<close>

text \<open>
  The last character of a reversed string, its size, whether it is an unpaired surrogate, and the
  rest.
\<close>

fun last_character :: "16 word \<Rightarrow> utf16 \<Rightarrow> utf16 \<times> nat \<times> bool \<times> utf16" where
  "last_character c rest =
     (case rest of
        p # before \<Rightarrow>
          if is_low c \<and> is_high p then ([p, c], 4, False, before)
          else if is_low c \<or> is_high c then ([c], 3, True, rest)
          else ([c], if unat c \<le> 0x7F then 1 else if unat c \<le> 0x7FF then 2 else 3, False, rest)
      | [] \<Rightarrow>
          if is_low c \<or> is_high c then ([c], 3, True, [])
          else ([c], if unat c \<le> 0x7F then 1 else if unat c \<le> 0x7FF then 2 else 3, False, []))"

lemma last_character_shorter:
  "last_character c rest = (out, n, unpaired, before) \<Longrightarrow> length before \<le> length rest"
  by (auto split: list.splits if_splits)

function take_characters :: "nat \<Rightarrow> nat \<Rightarrow> bool \<Rightarrow> utf16 \<Rightarrow> utf16 \<Rightarrow> utf16 \<times> bool" where
  "take_characters maxBytes bytes needs output [] = (output, needs)"
| "take_characters maxBytes bytes needs output (c # rest) =
     (case last_character c rest of (out, n, unpaired, before) \<Rightarrow>
        if bytes + n > maxBytes then (output, needs)
        else take_characters maxBytes (bytes + n) (needs \<or> unpaired) (out @ output) before)"
  by pat_completeness auto
termination
  by (relation "measure (\<lambda>(_, _, _, _, s). length s)")
    (simp_all del: last_character.simps, metis last_character_shorter less_Suc_eq_le)

definition truncateStringToBytesFromEnd :: "utf16 \<Rightarrow> nat \<Rightarrow> utf16" where
  "truncateStringToBytesFromEnd str maxBytes =
     (if maxBytes = 0 then []
      else (case take_characters maxBytes 0 False [] (rev str) of
        (output, needsReplacement) \<Rightarrow> if needsReplacement then replaceUnpairedSurrogates output else output))"

fun collect_tail ::
  "byte_counter \<Rightarrow> nat \<Rightarrow> nat \<Rightarrow> utf16 list \<Rightarrow> nat \<Rightarrow> utf16 list \<Rightarrow> utf16 list \<times> nat \<times> truncated_by \<times> bool" where
  "collect_tail buffer maxLines maxBytes out bytes [] = (out, bytes, By_lines, False)"
| "collect_tail buffer maxLines maxBytes out bytes (line # rest) =
     (if length out \<ge> maxLines then (out, bytes, By_lines, False)
      else let lineBytes = utf8ByteLength buffer line + (if out \<noteq> [] then 1 else 0) in
        if bytes + lineBytes > maxBytes then
          (if out = [] then
             let truncatedLine = truncateStringToBytesFromEnd line maxBytes
             in ([truncatedLine], utf8ByteLength buffer truncatedLine, By_bytes, True)
           else (out, bytes, By_bytes, False))
        else collect_tail buffer maxLines maxBytes (line # out) (bytes + lineBytes) rest)"

definition truncateTail :: "byte_counter \<Rightarrow> utf16 \<Rightarrow> truncation_options \<Rightarrow> truncation_result" where
  "truncateTail buffer content opts =
     (let maxLines = max_lines opts; maxBytes = max_bytes opts;
          totalBytes = utf8ByteLength buffer content;
          lines = splitLinesForCounting content; totalLines = length lines in
      if totalLines \<le> maxLines \<and> totalBytes \<le> maxBytes then untruncated buffer content opts
      else (case collect_tail buffer maxLines maxBytes [] 0 (rev lines) of (out, bytes, hit, partial) \<Rightarrow>
        let truncatedBy = (if length out \<ge> maxLines \<and> bytes \<le> maxBytes then By_lines else hit);
            output = js_join [line_feed] out in
        \<lparr>tr_content = output, tr_truncated = True, tr_truncatedBy = Some truncatedBy,
         tr_totalLines = totalLines, tr_totalBytes = totalBytes, tr_outputLines = length out,
         tr_outputBytes = utf8ByteLength buffer output, tr_lastLinePartial = partial,
         tr_firstLineExceedsLimit = False, tr_maxLines = maxLines, tr_maxBytes = maxBytes\<rparr>))"

definition truncateLine :: "utf16 \<Rightarrow> nat \<Rightarrow> utf16 \<times> bool" where
  "truncateLine line maxChars =
     (if length line \<le> maxChars then (line, False)
      else (take maxChars line @ map (\<lambda>c. of_nat (of_char c)) ''... [truncated]'', True))"

section \<open>Sizes\<close>

definition byte_length :: "utf16 \<Rightarrow> nat" where
  "byte_length s = length (text_encode s)"

definition counts_bytes :: "byte_counter \<Rightarrow> bool" where
  "counts_bytes buffer \<longleftrightarrow> (\<forall>f. buffer = Some f \<longrightarrow> f = byte_length)"

lemma utf8_length:
  "length (utf8_of_scalar n) = (if n < 0x80 then 1 else if n < 0x800 then 2 else if n < 0x10000 then 3 else 4)"
  by (simp add: utf8_of_scalar_def)

lemma byte_length_Nil [simp]: "byte_length [] = 0"
  by (simp add: byte_length_def text_encode_def)

lemma unit_bound: "unat (u :: 16 word) < 0x10000"
  using unsigned_less[of u, where 'a = nat] by simp

lemma byte_length_pair: "is_high u \<Longrightarrow> is_low v \<Longrightarrow> byte_length (u # v # us) = 4 + byte_length us"
  using pair_bound[of u v] by (simp add: byte_length_def text_encode_def utf8_length)

lemma byte_length_single:
  "us = [] \<or> \<not> (is_high u \<and> is_low (hd us)) \<Longrightarrow>
     byte_length (u # us) = (if unat u \<le> 0x7F then 1 else if unat u \<le> 0x7FF then 2 else 3) + byte_length us"
  using unit_bound[of u]
  by (cases us) (auto simp: byte_length_def text_encode_def utf8_length is_high_def is_low_def)

lemma count_bytes_length: "count_bytes s = byte_length s"
proof (induction s rule: count_bytes.induct)
  case (2 u)
  then show ?case using byte_length_single[of "[]" u] by simp
next
  case (3 u v us)
  show ?case
  proof (cases "is_high u \<and> is_low v")
    case True
    then have "\<not> unat u \<le> 0x7F" "\<not> unat u \<le> 0x7FF" by (auto simp: is_high_def)
    then show ?thesis using True 3(3) byte_length_pair[of u v us] by simp
  next
    case False
    then have "byte_length (u # v # us) = (if unat u \<le> 0x7F then 1 else if unat u \<le> 0x7FF then 2 else 3) + byte_length (v # us)"
      by (intro byte_length_single) simp
    then show ?thesis using False 3(1,2,4) by auto
  qed
qed simp

lemma count_bytes_ascii: "list_all ascii_unit s \<Longrightarrow> count_bytes (s @ t) = length s + count_bytes t"
proof (induction s)
  case (Cons u s)
  then show ?case by (cases "s @ t") (auto simp: ascii_unit_def)
qed simp

lemma utf8ByteLength_length:
  assumes "counts_bytes buffer"
  shows "utf8ByteLength buffer s = byte_length s"
proof (cases buffer)
  case None
  let ?k = "length (takeWhile ascii_unit s)"
  have split: "takeWhile ascii_unit s @ drop ?k s = s"
    by (metis takeWhile_dropWhile_id dropWhile_eq_drop)
  have "byte_length s = count_bytes (takeWhile ascii_unit s @ drop ?k s)"
    by (simp only: split count_bytes_length)
  also have "\<dots> = ?k + count_bytes (drop ?k s)"
    by (rule count_bytes_ascii) (auto simp: list_all_iff dest: set_takeWhileD)
  finally have sum: "?k + count_bytes (drop ?k s) = byte_length s" ..
  have "length s = byte_length s" if "?k = length s" using sum that by simp
  with sum None show ?thesis by (simp add: utf8ByteLength_def Let_def)
qed (use assms in \<open>auto simp: counts_bytes_def utf8ByteLength_def\<close>)

end
