(* ===== verification/Truncate_Properties.thy ===== *)
theory Truncate_Properties
  imports Truncate
begin

text \<open>
  The truncated output: at most as many lines and bytes as allowed, made of whole lines from the
  beginning or the end, and as long as the limits allow.
\<close>

section \<open>Joined lines\<close>

lemma line_feed_plain [simp]: "\<not> is_high line_feed" "\<not> is_low line_feed" "unat line_feed = 10"
  by (simp_all add: line_feed_def is_high_def is_low_def)

lemma scalars_break: "scalars (a @ line_feed # b) = scalars a @ 10 # scalars b"
  by (induction a rule: scalars.induct) (auto simp: scalars_plain)

lemma byte_length_break: "byte_length (a @ line_feed # b) = byte_length a + 1 + byte_length b"
  by (simp add: byte_length_def text_encode_def scalars_break utf8_of_scalar_def)

abbreviation join_lines_of :: "utf16 list \<Rightarrow> utf16" where
  "join_lines_of \<equiv> js_join [line_feed]"

lemma join_Cons: "ls \<noteq> [] \<Longrightarrow> js_join s (l # ls) = l @ s @ js_join s ls"
  by (cases ls) simp_all

lemma join_snoc: "ls \<noteq> [] \<Longrightarrow> js_join s (ls @ [l]) = js_join s ls @ s @ l"
proof (induction ls)
  case (Cons a ls)
  then show ?case by (cases "ls = []") (simp_all add: join_Cons)
qed simp

lemma join_append: "ls \<noteq> [] \<Longrightarrow> ms \<noteq> [] \<Longrightarrow> js_join s (ls @ ms) = js_join s ls @ s @ js_join s ms"
proof (induction ls)
  case (Cons a ls)
  then show ?case by (cases "ls = []") (simp_all add: join_Cons)
qed simp

lemma byte_length_snoc:
  "byte_length (join_lines_of (ls @ [l])) =
     byte_length (join_lines_of ls) + (if ls = [] then 0 else 1) + byte_length l"
  by (cases "ls = []") (simp_all add: join_snoc byte_length_break)

lemma byte_length_Cons:
  "byte_length (join_lines_of (l # ls)) =
     byte_length l + (if ls = [] then 0 else 1) + byte_length (join_lines_of ls)"
  by (cases "ls = []") (simp_all add: join_Cons byte_length_break)

lemma join_take_prefix: "prefix (js_join s (take k ls)) (js_join s ls)"
proof -
  consider "take k ls = []" | "drop k ls = []" | "take k ls \<noteq> []" "drop k ls \<noteq> []" by blast
  then show ?thesis
  proof cases
    case 3
    from join_append[OF this, of s] show ?thesis by (simp add: prefix_def)
  qed (auto simp: take_all)
qed

lemma join_drop_suffix: "suffix (js_join s (drop k ls)) (js_join s ls)"
proof -
  consider "drop k ls = []" | "take k ls = []" "drop k ls = ls" | "take k ls \<noteq> []" "drop k ls \<noteq> []" by fastforce
  then show ?thesis
  proof cases
    case 3
    from join_append[OF this, of s] have "js_join s ls = (js_join s (take k ls) @ s) @ js_join s (drop k ls)" by simp
    then show ?thesis unfolding suffix_def by blast
  qed simp_all
qed

lemma split_at_nonempty [simp]: "split_at c s \<noteq> []"
  by (induction s) (simp_all split: list.splits)

lemma join_split: "js_join [c] (split_at c s) = s"
  by (induction s) (auto simp: join_Cons neq_Nil_conv split: list.splits, metis join_Cons append_Cons append_Nil list.distinct(1) js_join.simps(2))

lemma split_last_empty: "s \<noteq> [] \<Longrightarrow> last s = c \<Longrightarrow> last (split_at c s) = [] \<and> 2 \<le> length (split_at c s)"
proof (induction s)
  case (Cons u s)
  show ?case
  proof (cases "s = []")
    case True
    then show ?thesis using Cons.prems by simp
  next
    case False
    then have "last (split_at c s) = []" "2 \<le> length (split_at c s)" using Cons by auto
    then show ?thesis by (auto split: list.splits)
  qed
qed simp

lemma counted_lines:
  "content = join_lines_of (splitLinesForCounting content) @
     (if content \<noteq> [] \<and> last content = line_feed then [line_feed] else [])"
proof -
  let ?ls = "split_at line_feed content"
  have "content = join_lines_of (butlast ?ls) @ [line_feed]" if "content \<noteq> []" "last content = line_feed"
  proof -
    have e: "last ?ls = []" and n: "butlast ?ls \<noteq> []"
      using split_last_empty[OF that] by (auto simp: butlast_conv_take take_eq_Nil)
    have "butlast ?ls @ [[]] = ?ls" by (subst e[symmetric]) simp
    then show ?thesis using join_snoc[OF n, of "[line_feed]" "[]"] join_split[of line_feed content] by simp
  qed
  moreover have "content = join_lines_of ?ls" by (simp add: join_split)
  ultimately show ?thesis by (auto simp: splitLinesForCounting_def Let_def)
qed

lemma counted_lines_empty [simp]: "splitLinesForCounting content = [] \<longleftrightarrow> content = []"
proof -
  have "butlast (split_at line_feed content) \<noteq> []" if "content \<noteq> []" "last content = line_feed"
    using split_last_empty[OF that] by (auto simp: butlast_conv_take take_eq_Nil)
  then show ?thesis by (auto simp: splitLinesForCounting_def Let_def)
qed

section \<open>The beginning\<close>

lemma collect_head_longest:
  assumes bl: "counts_bytes buffer"
    and run: "collect_head buffer maxLines maxBytes (length out) out (byte_length (join_lines_of out)) rest = (out', b, hit)"
    and start: "byte_length (join_lines_of out) \<le> maxBytes" "length out \<le> maxLines"
  shows "out' = take (length out') (out @ rest) \<and> length out' \<le> maxLines \<and> b = byte_length (join_lines_of out') \<and>
    b \<le> maxBytes \<and>
    (length out' < length (out @ rest) \<and> length out' < maxLines \<longrightarrow>
       maxBytes < byte_length (join_lines_of (take (Suc (length out')) (out @ rest))))"
  using run start
proof (induction rest arbitrary: out)
  case (Cons l rest)
  let ?n = "byte_length (join_lines_of out) + (byte_length l + (if length out > 0 then 1 else 0))"
  have step: "byte_length (join_lines_of (out @ [l])) = ?n" by (simp add: byte_length_snoc)
  show ?case
  proof (cases "length out \<ge> maxLines")
    case True
    then show ?thesis using Cons.prems by auto
  next
    case room: False
    show ?thesis
    proof (cases "?n > maxBytes")
      case True
      then have "out' = out" "b = byte_length (join_lines_of out)"
        using Cons.prems(1) room by (auto simp: utf8ByteLength_length[OF bl] Let_def)
      moreover have "take (Suc (length out)) (out @ l # rest) = out @ [l]" by simp
      ultimately show ?thesis using Cons.prems True step by simp
    next
      case False
      then have "collect_head buffer maxLines maxBytes (length (out @ [l])) (out @ [l])
          (byte_length (join_lines_of (out @ [l]))) rest = (out', b, hit)"
        using Cons.prems(1) room by (simp add: utf8ByteLength_length[OF bl] Let_def step add.assoc)
      from Cons.IH[OF this] False room step show ?thesis by simp
    qed
  qed
qed auto

section \<open>Properties\<close>

lemma untruncated_simps:
  "tr_content (untruncated buffer content opts) = content"
  "\<not> tr_truncated (untruncated buffer content opts)"
  "tr_outputBytes (untruncated buffer content opts) = utf8ByteLength buffer content"
  "tr_outputLines (untruncated buffer content opts) = length (splitLinesForCounting content)"
  "\<not> tr_firstLineExceedsLimit (untruncated buffer content opts)"
  "\<not> tr_lastLinePartial (untruncated buffer content opts)"
  by (simp_all add: untruncated_def Let_def)

text \<open>
  C37: \<open>truncateHead\<close> returns the text itself exactly when it is within both limits, and otherwise its
  longest beginning of whole lines that is: at most \<open>maxLines\<close> lines and \<open>maxBytes\<close> bytes of UTF-8,
  with the next line one of the limits would be broken. The reported counts are those of the
  output, and the flag for an oversized first line says just that.
\<close>

theorem truncateHead_longest:
  assumes "counts_bytes buffer"
  shows "let r = truncateHead buffer content opts; ls = splitLinesForCounting content; n = tr_outputLines r in
    (tr_truncated r \<longleftrightarrow> max_lines opts < length ls \<or> max_bytes opts < byte_length content) \<and>
    (if tr_truncated r then n \<le> length ls \<and> n \<le> max_lines opts \<and> tr_content r = js_join [line_feed] (take n ls) \<and>
       prefix (tr_content r) content \<and>
       (n < length ls \<and> n < max_lines opts \<longrightarrow> max_bytes opts < byte_length (js_join [line_feed] (take (Suc n) ls)))
     else tr_content r = content \<and> n = length ls) \<and>
    tr_outputBytes r = byte_length (tr_content r) \<and> tr_outputBytes r \<le> max_bytes opts \<and>
    (tr_firstLineExceedsLimit r \<longleftrightarrow> content \<noteq> [] \<and> max_bytes opts < byte_length (hd ls))"
proof -
  let ?ls = "splitLinesForCounting content"
  note bl = utf8ByteLength_length[OF assms]
  have lines: "byte_length content = byte_length (join_lines_of ?ls) + (if content \<noteq> [] \<and> last content = line_feed then 1 else 0)"
    using arg_cong[OF counted_lines[of content], of byte_length] byte_length_break[of "join_lines_of ?ls" "[]"]
    by (simp split: if_splits)
  have pre: "prefix (join_lines_of (take k ?ls)) content" for k
    using prefix_order.trans[OF join_take_prefix[of "[line_feed]" k ?ls]] counted_lines[of content]
    by (metis prefix_def)
  have first: "byte_length (hd ?ls) \<le> byte_length content" if some: "content \<noteq> []"
  proof -
    obtain l ls where "?ls = l # ls" using some by (cases ?ls) auto
    then have "byte_length (hd ?ls) \<le> byte_length (join_lines_of ?ls)" by (simp add: byte_length_Cons)
    then show ?thesis using lines by simp
  qed
  show ?thesis
  proof (cases "length ?ls \<le> max_lines opts \<and> byte_length content \<le> max_bytes opts")
    case True
    then have "truncateHead buffer content opts = untruncated buffer content opts"
      by (simp add: truncateHead_def Let_def bl)
    then show ?thesis using True first by (auto simp: untruncated_simps Let_def bl)
  next
    case False
    then have some: "content \<noteq> []" by (auto simp: splitLinesForCounting_def)
    show ?thesis
    proof (cases "max_bytes opts < byte_length (hd ?ls)")
      case True
      have "take (Suc 0) ?ls = [hd ?ls]" using some by (cases ?ls) auto
      then show ?thesis using True False some by (auto simp: truncateHead_def Let_def bl not_le)
    next
      case fits: False
      obtain out b hit where run: "collect_head buffer (max_lines opts) (max_bytes opts) 0 [] 0 ?ls = (out, b, hit)"
        by (metis prod.exhaust)
      then have found: "out = take (length out) ?ls \<and> length out \<le> max_lines opts \<and> b = byte_length (join_lines_of out) \<and>
          b \<le> max_bytes opts \<and> (length out < length ?ls \<and> length out < max_lines opts \<longrightarrow>
            max_bytes opts < byte_length (join_lines_of (take (Suc (length out)) ?ls)))"
        using collect_head_longest[OF assms, of "max_lines opts" "max_bytes opts" "[]" ?ls out b hit]
        by simp
      note out = found[THEN conjunct1, symmetric]
      note spec = found[THEN conjunct2, THEN conjunct1]
        found[THEN conjunct2, THEN conjunct2, THEN conjunct2, THEN conjunct2]
      have size: "byte_length (join_lines_of out) \<le> max_bytes opts"
        using found[THEN conjunct2, THEN conjunct2, THEN conjunct1]
          found[THEN conjunct2, THEN conjunct2, THEN conjunct2, THEN conjunct1] by simp
      have "length out \<le> length ?ls" using arg_cong[OF out, of length] by simp
      let ?r = "truncateHead buffer content opts"
      have r: "tr_content ?r = join_lines_of out" "tr_truncated ?r" "tr_outputLines ?r = length out"
        "tr_outputBytes ?r = byte_length (join_lines_of out)" "\<not> tr_firstLineExceedsLimit ?r"
        using False fits run by (auto simp: truncateHead_def Let_def bl)
      have "max_lines opts < length ?ls \<or> max_bytes opts < byte_length content" using False by auto
      with fits spec size out pre[of "length out"] \<open>length out \<le> length ?ls\<close> some show ?thesis by (simp add: Let_def r)
    qed
  qed
qed

theorem truncateHead_longest_witness:
  "let r = truncateHead None [97, 10, 98, 98, 10, 99] \<lparr>to_maxLines = Some 5, to_maxBytes = Some 5\<rparr> in
     tr_content r = [97, 10, 98, 98] \<and> tr_outputLines r = 2 \<and> tr_outputBytes r \<le> 5"
proof -
  have "counts_bytes None" by (simp add: counts_bytes_def)
  from truncateHead_longest[OF this, of "[97, 10, 98, 98, 10, 99]" "\<lparr>to_maxLines = Some 5, to_maxBytes = Some 5\<rparr>"]
  have "tr_outputBytes (truncateHead None [97, 10, 98, 98, 10, 99] \<lparr>to_maxLines = Some 5, to_maxBytes = Some 5\<rparr>) \<le> 5"
    by (simp add: Let_def max_bytes_def)
  moreover have "tr_content (truncateHead None [97, 10, 98, 98, 10, 99] \<lparr>to_maxLines = Some 5, to_maxBytes = Some 5\<rparr>) = [97, 10, 98, 98]"
    "tr_outputLines (truncateHead None [97, 10, 98, 98, 10, 99] \<lparr>to_maxLines = Some 5, to_maxBytes = Some 5\<rparr>) = 2" by code_simp+
  ultimately show ?thesis by (simp add: Let_def)
qed

section \<open>The end\<close>

lemma not_both: "is_high u \<Longrightarrow> \<not> is_low u"
  by (auto simp: is_high_def is_low_def)

text \<open>A cut that does not go through a surrogate pair.\<close>

definition clean_cut :: "utf16 \<Rightarrow> utf16 \<Rightarrow> bool" where
  "clean_cut a b \<longleftrightarrow> a = [] \<or> b = [] \<or> \<not> (is_high (last a) \<and> is_low (hd b))"

lemma scalars_cut: "clean_cut a b \<Longrightarrow> scalars (a @ b) = scalars a @ scalars b"
proof (induction a rule: scalars.induct)
  case (2 u)
  then show ?case by (cases b) (auto simp: clean_cut_def)
next
  case (3 u v us)
  show ?case
  proof (cases "is_high u \<and> is_low v")
    case True
    have "clean_cut us b" using 3(5) by (cases us) (auto simp: clean_cut_def)
    then show ?thesis using True 3(1) by simp
  next
    case False
    then have "clean_cut (v # us) b" using 3(5) by (auto simp: clean_cut_def)
    then show ?thesis using False 3(2-4) by auto
  qed
qed simp

lemma scalars_replaced: "scalars (replaceUnpairedSurrogates s) = scalars s"
proof (induction s rule: replaceUnpairedSurrogates.induct)
  case (2 u)
  then show ?case using replacement_no_surrogate by auto
next
  case (3 u v us)
  then show ?case using replacement_no_surrogate not_both by (auto simp: scalars_plain)
qed simp

lemma byte_length_cut: "clean_cut a b \<Longrightarrow> byte_length (a @ b) = byte_length a + byte_length b"
  by (simp add: byte_length_def text_encode_def scalars_cut)

lemma last_character_ok:
  assumes "last_character c rest = (out, n, unpaired, before)"
  shows "rev rest @ [c] = rev before @ out \<and> out \<noteq> [] \<and> n = byte_length out \<and> 0 < n \<and>
    (clean_cut (rev rest @ [c]) t \<longrightarrow> clean_cut (rev before) (out @ t) \<and> clean_cut out t) \<and> length (scalars out) = 1"
proof -
  have one: "byte_length [c] = (if is_low c \<or> is_high c then 3 else if unat c \<le> 0x7F then 1 else if unat c \<le> 0x7FF then 2 else 3)"
    using byte_length_single[of "[]" c] by (auto simp: is_low_def is_high_def)
  have two: "byte_length [p, c] = 4" if "is_high p" "is_low c" for p
    using byte_length_pair[OF that, of "[]"] by simp
  show ?thesis using assms not_both one two
    by (auto simp: clean_cut_def split: list.splits if_splits)
qed

lemma take_characters_longest:
  assumes "take_characters maxBytes bytes needs t (rev s) = (out, needs')"
    and "clean_cut s t" and "bytes = byte_length t" and "bytes \<le> maxBytes"
  shows "\<exists>a. s @ t = a @ out \<and> clean_cut a out \<and> byte_length out \<le> maxBytes \<and>
    (a \<noteq> [] \<longrightarrow> maxBytes < length (utf8_of_scalar (last (scalars a))) + byte_length out)"
  using assms
proof (induction maxBytes bytes needs t "rev s" arbitrary: s rule: take_characters.induct)
  case (1 maxBytes bytes needs t)
  then show ?case by auto
next
  case (2 maxBytes bytes needs t c rest)
  obtain ch n unpaired before where ch: "last_character c rest = (ch, n, unpaired, before)"
    by (metis prod.exhaust)
  have s: "s = rev rest @ [c]" using 2(2) by (metis rev.simps(2) rev_rev_ident)
  note char = last_character_ok[OF ch, of t]
  have cut: "clean_cut (rev before) (ch @ t)" "clean_cut ch t" using char 2(4) s by auto
  have s': "s = rev before @ ch" using char s by simp
  show ?case
  proof (cases "bytes + n > maxBytes")
    case True
    then have out: "out = t" using 2(3) 2(2)[symmetric] ch by (simp del: last_character.simps)
    have "clean_cut (rev before) ch" using cut(1) char by (cases ch) (auto simp: clean_cut_def)
    then have sc: "scalars s = scalars (rev before) @ scalars ch" using s' scalars_cut by simp
    obtain x where x: "scalars ch = [x]" using char by (cases "scalars ch") auto
    then have "length (utf8_of_scalar (last (scalars s))) = n"
      using sc char by (simp add: byte_length_def text_encode_def)
    then show ?thesis using 2(4-6) True out by (intro exI[of _ s]) (simp add: add.commute)
  next
    case False
    have run: "take_characters maxBytes (bytes + n) (needs \<or> unpaired) (ch @ t) before = (out, needs')"
      using 2(3) 2(2)[symmetric] ch False by (simp del: last_character.simps)
    have "bytes + n = byte_length (ch @ t)" using byte_length_cut[OF cut(2)] char 2(5) by simp
    then show ?thesis
      using 2(1)[OF ch[symmetric] refl, of unpaired "rev before"] run cut(1) False s'
      by (simp del: last_character.simps)
  qed
qed

lemma longest_tail:
  "\<exists>a b. str = a @ b \<and> scalars str = scalars a @ scalars b \<and>
     text_encode (truncateStringToBytesFromEnd str maxBytes) = text_encode b \<and> byte_length b \<le> maxBytes \<and>
     (a \<noteq> [] \<longrightarrow> maxBytes < length (utf8_of_scalar (last (scalars a))) + byte_length b)"
proof (cases "maxBytes = 0")
  case True
  then show ?thesis
    by (intro exI[of _ str] exI[of _ "[]"]) (simp add: truncateStringToBytesFromEnd_def utf8_length)
next
  case False
  obtain out needs where run: "take_characters maxBytes 0 False [] (rev str) = (out, needs)" by (metis prod.exhaust)
  have "clean_cut str []" by (simp add: clean_cut_def)
  from take_characters_longest[OF run this] obtain a where a: "str = a @ out" "clean_cut a out"
    "byte_length out \<le> maxBytes" "a \<noteq> [] \<longrightarrow> maxBytes < length (utf8_of_scalar (last (scalars a))) + byte_length out" by auto
  moreover have "text_encode (truncateStringToBytesFromEnd str maxBytes) = text_encode out"
    using False run by (simp add: truncateStringToBytesFromEnd_def text_encode_def scalars_replaced)
  ultimately show ?thesis using scalars_cut[OF a(2)] by blast
qed

lemma collect_tail_longest:
  assumes bl: "counts_bytes buffer"
    and "collect_tail buffer maxLines maxBytes out (byte_length (join_lines_of out)) (rev rest) = (out', b, hit, partial)"
    and "byte_length (join_lines_of out) \<le> maxBytes" "length out \<le> maxLines"
  shows "if partial
    then out = [] \<and> rest \<noteq> [] \<and> 0 < maxLines \<and> maxBytes < byte_length (last rest) \<and>
      out' = [truncateStringToBytesFromEnd (last rest) maxBytes]
    else drop (length rest + length out - length out') (rest @ out) = out' \<and>
      length out' \<le> length rest + length out \<and> length out' \<le> maxLines \<and>
      byte_length (join_lines_of out') \<le> maxBytes \<and>
      (length out' < length rest + length out \<and> length out' < maxLines \<longrightarrow>
         maxBytes < byte_length (join_lines_of (drop (length rest + length out - Suc (length out')) (rest @ out))))"
  using assms(2-)
proof (induction rest arbitrary: out rule: rev_induct)
  case (snoc l rest)
  let ?n = "byte_length (join_lines_of out) + (byte_length l + (if out \<noteq> [] then 1 else 0))"
  have step: "byte_length (join_lines_of (l # out)) = ?n" by (simp add: byte_length_Cons)
  show ?case
  proof (cases "length out \<ge> maxLines")
    case True
    then show ?thesis using snoc.prems by auto
  next
    case room: False
    show ?thesis
    proof (cases "?n > maxBytes")
      case True
      show ?thesis
      proof (cases "out = []")
        case empty: True
        then have "partial" "out' = [truncateStringToBytesFromEnd l maxBytes]"
          using snoc.prems(1) room True by (auto simp: utf8ByteLength_length[OF bl] Let_def)
        then show ?thesis using empty room True by simp
      next
        case False
        then have "\<not> partial" "out' = out"
          using snoc.prems(1) room True by (auto simp: utf8ByteLength_length[OF bl] Let_def)
        then show ?thesis using snoc.prems(2,3) True step by simp
      qed
    next
      case False
      then have "collect_tail buffer maxLines maxBytes (l # out) (byte_length (join_lines_of (l # out))) (rev rest) =
          (out', b, hit, partial)"
        using snoc.prems(1) room by (simp add: utf8ByteLength_length[OF bl] Let_def step add.assoc)
      from snoc.IH[OF this] False room step show ?thesis by (auto split: if_splits)
    qed
  qed
qed auto

text \<open>
  C38: \<open>truncateTail\<close> returns the text itself exactly when it is within both limits, and otherwise its
  longest end of whole lines that is, a final line break left out. Only when the last line alone is
  too long it is cut, to its longest end of whole characters: the bytes are those of that end, no
  surrogate pair is split, and the character before it would exceed the limit. In every case the
  output has at most \<open>maxLines\<close> lines and \<open>maxBytes\<close> bytes and the reported size is its size.
\<close>

theorem truncateTail_longest:
  assumes "counts_bytes buffer"
  shows "let r = truncateTail buffer content opts; ls = splitLinesForCounting content; n = tr_outputLines r in
    (tr_truncated r \<longleftrightarrow> max_lines opts < length ls \<or> max_bytes opts < byte_length content) \<and>
    (if \<not> tr_truncated r then tr_content r = content \<and> \<not> tr_lastLinePartial r
     else if tr_lastLinePartial r then
       n = 1 \<and> ls \<noteq> [] \<and> max_bytes opts < byte_length (last ls) \<and>
       (\<exists>a b. last ls = a @ b \<and> scalars (last ls) = scalars a @ scalars b \<and> text_encode (tr_content r) = text_encode b \<and>
          (a \<noteq> [] \<longrightarrow> max_bytes opts < length (utf8_of_scalar (last (scalars a))) + byte_length b))
     else n \<le> length ls \<and> tr_content r = js_join [line_feed] (drop (length ls - n) ls) \<and>
       (n < length ls \<and> n < max_lines opts \<longrightarrow>
          max_bytes opts < byte_length (js_join [line_feed] (drop (length ls - Suc n) ls)))) \<and>
    n \<le> max_lines opts \<and> tr_outputBytes r = byte_length (tr_content r) \<and> tr_outputBytes r \<le> max_bytes opts"
proof -
  let ?ls = "splitLinesForCounting content" and ?r = "truncateTail buffer content opts"
  note bl = utf8ByteLength_length[OF assms]
  show ?thesis
  proof (cases "length ?ls \<le> max_lines opts \<and> byte_length content \<le> max_bytes opts")
    case True
    then have "?r = untruncated buffer content opts" by (simp add: truncateTail_def Let_def bl)
    then show ?thesis using True by (auto simp: untruncated_simps Let_def bl)
  next
    case False
    obtain out b hit partial where run: "collect_tail buffer (max_lines opts) (max_bytes opts) [] 0 (rev ?ls) = (out, b, hit, partial)"
      by (metis prod.exhaust)
    have r: "tr_content ?r = join_lines_of out" "tr_truncated ?r" "tr_outputLines ?r = length out"
      "tr_outputBytes ?r = byte_length (join_lines_of out)" "tr_lastLinePartial ?r = partial"
      using False run by (auto simp: truncateTail_def Let_def bl)
    note found = collect_tail_longest[OF assms, of "max_lines opts" "max_bytes opts" "[]" ?ls out b hit partial]
    have over: "max_lines opts < length ?ls \<or> max_bytes opts < byte_length content" using False by auto
    show ?thesis
    proof (cases partial)
      case True
      then have p: "?ls \<noteq> []" "0 < max_lines opts" "max_bytes opts < byte_length (last ?ls)"
        "out = [truncateStringToBytesFromEnd (last ?ls) (max_bytes opts)]" using found run by simp_all
      from longest_tail[of "last ?ls" "max_bytes opts"] obtain a b' where
        tail: "last ?ls = a @ b'" "scalars (last ?ls) = scalars a @ scalars b'"
          "text_encode (truncateStringToBytesFromEnd (last ?ls) (max_bytes opts)) = text_encode b'"
          "byte_length b' \<le> max_bytes opts"
          "a \<noteq> [] \<longrightarrow> max_bytes opts < length (utf8_of_scalar (last (scalars a))) + byte_length b'" by blast
      have "byte_length (truncateStringToBytesFromEnd (last ?ls) (max_bytes opts)) \<le> max_bytes opts"
        using tail(3,4) by (simp add: byte_length_def)
      with True over p tail r(2) show ?thesis unfolding Let_def r
        by (simp del: counted_lines_empty) blast
    next
      case False
      with found run over r(2) show ?thesis unfolding Let_def r by simp
    qed
  qed
qed

theorem truncateTail_longest_witness:
  "let r = truncateTail None [97, 98, 10, 99, 0xD83D, 0xDE00, 100] \<lparr>to_maxLines = None, to_maxBytes = Some 5\<rparr> in
     tr_content r = [0xD83D, 0xDE00, 100] \<and> tr_outputBytes r = byte_length [0xD83D, 0xDE00, 100] \<and> tr_outputBytes r \<le> 5"
proof -
  let ?r = "truncateTail None [97, 98, 10, 99, 0xD83D, 0xDE00, 100] \<lparr>to_maxLines = None, to_maxBytes = Some 5\<rparr>"
  have "counts_bytes None" by (simp add: counts_bytes_def)
  from truncateTail_longest[OF this, of "[97, 98, 10, 99, 0xD83D, 0xDE00, 100]" "\<lparr>to_maxLines = None, to_maxBytes = Some 5\<rparr>"]
  have "tr_outputBytes ?r = byte_length (tr_content ?r) \<and> tr_outputBytes ?r \<le> max_bytes \<lparr>to_maxLines = None, to_maxBytes = Some 5\<rparr>"
    unfolding Let_def by blast
  moreover have "tr_content ?r = [0xD83D, 0xDE00, 100]" by code_simp
  ultimately show ?thesis by (simp add: Let_def max_bytes_def)
qed

text \<open>
  When only the line break at the end exceeds the byte limit, the result says the line limit was hit.
\<close>

theorem wrong_limit_reported:
  "tr_truncatedBy (truncateTail None [97, 98, 10] \<lparr>to_maxLines = None, to_maxBytes = Some 2\<rparr>) = Some By_lines \<and>
   tr_totalLines (truncateTail None [97, 98, 10] \<lparr>to_maxLines = None, to_maxBytes = Some 2\<rparr>) = 1"
  by code_simp

end
