(* ===== verification/Compaction.thy ===== *)
theory Compaction
  imports Session_Context Json_Text "HOL-Library.List_Lexorder" "HOL-Library.Char_ord"
begin

text \<open>
  Compaction of a conversation: \<open>packages/agent/src/harness/compaction/compaction.ts\<close> and
  \<open>utils.ts\<close>. The newest messages that fit a token budget are kept, what comes before is summarized
  by a model. The model call with its retries (\<open>completeSimpleWithRetries\<close>) is a function on a world;
  lengths of strings stand for the character counts of the estimate.
\<close>

section \<open>File operations\<close>

text \<open>A JavaScript set keeps the order of insertion.\<close>

definition set_add :: "'a \<Rightarrow> 'a list \<Rightarrow> 'a list" where
  "set_add x xs = (if x \<in> set xs then xs else xs @ [x])"

record file_operations =
  fo_read :: "string list"
  fo_written :: "string list"
  fo_edited :: "string list"

definition createFileOps :: file_operations where
  "createFileOps = \<lparr>fo_read = [], fo_written = [], fo_edited = []\<rparr>"

definition call_file_op :: "tool_call \<Rightarrow> file_operations \<Rightarrow> file_operations" where
  "call_file_op c ops =
     (case map_of (tc_arguments c) ''path'' of
        Some (JStr path) \<Rightarrow>
          if path = [] then ops
          else if tc_name c = ''read'' then ops\<lparr>fo_read := set_add path (fo_read ops)\<rparr>
          else if tc_name c = ''write'' then ops\<lparr>fo_written := set_add path (fo_written ops)\<rparr>
          else if tc_name c = ''edit'' then ops\<lparr>fo_edited := set_add path (fo_edited ops)\<rparr>
          else ops
      | _ \<Rightarrow> ops)"

fun block_file_op :: "content_block \<Rightarrow> file_operations \<Rightarrow> file_operations" where
  "block_file_op (ToolCall c) ops = call_file_op c ops"
| "block_file_op _ ops = ops"

fun extractFileOpsFromMessage :: "agent_message \<Rightarrow> file_operations \<Rightarrow> file_operations" where
  "extractFileOpsFromMessage (Llm (AssistantMsg a)) ops = fold block_file_op (am_content a) ops"
| "extractFileOpsFromMessage _ ops = ops"

definition computeFileLists :: "file_operations \<Rightarrow> string list \<times> string list" where
  "computeFileLists ops =
     (let modified = fold set_add (fo_edited ops @ fo_written ops) []
      in (sort (filter (\<lambda>f. f \<notin> set modified) (fo_read ops)), sort modified))"

definition tagged :: "string \<Rightarrow> string list \<Rightarrow> string list" where
  "tagged tag files =
     (if files = [] then []
      else [''<'' @ tag @ ''>'' @ newline @ js_join newline files @ newline @ ''</'' @ tag @ ''>''])"

definition formatFileOperations :: "string list \<Rightarrow> string list \<Rightarrow> string" where
  "formatFileOperations readFiles modifiedFiles =
     (let sections = tagged ''read-files'' readFiles @ tagged ''modified-files'' modifiedFiles in
      if sections = [] then []
      else newline @ newline @ js_join (newline @ newline) sections)"

definition json_strings :: "json option \<Rightarrow> string list" where
  "json_strings v =
     (case v of Some (JArr vs) \<Rightarrow> List.map_filter (\<lambda>v. case v of JStr s \<Rightarrow> Some s | _ \<Rightarrow> None) vs | _ \<Rightarrow> [])"

text \<open>The lists a previous compaction stored in its details; strings only, as their type says.\<close>

definition previous_file_ops :: "compaction_data \<Rightarrow> file_operations \<Rightarrow> file_operations" where
  "previous_file_ops cd ops =
     (case cd_details cd of
        Some (JObj kvs) \<Rightarrow>
          ops\<lparr>fo_read := fold set_add (json_strings (map_of kvs ''readFiles'')) (fo_read ops),
              fo_edited := fold set_add (json_strings (map_of kvs ''modifiedFiles'')) (fo_edited ops)\<rparr>
      | _ \<Rightarrow> ops)"

definition extractFileOperations :: "agent_message list \<Rightarrow> compaction_data option \<Rightarrow> file_operations" where
  "extractFileOperations messages previous =
     fold extractFileOpsFromMessage messages
       (case previous of None \<Rightarrow> createFileOps | Some cd \<Rightarrow> previous_file_ops cd createFileOps)"

section \<open>Text for the model\<close>

definition TOOL_RESULT_MAX_CHARS :: nat where
  "TOOL_RESULT_MAX_CHARS = 2000"

definition truncateForSummary :: "string \<Rightarrow> nat \<Rightarrow> string" where
  "truncateForSummary s maxChars =
     (if length s \<le> maxChars then s
      else take maxChars s @ newline @ newline @ ''[... '' @ string_of_nat (length s - maxChars) @
        '' more characters truncated]'')"

definition call_text :: "tool_call \<Rightarrow> string" where
  "call_text c = tc_name c @ ''('' @
     js_join '', '' (map (\<lambda>(k, v). k @ ''='' @ stringify v) (tc_arguments c)) @ '')''"

fun block_thinking :: "content_block \<Rightarrow> string option" where
  "block_thinking (Thinking t _ _) = Some t"
| "block_thinking _ = None"

fun block_call :: "content_block \<Rightarrow> tool_call option" where
  "block_call (ToolCall c) = Some c"
| "block_call _ = None"

fun message_parts :: "message \<Rightarrow> string list" where
  "message_parts (UserMsg m) =
     (let content = contentText (um_content m) [] in if content = [] then [] else [''[User]: '' @ content])"
| "message_parts (DeveloperMsg m) =
     (let content = contentText (dm_content m) [] in if content = [] then [] else [''[Developer]: '' @ content])"
| "message_parts (AssistantMsg m) =
     (let thinking = List.map_filter block_thinking (am_content m);
          calls = map call_text (List.map_filter block_call (am_content m)) in
      (if thinking = [] then [] else [''[Assistant thinking]: '' @ js_join newline thinking]) @
      (if list_ex (\<lambda>b. block_text b \<noteq> None) (am_content m)
         then [''[Assistant]: '' @ contentText (Body_Blocks (am_content m)) newline] else []) @
      (if calls = [] then [] else [''[Assistant tool calls]: '' @ js_join ''; '' calls]))"
| "message_parts (ToolResultMsg m) =
     (let content = contentText (Body_Blocks (tr_content m)) [] in
      if content = [] then [] else [''[Tool result]: '' @ truncateForSummary content TOOL_RESULT_MAX_CHARS])"

definition serializeConversation :: "message list \<Rightarrow> string" where
  "serializeConversation messages = js_join (newline @ newline) (concat (map message_parts messages))"

section \<open>Token estimates\<close>

definition calculateContextTokens :: "usage \<Rightarrow> int" where
  "calculateContextTokens u =
     (if us_totalTokens u \<noteq> 0 then us_totalTokens u
      else us_input u + us_output u + us_cacheRead u + us_cacheWrite u)"

fun getAssistantUsage :: "agent_message \<Rightarrow> usage option" where
  "getAssistantUsage (Llm (AssistantMsg a)) =
     (if am_stopReason a \<noteq> SR_aborted \<and> am_stopReason a \<noteq> SR_error \<and> calculateContextTokens (am_usage a) > 0
      then Some (am_usage a) else None)"
| "getAssistantUsage _ = None"

fun first_usage :: "agent_message list \<Rightarrow> usage option" where
  "first_usage [] = None"
| "first_usage (m # ms) = (case getAssistantUsage m of Some u \<Rightarrow> Some u | None \<Rightarrow> first_usage ms)"

definition entry_message :: "entry \<Rightarrow> agent_message option" where
  "entry_message e = (case en_body e of E_message m _ \<Rightarrow> Some m | _ \<Rightarrow> None)"

definition getLastAssistantUsage :: "entry list \<Rightarrow> usage option" where
  "getLastAssistantUsage entries = first_usage (List.map_filter entry_message (rev entries))"

definition getLastAssistantUsageInfo :: "agent_message list \<Rightarrow> (usage \<times> nat) option" where
  "getLastAssistantUsageInfo messages =
     (case find (\<lambda>i. getAssistantUsage (messages ! i) \<noteq> None) (rev [0..<length messages]) of
        None \<Rightarrow> None
      | Some i \<Rightarrow> Some (the (getAssistantUsage (messages ! i)), i))"

definition ESTIMATED_IMAGE_CHARS :: nat where
  "ESTIMATED_IMAGE_CHARS = 4800"

fun block_chars :: "content_block \<Rightarrow> nat" where
  "block_chars (Text t _) = length t"
| "block_chars (Image _ _) = ESTIMATED_IMAGE_CHARS"
| "block_chars _ = 0"

fun estimateTextAndImageContentChars :: "body \<Rightarrow> nat" where
  "estimateTextAndImageContentChars (Body_String s) = length s"
| "estimateTextAndImageContentChars (Body_Blocks bs) = sum_list (map block_chars bs)"

fun assistant_chars :: "content_block \<Rightarrow> nat" where
  "assistant_chars (Text t _) = length t"
| "assistant_chars (Thinking t _ _) = length t"
| "assistant_chars (ToolCall c) = length (tc_name c) + length (stringify (JObj (tc_arguments c)))"
| "assistant_chars _ = 0"

fun message_chars :: "agent_message \<Rightarrow> nat" where
  "message_chars (Llm (UserMsg m)) = estimateTextAndImageContentChars (um_content m)"
| "message_chars (Llm (DeveloperMsg m)) = estimateTextAndImageContentChars (dm_content m)"
| "message_chars (Llm (AssistantMsg m)) = sum_list (map assistant_chars (am_content m))"
| "message_chars (Llm (ToolResultMsg m)) = estimateTextAndImageContentChars (Body_Blocks (tr_content m))"
| "message_chars (Custom m) = estimateTextAndImageContentChars (cm_content m)"
| "message_chars (BashExecution m) = length (be_command m) + length (be_output m)"
| "message_chars (BranchSummary m) = length (bs_summary m)"
| "message_chars (CompactionSummary m) = length (cs_summary m)"

definition estimateTokens :: "agent_message \<Rightarrow> int" where
  "estimateTokens m = (int (message_chars m) + 3) div 4"

record context_usage_estimate =
  ue_tokens :: int
  ue_usageTokens :: int
  ue_trailingTokens :: int
  ue_lastUsageIndex :: "nat option"

definition estimateContextTokens :: "agent_message list \<Rightarrow> context_usage_estimate" where
  "estimateContextTokens messages =
     (case getLastAssistantUsageInfo messages of
        None \<Rightarrow>
          (let estimated = sum_list (map estimateTokens messages) in
           \<lparr>ue_tokens = estimated, ue_usageTokens = 0, ue_trailingTokens = estimated, ue_lastUsageIndex = None\<rparr>)
      | Some (usage, index) \<Rightarrow>
          (let usageTokens = calculateContextTokens usage;
               trailing = sum_list (map estimateTokens (drop (index + 1) messages)) in
           \<lparr>ue_tokens = usageTokens + trailing, ue_usageTokens = usageTokens, ue_trailingTokens = trailing,
            ue_lastUsageIndex = Some index\<rparr>))"

record compaction_settings =
  cs_enabled :: bool
  cs_reserveTokens :: int
  cs_keepRecentTokens :: int

definition DEFAULT_COMPACTION_SETTINGS :: compaction_settings where
  "DEFAULT_COMPACTION_SETTINGS = \<lparr>cs_enabled = True, cs_reserveTokens = 16384, cs_keepRecentTokens = 20000\<rparr>"

definition shouldCompact :: "int \<Rightarrow> int \<Rightarrow> compaction_settings \<Rightarrow> bool" where
  "shouldCompact contextTokens contextWindow settings \<longleftrightarrow>
     cs_enabled settings \<and> contextTokens > contextWindow - cs_reserveTokens settings"

section \<open>The cut\<close>

definition getMessageFromEntry :: "entry \<Rightarrow> agent_message option" where
  "getMessageFromEntry e =
     (case en_body e of
        E_message m _ \<Rightarrow> Some m
      | E_branch_summary bd \<Rightarrow> Some (createBranchSummaryMessage (bd_summary bd) (bd_fromId bd) (en_timestamp e))
      | E_compaction cd \<Rightarrow> Some (createCompactionSummaryMessage (cd_summary cd) (cd_tokensBefore cd) (en_timestamp e))
      | _ \<Rightarrow> None)"

definition getMessageFromEntryForCompaction :: "entry \<Rightarrow> agent_message option" where
  "getMessageFromEntryForCompaction e =
     (if entry_type_of e = ET_compaction then None else getMessageFromEntry e)"

definition cut_point :: "entry \<Rightarrow> bool" where
  "cut_point e =
     (case en_body e of
        E_message m _ \<Rightarrow> message_role m \<noteq> R_toolResult
      | E_branch_summary _ \<Rightarrow> True
      | _ \<Rightarrow> False)"

definition findValidCutPoints :: "entry list \<Rightarrow> nat \<Rightarrow> nat \<Rightarrow> nat list" where
  "findValidCutPoints entries startIndex endIndex = filter (\<lambda>i. cut_point (entries ! i)) [startIndex..<endIndex]"

definition turn_start :: "entry \<Rightarrow> bool" where
  "turn_start e =
     (case en_body e of
        E_branch_summary _ \<Rightarrow> True
      | E_message m _ \<Rightarrow> message_role m \<in> {R_user, R_developer, R_bashExecution}
      | _ \<Rightarrow> False)"

definition findTurnStartIndex :: "entry list \<Rightarrow> nat \<Rightarrow> nat \<Rightarrow> nat option" where
  "findTurnStartIndex entries entryIndex startIndex =
     find (\<lambda>i. turn_start (entries ! i)) (rev [startIndex..<Suc entryIndex])"

record cut_point_result =
  cp_firstKeptEntryIndex :: nat
  cp_turnStartIndex :: "nat option"
  cp_isSplitTurn :: bool

text \<open>The entry at which the tokens of the messages, added from the end, reach the budget.\<close>

fun budget_index :: "entry list \<Rightarrow> int \<Rightarrow> int \<Rightarrow> nat list \<Rightarrow> nat option" where
  "budget_index entries keep tokens [] = None"
| "budget_index entries keep tokens (i # is) =
     (case entry_message (entries ! i) of
        None \<Rightarrow> budget_index entries keep tokens is
      | Some m \<Rightarrow>
          if tokens + estimateTokens m \<ge> keep then Some i
          else budget_index entries keep (tokens + estimateTokens m) is)"

fun include_settings :: "entry list \<Rightarrow> nat \<Rightarrow> nat \<Rightarrow> nat" where
  "include_settings entries startIndex 0 = 0"
| "include_settings entries startIndex (Suc k) =
     (if startIndex < Suc k \<and> entry_type_of (entries ! k) \<notin> {ET_compaction, ET_message}
      then include_settings entries startIndex k else Suc k)"

definition findCutPoint :: "entry list \<Rightarrow> nat \<Rightarrow> nat \<Rightarrow> int \<Rightarrow> cut_point_result" where
  "findCutPoint entries startIndex endIndex keepRecentTokens =
     (let cutPoints = findValidCutPoints entries startIndex endIndex in
      if cutPoints = []
        then \<lparr>cp_firstKeptEntryIndex = startIndex, cp_turnStartIndex = None, cp_isSplitTurn = False\<rparr>
      else
        let cutIndex = (case budget_index entries keepRecentTokens 0 (rev [startIndex..<endIndex]) of
              None \<Rightarrow> hd cutPoints
            | Some i \<Rightarrow> (case find (\<lambda>c. c \<ge> i) cutPoints of Some c \<Rightarrow> c | None \<Rightarrow> hd cutPoints));
            cutIndex = include_settings entries startIndex cutIndex;
            isTurnStartMessage = (case entry_message (entries ! cutIndex) of
              Some m \<Rightarrow> message_role m \<in> {R_user, R_developer} | None \<Rightarrow> False);
            turnStartIndex = (if isTurnStartMessage then None else findTurnStartIndex entries cutIndex startIndex)
        in \<lparr>cp_firstKeptEntryIndex = cutIndex, cp_turnStartIndex = turnStartIndex,
            cp_isSplitTurn = (\<not> isTurnStartMessage \<and> turnStartIndex \<noteq> None)\<rparr>)"

section \<open>Preparation\<close>

record compaction_preparation =
  pr_messagesToSummarize :: "agent_message list"
  pr_turnPrefixMessages :: "agent_message list"
  pr_retainedTail :: "agent_message list"
  pr_isSplitTurn :: bool
  pr_tokensBefore :: int
  pr_previousSummary :: "string option"
  pr_fileOps :: file_operations
  pr_settings :: compaction_settings

fun message_time :: "agent_message \<Rightarrow> int" where
  "message_time (Llm (UserMsg m)) = um_timestamp m"
| "message_time (Llm (DeveloperMsg m)) = dm_timestamp m"
| "message_time (Llm (AssistantMsg m)) = am_timestamp m"
| "message_time (Llm (ToolResultMsg m)) = tr_timestamp m"
| "message_time (BashExecution m) = be_timestamp m"
| "message_time (Custom m) = cm_timestamp m"
| "message_time (BranchSummary m) = bs_timestamp m"
| "message_time (CompactionSummary m) = cs_timestamp m"

definition retained_id :: "entry \<Rightarrow> nat \<Rightarrow> string" where
  "retained_id prev k = en_id prev @ '':retained:'' @ string_of_nat k"

definition virtual_entry :: "entry \<Rightarrow> nat \<Rightarrow> agent_message \<Rightarrow> entry" where
  "virtual_entry prev k m =
     \<lparr>en_id = retained_id prev k, en_body = E_message m False, en_seq = en_seq prev,
      en_parentId = Some (if k = 0 then en_id prev else retained_id prev (k - 1)),
      en_timestamp = message_time m\<rparr>"

text \<open>The last compaction of a path with what follows it.\<close>

fun previous_compaction :: "entry list \<Rightarrow> entry list \<Rightarrow> (entry \<times> compaction_data \<times> entry list) option" where
  "previous_compaction [] after = None"
| "previous_compaction (e # before) after =
     (case en_body e of
        E_compaction cd \<Rightarrow> Some (e, cd, after)
      | _ \<Rightarrow> previous_compaction before (e # after))"

definition compactable_entries :: "entry list \<Rightarrow> entry list" where
  "compactable_entries path =
     (case previous_compaction (rev path) [] of
        None \<Rightarrow> path
      | Some (prev, cd, after) \<Rightarrow>
          map2 (virtual_entry prev) [0..<length (cd_retainedTail cd)] (cd_retainedTail cd) @ after)"

definition messages_between :: "entry list \<Rightarrow> nat \<Rightarrow> nat \<Rightarrow> agent_message list" where
  "messages_between entries i j =
     List.map_filter (\<lambda>k. getMessageFromEntryForCompaction (entries ! k)) [i..<j]"

definition prepareCompaction :: "entry list \<Rightarrow> compaction_settings \<Rightarrow> compaction_preparation option" where
  "prepareCompaction path settings =
     (if path = [] \<or> entry_type_of (last path) = ET_compaction then None
      else
        let previous = previous_compaction (rev path) [];
            entries = compactable_entries path;
            boundaryEnd = length entries;
            tokensBefore = ue_tokens (estimateContextTokens (cx_messages (buildSessionContext path no_options)));
            cut = findCutPoint entries 0 boundaryEnd (cs_keepRecentTokens settings);
            firstKept = cp_firstKeptEntryIndex cut;
            historyEnd = (if cp_isSplitTurn cut then the (cp_turnStartIndex cut) else firstKept);
            messagesToSummarize = messages_between entries 0 historyEnd;
            turnPrefixMessages = (if cp_isSplitTurn cut then messages_between entries historyEnd firstKept else []);
            retainedTail = messages_between entries firstKept boundaryEnd;
            fileOps = extractFileOperations messagesToSummarize (map_option (fst \<circ> snd) previous);
            fileOps = fold extractFileOpsFromMessage turnPrefixMessages fileOps
        in Some \<lparr>pr_messagesToSummarize = messagesToSummarize, pr_turnPrefixMessages = turnPrefixMessages,
          pr_retainedTail = retainedTail, pr_isSplitTurn = cp_isSplitTurn cut, pr_tokensBefore = tokensBefore,
          pr_previousSummary = map_option (cd_summary \<circ> fst \<circ> snd) previous, pr_fileOps = fileOps,
          pr_settings = settings\<rparr>)"

section \<open>Summaries\<close>

definition SUMMARIZATION_SYSTEM_PROMPT :: string where
  "SUMMARIZATION_SYSTEM_PROMPT = js_join newline
     [''You are a context summarization assistant. Your task is to read a conversation between a user and an AI assistant, then produce a structured summary following the exact format specified.'',
      [],
      ''Do NOT continue the conversation. Do NOT respond to any questions in the conversation. ONLY output the structured summary.'']"

definition SUMMARIZATION_PROMPT :: string where
  "SUMMARIZATION_PROMPT = js_join newline
     [''The messages above are a conversation to summarize. Create a structured context checkpoint summary that another LLM will use to continue the work.'',
      [],
      ''Use this EXACT format:'',
      [],
      ''## Goal'',
      ''[What is the user trying to accomplish? Can be multiple items if the session covers different tasks.]'',
      [],
      ''## Constraints & Preferences'',
      ''- [Any constraints, preferences, or requirements mentioned by user]'',
      ''- [Or \"(none)\" if none were mentioned]'',
      [],
      ''## Progress'',
      ''### Done'',
      ''- [x] [Completed tasks/changes]'',
      [],
      ''### In Progress'',
      ''- [ ] [Current work]'',
      [],
      ''### Blocked'',
      ''- [Issues preventing progress, if any]'',
      [],
      ''## Key Decisions'',
      ''- **[Decision]**: [Brief rationale]'',
      [],
      ''## Next Steps'',
      ''1. [Ordered list of what should happen next]'',
      [],
      ''## Critical Context'',
      ''- [Any data, examples, or references needed to continue]'',
      ''- [Or \"(none)\" if not applicable]'',
      [],
      ''Keep each section concise. Preserve exact file paths, function names, and error messages.'']"

definition UPDATE_SUMMARIZATION_PROMPT :: string where
  "UPDATE_SUMMARIZATION_PROMPT = js_join newline
     [''The messages above are NEW conversation messages to incorporate into the existing summary provided in <previous-summary> tags.'',
      [],
      ''Update the existing structured summary with new information. RULES:'',
      ''- PRESERVE all existing information from the previous summary'',
      ''- ADD new progress, decisions, and context from the new messages'',
      ''- UPDATE the Progress section: move items from \"In Progress\" to \"Done\" when completed'',
      ''- UPDATE \"Next Steps\" based on what was accomplished'',
      ''- PRESERVE exact file paths, function names, and error messages'',
      ''- If something is no longer relevant, you may remove it'',
      [],
      ''Use this EXACT format:'',
      [],
      ''## Goal'',
      ''[Preserve existing goals, add new ones if the task expanded]'',
      [],
      ''## Constraints & Preferences'',
      ''- [Preserve existing, add new ones discovered]'',
      [],
      ''## Progress'',
      ''### Done'',
      ''- [x] [Include previously done items AND newly completed items]'',
      [],
      ''### In Progress'',
      ''- [ ] [Current work - update based on progress]'',
      [],
      ''### Blocked'',
      ''- [Current blockers - remove if resolved]'',
      [],
      ''## Key Decisions'',
      ''- **[Decision]**: [Brief rationale] (preserve all previous, add new)'',
      [],
      ''## Next Steps'',
      ''1. [Update based on current state]'',
      [],
      ''## Critical Context'',
      ''- [Preserve important context, add new if needed]'',
      [],
      ''Keep each section concise. Preserve exact file paths, function names, and error messages.'']"

definition TURN_PREFIX_SUMMARIZATION_PROMPT :: string where
  "TURN_PREFIX_SUMMARIZATION_PROMPT = js_join newline
     [''This is the PREFIX of a turn that was too large to keep. The SUFFIX (recent work) is retained.'',
      [],
      ''Summarize the prefix to provide context for the retained suffix:'',
      [],
      ''## Original Request'',
      ''[What did the user ask for in this turn?]'',
      [],
      ''## Early Progress'',
      ''- [Key decisions and work done in the prefix]'',
      [],
      ''## Context for Suffix'',
      ''- [Information needed to understand the retained recent work]'',
      [],
      ''Be concise. Focus on what's needed to understand the kept suffix.'']"

text \<open>
  A request for a summary: its token limit, the prompt, and the thinking level the model is asked
  for. The fields of the model that are looked at are its token limit and whether it reasons.
\<close>

record summary_model =
  sm_maxTokens :: int
  sm_reasoning :: bool

record summary_request =
  sq_systemPrompt :: string
  sq_prompt :: string
  sq_maxTokens :: int
  sq_reasoning :: "string option"

datatype compaction_error = CE_aborted string | CE_summarization_failed string

type_synonym 'w completion = "summary_request \<Rightarrow> 'w \<Rightarrow> assistant_message \<times> 'w"

definition string_or :: "string option \<Rightarrow> string \<Rightarrow> string" where
  "string_or s d = (case s of None \<Rightarrow> d | Some t \<Rightarrow> if t = [] then d else t)"

definition summary_tokens :: "int \<Rightarrow> summary_model \<Rightarrow> int" where
  "summary_tokens wanted model = (if sm_maxTokens model > 0 then min wanted (sm_maxTokens model) else wanted)"

definition request_reasoning :: "summary_model \<Rightarrow> string option \<Rightarrow> string option" where
  "request_reasoning model thinkingLevel =
     (case thinkingLevel of
        Some l \<Rightarrow> if sm_reasoning model \<and> l \<noteq> [] \<and> l \<noteq> ''off'' then Some l else None
      | None \<Rightarrow> None)"

definition conversation_text :: "agent_message list \<Rightarrow> string" where
  "conversation_text messages =
     ''<conversation>'' @ newline @ serializeConversation (convertToLlm messages) @ newline @ ''</conversation>'' @
     newline @ newline"

definition summary_result :: "string \<Rightarrow> assistant_message \<Rightarrow> (compaction_error, string \<times> usage) result" where
  "summary_result what response =
     (if am_stopReason response = SR_aborted
        then Inl (CE_aborted (string_or (am_errorMessage response) (what @ '' aborted'')))
      else if am_stopReason response = SR_error
        then Inl (CE_summarization_failed
          (what @ '' failed: '' @ string_or (am_errorMessage response) ''Unknown error''))
      else Inr (contentText (Body_Blocks (am_content response)) newline, am_usage response))"

definition generateSummaryWithUsage ::
  "'w completion \<Rightarrow> summary_model \<Rightarrow> int \<Rightarrow> string option \<Rightarrow> string option \<Rightarrow> string option \<Rightarrow> agent_message list
    \<Rightarrow> ('w, compaction_error, string \<times> usage) io" where
  "generateSummaryWithUsage ask model reserveTokens customInstructions previousSummary thinkingLevel messages w =
     (let basePrompt = (if truthy_string previousSummary then UPDATE_SUMMARIZATION_PROMPT else SUMMARIZATION_PROMPT);
          basePrompt = (if truthy_string customInstructions
            then basePrompt @ newline @ newline @ ''Additional focus: '' @ the customInstructions else basePrompt);
          promptText = conversation_text messages @
            (if truthy_string previousSummary
             then ''<previous-summary>'' @ newline @ the previousSummary @ newline @ ''</previous-summary>'' @ newline @ newline
             else []) @ basePrompt;
          request = \<lparr>sq_systemPrompt = SUMMARIZATION_SYSTEM_PROMPT, sq_prompt = promptText,
            sq_maxTokens = summary_tokens (4 * reserveTokens div 5) model,
            sq_reasoning = request_reasoning model thinkingLevel\<rparr>
      in case ask request w of (response, w1) \<Rightarrow> (summary_result ''Summarization'' response, w1))"

definition generateTurnPrefixSummary ::
  "'w completion \<Rightarrow> summary_model \<Rightarrow> int \<Rightarrow> string option \<Rightarrow> agent_message list
    \<Rightarrow> ('w, compaction_error, string \<times> usage) io" where
  "generateTurnPrefixSummary ask model reserveTokens thinkingLevel messages w =
     (let request = \<lparr>sq_systemPrompt = SUMMARIZATION_SYSTEM_PROMPT,
            sq_prompt = conversation_text messages @ TURN_PREFIX_SUMMARIZATION_PROMPT,
            sq_maxTokens = summary_tokens (reserveTokens div 2) model,
            sq_reasoning = request_reasoning model thinkingLevel\<rparr>
      in case ask request w of (response, w1) \<Rightarrow> (summary_result ''Turn prefix summarization'' response, w1))"

definition add_optional :: "int option \<Rightarrow> int option \<Rightarrow> int option" where
  "add_optional a b =
     (if a = None \<and> b = None then None
      else Some ((case a of None \<Rightarrow> 0 | Some x \<Rightarrow> x) + (case b of None \<Rightarrow> 0 | Some y \<Rightarrow> y)))"

definition combineUsage :: "usage \<Rightarrow> usage \<Rightarrow> usage" where
  "combineUsage a b =
     \<lparr>us_input = us_input a + us_input b, us_output = us_output a + us_output b,
      us_cacheRead = us_cacheRead a + us_cacheRead b, us_cacheWrite = us_cacheWrite a + us_cacheWrite b,
      us_cacheWrite1h = add_optional (us_cacheWrite1h a) (us_cacheWrite1h b),
      us_reasoning = add_optional (us_reasoning a) (us_reasoning b),
      us_totalTokens = us_totalTokens a + us_totalTokens b,
      us_cost = (let c = us_cost a; d = us_cost b in
        \<lparr>uc_input = uc_input c + uc_input d, uc_output = uc_output c + uc_output d,
         uc_cacheRead = uc_cacheRead c + uc_cacheRead d, uc_cacheWrite = uc_cacheWrite c + uc_cacheWrite d,
         uc_total = uc_total c + uc_total d\<rparr>)\<rparr>"

record compact_result =
  cr_summary :: string
  cr_tokensBefore :: int
  cr_usage :: usage
  cr_retainedTail :: "agent_message list"
  cr_readFiles :: "string list"
  cr_modifiedFiles :: "string list"

definition split_summary :: "string \<Rightarrow> string \<Rightarrow> string" where
  "split_summary history turn =
     history @ newline @ newline @ ''---'' @ newline @ newline @ ''**Turn Context (split turn):**'' @
     newline @ newline @ turn"

definition compact_history ::
  "'w completion \<Rightarrow> compaction_preparation \<Rightarrow> summary_model \<Rightarrow> string option \<Rightarrow> string option
    \<Rightarrow> ('w, compaction_error, compact_result) io" where
  "compact_history ask p model customInstructions thinkingLevel =
     (let reserve = cs_reserveTokens (pr_settings p);
          history = generateSummaryWithUsage ask model reserve customInstructions (pr_previousSummary p)
            thinkingLevel (pr_messagesToSummarize p);
          summarized = (if pr_isSplitTurn p \<and> pr_turnPrefixMessages p \<noteq> [] then
            io_bind (if pr_messagesToSummarize p = [] then io_return (''No prior history.'', None)
               else io_bind history (\<lambda>(t, u). io_return (t, Some u))) (\<lambda>(historyText, historyUsage).
            io_bind (generateTurnPrefixSummary ask model reserve thinkingLevel (pr_turnPrefixMessages p)) (\<lambda>(turn, turnUsage).
            io_return (split_summary historyText turn,
              case historyUsage of Some u \<Rightarrow> combineUsage u turnUsage | None \<Rightarrow> turnUsage)))
            else history)
      in io_bind summarized (\<lambda>(summary, usage).
         case computeFileLists (pr_fileOps p) of (readFiles, modifiedFiles) \<Rightarrow>
           io_return \<lparr>cr_summary = summary @ formatFileOperations readFiles modifiedFiles,
             cr_tokensBefore = pr_tokensBefore p, cr_usage = usage, cr_retainedTail = pr_retainedTail p,
             cr_readFiles = readFiles, cr_modifiedFiles = modifiedFiles\<rparr>))"

end
