(* ===== verification/Compaction_Properties.thy ===== *)
theory Compaction_Properties
  imports Compaction
begin

text \<open>
  What a compaction keeps: no message is lost or moved, the recent part begins at exactly one cut
  point, and the messages behind its first entry are within the budget unless that cut point is the
  first of all. Three cases show where the code forgets its previous summary, takes a complete turn
  for a split one, or keeps everything although it exceeds the budget.
\<close>

section \<open>The cut\<close>

lemma find_sorted:
  "find P xs = Some c \<Longrightarrow> sorted xs \<Longrightarrow> c \<in> set xs \<and> P c \<and> (\<forall>x \<in> set xs. x < c \<longrightarrow> \<not> P x)"
  by (induction xs) (auto split: if_splits simp: leD)

lemma find_last:
  "find P (rev [s..<n]) = Some t \<Longrightarrow> s \<le> t \<and> t < n \<and> P t \<and> (\<forall>j. t < j \<and> j < n \<longrightarrow> \<not> P j)"
proof (induction n)
  case (Suc n)
  show ?case
  proof (cases "P n")
    case True
    then show ?thesis using Suc.prems by (cases "s \<le> n") auto
  next
    case False
    then have "find P (rev [s..<n]) = Some t" using Suc.prems by (cases "s \<le> n") simp_all
    from Suc.IH[OF this] False show ?thesis by (auto simp: less_Suc_eq)
  qed
qed simp

lemma cut_points: "sorted (findValidCutPoints es i j)"
  "c \<in> set (findValidCutPoints es i j) \<longleftrightarrow> i \<le> c \<and> c < j \<and> cut_point (es ! c)"
  by (auto simp: findValidCutPoints_def sorted_wrt_filter)

lemma include_settings_ok:
  "include_settings es s k \<le> k \<and> (s \<le> k \<longrightarrow> s \<le> include_settings es s k) \<and>
     (\<forall>j. include_settings es s k \<le> j \<and> j < k \<longrightarrow> entry_type_of (es ! j) \<notin> {ET_compaction, ET_message})"
proof (induction k)
  case (Suc k)
  show ?case
  proof (cases "s < Suc k \<and> entry_type_of (es ! k) \<notin> {ET_compaction, ET_message}")
    case True
    then have "include_settings es s (Suc k) = include_settings es s k" by simp
    then show ?thesis using Suc True by (auto simp: less_Suc_eq)
  next
    case False
    then have "include_settings es s (Suc k) = Suc k" by (simp only: include_settings.simps if_not_P if_False)
    then show ?thesis by (auto simp del: include_settings.simps)
  qed
qed simp

definition message_tokens :: "entry \<Rightarrow> int" where
  "message_tokens e = (case entry_message e of Some m \<Rightarrow> estimateTokens m | None \<Rightarrow> 0)"

lemma message_tokens_nonneg [simp]: "0 \<le> message_tokens e"
  by (simp add: message_tokens_def estimateTokens_def pos_imp_zdiv_nonneg_iff split: option.splits)

lemma budget_index_bound:
  assumes "budget_index es keep tokens (rev [s..<n]) = Some i" and "tokens < keep"
  shows "s \<le> i \<and> i < n \<and> tokens + sum_list (map (\<lambda>j. message_tokens (es ! j)) [Suc i..<n]) < keep"
  using assms
proof (induction n arbitrary: tokens)
  case (Suc n)
  have s: "s \<le> n" using Suc.prems(1) by (cases "s \<le> n") simp_all
  show ?case
  proof (cases "entry_message (es ! n)")
    case None
    then have "budget_index es keep tokens (rev [s..<n]) = Some i" using Suc.prems(1) s by simp
    from Suc.IH[OF this Suc.prems(2)] None show ?thesis by (auto simp: message_tokens_def)
  next
    case (Some m)
    show ?thesis
    proof (cases "tokens + estimateTokens m \<ge> keep")
      case True
      then have "i = n" using Suc.prems(1) s Some by simp
      then show ?thesis using s Suc.prems(2) by simp
    next
      case False
      then have "budget_index es keep (tokens + estimateTokens m) (rev [s..<n]) = Some i"
        using Suc.prems(1) s Some by simp
      from Suc.IH[OF this] False Some show ?thesis by (auto simp: message_tokens_def)
    qed
  qed
qed simp

lemma tokens_after:
  assumes "i \<le> c" and "c < n"
  shows "sum_list (map (\<lambda>j. message_tokens (es ! j)) [Suc c..<n]) \<le> sum_list (map (\<lambda>j. message_tokens (es ! j)) [Suc i..<n])"
proof -
  have "[Suc i..<n] = [Suc i..<Suc c] @ [Suc c..<n]"
    using assms upt_add_eq_append[of "Suc i" "Suc c" "n - Suc c"] by simp
  moreover have "0 \<le> sum_list (map (\<lambda>j. message_tokens (es ! j)) [Suc i..<Suc c])"
    by (rule sum_list_nonneg) auto
  ultimately show ?thesis by simp
qed

text \<open>
  Where the kept part begins: at the first cut point of the shortest part of the path that begins
  with a message and reaches the budget, or, when that part has none or no part reaches it, at the
  first cut point of the path.
\<close>

definition reaches :: "int \<Rightarrow> entry list \<Rightarrow> bool" where
  "reaches keep es \<longleftrightarrow>
     es \<noteq> [] \<and> entry_message (hd es) \<noteq> None \<and> keep \<le> sum_list (map message_tokens es)"

fun shortest_reaching :: "int \<Rightarrow> entry list \<Rightarrow> entry list option" where
  "shortest_reaching keep [] = None"
| "shortest_reaching keep (e # es) =
     (case shortest_reaching keep es of
        Some ys \<Rightarrow> Some ys
      | None \<Rightarrow> if reaches keep (e # es) then Some (e # es) else None)"

definition from_first_cut :: "entry list \<Rightarrow> entry list" where
  "from_first_cut es = dropWhile (\<lambda>e. \<not> cut_point e) es"

definition recent_part :: "int \<Rightarrow> entry list \<Rightarrow> entry list" where
  "recent_part keep es =
     (case shortest_reaching keep es of
        None \<Rightarrow> from_first_cut es
      | Some ys \<Rightarrow> if list_ex cut_point ys then from_first_cut ys else from_first_cut es)"

lemma shortest_reaching_append:
  "shortest_reaching keep ys = Some zs \<Longrightarrow> shortest_reaching keep (xs @ ys) = Some zs"
  by (induction xs) auto

lemma message_tokens_of:
  "entry_message e = Some m \<Longrightarrow> message_tokens e = estimateTokens m"
  "entry_message e = None \<Longrightarrow> message_tokens e = 0"
  by (simp_all add: message_tokens_def)

lemma budget_reaches:
  assumes "shortest_reaching keep (drop n es) = None" and "n \<le> length es"
  shows "shortest_reaching keep es =
    map_option (\<lambda>i. drop i es) (budget_index es keep (sum_list (map message_tokens (drop n es))) (rev [0..<n]))"
  using assms
proof (induction n)
  case (Suc n)
  then have drop: "drop n es = es ! n # drop (Suc n) es" by (simp add: Cons_nth_drop_Suc)
  have sum: "sum_list (map message_tokens (drop n es)) =
      message_tokens (es ! n) + sum_list (map message_tokens (drop (Suc n) es))"
    by (simp add: drop)
  show ?case
  proof (cases "reaches keep (drop n es)")
    case True
    then have "shortest_reaching keep (drop n es) = Some (drop n es)" using Suc.prems drop by simp
    then have "shortest_reaching keep es = Some (drop n es)"
      using shortest_reaching_append[of keep "drop n es" _ "take n es"] by simp
    with True sum show ?thesis
      by (auto simp: reaches_def drop message_tokens_of add.commute)
  next
    case False
    then have "shortest_reaching keep (drop n es) = None" using Suc.prems drop by simp
    from Suc.IH[OF this] Suc.prems False sum show ?thesis
      by (cases "entry_message (es ! n)")
        (auto simp: reaches_def drop message_tokens_of add.commute)
  qed
qed simp

lemma from_first_cut_drop:
  assumes "i \<le> c" and "c < length es" and "cut_point (es ! c)" and "\<And>j. i \<le> j \<Longrightarrow> j < c \<Longrightarrow> \<not> cut_point (es ! j)"
  shows "from_first_cut (drop i es) = drop c es"
proof -
  have "drop i es = take (c - i) (drop i es) @ drop c es"
    using assms(1) by (metis append_take_drop_id drop_drop le_add_diff_inverse2)
  moreover have "\<not> cut_point e" if "e \<in> set (take (c - i) (drop i es))" for e
    using that assms(1,2,4) by (auto simp: in_set_conv_nth)
  moreover have "drop c es = es ! c # drop (Suc c) es" using assms(2) by (simp add: Cons_nth_drop_Suc)
  ultimately show ?thesis
    using assms(3) unfolding from_first_cut_def
    by (metis (no_types, lifting) dropWhile.simps(2) dropWhile_append2)
qed

lemma include_settings_maximal:
  "include_settings es s k = Suc n \<Longrightarrow> s < Suc n \<Longrightarrow> entry_type_of (es ! n) \<in> {ET_compaction, ET_message}"
  by (induction k) (auto split: if_splits)

text \<open>
  The cut of a list with cut points: the cut point the recent part begins with, behind entries that
  are no messages; it is the first one of all, or the messages behind it are within the budget.
\<close>

lemma cut_ok:
  assumes some: "list_ex cut_point es" and cut: "res = findCutPoint es 0 (length es) keep"
  obtains c where "cp_firstKeptEntryIndex res \<le> c" "c < length es" "cut_point (es ! c)"
    "\<forall>j. cp_firstKeptEntryIndex res \<le> j \<and> j < c \<longrightarrow> entry_type_of (es ! j) \<notin> {ET_compaction, ET_message}"
    "(\<forall>j < c. \<not> cut_point (es ! j)) \<or>
       (0 < keep \<longrightarrow> sum_list (map (\<lambda>j. message_tokens (es ! j)) [Suc c..<length es]) < keep)"
    "\<And>t. cp_turnStartIndex res = Some t \<Longrightarrow> t \<le> cp_firstKeptEntryIndex res \<and> turn_start (es ! t) \<and>
       (\<forall>j. t < j \<and> j \<le> cp_firstKeptEntryIndex res \<longrightarrow> \<not> turn_start (es ! j))"
    "cp_isSplitTurn res \<longleftrightarrow> cp_turnStartIndex res \<noteq> None"
    "drop c es = recent_part keep es"
    "\<And>n. cp_firstKeptEntryIndex res = Suc n \<Longrightarrow> entry_type_of (es ! n) \<in> {ET_compaction, ET_message}"
proof -
  let ?cps = "findValidCutPoints es 0 (length es)"
  have cps: "?cps \<noteq> []" using some cut_points(2)[of _ es 0 "length es"]
    by (auto simp: list_ex_iff in_set_conv_nth)
  let ?b = "budget_index es keep 0 (rev [0..<length es])"
  define c where "c = (case ?b of None \<Rightarrow> hd ?cps
    | Some i \<Rightarrow> (case find (\<lambda>c. c \<ge> i) ?cps of Some c \<Rightarrow> c | None \<Rightarrow> hd ?cps))"
  have first: "hd ?cps \<in> set ?cps" "\<forall>j < hd ?cps. \<not> cut_point (es ! j)"
  proof -
    show "hd ?cps \<in> set ?cps" using cps by simp
    show "\<forall>j < hd ?cps. \<not> cut_point (es ! j)"
    proof (intro allI impI notI)
      fix j assume j: "j < hd ?cps" and p: "cut_point (es ! j)"
      then have "j \<in> set ?cps" using \<open>hd ?cps \<in> set ?cps\<close> cut_points(2)[of "hd ?cps" es 0 "length es"]
          cut_points(2)[of j es 0 "length es"] by simp
      then have "hd ?cps \<le> j" using cut_points(1)[of es 0 "length es"] cps by (cases ?cps) auto
      with j show False by simp
    qed
  qed
  have hd_drop: "from_first_cut es = drop (hd ?cps) es"
    using from_first_cut_drop[of 0 "hd ?cps" es] first cut_points(2)[of "hd ?cps" es 0 "length es"] by simp
  have reach: "shortest_reaching keep es = map_option (\<lambda>i. drop i es) ?b"
    using budget_reaches[of keep "length es" es] by simp
  have recent: "drop c es = recent_part keep es"
  proof (cases ?b)
    case None
    then show ?thesis by (simp add: c_def recent_part_def reach hd_drop)
  next
    case (Some i)
    show ?thesis
    proof (cases "find (\<lambda>c. c \<ge> i) ?cps")
      case None
      then have "\<not> list_ex cut_point (drop i es)"
        using cut_points(2)[of _ es 0 "length es"] by (fastforce simp: find_None_iff list_ex_length)
      then show ?thesis using Some None by (simp add: c_def recent_part_def reach hd_drop)
    next
      case found: (Some c')
      then have c: "c = c'" using Some by (simp add: c_def)
      from find_sorted[OF found cut_points(1)] have c': "c' < length es" "cut_point (es ! c')" "i \<le> c'"
        "\<And>j. i \<le> j \<Longrightarrow> j < c' \<Longrightarrow> \<not> cut_point (es ! j)"
        using cut_points(2)[of _ es 0 "length es"] by auto
      then have "list_ex cut_point (drop i es)"
        by (auto simp: list_ex_length intro!: exI[of _ "c' - i"])
      with Some c from_first_cut_drop[OF c'(3,1,2,4)] show ?thesis by (simp add: recent_part_def reach)
    qed
  qed
  have "c \<in> set ?cps \<and> ((\<forall>j < c. \<not> cut_point (es ! j)) \<or>
      (0 < keep \<longrightarrow> sum_list (map (\<lambda>j. message_tokens (es ! j)) [Suc c..<length es]) < keep))"
  proof (cases ?b)
    case None
    then show ?thesis using first by (simp add: c_def)
  next
    case (Some i)
    show ?thesis
    proof (cases "find (\<lambda>c. c \<ge> i) ?cps")
      case None
      then show ?thesis using first Some by (simp add: c_def)
    next
      case found: (Some c')
      then have c: "c = c'" "c \<in> set ?cps" "i \<le> c"
        using Some find_sorted[OF found cut_points(1)] by (auto simp: c_def)
      then have "sum_list (map (\<lambda>j. message_tokens (es ! j)) [Suc c..<length es]) < keep" if "0 < keep"
        using budget_index_bound[OF Some that] tokens_after[where i = i and c = c and n = "length es" and es = es]
          cut_points(2)[of c es 0 "length es"] by simp
      with c show ?thesis by blast
    qed
  qed
  then have c: "c < length es" "cut_point (es ! c)" "(\<forall>j < c. \<not> cut_point (es ! j)) \<or>
      (0 < keep \<longrightarrow> sum_list (map (\<lambda>j. message_tokens (es ! j)) [Suc c..<length es]) < keep)"
    using cut_points(2)[of c es 0 "length es"] by auto
  let ?k = "include_settings es 0 c"
  have k: "cp_firstKeptEntryIndex res = ?k" using cps by (simp add: cut findCutPoint_def Let_def c_def)
  have turn: "t \<le> ?k \<and> turn_start (es ! t) \<and> (\<forall>j. t < j \<and> j \<le> ?k \<longrightarrow> \<not> turn_start (es ! j))"
    if "cp_turnStartIndex res = Some t" for t
  proof -
    have "find (\<lambda>i. turn_start (es ! i)) (rev [0..<Suc ?k]) = Some t"
      using that cps by (auto simp: cut findCutPoint_def Let_def c_def[symmetric] findTurnStartIndex_def simp del: upt_Suc split: if_splits)
    from find_last[OF this] show ?thesis by (auto simp: less_Suc_eq_le)
  qed
  have split: "cp_isSplitTurn res \<longleftrightarrow> cp_turnStartIndex res \<noteq> None"
    using cps by (auto simp: cut findCutPoint_def Let_def)
  show thesis
    by (rule that[of c]) (use c k turn split recent include_settings_ok[of es 0 c] include_settings_maximal[of es 0 c] in auto)
qed

section \<open>Messages\<close>

lemma messages_between_split:
  "i \<le> j \<Longrightarrow> j \<le> k \<Longrightarrow> messages_between es i j @ messages_between es j k = messages_between es i k"
  using upt_add_eq_append[of i j "k - j"] by (simp add: messages_between_def List.map_filter_def)

lemma messages_between_all:
  "messages_between es 0 (length es) = List.map_filter getMessageFromEntryForCompaction es"
proof -
  have "List.map_filter f (map h xs) = List.map_filter (\<lambda>x. f (h x)) xs"
    for f :: "entry \<Rightarrow> agent_message option" and h and xs :: "nat list"
    by (simp add: List.map_filter_def filter_map comp_def)
  from this[of getMessageFromEntryForCompaction "\<lambda>k. es ! k" "[0..<length es]"] show ?thesis
    by (simp add: messages_between_def map_nth)
qed

text \<open>The same parts of the path as lists.\<close>

abbreviation messages_of :: "entry list \<Rightarrow> agent_message list" where
  "messages_of \<equiv> List.map_filter getMessageFromEntryForCompaction"

lemma messages_between_slice:
  assumes "i \<le> j" and "j \<le> length es"
  shows "messages_between es i j = messages_of (drop i (take j es))"
proof -
  have "drop i (take j es) = map (\<lambda>k. es ! k) [i..<j]"
    using assms by (intro nth_equalityI) auto
  then show ?thesis
    by (simp add: messages_between_def List.map_filter_def filter_map comp_def)
qed

lemma slice_tokens:
  "sum_list (map (\<lambda>j. message_tokens (es ! j)) [c..<length es]) = sum_list (map message_tokens (drop c es))"
  by (rule arg_cong[of _ _ sum_list], rule nth_equalityI) auto

lemma messages_of_simps:
  "messages_of [] = []"
  "messages_of (e # es) = (case getMessageFromEntryForCompaction e of None \<Rightarrow> messages_of es | Some m \<Rightarrow> m # messages_of es)"
  "messages_of (xs @ ys) = messages_of xs @ messages_of ys"
  by (simp_all add: List.map_filter_def split: option.splits)

lemma cut_point_message:
  "cut_point e \<Longrightarrow> \<exists>m. getMessageFromEntryForCompaction e = Some m \<and> message_role m \<noteq> R_toolResult"
  by (cases "en_body e") (auto simp: getMessageFromEntryForCompaction_def getMessageFromEntry_def cut_point_def
      createBranchSummaryMessage_def)

lemma setting_message:
  "entry_type_of e \<notin> {ET_compaction, ET_message} \<Longrightarrow> getMessageFromEntryForCompaction e = Some m \<Longrightarrow>
     message_role m \<noteq> R_toolResult"
  by (cases "en_body e") (auto simp: getMessageFromEntryForCompaction_def getMessageFromEntry_def
      createBranchSummaryMessage_def)

lemma kept_role:
  assumes "cut_point e" and "list_all (\<lambda>e. entry_type_of e \<notin> {ET_compaction, ET_message}) mid"
  shows "messages_of (mid @ e # es) \<noteq> [] \<and> message_role (hd (messages_of (mid @ e # es))) \<noteq> R_toolResult"
  using assms(2)
proof (induction mid)
  case Nil
  then show ?case using cut_point_message[OF assms(1)] by (auto simp: messages_of_simps)
next
  case (Cons m mid)
  then show ?case using setting_message[of m]
    by (cases "getMessageFromEntryForCompaction m") (simp_all add: messages_of_simps)
qed

lemma compaction_parts:
  assumes "es = compactable_entries path" and "prepareCompaction path settings = Some p"
  shows "\<exists>res t. res = findCutPoint es 0 (length es) (cs_keepRecentTokens settings) \<and>
    t = (if cp_isSplitTurn res then the (cp_turnStartIndex res) else cp_firstKeptEntryIndex res) \<and>
    pr_messagesToSummarize p = messages_between es 0 t \<and>
    pr_turnPrefixMessages p = (if cp_isSplitTurn res then messages_between es t (cp_firstKeptEntryIndex res) else []) \<and>
    pr_retainedTail p = messages_between es (cp_firstKeptEntryIndex res) (length es) \<and>
    pr_isSplitTurn p = cp_isSplitTurn res"
  using assms by (auto simp: prepareCompaction_def Let_def split: if_splits)

text \<open>The cut of a path as four stretches of it.\<close>

lemma cut_stretches:
  assumes some: "list_ex cut_point es" and res: "res = findCutPoint es 0 (length es) keep"
    and t: "t = (if cp_isSplitTurn res then the (cp_turnStartIndex res) else cp_firstKeptEntryIndex res)"
  obtains old turn mid recent where "es = old @ turn @ mid @ recent"
    "old = take t es" "turn = drop t (take (cp_firstKeptEntryIndex res) es)"
    "t \<le> cp_firstKeptEntryIndex res" "cp_firstKeptEntryIndex res \<le> length es"
    "mid @ recent = drop (cp_firstKeptEntryIndex res) es"
    "recent \<noteq> []" "cut_point (hd recent)"
    "list_all (\<lambda>e. entry_type_of e \<notin> {ET_compaction, ET_message}) mid"
    "\<not> list_ex cut_point (old @ turn @ mid) \<or> (0 < keep \<longrightarrow> sum_list (map message_tokens (tl recent)) < keep)"
    "turn \<noteq> [] \<Longrightarrow> cp_isSplitTurn res \<and> turn_start (hd turn)" "\<not> list_ex turn_start (tl turn)"
    "recent = recent_part keep es"
    "old @ turn \<noteq> [] \<Longrightarrow> entry_type_of (last (old @ turn)) \<in> {ET_compaction, ET_message}"
proof -
  let ?k = "cp_firstKeptEntryIndex res"
  obtain c where c: "?k \<le> c" "c < length es" "cut_point (es ! c)"
    "\<forall>j. ?k \<le> j \<and> j < c \<longrightarrow> entry_type_of (es ! j) \<notin> {ET_compaction, ET_message}"
    and budget: "(\<forall>j < c. \<not> cut_point (es ! j)) \<or>
       (0 < keep \<longrightarrow> sum_list (map (\<lambda>j. message_tokens (es ! j)) [Suc c..<length es]) < keep)"
    and turn: "\<And>t. cp_turnStartIndex res = Some t \<Longrightarrow> t \<le> ?k \<and> turn_start (es ! t) \<and>
       (\<forall>j. t < j \<and> j \<le> ?k \<longrightarrow> \<not> turn_start (es ! j))"
    and split: "cp_isSplitTurn res \<longleftrightarrow> cp_turnStartIndex res \<noteq> None"
    and recent: "drop c es = recent_part keep es"
    and maximal: "\<And>n. ?k = Suc n \<Longrightarrow> entry_type_of (es ! n) \<in> {ET_compaction, ET_message}"
    using cut_ok[OF some res] by blast
  have t_le: "t \<le> ?k" and starts: "t < ?k \<Longrightarrow> cp_isSplitTurn res \<and> turn_start (es ! t)"
    and later: "t < ?k \<Longrightarrow> t < j \<Longrightarrow> j < ?k \<Longrightarrow> \<not> turn_start (es ! j)" for j
    using t turn split by (auto split: if_splits)
  let ?turn = "drop t (take ?k es)" and ?mid = "drop ?k (take c es)" and ?recent = "drop c es"
  have parts: "?mid @ ?recent = drop ?k es" "take t es @ ?turn = take ?k es"
    using c(1,2) t_le
    by (metis append_take_drop_id drop_append drop_take le_add_diff_inverse take_drop append.assoc length_take
        drop_all min.absorb2 diff_is_0_eq append_Nil drop0 order.strict_implies_order take_add)
      (metis append_take_drop_id min.absorb1 t_le take_take)
  show thesis
  proof (rule that[of "take t es" ?turn ?mid ?recent])
    show "es = take t es @ ?turn @ ?mid @ ?recent" using parts by (metis append.assoc append_take_drop_id)
    show "list_all (\<lambda>e. entry_type_of e \<notin> {ET_compaction, ET_message}) ?mid"
      using c by (auto simp: list_all_length)
    have "take t es @ ?turn @ ?mid = take c es"
      using parts c(1) by (metis append.assoc append_take_drop_id min.absorb1 take_take)
    moreover have "list_ex cut_point (take c es) \<longleftrightarrow> (\<exists>j < c. cut_point (es ! j))"
      using c(2) by (auto simp: list_ex_length)
    moreover have "map message_tokens (tl ?recent) = map message_tokens (drop (Suc c) es)"
      by (simp add: drop_Suc tl_drop)
    ultimately show "\<not> list_ex cut_point (take t es @ ?turn @ ?mid) \<or>
        (0 < keep \<longrightarrow> sum_list (map message_tokens (tl ?recent)) < keep)"
      using budget slice_tokens[of es "Suc c"] by auto
    show "\<not> list_ex turn_start (tl ?turn)"
      using later t_le c by (auto simp: list_ex_length nth_tl)
    show "cp_isSplitTurn res \<and> turn_start (hd ?turn)" if "?turn \<noteq> []"
      using that starts c by (auto simp: hd_drop_conv_nth)
    show "entry_type_of (last (take t es @ ?turn)) \<in> {ET_compaction, ET_message}" if "take t es @ ?turn \<noteq> []"
      using that maximal[of "?k - 1"] c(1,2) unfolding parts(2) by (cases ?k) (simp_all add: last_conv_nth)
    show "?recent = recent_part keep es" by (rule recent)
  qed (use parts t_le c in \<open>auto simp: hd_drop_conv_nth\<close>)
qed

section \<open>Properties\<close>

text \<open>
  C39: A prepared compaction divides the path behind the last compaction, the tail it retained
  included, into four stretches in their order: the messages to summarize, the beginning of a split
  turn, entries that are no messages in front of the cut, and the recent entries. The messages of
  the first are summarized, those of the second are summarized as the prefix of the turn, and those
  of the other two are kept, so that no message is lost, doubled or moved.

  Where the path has a cut point at all, the recent entries begin with exactly this one: the first
  cut point in the shortest part of the path that begins with a message and reaches the token
  budget; when that part has no cut point or no part reaches the budget, the first of the path, so
  that everything from there on is kept, whatever its size. So what is kept may exceed the budget,
  but the messages behind the first recent entry are within a positive budget whenever a cut point
  is in front of it.
  The settings and branch summaries directly in front of the cut are kept as well, all of them,
  and the kept messages never begin with the result of a tool whose call is summarized away. The
  prefix of a split turn begins with a message that starts a turn and contains no second one.
  Without a cut point everything is kept.
\<close>

theorem compaction_keeps_messages:
  assumes "prepareCompaction path settings = Some p"
  shows "\<exists>old turn mid recent. compactable_entries path = old @ turn @ mid @ recent \<and>
    pr_messagesToSummarize p = List.map_filter getMessageFromEntryForCompaction old \<and>
    pr_turnPrefixMessages p = List.map_filter getMessageFromEntryForCompaction turn \<and>
    pr_retainedTail p = List.map_filter getMessageFromEntryForCompaction (mid @ recent) \<and>
    list_all (\<lambda>e. entry_type_of e \<notin> {ET_compaction, ET_message}) mid \<and>
    (list_ex cut_point (compactable_entries path) \<longrightarrow>
       recent = recent_part (cs_keepRecentTokens settings) (compactable_entries path) \<and>
       recent \<noteq> [] \<and> cut_point (hd recent) \<and>
       (old @ turn \<noteq> [] \<longrightarrow> entry_type_of (last (old @ turn)) \<in> {ET_compaction, ET_message}) \<and>
       pr_retainedTail p \<noteq> [] \<and> message_role (hd (pr_retainedTail p)) \<noteq> R_toolResult) \<and>
    (list_ex cut_point (old @ turn @ mid) \<and> 0 < cs_keepRecentTokens settings \<longrightarrow>
       sum_list (map message_tokens (tl recent)) < cs_keepRecentTokens settings) \<and>
    (turn \<noteq> [] \<longrightarrow> pr_isSplitTurn p \<and> turn_start (hd turn)) \<and> \<not> list_ex turn_start (tl turn) \<and>
    (\<not> list_ex cut_point (compactable_entries path) \<longrightarrow> old = [] \<and> turn = [] \<and> mid = [])"
proof -
  define es where "es = compactable_entries path"
  obtain res t where res: "res = findCutPoint es 0 (length es) (cs_keepRecentTokens settings)"
    and t: "t = (if cp_isSplitTurn res then the (cp_turnStartIndex res) else cp_firstKeptEntryIndex res)"
    and p: "pr_messagesToSummarize p = messages_between es 0 t"
      "pr_turnPrefixMessages p = (if cp_isSplitTurn res then messages_between es t (cp_firstKeptEntryIndex res) else [])"
      "pr_retainedTail p = messages_between es (cp_firstKeptEntryIndex res) (length es)"
      "pr_isSplitTurn p = cp_isSplitTurn res"
    using compaction_parts[OF es_def assms] by blast
  show ?thesis
  proof (cases "list_ex cut_point es")
    case True
    from True res t obtain old turn mid recent where parts: "es = old @ turn @ mid @ recent"
      "old = take t es" "turn = drop t (take (cp_firstKeptEntryIndex res) es)"
      "t \<le> cp_firstKeptEntryIndex res" "cp_firstKeptEntryIndex res \<le> length es"
      "mid @ recent = drop (cp_firstKeptEntryIndex res) es"
      and rest: "recent \<noteq> []" "cut_point (hd recent)"
      "list_all (\<lambda>e. entry_type_of e \<notin> {ET_compaction, ET_message}) mid"
      "\<not> list_ex cut_point (old @ turn @ mid) \<or> (0 < cs_keepRecentTokens settings \<longrightarrow>
         sum_list (map message_tokens (tl recent)) < cs_keepRecentTokens settings)"
      "turn \<noteq> [] \<Longrightarrow> cp_isSplitTurn res \<and> turn_start (hd turn)" "\<not> list_ex turn_start (tl turn)"
      "recent = recent_part (cs_keepRecentTokens settings) es"
      "old @ turn \<noteq> [] \<Longrightarrow> entry_type_of (last (old @ turn)) \<in> {ET_compaction, ET_message}"
      by (rule cut_stretches) blast
    have "messages_between es 0 t = messages_of old" "messages_between es t (cp_firstKeptEntryIndex res) = messages_of turn"
      "messages_between es (cp_firstKeptEntryIndex res) (length es) = messages_of (mid @ recent)"
      using messages_between_slice[of 0 t es] messages_between_slice[of t "cp_firstKeptEntryIndex res" es]
        messages_between_slice[of "cp_firstKeptEntryIndex res" "length es" es]
      by (simp_all add: parts(2,3,6) parts(4)[THEN order_trans, OF parts(5)] parts(4,5))
    moreover have "cp_isSplitTurn res \<or> turn = []" using rest(5) by blast
    ultimately have msgs: "pr_messagesToSummarize p = messages_of old"
      "pr_turnPrefixMessages p = messages_of turn" "pr_retainedTail p = messages_of (mid @ recent)"
      by (auto simp: p messages_of_simps(1))
    have kept: "messages_of (mid @ recent) \<noteq> [] \<and> message_role (hd (messages_of (mid @ recent))) \<noteq> R_toolResult"
      using kept_role[OF rest(2,3), of "tl recent"] rest(1) by simp
    show ?thesis unfolding es_def[symmetric] msgs p(4)
      by (rule exI[of _ old], rule exI[of _ turn], rule exI[of _ mid], rule exI[of _ recent], intro conjI impI)
        (use True parts(1) rest kept in \<open>blast | simp\<close>)+
  next
    case False
    then have "findValidCutPoints es 0 (length es) = []"
      by (auto simp: findValidCutPoints_def filter_empty_conv list_ex_length)
    then have "pr_messagesToSummarize p = []" "pr_turnPrefixMessages p = []" "pr_retainedTail p = messages_of es"
      using p t by (simp_all add: res findCutPoint_def messages_between_slice messages_of_simps(1))
    then show ?thesis unfolding es_def[symmetric] using False
      by (intro exI[of _ "[]"] exI[of _ es]) (simp add: messages_of_simps(1))
  qed
qed

definition sample_text_user :: "string \<Rightarrow> agent_message" where
  "sample_text_user t = Llm (UserMsg \<lparr>um_content = Body_String t, um_timestamp = 0\<rparr>)"

definition sample_text_assistant :: "string \<Rightarrow> agent_message" where
  "sample_text_assistant t = Llm (AssistantMsg
     \<lparr>am_content = [Text t None], am_api = ''a'', am_provider = ''p'', am_model = ''m'', am_responseModel = None,
      am_responseId = None, am_diagnostics = None,
      am_usage = \<lparr>us_input = 0, us_output = 0, us_cacheRead = 0, us_cacheWrite = 0, us_cacheWrite1h = None,
        us_reasoning = None, us_totalTokens = 0,
        us_cost = \<lparr>uc_input = 0, uc_output = 0, uc_cacheRead = 0, uc_cacheWrite = 0, uc_total = 0\<rparr>\<rparr>,
      am_stopReason = SR_stop, am_deferred = None, am_errorMessage = None, am_errorCode = None, am_errorStatus = None,
      am_rawStopReason = None, am_endTurn = None, am_timestamp = 0\<rparr>)"

definition sample_entry :: "entry_body \<Rightarrow> entry" where
  "sample_entry bd = \<lparr>en_id = ''e'', en_body = bd, en_seq = 0, en_parentId = None, en_timestamp = 0\<rparr>"

definition sample_path :: "entry list" where
  "sample_path = map (\<lambda>m. sample_entry (E_message m False))
     [sample_text_user ''aaaaaaaa'', sample_text_assistant ''bbbbbbbb'', sample_text_user ''cccc'',
      sample_text_assistant ''dddd'']"

definition sample_settings :: "int \<Rightarrow> compaction_settings" where
  "sample_settings keep = \<lparr>cs_enabled = True, cs_reserveTokens = 10, cs_keepRecentTokens = keep\<rparr>"

lemma prepared: "path \<noteq> [] \<Longrightarrow> entry_type_of (last path) \<noteq> ET_compaction \<Longrightarrow> \<exists>p. prepareCompaction path settings = Some p"
  by (simp add: prepareCompaction_def Let_def)

theorem compaction_keeps_messages_witness:
  "\<exists>p old turn mid recent. prepareCompaction sample_path (sample_settings 1) = Some p \<and>
    compactable_entries sample_path = old @ turn @ mid @ recent \<and>
    pr_messagesToSummarize p = List.map_filter getMessageFromEntryForCompaction old \<and>
    pr_turnPrefixMessages p = List.map_filter getMessageFromEntryForCompaction turn \<and>
    pr_retainedTail p = List.map_filter getMessageFromEntryForCompaction (mid @ recent) \<and>
    recent \<noteq> [] \<and> message_role (hd (pr_retainedTail p)) \<noteq> R_toolResult"
proof -
  have "entry_type_of (last sample_path) \<noteq> ET_compaction" "sample_path \<noteq> []"
    by (simp_all add: sample_path_def sample_entry_def)
  then obtain p where p: "prepareCompaction sample_path (sample_settings 1) = Some p" using prepared by blast
  have "list_ex cut_point (compactable_entries sample_path)" by code_simp
  with compaction_keeps_messages[OF p] p show ?thesis by blast
qed

section \<open>What the summaries are asked for\<close>

text \<open>
  The history in front of a split turn is summarized only where it has messages: where it has none,
  the summary of the last compaction goes into no request, and the result does not depend on it.
\<close>

lemma split_turn_forgets_summary:
  assumes "pr_isSplitTurn p" and "pr_turnPrefixMessages p \<noteq> []" and "pr_messagesToSummarize p = []"
  shows "compact_history ask (p\<lparr>pr_previousSummary := s\<rparr>) model instructions level =
    compact_history ask p model instructions level"
  using assms by (simp add: compact_history_def)

text \<open>Such a preparation: the one turn behind a compaction is too long to keep.\<close>

definition sample_compacted_path :: "entry list" where
  "sample_compacted_path =
     sample_entry (E_compaction \<lparr>cd_summary = ''goal'', cd_retainedTail = [], cd_tokensBefore = 9,
       cd_details = None, cd_usage = None\<rparr>) #
     map (\<lambda>m. sample_entry (E_message m False))
       [sample_text_user ''cccc'', sample_text_assistant ''dddd'', sample_text_assistant ''eeee'']"

lemma sample_summary_lost:
  "map_option (\<lambda>p. (pr_previousSummary p, pr_isSplitTurn p, pr_messagesToSummarize p, pr_turnPrefixMessages p))
     (prepareCompaction sample_compacted_path (sample_settings 1)) =
   Some (Some ''goal'', True, [], [sample_text_user ''cccc'', sample_text_assistant ''dddd''])"
  by code_simp

text \<open>
  A settings entry in front of the cut is kept with it, and then stands for the message the kept
  part begins with: the turn before it is complete, but is taken for the prefix of a split one.
\<close>

lemma sample_turn_taken_for_split:
  "findCutPoint
     (map sample_entry [E_message (sample_text_user ''aaaa'') False, E_message (sample_text_assistant ''bbbb'') False,
        E_model_change ''p'' ''m'', E_message (sample_text_user ''cccc'') False, E_message (sample_text_assistant ''dddd'') False])
     0 5 2 =
   \<lparr>cp_firstKeptEntryIndex = 2, cp_turnStartIndex = Some 0, cp_isSplitTurn = True\<rparr>"
  by code_simp

text \<open>
  A tool result that alone reaches the budget has no cut point behind it when it is the last entry:
  the search then falls back to the first cut point of the path, and everything is kept.
\<close>

lemma sample_long_result_kept:
  "findCutPoint
     (map (\<lambda>m. sample_entry (E_message m False))
       [sample_text_user ''aaaa'', sample_text_assistant ''bbbb'', Llm (ToolResultMsg \<lparr>tr_toolCallId = ''c'',
          tr_toolName = ''read'', tr_content = [Text ''cccccccccccc'' None], tr_details = None, tr_usage = None,
          tr_addedToolNames = None, tr_isError = False, tr_timestamp = 0\<rparr>)])
     0 3 2 =
   \<lparr>cp_firstKeptEntryIndex = 0, cp_turnStartIndex = None, cp_isSplitTurn = False\<rparr>"
  by code_simp

section \<open>Composition\<close>

text \<open>The context behind a compaction: its summary and the kept messages.\<close>

lemma compacted_context:
  assumes "en_body e = E_compaction cd" and "cd_retainedTail cd = pr_retainedTail p"
  shows "cx_messages (buildSessionContext (path @ [e]) no_options) =
    createCompactionSummaryMessage (cd_summary cd) (cd_tokensBefore cd) (en_timestamp e) # pr_retainedTail p"
  using assms by (simp add: build_plain transform_snoc plain_messages_def sessionEntryToContextMessages_def)

text \<open>The lists of files: sorted, and a modified file is not listed as read.\<close>

lemma set_add_set [simp]: "set (set_add x xs) = insert x (set xs)" "distinct (set_add x xs) \<longleftrightarrow> distinct xs"
  by (auto simp: set_add_def)

lemma fold_set_add: "set (fold set_add xs acc) = set xs \<union> set acc \<and> (distinct (fold set_add xs acc) \<longleftrightarrow> distinct acc)"
  by (induction xs arbitrary: acc) auto

lemma file_lists:
  assumes "computeFileLists ops = (reads, modified)"
  shows "set modified = set (fo_edited ops) \<union> set (fo_written ops)" "set reads = set (fo_read ops) - set modified"
    "sorted reads" "sorted modified" "distinct modified"
  using assms fold_set_add[of "fo_edited ops @ fo_written ops" "[]"]
  by (auto simp: computeFileLists_def Let_def)

end
