(* ===== verification/Branch_Summary.thy ===== *)
theory Branch_Summary
  imports Compaction Session_Facade
begin

text \<open>
  Summaries of abandoned branches: \<open>packages/agent/src/harness/compaction/branch-summarization.ts\<close>.
  Before the leaf moves to another entry of the tree, what lies between the old leaf and the deepest common
  ancestor is collected, cut to a token budget and summarized. The walk along the parents may not
  end on a storage with a cycle, so it is a partial function; on the storage in memory it ends.
\<close>

section \<open>Collecting the entries\<close>

text \<open>The entries from an id towards the root up to an id, oldest first.\<close>

partial_function (option) collect_above ::
  "(string \<Rightarrow> entry option) \<Rightarrow> string option \<Rightarrow> string option \<Rightarrow> entry list \<Rightarrow> (session_error, entry list) result option" where
  "collect_above get commonAncestorId current entries =
     (case current of
        None \<Rightarrow> Some (Inr entries)
      | Some i \<Rightarrow>
          if i = [] \<or> commonAncestorId = Some i then Some (Inr entries)
          else (case get i of
              None \<Rightarrow> Some (Inl (SessionError SE_invalid_entry (''Entry '' @ i @ '' not found'')))
            | Some e \<Rightarrow> collect_above get commonAncestorId (en_parentId e) (e # entries)))"

definition collectEntriesForBranchSummary ::
  "'s storage_ops \<Rightarrow> (string \<Rightarrow> entry option) \<Rightarrow> string option \<Rightarrow> string \<Rightarrow> 's
    \<Rightarrow> (session_error, entry list \<times> string option) result option" where
  "collectEntriesForBranchSummary ops get oldLeafId targetId s =
     (if \<not> truthy_string oldLeafId then Some (Inr ([], None))
      else
        case queryBranchEntries ops ''main'' newest_first no_bounds oldLeafId None s of
          Inl e \<Rightarrow> Some (Inl e)
        | Inr oldEntries \<Rightarrow>
        (case queryBranchEntries ops ''main'' newest_first no_bounds (Some targetId) None s of
           Inl e \<Rightarrow> Some (Inl e)
         | Inr targetPath \<Rightarrow>
             (let oldPath = map en_id oldEntries;
                  commonAncestorId = map_option en_id (find (\<lambda>e. en_id e \<in> set oldPath) targetPath)
              in map_option (\<lambda>r. bind_result r (\<lambda>entries. Inr (entries, commonAncestorId)))
                   (collect_above get commonAncestorId oldLeafId []))))"

section \<open>Selecting the messages\<close>

definition branch_message :: "entry \<Rightarrow> agent_message option" where
  "branch_message e =
     (case en_body e of
        E_message m _ \<Rightarrow> if message_role m = R_toolResult then None else Some m
      | E_branch_summary bd \<Rightarrow> Some (createBranchSummaryMessage (bd_summary bd) (bd_fromId bd) (en_timestamp e))
      | E_compaction cd \<Rightarrow> Some (createCompactionSummaryMessage (cd_summary cd) (cd_tokensBefore cd) (en_timestamp e))
      | _ \<Rightarrow> None)"

definition branch_file_ops :: "entry \<Rightarrow> file_operations \<Rightarrow> file_operations" where
  "branch_file_ops e ops =
     (case en_body e of
        E_branch_summary bd \<Rightarrow>
          (case bd_details bd of
             Some (JObj kvs) \<Rightarrow>
               ops\<lparr>fo_read := fold set_add (json_strings (map_of kvs ''readFiles'')) (fo_read ops),
                   fo_edited := fold set_add (json_strings (map_of kvs ''modifiedFiles'')) (fo_edited ops)\<rparr>
           | _ \<Rightarrow> ops)
      | _ \<Rightarrow> ops)"

record branch_preparation =
  bp_messages :: "agent_message list"
  bp_fileOps :: file_operations
  bp_totalTokens :: int

text \<open>The entries come newest first.\<close>

fun select_messages :: "int \<Rightarrow> entry list \<Rightarrow> branch_preparation \<Rightarrow> branch_preparation" where
  "select_messages tokenBudget [] p = p"
| "select_messages tokenBudget (e # es) p =
     (case branch_message e of
        None \<Rightarrow> select_messages tokenBudget es p
      | Some m \<Rightarrow>
          (let p1 = p\<lparr>bp_fileOps := extractFileOpsFromMessage m (bp_fileOps p)\<rparr>;
               tokens = estimateTokens m;
               p2 = p1\<lparr>bp_messages := m # bp_messages p, bp_totalTokens := bp_totalTokens p + tokens\<rparr>
           in if tokenBudget > 0 \<and> bp_totalTokens p + tokens > tokenBudget then
                (if entry_type_of e \<in> {ET_compaction, ET_branch_summary} \<and> 10 * bp_totalTokens p < 9 * tokenBudget
                 then p2 else p1)
              else select_messages tokenBudget es p2))"

definition prepareBranchEntries :: "entry list \<Rightarrow> int \<Rightarrow> branch_preparation" where
  "prepareBranchEntries entries tokenBudget =
     select_messages tokenBudget (rev entries)
       \<lparr>bp_messages = [], bp_fileOps = fold branch_file_ops entries createFileOps, bp_totalTokens = 0\<rparr>"

section \<open>The summary\<close>

definition BRANCH_SUMMARY_PREAMBLE :: string where
  "BRANCH_SUMMARY_PREAMBLE = js_join newline
     [''The user explored a different conversation branch before returning here.'',
      ''Summary of that exploration:'',
      [],
      []]"

definition BRANCH_SUMMARY_PROMPT :: string where
  "BRANCH_SUMMARY_PROMPT = js_join newline
     [''Create a structured summary of this conversation branch for context when returning later.'',
      [],
      ''Use this EXACT format:'',
      [],
      ''## Goal'',
      ''[What was the user trying to accomplish in this branch?]'',
      [],
      ''## Constraints & Preferences'',
      ''- [Any constraints, preferences, or requirements mentioned]'',
      ''- [Or \"(none)\" if none were mentioned]'',
      [],
      ''## Progress'',
      ''### Done'',
      ''- [x] [Completed tasks/changes]'',
      [],
      ''### In Progress'',
      ''- [ ] [Work that was started but not finished]'',
      [],
      ''### Blocked'',
      ''- [Issues preventing progress, if any]'',
      [],
      ''## Key Decisions'',
      ''- **[Decision]**: [Brief rationale]'',
      [],
      ''## Next Steps'',
      ''1. [What should happen next to continue this work]'',
      [],
      ''Keep each section concise. Preserve exact file paths, function names, and error messages.'']"

datatype branch_summary_error = BE_aborted string | BE_summarization_failed string

record branch_summary_result =
  br_summary :: string
  br_usage :: "usage option"
  br_readFiles :: "string list"
  br_modifiedFiles :: "string list"

definition branch_instructions :: "string option \<Rightarrow> bool \<Rightarrow> string" where
  "branch_instructions customInstructions replaceInstructions =
     (if replaceInstructions \<and> truthy_string customInstructions then the customInstructions
      else if truthy_string customInstructions
        then BRANCH_SUMMARY_PROMPT @ newline @ newline @ ''Additional focus: '' @ the customInstructions
      else BRANCH_SUMMARY_PROMPT)"

definition generateBranchSummary ::
  "'w completion \<Rightarrow> int \<Rightarrow> string option \<Rightarrow> bool \<Rightarrow> int \<Rightarrow> entry list
    \<Rightarrow> ('w, branch_summary_error, branch_summary_result) io" where
  "generateBranchSummary ask modelWindow customInstructions replaceInstructions reserveTokens entries w =
     (let contextWindow = (if modelWindow = 0 then 128000 else modelWindow);
          p = prepareBranchEntries entries (contextWindow - reserveTokens)
      in if bp_messages p = []
         then (Inr \<lparr>br_summary = ''No content to summarize'', br_usage = None, br_readFiles = [], br_modifiedFiles = []\<rparr>, w)
         else
           (case ask \<lparr>sq_systemPrompt = SUMMARIZATION_SYSTEM_PROMPT,
                sq_prompt = conversation_text (bp_messages p) @ branch_instructions customInstructions replaceInstructions,
                sq_maxTokens = 2048, sq_reasoning = None\<rparr> w of
              (response, w1) \<Rightarrow>
                if am_stopReason response = SR_aborted
                  then (Inl (BE_aborted (string_or (am_errorMessage response) ''Branch summary aborted'')), w1)
                else if am_stopReason response = SR_error
                  then (Inl (BE_summarization_failed
                    (''Branch summary failed: '' @ string_or (am_errorMessage response) ''Unknown error'')), w1)
                else (case computeFileLists (bp_fileOps p) of (readFiles, modifiedFiles) \<Rightarrow>
                  (let summary = BRANCH_SUMMARY_PREAMBLE @ contentText (Body_Blocks (am_content response)) newline @
                         formatFileOperations readFiles modifiedFiles
                   in (Inr \<lparr>br_summary = (if summary = [] then ''No summary generated'' else summary),
                        br_usage = Some (am_usage response), br_readFiles = readFiles, br_modifiedFiles = modifiedFiles\<rparr>, w1)))))"

section \<open>What is collected\<close>

lemma collect_above_path:
  "root_path path \<Longrightarrow> \<forall>e \<in> set path. get (en_id e) = Some e \<and> en_id e \<noteq> [] \<Longrightarrow>
   collect_above get stop (Some (en_id (hd path))) acc =
     Some (Inr (rev (takeWhile (\<lambda>e. stop \<noteq> Some (en_id e)) path) @ acc))"
proof (induction path arbitrary: acc)
  case (Cons e es)
  show ?case
  proof (cases "stop = Some (en_id e)")
    case True
    then show ?thesis by (simp add: collect_above.simps)
  next
    case False
    show ?thesis
    proof (cases es)
      case Nil
      then show ?thesis using Cons.prems False by (simp add: collect_above.simps[of get stop])
    next
      case (Cons f fs)
      then have "root_path es" "en_parentId e = Some (en_id (hd es))" using Cons.prems by auto
      then have "collect_above get stop (en_parentId e) (e # acc) =
          Some (Inr (rev (takeWhile (\<lambda>e. stop \<noteq> Some (en_id e)) es) @ e # acc))"
        using Cons.IH[of "e # acc"] Cons.prems by simp
      then show ?thesis using Cons.prems False by (subst collect_above.simps) simp
    qed
  qed
qed simp

text \<open>The newest entry that two paths to the root share is the first of either that is on the other.\<close>

lemma first_common:
  assumes ps: "sorted_wrt (>) (map en_seq ps)" and qs: "sorted_wrt (>) (map en_seq qs)"
    and inj: "inj_on en_id (set ps \<union> set qs)"
  shows "takeWhile (\<lambda>e. map_option en_id (find (\<lambda>e. en_id e \<in> en_id ` set ps) qs) \<noteq> Some (en_id e)) ps =
    takeWhile (\<lambda>e. e \<notin> set qs) ps"
proof (cases "find (\<lambda>e. en_id e \<in> en_id ` set ps) qs")
  case None
  then have "\<forall>e \<in> set ps. e \<notin> set qs" by (auto simp: find_None_iff)
  then show ?thesis using None by (simp add: takeWhile_eq_all_conv[THEN iffD2])
next
  case (Some c)
  then obtain i where i: "i < length qs" "c = qs ! i" "en_id c \<in> en_id ` set ps"
    "\<forall>j < i. en_id (qs ! j) \<notin> en_id ` set ps" by (auto simp: find_Some_iff)
  then have c: "c \<in> set qs" "c \<in> set ps" using inj by (auto simp: inj_on_def)
  then obtain as bs where split: "ps = as @ c # bs" by (meson split_list)
  have as: "a \<notin> set qs" if "a \<in> set as" for a
  proof
    assume "a \<in> set qs"
    then obtain j where j: "j < length qs" "a = qs ! j" by (auto simp: in_set_conv_nth)
    have "en_seq c < en_seq a" using ps split that by (auto simp: sorted_wrt_append)
    moreover have "en_seq a < en_seq c" if "i < j"
      using qs that i(1,2) j by (auto simp: sorted_wrt_iff_nth_less)
    ultimately have "j < i" using i(2) j(2) by (metis less_asym nat_neq_iff)
    then show False using i(4) j(2) split that by auto
  qed
  have "\<forall>a \<in> set as. en_id a \<noteq> en_id c"
    using as c inj split by (auto simp: inj_on_def)
  then have "takeWhile (\<lambda>e. Some (en_id c) \<noteq> Some (en_id e)) ps = as" "takeWhile (\<lambda>e. e \<notin> set qs) ps = as"
    using as c split by (auto simp: takeWhile_append)
  then show ?thesis using Some by simp
qed

lemma root_path_suffix: "root_path (as @ c # bs) \<Longrightarrow> root_path (c # bs)"
  by (induction as) (auto simp: root_path_Cons[of _ "_ @ _"] split: list.splits)

text \<open>The entries two branches share are the older part of either.\<close>

lemma shared_suffix:
  assumes wf: "wf_state s" and old: "getEntry s old = Some e" and target: "getEntry s target = Some f"
    and c: "ancestry s old = as @ c # bs" and on: "c \<in> set (ancestry s target)"
  shows "\<exists>pre. ancestry s target = pre @ c # bs"
proof -
  note ps = ancestry_ok[OF wf old] and qs = ancestry_ok[OF wf target]
  from on obtain pre post where q: "ancestry s target = pre @ c # post" by (meson split_list)
  have "ancestry s (en_id c) = c # bs" "ancestry s (en_id c) = c # post"
    using ancestry_unique[OF wf, of "c # bs" "en_id c"] ancestry_unique[OF wf, of "c # post" "en_id c"]
      root_path_suffix[of as c bs] root_path_suffix[of pre c post] ps(3,4) qs(3,4) unfolding c q by auto
  with q show ?thesis by auto
qed

lemma find_behind: "\<forall>x \<in> set pre. \<not> P x \<Longrightarrow> P c \<Longrightarrow> find P (pre @ c # post) = Some c"
  by (induction pre) auto

lemma dropWhile_split: "dropWhile P xs = c # bs \<Longrightarrow> xs = takeWhile P xs @ c # bs"
  by (metis takeWhile_dropWhile_id)

text \<open>
  What lies between a leaf and the branch of a target: the old branch without the part it shares
  with the target's branch, which is the beginning of both.
\<close>

definition abandoned :: "session_state \<Rightarrow> string \<Rightarrow> string \<Rightarrow> entry list" where
  "abandoned s old target = rev (takeWhile (\<lambda>x. x \<notin> set (ancestry s target)) (ancestry s old))"

definition shared_part :: "session_state \<Rightarrow> string \<Rightarrow> string \<Rightarrow> entry list" where
  "shared_part s old target = rev (dropWhile (\<lambda>x. x \<notin> set (ancestry s target)) (ancestry s old))"

lemma branches_fork:
  assumes wf: "wf_state s" and old: "getEntry s old = Some e" and target: "getEntry s target = Some f"
  shows "rev (ancestry s old) = shared_part s old target @ abandoned s old target"
    and "\<exists>rest. rev (ancestry s target) = shared_part s old target @ rest"
    and "set (shared_part s old target) = set (ancestry s old) \<inter> set (ancestry s target)"
    and "map_option en_id (find (\<lambda>x. en_id x \<in> en_id ` set (ancestry s old)) (ancestry s target)) =
      (if shared_part s old target = [] then None else Some (en_id (last (shared_part s old target))))"
proof -
  let ?ps = "ancestry s old" and ?qs = "ancestry s target"
  let ?new = "takeWhile (\<lambda>x. x \<notin> set ?qs) ?ps" and ?both = "dropWhile (\<lambda>x. x \<notin> set ?qs) ?ps"
  note ps = ancestry_ok[OF wf old] and qs = ancestry_ok[OF wf target]
  have get: "getEntry s (en_id x) = Some x" if "x \<in> set ?ps \<union> set ?qs" for x
    using that ps(4) qs(4) getEntry_iff[OF wf] by blast
  have new: "x \<notin> set ?qs" if "x \<in> set ?new" for x using set_takeWhileD[OF that] by blast
  have split: "?ps = ?new @ ?both" by simp
  then have in_ps: "x \<in> set ?ps \<longleftrightarrow> x \<in> set ?new \<or> x \<in> set ?both" for x by (metis Un_iff set_append)
  show "rev ?ps = shared_part s old target @ abandoned s old target"
    unfolding shared_part_def abandoned_def rev_append[symmetric] by simp
  show "\<exists>rest. rev ?qs = shared_part s old target @ rest"
    and "set (shared_part s old target) = set ?ps \<inter> set ?qs"
    and "map_option en_id (find (\<lambda>x. en_id x \<in> en_id ` set ?ps) ?qs) =
      (if shared_part s old target = [] then None else Some (en_id (last (shared_part s old target))))"
  proof (atomize (full), cases ?both)
    case Nil
    then have none: "x \<notin> set ?qs" if "x \<in> set ?ps" for x using new that in_ps[of x] by simp
    have "en_id x \<noteq> en_id y" if "x \<in> set ?qs" "y \<in> set ?ps" for x y
    proof
      assume "en_id x = en_id y"
      with that get have "x = y" by (metis UnI1 UnI2 option.inject)
      with none that show False by blast
    qed
    then have "find (\<lambda>x. en_id x \<in> en_id ` set ?ps) ?qs = None" unfolding find_None_iff by blast
    moreover have "set ?ps \<inter> set ?qs = {}" using none by blast
    ultimately show "(\<exists>rest. rev ?qs = shared_part s old target @ rest) \<and>
        set (shared_part s old target) = set ?ps \<inter> set ?qs \<and>
        map_option en_id (find (\<lambda>x. en_id x \<in> en_id ` set ?ps) ?qs) =
          (if shared_part s old target = [] then None else Some (en_id (last (shared_part s old target))))"
      unfolding shared_part_def Nil by (intro conjI exI[of _ "rev ?qs"]) simp_all
  next
    case (Cons c bs)
    then have c: "c \<in> set ?qs" by (metis hd_dropWhile list.distinct(1) list.sel(1))
    from dropWhile_split[OF Cons] shared_suffix[OF wf old target _ c] obtain pre
      where q: "?qs = pre @ c # bs" by metis
    have "en_id x \<notin> en_id ` set ?ps" if x: "x \<in> set pre" for x
    proof
      assume "en_id x \<in> en_id ` set ?ps"
      then obtain y where y: "y \<in> set ?ps" "en_id x = en_id y" by blast
      have xq: "x \<in> set ?qs" using x q by simp
      with y get have "x = y" by (metis UnI1 UnI2 option.inject)
      then have "x \<in> set ?new \<or> x \<in> set ?both" using y(1) in_ps by simp
      then have "x \<in> set (c # bs)" using new xq unfolding Cons by blast
      moreover have "distinct ?qs" using sorted_greater_distinct[OF qs(5)] by (simp add: distinct_map)
      ultimately show False using x unfolding q by auto
    qed
    then have "find (\<lambda>x. en_id x \<in> en_id ` set ?ps) ?qs = Some c"
      unfolding q by (intro find_behind) (use in_ps[of c] Cons in auto)
    moreover have "set ?ps \<inter> set ?qs = set (c # bs)"
    proof (intro set_eqI iffI)
      fix x assume "x \<in> set ?ps \<inter> set ?qs"
      then show "x \<in> set (c # bs)" using new in_ps unfolding Cons by blast
    next
      fix x assume "x \<in> set (c # bs)"
      then show "x \<in> set ?ps \<inter> set ?qs" using in_ps[of x] q unfolding Cons by auto
    qed
    moreover have "rev ?qs = rev (c # bs) @ rev pre" by (simp add: q)
    ultimately show "(\<exists>rest. rev ?qs = shared_part s old target @ rest) \<and>
        set (shared_part s old target) = set ?ps \<inter> set ?qs \<and>
        map_option en_id (find (\<lambda>x. en_id x \<in> en_id ` set ?ps) ?qs) =
          (if shared_part s old target = [] then None else Some (en_id (last (shared_part s old target))))"
      unfolding shared_part_def Cons by (intro conjI exI[of _ "rev pre"]) simp_all
  qed
qed

text \<open>
  On the storage in memory the collection returns: the part of the old branch that is not shared with
  the branch of the target, oldest first.
\<close>

lemma collected_entries:
  assumes wf: "wf_state s" and old: "getEntry s old = Some e" and target: "getEntry s target = Some f"
    and ids: "\<forall>x \<in> set (ss_entries s). en_id x \<noteq> []"
  shows "collectEntriesForBranchSummary memory_ops (getEntry s) (Some old) target s =
    Some (Inr (abandoned s old target,
      if shared_part s old target = [] then None else Some (en_id (last (shared_part s old target)))))"
proof -
  let ?ps = "ancestry s old" and ?qs = "ancestry s target"
  note ps = ancestry_ok[OF wf old] and qs = ancestry_ok[OF wf target]
  have get: "getEntry s (en_id x) = Some x" if "x \<in> set (ss_entries s)" for x
    using that getEntry_iff[OF wf] by auto
  have "inj_on en_id (set (ss_entries s))" using get by (metis inj_onI option.inject)
  then have inj: "inj_on en_id (set ?ps \<union> set ?qs)" using ps(4) qs(4) by (meson inj_on_subset le_sup_iff)
  have e: "en_id e = old" "e \<in> set (ss_entries s)" using old getEntry_iff[OF wf] by auto
  have queries: "queryBranchEntries memory_ops ''main'' newest_first no_bounds (Some old) None s = Inr ?ps"
    "queryBranchEntries memory_ops ''main'' newest_first no_bounds (Some target) None s = Inr ?qs"
    using branch_newest[OF wf old] branch_newest[OF wf target]
    by (simp_all add: queryBranchEntries_def newest_first_def limited_def assertValidLimit_def assertValidCursor_def)
  have "\<forall>x \<in> set ?ps. getEntry s (en_id x) = Some x \<and> en_id x \<noteq> []" using ps(4) get ids by auto
  from collect_above_path[OF ps(3) this] first_common[OF ps(5) qs(5) inj]
  have "collect_above (getEntry s) (map_option en_id (find (\<lambda>e. en_id e \<in> en_id ` set ?ps) ?qs)) (Some old) [] =
      Some (Inr (abandoned s old target))"
    using ps(2) e(1) by (simp add: abandoned_def)
  then show ?thesis using ids e queries branches_fork(4)[OF wf old target]
    by (auto simp: collectEntriesForBranchSummary_def truthy_string_def Let_def)
qed

lemma query_missing:
  assumes "getEntry s i = None"
  shows "\<exists>msg. queryBranchEntries memory_ops lane newest_first no_bounds (Some i) None s =
    Inl (SessionError SE_not_found msg)"
proof -
  have "walk_from (ss_entriesById s) b SE_not_found [] i =
      ([], Some (SessionError SE_not_found (''Entry not found: '' @ i)))" for b
    using assms by (subst walk_from.simps) (simp add: getEntry_def)
  then show ?thesis
    by (simp add: queryBranchEntries_def newest_first_def limited_def assertValidLimit_def
        assertValidCursor_def findEntriesOnBranch_def walkToRoot_def)
qed

section \<open>What is selected\<close>

text \<open>
  The selected messages are the newest ones, with their tokens as the total. Under a budget the
  total is within it, or is more by the summary the selection ended with.
\<close>

lemma select_messages_ok:
  assumes "bp_messages p = ms" and "bp_totalTokens p = sum_list (map estimateTokens ms)"
  shows "\<exists>k. let q = select_messages budget es p; new = rev (take k (List.map_filter branch_message es)) in
    bp_messages q = new @ ms \<and> bp_totalTokens q = sum_list (map estimateTokens (new @ ms)) \<and>
    (0 < budget \<and> bp_totalTokens p \<le> budget \<longrightarrow>
       bp_totalTokens q \<le> budget \<or> 10 * sum_list (map estimateTokens (tl (new @ ms))) < 9 * budget)"
  using assms
proof (induction es arbitrary: p ms)
  case Nil
  then show ?case by (intro exI[of _ 0]) simp
next
  case (Cons e es)
  show ?case
  proof (cases "branch_message e")
    case None
    then have "List.map_filter branch_message (e # es) = List.map_filter branch_message es"
      "select_messages budget (e # es) p = select_messages budget es p" by (simp_all add: List.map_filter_def)
    then show ?thesis using Cons.IH[OF Cons.prems] by (simp only:)
  next
    case (Some m)
    let ?p1 = "p\<lparr>bp_fileOps := extractFileOpsFromMessage m (bp_fileOps p)\<rparr>"
    let ?p2 = "?p1\<lparr>bp_messages := m # bp_messages p, bp_totalTokens := bp_totalTokens p + estimateTokens m\<rparr>"
    have cons: "List.map_filter branch_message (e # es) = m # List.map_filter branch_message es"
      using Some by (simp add: List.map_filter_def)
    consider "select_messages budget (e # es) p = ?p1"
      | "select_messages budget (e # es) p = ?p2" "10 * bp_totalTokens p < 9 * budget"
      | "select_messages budget (e # es) p = select_messages budget es ?p2"
        "\<not> (budget > 0 \<and> bp_totalTokens p + estimateTokens m > budget)"
      using Some by (simp add: Let_def) metis
    then show ?thesis
    proof cases
      case 1
      then show ?thesis using Cons.prems by (intro exI[of _ 0]) (simp add: Let_def)
    next
      case 2
      then show ?thesis using Cons.prems cons by (intro exI[of _ 1]) (simp add: Let_def)
    next
      case 3
      from Cons.IH[of ?p2 "m # ms"] Cons.prems obtain k where
        "let q = select_messages budget es ?p2; new = rev (take k (List.map_filter branch_message es)) in
          bp_messages q = new @ m # ms \<and> bp_totalTokens q = sum_list (map estimateTokens (new @ m # ms)) \<and>
          (0 < budget \<and> bp_totalTokens ?p2 \<le> budget \<longrightarrow>
             bp_totalTokens q \<le> budget \<or> 10 * sum_list (map estimateTokens (tl (new @ m # ms))) < 9 * budget)"
        by (auto simp: Let_def)
      then show ?thesis using 3 cons by (intro exI[of _ "Suc k"]) (auto simp: Let_def)
    qed
  qed
qed

text \<open>The preamble makes every summary non-empty: the text for an empty one is never used.\<close>

lemma preamble_cons: "\<exists>xs. BRANCH_SUMMARY_PREAMBLE = CHR ''T'' # xs"
  by (simp add: BRANCH_SUMMARY_PREAMBLE_def)

lemma summary_never_empty:
  "generateBranchSummary ask window instructions replace_all reserve entries w = (Inr r, w1) \<Longrightarrow>
     br_summary r \<noteq> ''No summary generated''"
proof -
  assume "generateBranchSummary ask window instructions replace_all reserve entries w = (Inr r, w1)"
  moreover obtain xs where xs: "BRANCH_SUMMARY_PREAMBLE = CHR ''T'' # xs" using preamble_cons by blast
  ultimately have "br_summary r = ''No content to summarize'' \<or> hd (br_summary r) = CHR ''T''"
    by (auto simp: xs generateBranchSummary_def Let_def split: if_splits prod.splits)
  then show ?thesis by auto
qed

section \<open>Property\<close>

text \<open>
  C28: before the leaf moves to another entry, the collection for the summary of the abandoned
  branch returns, on every reachable storage in memory with non-empty ids. Without an old leaf it is
  empty; for an unknown leaf or target it is \<open>not_found\<close>. Otherwise the branches of the old leaf
  and of the target, each the path from that entry to the root, begin with the same entries,
  exactly those on both, and the collection is all the rest of the old branch, oldest first; the
  common ancestor is the last shared entry, or none when the branches share nothing.
\<close>

theorem abandoned_branch_collected:
  assumes "reachable s" and "\<forall>x \<in> set (ss_entries s). en_id x \<noteq> []" and "old \<noteq> []"
  shows "collectEntriesForBranchSummary memory_ops (getEntry s) None target s = Some (Inr ([], None)) \<and>
    (if has_id (ss_entries s) old \<and> has_id (ss_entries s) target
     then \<exists>oldPath targetPath shared entries rest.
       root_path oldPath \<and> en_id (hd oldPath) = old \<and> set oldPath \<subseteq> set (ss_entries s) \<and>
       root_path targetPath \<and> en_id (hd targetPath) = target \<and> set targetPath \<subseteq> set (ss_entries s) \<and>
       rev oldPath = shared @ entries \<and> rev targetPath = shared @ rest \<and>
       set shared = set oldPath \<inter> set targetPath \<and>
       collectEntriesForBranchSummary memory_ops (getEntry s) (Some old) target s =
         Some (Inr (entries, if shared = [] then None else Some (en_id (last shared))))
     else \<exists>msg. collectEntriesForBranchSummary memory_ops (getEntry s) (Some old) target s =
         Some (Inl (SessionError SE_not_found msg)))"
proof -
  note wf = reachable_wf[OF assms(1)]
  have known: "has_id (ss_entries s) i \<longleftrightarrow> (\<exists>e. getEntry s i = Some e)" for i
    by (auto simp: has_id_def image_iff getEntry_iff[OF wf])
  have none: "collectEntriesForBranchSummary memory_ops (getEntry s) None target s = Some (Inr ([], None))"
    by (simp add: collectEntriesForBranchSummary_def truthy_string_def)
  show ?thesis
  proof (cases "has_id (ss_entries s) old \<and> has_id (ss_entries s) target")
    case True
    then obtain e f where old: "getEntry s old = Some e" and target: "getEntry s target = Some f"
      unfolding known by blast
    note ps = ancestry_ok[OF wf old] and qs = ancestry_ok[OF wf target]
    have ids: "en_id (hd (ancestry s old)) = old" "en_id (hd (ancestry s target)) = target"
      using old target getEntry_iff[OF wf] by (auto simp: ps(2) qs(2))
    note parts = branches_fork[OF wf old target]
    from parts(2) obtain rest where rest: "rev (ancestry s target) = shared_part s old target @ rest" by blast
    have "\<exists>oldPath targetPath shared entries rest.
       root_path oldPath \<and> en_id (hd oldPath) = old \<and> set oldPath \<subseteq> set (ss_entries s) \<and>
       root_path targetPath \<and> en_id (hd targetPath) = target \<and> set targetPath \<subseteq> set (ss_entries s) \<and>
       rev oldPath = shared @ entries \<and> rev targetPath = shared @ rest \<and>
       set shared = set oldPath \<inter> set targetPath \<and>
       collectEntriesForBranchSummary memory_ops (getEntry s) (Some old) target s =
         Some (Inr (entries, if shared = [] then None else Some (en_id (last shared))))"
      by (rule exI[of _ "ancestry s old"], rule exI[of _ "ancestry s target"],
          rule exI[of _ "shared_part s old target"], rule exI[of _ "abandoned s old target"],
          rule exI[of _ rest], intro conjI ids ps(3,4) qs(3,4) parts(1,3) rest
          collected_entries[OF wf old target assms(2)])
    then show ?thesis unfolding if_P[OF True] using none by blast
  next
    case False
    have "\<exists>msg. collectEntriesForBranchSummary memory_ops (getEntry s) (Some old) target s =
        Some (Inl (SessionError SE_not_found msg))"
    proof (cases "getEntry s old")
      case None
      from query_missing[OF this, of "''main''"] assms(3) show ?thesis
        by (auto simp: collectEntriesForBranchSummary_def truthy_string_def)
    next
      case (Some e)
      with False have "getEntry s target = None" unfolding known by (metis option.exhaust)
      from query_missing[OF this, of "''main''"] Some branch_newest[OF wf Some] assms(3) show ?thesis
        by (auto simp: collectEntriesForBranchSummary_def truthy_string_def queryBranchEntries_def
            newest_first_def limited_def assertValidLimit_def assertValidCursor_def)
    qed
    then show ?thesis unfolding if_not_P[OF False] using none by blast
  qed
qed

text \<open>A tree with two branches: \<open>a - b\<close> on \<open>main\<close> and \<open>a - c\<close> on another lane.\<close>

definition sample_fork :: session_state where
  "sample_fork = (case createLane ''side'' (Some ''a'') sample_session of
     Inl _ \<Rightarrow> sample_session | Inr t \<Rightarrow> append_all [(sample_entry ''c'' ''else'', ''side'')] t)"

lemma sample_fork_reachable: "reachable sample_fork"
proof -
  have "reachable t" if "createLane ''side'' (Some ''a'') sample_session = Inr t" for t
    by (rule reachable.create_lane[OF sample_reachable that])
  then show ?thesis
    unfolding sample_fork_def by (auto split: sum.split intro: sample_reachable simp del: append_all.simps
        dest: reachable_append_all)
qed

theorem abandoned_branch_collected_witness:
  "\<exists>shared entries. map en_id (shared @ entries) = [''a'', ''b''] \<and>
     collectEntriesForBranchSummary memory_ops (getEntry sample_fork) (Some ''b'') ''c'' sample_fork =
       Some (Inr (entries, if shared = [] then None else Some (en_id (last shared))))"
proof -
  have ids: "map en_id (ss_entries sample_fork) = [''a'', ''b'', ''c'']" by code_simp
  then have named: "en_id x \<in> {''a'', ''b'', ''c''}" if "x \<in> set (ss_entries sample_fork)" for x
    using that by (metis imageI list.set_map list.simps(15) list.set(1))
  then have "\<forall>x \<in> set (ss_entries sample_fork). en_id x \<noteq> []" by fastforce
  moreover have "has_id (ss_entries sample_fork) ''b''" "has_id (ss_entries sample_fork) ''c''"
    using arg_cong[OF ids, of set] by (auto simp: has_id_def)
  ultimately obtain oldPath shared entries where path: "root_path oldPath" "en_id (hd oldPath) = ''b''"
    "set oldPath \<subseteq> set (ss_entries sample_fork)" "rev oldPath = shared @ entries"
    and res: "collectEntriesForBranchSummary memory_ops (getEntry sample_fork) (Some ''b'') ''c'' sample_fork =
       Some (Inr (entries, if shared = [] then None else Some (en_id (last shared))))"
    using abandoned_branch_collected[OF sample_fork_reachable, of "''b''" "''c''"] by auto
  have "ancestry sample_fork ''b'' = oldPath"
    by (rule ancestry_unique[OF reachable_wf[OF sample_fork_reachable] path(1,3,2)])
  moreover have "map en_id (rev (ancestry sample_fork ''b'')) = [''a'', ''b'']" by code_simp
  ultimately have "map en_id (shared @ entries) = [''a'', ''b'']" by (simp add: path(4))
  then show ?thesis using res by (intro exI conjI)
qed

text \<open>On that tree the collection is the entry \<open>b\<close>, behind the common ancestor \<open>a\<close>.\<close>

lemma sample_collected:
  "map en_id (abandoned sample_fork ''b'' ''c'') = [''b'']" "map en_id (shared_part sample_fork ''b'' ''c'') = [''a'']"
  by code_simp+

end
