(* ===== verification/Edit_Diff.thy ===== *)
theory Edit_Diff
  imports Truncate
begin

text \<open>
  Text replacement of the edit tool: \<open>packages/agent/src/harness/tools/edit-diff.ts\<close> and the
  execution of \<open>edit.ts\<close>. Strings are UTF-16 code units. The Unicode normalization of the platform
  (\<open>normalize("NFKC")\<close>), the line comparison of the \<open>diff\<close> package and the file system are arguments.
  Errors are the messages of the source.
\<close>

section \<open>Strings\<close>

definition js_text :: "string \<Rightarrow> utf16" where
  "js_text s = map (\<lambda>c. of_nat (of_char c)) s"

definition js_number :: "nat \<Rightarrow> utf16" where
  "js_number n = js_text (string_of_nat n)"

definition carriage_return :: "16 word" where
  "carriage_return = 13"

fun prefix_of :: "'a list \<Rightarrow> 'a list \<Rightarrow> bool" where
  "prefix_of [] s = True"
| "prefix_of (p # ps) [] = False"
| "prefix_of (p # ps) (u # us) \<longleftrightarrow> p = u \<and> prefix_of ps us"

fun indexOf :: "'a list \<Rightarrow> 'a list \<Rightarrow> nat option" where
  "indexOf [] pat = (if pat = [] then Some 0 else None)"
| "indexOf (u # us) pat = (if prefix_of pat (u # us) then Some 0 else map_option Suc (indexOf us pat))"

section \<open>Line endings\<close>

definition detectLineEnding :: "utf16 \<Rightarrow> utf16" where
  "detectLineEnding content =
     (case (indexOf content [carriage_return, line_feed], indexOf content [line_feed]) of
        (_, None) \<Rightarrow> [line_feed]
      | (None, Some _) \<Rightarrow> [line_feed]
      | (Some crlfIdx, Some lfIdx) \<Rightarrow> if crlfIdx < lfIdx then [carriage_return, line_feed] else [line_feed])"

fun normalizeToLF :: "utf16 \<Rightarrow> utf16" where
  "normalizeToLF [] = []"
| "normalizeToLF [u] = [if u = carriage_return then line_feed else u]"
| "normalizeToLF (u # v # us) =
     (if u = carriage_return then
        (if v = line_feed then line_feed # normalizeToLF us else line_feed # normalizeToLF (v # us))
      else u # normalizeToLF (v # us))"

definition restoreLineEndings :: "utf16 \<Rightarrow> utf16 \<Rightarrow> utf16" where
  "restoreLineEndings t ending =
     (if ending = [carriage_return, line_feed]
      then concat (map (\<lambda>u. if u = line_feed then [carriage_return, line_feed] else [u]) t) else t)"

definition stripBom :: "utf16 \<Rightarrow> utf16 \<times> utf16" where
  "stripBom content =
     (case content of u # us \<Rightarrow> if u = 0xFEFF then ([0xFEFF], us) else ([], content) | [] \<Rightarrow> ([], content))"

section \<open>Fuzzy matching\<close>

text \<open>What \<open>trimEnd\<close> removes: white space and line terminators.\<close>

definition white_space :: "16 word \<Rightarrow> bool" where
  "white_space u \<longleftrightarrow>
     u \<in> {0x09, 0x0A, 0x0B, 0x0C, 0x0D, 0x20, 0xA0, 0x1680, 0x2028, 0x2029, 0x202F, 0x205F, 0x3000, 0xFEFF} \<or>
     0x2000 \<le> unat u \<and> unat u \<le> 0x200A"

definition trimEnd :: "utf16 \<Rightarrow> utf16" where
  "trimEnd line = rev (dropWhile white_space (rev line))"

definition plain_unit :: "16 word \<Rightarrow> 16 word" where
  "plain_unit u =
     (if u \<in> {0x2018, 0x2019, 0x201A, 0x201B} then 0x27
      else if u \<in> {0x201C, 0x201D, 0x201E, 0x201F} then 0x22
      else if u \<in> {0x2010, 0x2011, 0x2012, 0x2013, 0x2014, 0x2015, 0x2212} then 0x2D
      else if u \<in> {0xA0, 0x202F, 0x205F, 0x3000} \<or> 0x2002 \<le> unat u \<and> unat u \<le> 0x200A then 0x20
      else u)"

definition normalizeForFuzzyMatch :: "(utf16 \<Rightarrow> utf16) \<Rightarrow> utf16 \<Rightarrow> utf16" where
  "normalizeForFuzzyMatch nfkc t =
     map plain_unit (js_join [line_feed] (map trimEnd (split_at line_feed (nfkc t))))"

record fuzzy_match_result =
  fm_found :: bool
  fm_index :: nat
  fm_matchLength :: nat
  fm_usedFuzzyMatch :: bool
  fm_contentForReplacement :: utf16

text \<open>Where nothing is found the index is -1 in the source and 0 here; it is not looked at.\<close>

definition fuzzyFindText :: "(utf16 \<Rightarrow> utf16) \<Rightarrow> utf16 \<Rightarrow> utf16 \<Rightarrow> fuzzy_match_result" where
  "fuzzyFindText nfkc content oldText =
     (case indexOf content oldText of
        Some i \<Rightarrow> \<lparr>fm_found = True, fm_index = i, fm_matchLength = length oldText,
          fm_usedFuzzyMatch = False, fm_contentForReplacement = content\<rparr>
      | None \<Rightarrow>
          (let fuzzyContent = normalizeForFuzzyMatch nfkc content;
               fuzzyOldText = normalizeForFuzzyMatch nfkc oldText
           in case indexOf fuzzyContent fuzzyOldText of
                None \<Rightarrow> \<lparr>fm_found = False, fm_index = 0, fm_matchLength = 0,
                  fm_usedFuzzyMatch = False, fm_contentForReplacement = content\<rparr>
              | Some i \<Rightarrow> \<lparr>fm_found = True, fm_index = i, fm_matchLength = length fuzzyOldText,
                  fm_usedFuzzyMatch = True, fm_contentForReplacement = fuzzyContent\<rparr>))"

text \<open>
  The separators \<open>split\<close> finds; an empty separator cuts between any two code units, and gives no
  piece at all on the empty string.
\<close>

function separators :: "utf16 \<Rightarrow> utf16 \<Rightarrow> nat" where
  "separators sep [] = 0"
| "separators sep (u # us) =
     (if prefix_of sep (u # us) then Suc (separators sep (drop (length sep - 1) us)) else separators sep us)"
  by pat_completeness auto
termination by (relation "measure (\<lambda>(sep, s). length s)") auto

definition countOccurrences :: "(utf16 \<Rightarrow> utf16) \<Rightarrow> utf16 \<Rightarrow> utf16 \<Rightarrow> int" where
  "countOccurrences nfkc content oldText =
     (let fuzzyContent = normalizeForFuzzyMatch nfkc content;
          fuzzyOldText = normalizeForFuzzyMatch nfkc oldText
      in if fuzzyOldText = [] then int (length fuzzyContent) - 1 else int (separators fuzzyOldText fuzzyContent))"

section \<open>Replacements\<close>

record text_replacement =
  rp_matchIndex :: nat
  rp_matchLength :: nat
  rp_newText :: utf16

record matched_edit = text_replacement +
  me_editIndex :: nat

fun splitLinesWithEndings :: "utf16 \<Rightarrow> utf16 list" where
  "splitLinesWithEndings [] = []"
| "splitLinesWithEndings (u # us) =
     (if u = line_feed then [u] # splitLinesWithEndings us
      else (case splitLinesWithEndings us of [] \<Rightarrow> [[u]] | l # ls \<Rightarrow> (u # l) # ls))"

record line_span =
  sp_start :: nat
  sp_end :: nat

fun spans_from :: "nat \<Rightarrow> utf16 list \<Rightarrow> line_span list" where
  "spans_from offset [] = []"
| "spans_from offset (line # lines) =
     \<lparr>sp_start = offset, sp_end = offset + length line\<rparr> # spans_from (offset + length line) lines"

definition getLineSpans :: "utf16 \<Rightarrow> line_span list" where
  "getLineSpans content = spans_from 0 (splitLinesWithEndings content)"

definition outside_error :: utf16 where
  "outside_error = js_text ''Replacement range is outside the base content.''"

definition getReplacementLineRange ::
  "line_span list \<Rightarrow> 'a text_replacement_scheme \<Rightarrow> (utf16, nat \<times> nat) result" where
  "getReplacementLineRange lines r =
     (let replacementStart = rp_matchIndex r;
          replacementEnd = rp_matchIndex r + rp_matchLength r
      in case find (\<lambda>i. sp_start (lines ! i) \<le> replacementStart \<and> replacementStart < sp_end (lines ! i)) [0..<length lines] of
           None \<Rightarrow> Inl outside_error
         | Some startLine \<Rightarrow>
             (case find (\<lambda>i. replacementEnd \<le> sp_end (lines ! i)) [startLine..<length lines] of
                None \<Rightarrow> Inl outside_error
              | Some endLine \<Rightarrow> Inr (startLine, endLine + 1)))"

definition applyReplacements :: "utf16 \<Rightarrow> 'a text_replacement_scheme list \<Rightarrow> nat \<Rightarrow> utf16" where
  "applyReplacements content replacements offset =
     foldr (\<lambda>r s. let matchIndex = rp_matchIndex r - offset in
         take matchIndex s @ rp_newText r @ drop (matchIndex + rp_matchLength r) s) replacements content"

record 'a line_group =
  lg_startLine :: nat
  lg_endLine :: nat
  lg_replacements :: "'a text_replacement_scheme list"

definition group_replacement ::
  "'a text_replacement_scheme \<Rightarrow> nat \<times> nat \<Rightarrow> 'a line_group list \<Rightarrow> 'a line_group list" where
  "group_replacement r rng groups =
     (case rng of (startLine, endLine) \<Rightarrow>
        if groups \<noteq> [] \<and> startLine < lg_endLine (last groups)
        then butlast groups @
          [(last groups)\<lparr>lg_endLine := max (lg_endLine (last groups)) endLine,
             lg_replacements := lg_replacements (last groups) @ [r]\<rparr>]
        else groups @ [\<lparr>lg_startLine = startLine, lg_endLine = endLine, lg_replacements = [r]\<rparr>])"

fun group_replacements ::
  "line_span list \<Rightarrow> 'a text_replacement_scheme list \<Rightarrow> 'a line_group list \<Rightarrow> (utf16, 'a line_group list) result" where
  "group_replacements lines [] groups = Inr groups"
| "group_replacements lines (r # rs) groups =
     (case getReplacementLineRange lines r of
        Inl e \<Rightarrow> Inl e
      | Inr rng \<Rightarrow> group_replacements lines rs (group_replacement r rng groups))"

fun write_groups ::
  "utf16 list \<Rightarrow> utf16 \<Rightarrow> line_span list \<Rightarrow> nat \<Rightarrow> 'a line_group list \<Rightarrow> utf16" where
  "write_groups originalLines baseContent baseLines originalLineIndex [] = concat (drop originalLineIndex originalLines)"
| "write_groups originalLines baseContent baseLines originalLineIndex (g # gs) =
     concat (drop originalLineIndex (take (lg_startLine g) originalLines)) @
     (let groupStartOffset = sp_start (baseLines ! lg_startLine g);
          groupEndOffset = sp_end (baseLines ! (lg_endLine g - 1))
      in applyReplacements (drop groupStartOffset (take groupEndOffset baseContent)) (lg_replacements g) groupStartOffset) @
     write_groups originalLines baseContent baseLines (lg_endLine g) gs"

definition applyReplacementsPreservingUnchangedLines ::
  "utf16 \<Rightarrow> utf16 \<Rightarrow> 'a text_replacement_scheme list \<Rightarrow> (utf16, utf16) result" where
  "applyReplacementsPreservingUnchangedLines originalContent baseContent replacements =
     (let originalLines = splitLinesWithEndings originalContent;
          baseLines = getLineSpans baseContent
      in if length originalLines \<noteq> length baseLines
         then Inl (js_text ''Cannot preserve unchanged lines because the base content has a different line count.'')
         else case group_replacements baseLines (sort_key rp_matchIndex replacements) [] of
           Inl e \<Rightarrow> Inl e
         | Inr groups \<Rightarrow> Inr (write_groups originalLines baseContent baseLines 0 groups))"

section \<open>Edits\<close>

record edit =
  ed_oldText :: utf16
  ed_newText :: utf16

definition getNotFoundError :: "utf16 \<Rightarrow> nat \<Rightarrow> nat \<Rightarrow> utf16" where
  "getNotFoundError path editIndex totalEdits =
     (if totalEdits = 1
      then js_text ''Could not find the exact text in '' @ path @
        js_text ''. The old text must match exactly including all whitespace and newlines.''
      else js_text ''Could not find edits['' @ js_number editIndex @ js_text ''] in '' @ path @
        js_text ''. The oldText must match exactly including all whitespace and newlines.'')"

definition getDuplicateError :: "utf16 \<Rightarrow> nat \<Rightarrow> nat \<Rightarrow> nat \<Rightarrow> utf16" where
  "getDuplicateError path editIndex totalEdits occurrences =
     (if totalEdits = 1
      then js_text ''Found '' @ js_number occurrences @ js_text '' occurrences of the text in '' @ path @
        js_text ''. The text must be unique. Please provide more context to make it unique.''
      else js_text ''Found '' @ js_number occurrences @ js_text '' occurrences of edits['' @ js_number editIndex @
        js_text ''] in '' @ path @
        js_text ''. Each oldText must be unique. Please provide more context to make it unique.'')"

definition getEmptyOldTextError :: "utf16 \<Rightarrow> nat \<Rightarrow> nat \<Rightarrow> utf16" where
  "getEmptyOldTextError path editIndex totalEdits =
     (if totalEdits = 1 then js_text ''oldText must not be empty in '' @ path @ js_text ''.''
      else js_text ''edits['' @ js_number editIndex @ js_text ''].oldText must not be empty in '' @ path @ js_text ''.'')"

definition getNoChangeError :: "utf16 \<Rightarrow> nat \<Rightarrow> utf16" where
  "getNoChangeError path totalEdits =
     (if totalEdits = 1
      then js_text ''No changes made to '' @ path @
        js_text ''. The replacement produced identical content. This might indicate an issue with special characters or the text not existing as expected.''
      else js_text ''No changes made to '' @ path @ js_text ''. The replacements produced identical content.'')"

definition overlap_error :: "utf16 \<Rightarrow> nat \<Rightarrow> nat \<Rightarrow> utf16" where
  "overlap_error path i j =
     js_text ''edits['' @ js_number i @ js_text ''] and edits['' @ js_number j @ js_text ''] overlap in '' @ path @
     js_text ''. Merge them into one edit or target disjoint regions.''"

definition normalize_edit :: "edit \<Rightarrow> edit" where
  "normalize_edit e = \<lparr>ed_oldText = normalizeToLF (ed_oldText e), ed_newText = normalizeToLF (ed_newText e)\<rparr>"

fun match_edits ::
  "(utf16 \<Rightarrow> utf16) \<Rightarrow> utf16 \<Rightarrow> utf16 \<Rightarrow> nat \<Rightarrow> nat \<Rightarrow> edit list \<Rightarrow> (utf16, matched_edit list) result" where
  "match_edits nfkc base path totalEdits i [] = Inr []"
| "match_edits nfkc base path totalEdits i (e # es) =
     (let m = fuzzyFindText nfkc base (ed_oldText e) in
      if \<not> fm_found m then Inl (getNotFoundError path i totalEdits)
      else let occurrences = countOccurrences nfkc base (ed_oldText e) in
      if occurrences > 1 then Inl (getDuplicateError path i totalEdits (nat occurrences))
      else case match_edits nfkc base path totalEdits (Suc i) es of
        Inl err \<Rightarrow> Inl err
      | Inr ms \<Rightarrow> Inr (\<lparr>rp_matchIndex = fm_index m, rp_matchLength = fm_matchLength m, rp_newText = ed_newText e,
          me_editIndex = i\<rparr> # ms))"

fun check_overlap :: "utf16 \<Rightarrow> matched_edit list \<Rightarrow> (utf16, unit) result" where
  "check_overlap path (previous # current # ms) =
     (if rp_matchIndex previous + rp_matchLength previous > rp_matchIndex current
      then Inl (overlap_error path (me_editIndex previous) (me_editIndex current))
      else check_overlap path (current # ms))"
| "check_overlap path ms = Inr ()"

definition applyEditsToNormalizedContent ::
  "(utf16 \<Rightarrow> utf16) \<Rightarrow> utf16 \<Rightarrow> edit list \<Rightarrow> utf16 \<Rightarrow> (utf16, utf16 \<times> utf16) result" where
  "applyEditsToNormalizedContent nfkc normalizedContent edits path =
     (let normalizedEdits = map normalize_edit edits;
          totalEdits = length normalizedEdits
      in case find (\<lambda>i. ed_oldText (normalizedEdits ! i) = []) [0..<totalEdits] of
           Some i \<Rightarrow> Inl (getEmptyOldTextError path i totalEdits)
         | None \<Rightarrow>
      let usedFuzzyMatch = list_ex (\<lambda>e. fm_usedFuzzyMatch (fuzzyFindText nfkc normalizedContent (ed_oldText e))) normalizedEdits;
          base = (if usedFuzzyMatch then normalizeForFuzzyMatch nfkc normalizedContent else normalizedContent)
      in bind_result (match_edits nfkc base path totalEdits 0 normalizedEdits) (\<lambda>matched.
         let matched = sort_key rp_matchIndex matched in
         bind_result (check_overlap path matched) (\<lambda>_.
         bind_result (if usedFuzzyMatch then applyReplacementsPreservingUnchangedLines normalizedContent base matched
                      else Inr (applyReplacements base matched 0)) (\<lambda>newContent.
         if normalizedContent = newContent then Inl (getNoChangeError path totalEdits)
         else Inr (normalizedContent, newContent)))))"

section \<open>The shown difference\<close>

record diff_part =
  dp_value :: utf16
  dp_added :: bool
  dp_removed :: bool

record diff_state =
  df_output :: "utf16 list"
  df_oldLineNum :: nat
  df_newLineNum :: nat
  df_lastWasChange :: bool
  df_firstChangedLine :: "nat option"

definition padded :: "nat \<Rightarrow> utf16 \<Rightarrow> utf16" where
  "padded width s = replicate (width - length s) 32 @ s"

definition part_lines :: "diff_part \<Rightarrow> utf16 list" where
  "part_lines p = (let raw = split_at line_feed (dp_value p) in if last raw = [] then butlast raw else raw)"

definition change_line :: "nat \<Rightarrow> bool \<Rightarrow> utf16 \<Rightarrow> diff_state \<Rightarrow> diff_state" where
  "change_line width added line st =
     (if added
      then st\<lparr>df_output := df_output st @ [js_text ''+'' @ padded width (js_number (df_newLineNum st)) @ [32] @ line],
             df_newLineNum := df_newLineNum st + 1\<rparr>
      else st\<lparr>df_output := df_output st @ [js_text ''-'' @ padded width (js_number (df_oldLineNum st)) @ [32] @ line],
             df_oldLineNum := df_oldLineNum st + 1\<rparr>)"

definition context_line :: "nat \<Rightarrow> utf16 \<Rightarrow> diff_state \<Rightarrow> diff_state" where
  "context_line width line st =
     st\<lparr>df_output := df_output st @ [[32] @ padded width (js_number (df_oldLineNum st)) @ [32] @ line],
        df_oldLineNum := df_oldLineNum st + 1, df_newLineNum := df_newLineNum st + 1\<rparr>"

definition pass_lines :: "nat \<Rightarrow> diff_state \<Rightarrow> diff_state" where
  "pass_lines n st = st\<lparr>df_oldLineNum := df_oldLineNum st + n, df_newLineNum := df_newLineNum st + n\<rparr>"

definition skip_lines :: "nat \<Rightarrow> nat \<Rightarrow> diff_state \<Rightarrow> diff_state" where
  "skip_lines width n st =
     pass_lines n (st\<lparr>df_output := df_output st @ [[32] @ padded width [] @ js_text '' ...'']\<rparr>)"

definition diff_step :: "nat \<Rightarrow> nat \<Rightarrow> bool \<Rightarrow> diff_part \<Rightarrow> diff_state \<Rightarrow> diff_state" where
  "diff_step width contextLines nextPartIsChange p st =
     (let raw = part_lines p in
      if dp_added p \<or> dp_removed p then
        (fold (change_line width (dp_added p)) raw
          (if df_firstChangedLine st = None then st\<lparr>df_firstChangedLine := Some (df_newLineNum st)\<rparr> else st))
        \<lparr>df_lastWasChange := True\<rparr>
      else
        (if df_lastWasChange st \<and> nextPartIsChange then
           (if length raw \<le> contextLines * 2 then fold (context_line width) raw st
            else
              let leadingLines = take contextLines raw;
                  trailingLines = drop (length raw - contextLines) raw;
                  skippedLines = length raw - length leadingLines - length trailingLines
              in fold (context_line width) trailingLines
                   (skip_lines width skippedLines (fold (context_line width) leadingLines st)))
         else if df_lastWasChange st then
           (let shownLines = take contextLines raw;
                skippedLines = length raw - length shownLines;
                st1 = fold (context_line width) shownLines st
            in if skippedLines > 0 then skip_lines width skippedLines st1 else st1)
         else if nextPartIsChange then
           (let skippedLines = length raw - contextLines in
            fold (context_line width) (drop skippedLines raw) (if skippedLines > 0 then skip_lines width skippedLines st else st))
         else pass_lines (length raw) st)\<lparr>df_lastWasChange := False\<rparr>)"

fun diff_parts :: "nat \<Rightarrow> nat \<Rightarrow> diff_part list \<Rightarrow> diff_state \<Rightarrow> diff_state" where
  "diff_parts width contextLines [] st = st"
| "diff_parts width contextLines (p # ps) st =
     diff_parts width contextLines ps
       (diff_step width contextLines (case ps of [] \<Rightarrow> False | q # _ \<Rightarrow> dp_added q \<or> dp_removed q) p st)"

definition generateDiffString ::
  "(utf16 \<Rightarrow> utf16 \<Rightarrow> diff_part list) \<Rightarrow> utf16 \<Rightarrow> utf16 \<Rightarrow> nat \<Rightarrow> utf16 \<times> nat option" where
  "generateDiffString diffLines oldContent newContent contextLines =
     (let maxLineNum = max (length (split_at line_feed oldContent)) (length (split_at line_feed newContent));
          lineNumWidth = length (js_number maxLineNum);
          st = diff_parts lineNumWidth contextLines (diffLines oldContent newContent)
            \<lparr>df_output = [], df_oldLineNum = 1, df_newLineNum = 1, df_lastWasChange = False, df_firstChangedLine = None\<rparr>
      in (js_join [line_feed] (df_output st), df_firstChangedLine st))"

section \<open>The edit tool\<close>

text \<open>
  The file operations the tool calls, with the code of the error they may answer, and the abort
  signal; the path is resolved and the calls for one file are queued before.
\<close>

datatype file_kind = FK_file | FK_directory | FK_symlink

record 'w file_env =
  fe_fileInfo :: "utf16 \<Rightarrow> ('w, utf16, file_kind) io"
  fe_readTextFile :: "utf16 \<Rightarrow> ('w, utf16, utf16) io"
  fe_writeFile :: "utf16 \<Rightarrow> utf16 \<Rightarrow> ('w, utf16, unit) io"
  fe_aborted :: "'w \<Rightarrow> bool"

definition editAccessError :: "utf16 \<Rightarrow> utf16 \<Rightarrow> utf16" where
  "editAccessError path code = js_text ''Could not edit file: '' @ path @ js_text ''. Error code: '' @ code @ js_text ''.''"

definition access :: "utf16 \<Rightarrow> ('w, utf16, 'a) io \<Rightarrow> ('w, utf16, 'a) io" where
  "access path act w = (case act w of (Inl code, w1) \<Rightarrow> (Inl (editAccessError path code), w1) | (Inr x, w1) \<Rightarrow> (Inr x, w1))"

definition check_signal :: "'w file_env \<Rightarrow> ('w, utf16, unit) io" where
  "check_signal env w = (if fe_aborted env w then (Inl (js_text ''Operation aborted''), w) else (Inr (), w))"

definition validateEditInput :: "edit list \<Rightarrow> (utf16, edit list) result" where
  "validateEditInput edits =
     (if edits = [] then Inl (js_text ''Edit tool input is invalid. edits must contain at least one replacement.'') else Inr edits)"

record edit_tool_result =
  et_text :: utf16
  et_diff :: utf16
  et_patch :: utf16
  et_firstChangedLine :: "nat option"

text \<open>The content a file gets: byte order mark and line ending are those it had.\<close>

definition edited_content :: "(utf16 \<Rightarrow> utf16) \<Rightarrow> utf16 \<Rightarrow> edit list \<Rightarrow> utf16 \<Rightarrow> (utf16, utf16 \<times> utf16 \<times> utf16) result" where
  "edited_content nfkc raw edits path =
     (case stripBom raw of (bom, content) \<Rightarrow>
        bind_result (applyEditsToNormalizedContent nfkc (normalizeToLF content) edits path) (\<lambda>(base, new).
          Inr (bom @ restoreLineEndings new (detectLineEnding content), base, new)))"

definition edit_tool ::
  "'w file_env \<Rightarrow> (utf16 \<Rightarrow> utf16) \<Rightarrow> (utf16 \<Rightarrow> utf16 \<Rightarrow> diff_part list) \<Rightarrow> (utf16 \<Rightarrow> utf16 \<Rightarrow> utf16 \<Rightarrow> nat \<Rightarrow> utf16)
    \<Rightarrow> utf16 \<Rightarrow> utf16 \<Rightarrow> edit list \<Rightarrow> ('w, utf16, edit_tool_result) io" where
  "edit_tool env nfkc diffLines createPatch path absolutePath edits =
     io_bind (io_result (validateEditInput edits)) (\<lambda>edits.
     io_bind (check_signal env) (\<lambda>_.
     io_bind (access path (fe_fileInfo env absolutePath)) (\<lambda>kind.
     io_bind (if kind \<noteq> FK_file \<and> kind \<noteq> FK_symlink
        then io_throw (js_text ''Could not edit file: '' @ path @ js_text ''. Path is not a file.'') else io_return ()) (\<lambda>_.
     io_bind (access path (fe_readTextFile env absolutePath)) (\<lambda>raw.
     io_bind (check_signal env) (\<lambda>_.
     io_bind (io_result (edited_content nfkc raw edits path)) (\<lambda>(final, base, new).
     io_bind (check_signal env) (\<lambda>_.
     io_bind (access path (fe_writeFile env absolutePath final)) (\<lambda>_.
     io_bind (check_signal env) (\<lambda>_.
     case generateDiffString diffLines base new 4 of (diff, firstChangedLine) \<Rightarrow>
     io_return \<lparr>et_text = js_text ''Successfully replaced '' @ js_number (length edits) @ js_text '' block(s) in '' @ path @ js_text ''.'',
       et_diff = diff, et_patch = createPatch path base new 4, et_firstChangedLine = firstChangedLine\<rparr>))))))))))"

end
