(* ===== verification/Edit_Diff_Properties.thy ===== *)
theory Edit_Diff_Properties
  imports Edit_Diff Truncate_Properties
begin

text \<open>
  The edits are applied at once: replacing from the last match to the first is one pass over the
  matched text, and a fuzzy edit differs from the edit of the normalized text exactly in the lines
  that no replacement touches, which keep their original form.
\<close>

section \<open>Searching\<close>

lemma prefix_of_iff: "prefix_of p s \<longleftrightarrow> take (length p) s = p"
  by (induction p s rule: prefix_of.induct) auto

lemma indexOf_Some:
  "indexOf s pat = Some i \<Longrightarrow> i + length pat \<le> length s \<and> take (length pat) (drop i s) = pat"
proof (induction s arbitrary: i)
  case (Cons u us)
  show ?case
  proof (cases "prefix_of pat (u # us)")
    case True
    then have "length pat \<le> length (u # us)" by (metis length_take min.cobounded1 prefix_of_iff min_def)
    then show ?thesis using Cons.prems True by (simp add: prefix_of_iff)
  next
    case False
    then show ?thesis using Cons by auto
  qed
qed (simp split: if_splits)

section \<open>Replacing in one pass\<close>

abbreviation rp_end :: "'a text_replacement_scheme \<Rightarrow> nat" where
  "rp_end r \<equiv> rp_matchIndex r + rp_matchLength r"

fun ordered_from :: "nat \<Rightarrow> 'a text_replacement_scheme list \<Rightarrow> bool" where
  "ordered_from pos [] = True"
| "ordered_from pos (r # rs) \<longleftrightarrow> pos \<le> rp_matchIndex r \<and> ordered_from (rp_end r) rs"

fun replace_from :: "nat \<Rightarrow> utf16 \<Rightarrow> 'a text_replacement_scheme list \<Rightarrow> utf16" where
  "replace_from pos s [] = s"
| "replace_from pos s (r # rs) =
     take (rp_matchIndex r - pos) s @ rp_newText r @ replace_from (rp_end r) (drop (rp_end r - pos) s) rs"

lemma ordered_weaken: "ordered_from q rs \<Longrightarrow> p \<le> q \<Longrightarrow> ordered_from p rs"
  by (cases rs) auto

lemma ordered_append:
  "ordered_from p xs \<Longrightarrow> \<forall>r \<in> set xs. rp_end r \<le> q \<Longrightarrow> p \<le> q \<Longrightarrow> ordered_from q ys \<Longrightarrow> ordered_from p (xs @ ys)"
  by (induction xs arbitrary: p) (auto intro: ordered_weaken)

lemma ordered_starts: "ordered_from p rs \<Longrightarrow> r \<in> set rs \<Longrightarrow> p \<le> rp_matchIndex r"
  by (induction rs arbitrary: p) (auto, fastforce)

lemma replace_skip:
  "p \<le> q \<Longrightarrow> ordered_from q rs \<Longrightarrow> replace_from p s rs = take (q - p) s @ replace_from q (drop (q - p) s) rs"
proof (cases rs)
  case (Cons r rs')
  assume "p \<le> q" "ordered_from q rs"
  then have "rp_matchIndex r - p = (q - p) + (rp_matchIndex r - q)" "rp_end r - p = (rp_end r - q) + (q - p)"
    using Cons by auto
  then show ?thesis using Cons by (simp add: take_add)
qed simp

lemma replace_append:
  "ordered_from p xs \<Longrightarrow> \<forall>r \<in> set xs. rp_end r \<le> q \<Longrightarrow> p \<le> q \<Longrightarrow> ordered_from q ys \<Longrightarrow>
   replace_from p s (xs @ ys) = replace_from p (take (q - p) s) xs @ replace_from q (drop (q - p) s) ys"
proof (induction xs arbitrary: p s)
  case (Cons r xs)
  then have IH: "replace_from (rp_end r) (drop (rp_end r - p) s) (xs @ ys) =
      replace_from (rp_end r) (take (q - rp_end r) (drop (rp_end r - p) s)) xs @
      replace_from q (drop (q - rp_end r) (drop (rp_end r - p) s)) ys"
    by auto
  have "p \<le> rp_matchIndex r" "rp_end r \<le> q" using Cons.prems by auto
  then show ?case using IH by (simp add: drop_take min_absorb1)
qed (simp add: replace_skip)

lemma applyReplacements_replace:
  "ordered_from p rs \<Longrightarrow> \<forall>r \<in> set rs. rp_end r \<le> off + length s \<Longrightarrow> off \<le> p \<Longrightarrow> p \<le> off + length s \<Longrightarrow>
   applyReplacements s rs off = take (p - off) s @ replace_from p (drop (p - off) s) rs"
proof (induction rs arbitrary: p)
  case (Cons r rs)
  have le: "p \<le> rp_matchIndex r" "rp_end r \<le> off + length s" "off \<le> rp_end r" using Cons.prems by auto
  then have "applyReplacements s rs off =
      take (rp_end r - off) s @ replace_from (rp_end r) (drop (rp_end r - off) s) rs"
    using Cons.IH[of "rp_end r"] Cons.prems by auto
  moreover have "applyReplacements s (r # rs) off =
      take (rp_matchIndex r - off) (applyReplacements s rs off) @ rp_newText r @
      drop (rp_matchIndex r - off + rp_matchLength r) (applyReplacements s rs off)"
    by (simp add: applyReplacements_def Let_def)
  moreover have "take (rp_matchIndex r - off) s = take (p - off) s @ take (rp_matchIndex r - p) (drop (p - off) s)"
    using take_add[of "p - off" "rp_matchIndex r - p" s] le Cons.prems by simp
  moreover have "drop (rp_end r - p) (drop (p - off) s) = drop (rp_end r - off) s"
    using le Cons.prems by (simp add: add.commute)
  moreover have "rp_matchIndex r - off \<le> rp_end r - off" "rp_matchIndex r - off + rp_matchLength r = rp_end r - off"
    "rp_end r - off \<le> length s" using le Cons.prems by auto
  ultimately show ?case by (simp add: min_absorb1)
qed (simp add: applyReplacements_def)

lemma apply_is_replace:
  "ordered_from off rs \<Longrightarrow> \<forall>r \<in> set rs. rp_end r \<le> off + length s \<Longrightarrow> applyReplacements s rs off = replace_from off s rs"
  using applyReplacements_replace[of off rs off s] by simp

text \<open>Gaps and replaced texts in turn.\<close>

fun weave :: "'a list list \<Rightarrow> 'a list list \<Rightarrow> 'a list" where
  "weave (g # gs) (x # xs) = g @ x @ weave gs xs"
| "weave gs [] = concat gs"
| "weave [] xs = concat xs"

definition found_text :: "utf16 \<Rightarrow> 'a text_replacement_scheme \<Rightarrow> utf16" where
  "found_text base r = take (rp_matchLength r) (drop (rp_matchIndex r) base)"

lemma replace_weave:
  "ordered_from p rs \<Longrightarrow> \<forall>r \<in> set rs. rp_end r \<le> length base \<Longrightarrow>
   \<exists>gaps. length gaps = Suc (length rs) \<and> drop p base = weave gaps (map (found_text base) rs) \<and>
     replace_from p (drop p base) rs = weave gaps (map rp_newText rs)"
proof (induction rs arbitrary: p)
  case Nil
  then show ?case by (intro exI[of _ "[drop p base]"]) simp
next
  case (Cons r rs)
  then have "ordered_from (rp_end r) rs" "\<forall>r \<in> set rs. rp_end r \<le> length base" by auto
  from Cons.IH[OF this] obtain gaps where gaps: "length gaps = Suc (length rs)"
    "drop (rp_end r) base = weave gaps (map (found_text base) rs)"
    "replace_from (rp_end r) (drop (rp_end r) base) rs = weave gaps (map rp_newText rs)"
    by blast
  have le: "p \<le> rp_matchIndex r" using Cons.prems by simp
  then have "drop p base = take (rp_matchIndex r - p) (drop p base) @ found_text base r @ drop (rp_end r) base"
    by (metis (no_types) append_take_drop_id drop_drop found_text_def le_add_diff_inverse2 add.commute)
  then show ?case using gaps le Cons.prems
    by (intro exI[of _ "take (rp_matchIndex r - p) (drop p base) # gaps"]) simp
qed

section \<open>Lines\<close>

lemma lines_concat: "concat (splitLinesWithEndings s) = s"
  by (induction s rule: splitLinesWithEndings.induct) (auto split: list.splits)

definition line_offset :: "utf16 list \<Rightarrow> nat \<Rightarrow> nat" where
  "line_offset lines k = length (concat (take k lines))"

lemma line_offset_0 [simp]: "line_offset lines 0 = 0"
  by (simp add: line_offset_def)

lemma line_offset_all: "length lines \<le> k \<Longrightarrow> line_offset lines k = length (concat lines)"
  by (simp add: line_offset_def)

lemma line_offset_mono: "j \<le> k \<Longrightarrow> line_offset lines j \<le> line_offset lines k"
  using take_add[of j "k - j" lines] by (simp add: line_offset_def)

lemma line_offset_less: "line_offset lines j < line_offset lines k \<Longrightarrow> j < k"
  using line_offset_mono[of k j lines] by (meson leI not_le)

lemma span_at:
  "i < length lines \<Longrightarrow> spans_from p lines ! i = \<lparr>sp_start = p + line_offset lines i, sp_end = p + line_offset lines (Suc i)\<rparr>"
proof (induction lines arbitrary: i p)
  case (Cons l ls)
  then show ?case by (cases i) (simp_all add: line_offset_def)
qed simp

lemma spans_length [simp]: "length (spans_from p lines) = length lines"
  by (induction lines arbitrary: p) auto

lemma lines_slice:
  assumes "f \<le> a" and "a \<le> length lines"
  shows "concat (map (\<lambda>k. lines ! k) [f..<a]) = drop (line_offset lines f) (take (line_offset lines a) (concat lines))"
proof -
  have "concat lines = concat (take a lines) @ concat (drop a lines)"
    by (metis append_take_drop_id concat_append)
  then have "take (line_offset lines a) (concat lines) = concat (take a lines)"
    by (simp add: line_offset_def)
  also have "take a lines = take f lines @ map (\<lambda>k. lines ! k) [f..<a]"
    using assms by (intro nth_equalityI) (auto simp: nth_append)
  finally show ?thesis by (simp add: line_offset_def)
qed

lemma lines_between:
  assumes "f \<le> a" and "a \<le> length lines"
  shows "concat (map (\<lambda>k. lines ! k) [f..<a]) = concat (drop f (take a lines))"
proof -
  have "map (\<lambda>k. lines ! k) [f..<a] = drop f (take a lines)"
    using assms by (intro nth_equalityI) auto
  then show ?thesis by simp
qed

text \<open>The lines a replacement reaches into.\<close>

definition touches :: "utf16 list \<Rightarrow> 'a text_replacement_scheme \<Rightarrow> nat \<Rightarrow> bool" where
  "touches lines r k \<longleftrightarrow>
     rp_matchIndex r < line_offset lines (Suc k) \<and> line_offset lines k < max (rp_end r) (Suc (rp_matchIndex r))"

lemma find_first:
  "find P [s..<n] = Some t \<Longrightarrow> s \<le> t \<and> t < n \<and> P t \<and> (\<forall>j. s \<le> j \<and> j < t \<longrightarrow> \<not> P j)"
proof (induction "n - s" arbitrary: s)
  case (Suc d)
  then have s: "s < n" by simp
  then have c: "[s..<n] = s # [Suc s..<n]" by (simp add: upt_conv_Cons)
  show ?case
  proof (cases "P s")
    case True
    then show ?thesis using Suc.prems s c by auto
  next
    case False
    then have "find P [Suc s..<n] = Some t" using Suc.prems c by simp
    moreover have "d = n - Suc s" using Suc.hyps(2) by simp
    ultimately have "Suc s \<le> t \<and> t < n \<and> P t \<and> (\<forall>j. Suc s \<le> j \<and> j < t \<longrightarrow> \<not> P j)" using Suc.hyps(1) by blast
    then show ?thesis using False by (metis Suc_leD le_neq_implies_less Suc_leI)
  qed
qed simp

lemma line_range:
  assumes "getReplacementLineRange (spans_from 0 lines) r = Inr (a, b)"
  shows "a < b" "b \<le> length lines" "line_offset lines a \<le> rp_matchIndex r" "rp_matchIndex r < line_offset lines (Suc a)"
    "rp_end r \<le> line_offset lines b" "a \<le> k \<and> k < b \<longleftrightarrow> touches lines r k"
proof -
  obtain e where starts: "find (\<lambda>i. sp_start (spans_from 0 lines ! i) \<le> rp_matchIndex r \<and> rp_matchIndex r < sp_end (spans_from 0 lines ! i))
      [0..<length lines] = Some a"
    and ends: "find (\<lambda>i. rp_end r \<le> sp_end (spans_from 0 lines ! i)) [a..<length lines] = Some e" and b: "b = e + 1"
    using assms by (auto simp: getReplacementLineRange_def Let_def split: option.splits)
  from find_first[OF starts] have a: "a < length lines" "line_offset lines a \<le> rp_matchIndex r"
    "rp_matchIndex r < line_offset lines (Suc a)" by (auto simp: span_at)
  from find_first[OF ends] have e: "a \<le> e" "e < length lines" "rp_end r \<le> line_offset lines (Suc e)"
    by (auto simp: span_at)
  have before: "line_offset lines (Suc j) < rp_end r" if "a \<le> j" "j < e" for j
    using find_first[OF ends] that e(2) by (auto simp: span_at)
  show "a < b" "b \<le> length lines" "line_offset lines a \<le> rp_matchIndex r" "rp_matchIndex r < line_offset lines (Suc a)"
    "rp_end r \<le> line_offset lines b" using a e b by auto
  show "a \<le> k \<and> k < b \<longleftrightarrow> touches lines r k"
  proof
    assume k: "a \<le> k \<and> k < b"
    have "line_offset lines k < max (rp_end r) (Suc (rp_matchIndex r))"
    proof (cases "k = a")
      case False
      then show ?thesis using before[of "k - 1"] k b by (auto simp: less_max_iff_disj)
    qed (use a in simp)
    then show "touches lines r k"
      using a(3) k line_offset_mono[of "Suc a" "Suc k" lines] by (simp add: touches_def)
  next
    assume t: "touches lines r k"
    then have "line_offset lines a < line_offset lines (Suc k)" using a by (simp add: touches_def)
    then have "a \<le> k" using line_offset_less by (metis less_Suc_eq_le)
    moreover have "k < b"
    proof (rule ccontr)
      assume "\<not> k < b"
      then have "line_offset lines (Suc e) \<le> line_offset lines k" "line_offset lines (Suc a) \<le> line_offset lines k"
        using b e(1) by (auto intro: line_offset_mono)
      then show False using t a(3) e(3) by (auto simp: touches_def less_max_iff_disj)
    qed
    ultimately show "a \<le> k \<and> k < b" by simp
  qed
qed

section \<open>Groups of lines\<close>

text \<open>A group covers exactly the lines its replacements reach into.\<close>

definition group_ok :: "utf16 list \<Rightarrow> 'a line_group \<Rightarrow> bool" where
  "group_ok lines g \<longleftrightarrow>
     lg_startLine g < lg_endLine g \<and> lg_endLine g \<le> length lines \<and>
     ordered_from (line_offset lines (lg_startLine g)) (lg_replacements g) \<and>
     (\<forall>r \<in> set (lg_replacements g). rp_end r \<le> line_offset lines (lg_endLine g)) \<and>
     (\<forall>k. lg_startLine g \<le> k \<and> k < lg_endLine g \<longleftrightarrow> (\<exists>r \<in> set (lg_replacements g). touches lines r k))"

definition groups_ok :: "utf16 list \<Rightarrow> 'a line_group list \<Rightarrow> bool" where
  "groups_ok lines gs \<longleftrightarrow> list_all (group_ok lines) gs \<and> sorted_wrt (\<lambda>g h. lg_endLine g \<le> lg_startLine h) gs"

lemma ordered_snoc:
  "ordered_from p rs \<Longrightarrow> p \<le> rp_matchIndex r \<Longrightarrow> \<forall>q \<in> set rs. rp_end q \<le> rp_matchIndex r \<Longrightarrow> ordered_from p (rs @ [r])"
  by (induction rs arbitrary: p) auto

lemma group_step:
  assumes gs: "groups_ok lines gs" and range: "getReplacementLineRange (spans_from 0 lines) r = Inr (a, b)"
    and after: "\<forall>q \<in> set (concat (map lg_replacements gs)). rp_end q \<le> rp_matchIndex r"
  shows "groups_ok lines (group_replacement r (a, b) gs)"
    "concat (map lg_replacements (group_replacement r (a, b) gs)) = concat (map lg_replacements gs) @ [r]"
proof -
  note r = line_range[OF range]
  show "concat (map lg_replacements (group_replacement r (a, b) gs)) = concat (map lg_replacements gs) @ [r]"
  proof (cases gs rule: rev_cases)
    case (snoc ys y)
    then show ?thesis by (simp add: group_replacement_def)
  qed (simp add: group_replacement_def)
  show "groups_ok lines (group_replacement r (a, b) gs)"
  proof (cases gs rule: rev_cases)
    case Nil
    then show ?thesis using r by (simp add: groups_ok_def group_replacement_def group_ok_def)
  next
    case (snoc hs g)
    have g: "group_ok lines g" and sorted: "\<forall>h \<in> set hs. lg_endLine h \<le> lg_startLine g"
      and hs: "list_all (group_ok lines) hs" "sorted_wrt (\<lambda>g h. lg_endLine g \<le> lg_startLine h) hs"
      using gs snoc by (auto simp: groups_ok_def sorted_wrt_append)
    obtain q where q: "q \<in> set (lg_replacements g)" using g unfolding group_ok_def by (metis le_refl)
    then have "line_offset lines (lg_startLine g) \<le> rp_matchIndex q"
      using g by (auto simp: group_ok_def dest: ordered_starts)
    moreover have "rp_end q \<le> rp_matchIndex r" using after snoc q by auto
    ultimately have offset: "line_offset lines (lg_startLine g) \<le> rp_matchIndex r" by linarith
    then have start: "lg_startLine g \<le> a"
      using r(4) line_offset_less[of lines "lg_startLine g" "Suc a"] by (simp add: less_Suc_eq_le)
    show ?thesis
    proof (cases "a < lg_endLine g")
      case True
      let ?g = "g\<lparr>lg_endLine := max (lg_endLine g) b, lg_replacements := lg_replacements g @ [r]\<rparr>"
      have "group_ok lines ?g"
        unfolding group_ok_def
      proof (intro conjI)
        show "ordered_from (line_offset lines (lg_startLine ?g)) (lg_replacements ?g)"
          using g after snoc offset
          by (auto simp: group_ok_def intro!: ordered_snoc)
        have "line_offset lines (lg_endLine g) \<le> line_offset lines (max (lg_endLine g) b)"
          "line_offset lines b \<le> line_offset lines (max (lg_endLine g) b)" by (auto intro: line_offset_mono)
        then show "\<forall>r \<in> set (lg_replacements ?g). rp_end r \<le> line_offset lines (lg_endLine ?g)"
          using g r(5) by (auto simp: group_ok_def intro: order_trans)
        have "lg_startLine g \<le> k \<and> k < max (lg_endLine g) b \<longleftrightarrow>
            (lg_startLine g \<le> k \<and> k < lg_endLine g) \<or> (a \<le> k \<and> k < b)" for k
          using True start by auto
        then show "\<forall>k. lg_startLine ?g \<le> k \<and> k < lg_endLine ?g \<longleftrightarrow> (\<exists>r \<in> set (lg_replacements ?g). touches lines r k)"
          using g r(6) by (auto simp: group_ok_def)
      qed (use g r in \<open>auto simp: group_ok_def\<close>)
      then show ?thesis using hs sorted snoc True
        by (simp add: groups_ok_def group_replacement_def sorted_wrt_append)
    next
      case False
      then have "\<forall>h \<in> set (hs @ [g]). lg_endLine h \<le> a"
        using sorted start g by (auto simp: group_ok_def)
      then show ?thesis using r g hs sorted snoc False
        by (simp add: groups_ok_def group_replacement_def group_ok_def sorted_wrt_append)
    qed
  qed
qed

lemma ordered_after:
  "ordered_from p (xs @ r # ys) \<Longrightarrow> q \<in> set xs \<Longrightarrow> rp_end q \<le> rp_matchIndex r"
proof (induction xs arbitrary: p)
  case (Cons x xs)
  then show ?case using ordered_starts[of "rp_end x" "xs @ r # ys" r] by auto
qed simp

lemma group_all:
  "group_replacements (spans_from 0 lines) rs gs = Inr hs \<Longrightarrow> groups_ok lines gs \<Longrightarrow>
   ordered_from p (concat (map lg_replacements gs) @ rs) \<Longrightarrow>
   groups_ok lines hs \<and> concat (map lg_replacements hs) = concat (map lg_replacements gs) @ rs"
proof (induction rs arbitrary: gs)
  case (Cons r rs)
  then obtain a b where range: "getReplacementLineRange (spans_from 0 lines) r = Inr (a, b)"
    and rest: "group_replacements (spans_from 0 lines) rs (group_replacement r (a, b) gs) = Inr hs"
    by (auto split: sum.splits)
  have "\<forall>q \<in> set (concat (map lg_replacements gs)). rp_end q \<le> rp_matchIndex r"
    using ordered_after[OF Cons.prems(3)] by blast
  note step = group_step[OF Cons.prems(2) range this]
  show ?case using Cons.IH[OF rest step(1)] Cons.prems(3) by (simp add: step(2))
qed simp

text \<open>
  The lines in blocks: those of a group are written anew, those between two groups are copied.
\<close>

fun group_blocks :: "utf16 list \<Rightarrow> nat \<Rightarrow> 'a line_group list \<Rightarrow> (nat list \<times> utf16 option) list" where
  "group_blocks lines from [] = [([from..<length lines], None)]"
| "group_blocks lines from (g # gs) =
     ([from..<lg_startLine g], None) #
     ([lg_startLine g..<lg_endLine g],
        Some (applyReplacements (drop (line_offset lines (lg_startLine g)) (take (line_offset lines (lg_endLine g)) (concat lines)))
          (lg_replacements g) (line_offset lines (lg_startLine g)))) #
     group_blocks lines (lg_endLine g) gs"

fun block_text :: "utf16 list \<Rightarrow> nat list \<times> utf16 option \<Rightarrow> utf16" where
  "block_text lines (ks, None) = concat (map (\<lambda>k. lines ! k) ks)"
| "block_text lines (ks, Some t) = t"

lemma groups_ok_Cons:
  "groups_ok lines (g # gs) \<longleftrightarrow> group_ok lines g \<and> (\<forall>h \<in> set gs. lg_endLine g \<le> lg_startLine h) \<and> groups_ok lines gs"
  by (auto simp: groups_ok_def)

lemma blocks_lines:
  "groups_ok lines gs \<Longrightarrow> \<forall>g \<in> set gs. from \<le> lg_startLine g \<Longrightarrow> from \<le> length lines \<Longrightarrow>
   concat (map fst (group_blocks lines from gs)) = [from..<length lines]"
proof (induction gs arbitrary: "from")
  case (Cons g gs)
  then have "concat (map fst (group_blocks lines (lg_endLine g) gs)) = [lg_endLine g..<length lines]"
    by (intro Cons.IH) (auto simp: groups_ok_Cons group_ok_def)
  moreover have "from \<le> lg_startLine g" "lg_startLine g \<le> lg_endLine g" "lg_endLine g \<le> length lines"
    using Cons.prems by (auto simp: groups_ok_Cons group_ok_def)
  ultimately show ?case
    using upt_add_eq_append[of "from" "lg_startLine g" "length lines - lg_startLine g"]
      upt_add_eq_append[of "lg_startLine g" "lg_endLine g" "length lines - lg_endLine g"] by simp
qed simp

lemma blocks_written:
  assumes "length originals = length lines"
  shows "groups_ok lines gs \<Longrightarrow> \<forall>g \<in> set gs. from \<le> lg_startLine g \<Longrightarrow> from \<le> length lines \<Longrightarrow>
   write_groups originals (concat lines) (spans_from 0 lines) from gs = concat (map (block_text originals) (group_blocks lines from gs))"
proof (induction gs arbitrary: "from")
  case Nil
  then show ?case using assms lines_between[of "from" "length lines" originals] by (simp)
next
  case (Cons g gs)
  then have "write_groups originals (concat lines) (spans_from 0 lines) (lg_endLine g) gs =
      concat (map (block_text originals) (group_blocks lines (lg_endLine g) gs))"
    by (intro Cons.IH) (auto simp: groups_ok_Cons group_ok_def)
  moreover have le: "from \<le> lg_startLine g" "lg_startLine g < lg_endLine g" "lg_endLine g \<le> length lines"
    using Cons.prems by (auto simp: groups_ok_Cons group_ok_def)
  ultimately show ?case
    using assms lines_between[of "from" "lg_startLine g" originals]
    by (simp add: Let_def span_at)
qed

lemma blocks_replaced:
  "groups_ok lines gs \<Longrightarrow> \<forall>g \<in> set gs. from \<le> lg_startLine g \<Longrightarrow> from \<le> length lines \<Longrightarrow>
   ordered_from (line_offset lines from) (concat (map lg_replacements gs)) \<and>
   replace_from (line_offset lines from) (drop (line_offset lines from) (concat lines)) (concat (map lg_replacements gs)) =
     concat (map (block_text lines) (group_blocks lines from gs))"
proof (induction gs arbitrary: "from")
  case Nil
  then show ?case using lines_slice[of "from" "length lines" lines] by (simp add: line_offset_all)
next
  case (Cons g gs)
  let ?a = "line_offset lines (lg_startLine g)" and ?b = "line_offset lines (lg_endLine g)" and ?f = "line_offset lines from"
  let ?rest = "concat (map lg_replacements gs)"
  have le: "from \<le> lg_startLine g" "lg_startLine g < lg_endLine g" "lg_endLine g \<le> length lines"
    and g: "ordered_from ?a (lg_replacements g)" "\<forall>r \<in> set (lg_replacements g). rp_end r \<le> ?b"
    using Cons.prems by (auto simp: groups_ok_Cons group_ok_def)
  have IH: "ordered_from ?b ?rest" "replace_from ?b (drop ?b (concat lines)) ?rest =
      concat (map (block_text lines) (group_blocks lines (lg_endLine g) gs))"
    using Cons.prems Cons.IH[of "lg_endLine g"] by (auto simp: groups_ok_Cons group_ok_def)
  have off: "?f \<le> ?a" "?a \<le> ?b" "?b \<le> length (concat lines)"
    using le line_offset_mono[of "lg_endLine g" "length lines" lines] by (auto intro: line_offset_mono simp: line_offset_all)
  have ordered: "ordered_from ?a (lg_replacements g @ ?rest)"
    using ordered_append[OF g off(2) IH(1)] .
  have "replace_from ?f (drop ?f (concat lines)) (lg_replacements g @ ?rest) =
      take (?a - ?f) (drop ?f (concat lines)) @ replace_from ?a (drop ?a (concat lines)) (lg_replacements g @ ?rest)"
    using replace_skip[OF off(1) ordered] off by simp
  also have "replace_from ?a (drop ?a (concat lines)) (lg_replacements g @ ?rest) =
      replace_from ?a (take (?b - ?a) (drop ?a (concat lines))) (lg_replacements g) @ replace_from ?b (drop ?b (concat lines)) ?rest"
    using replace_append[OF g off(2) IH(1)] off by simp
  also have "replace_from ?a (take (?b - ?a) (drop ?a (concat lines))) (lg_replacements g) =
      applyReplacements (drop ?a (take ?b (concat lines))) (lg_replacements g) ?a"
    using apply_is_replace[OF g(1), of "drop ?a (take ?b (concat lines))"] g(2) off by (simp add: drop_take)
  also have "take (?a - ?f) (drop ?f (concat lines)) = concat (map (\<lambda>k. lines ! k) [from..<lg_startLine g])"
    using lines_slice[of "from" "lg_startLine g" lines] le by (simp add: drop_take)
  finally show ?case using IH(2) ordered off(1) by (auto intro: ordered_weaken)
qed

lemma blocks_touched:
  "groups_ok lines gs \<Longrightarrow> \<forall>g \<in> set gs. from \<le> lg_startLine g \<Longrightarrow> (ks, w) \<in> set (group_blocks lines from gs) \<Longrightarrow> k \<in> set ks \<Longrightarrow>
   k < length lines \<Longrightarrow>
   from \<le> k \<and> (w \<noteq> None \<longleftrightarrow> (\<exists>g \<in> set gs. lg_startLine g \<le> k \<and> k < lg_endLine g))"
proof (induction gs arbitrary: "from")
  case (Cons g gs)
  have g: "from \<le> lg_startLine g" "lg_startLine g < lg_endLine g" "\<forall>h \<in> set gs. lg_endLine g \<le> lg_startLine h"
    using Cons.prems by (auto simp: groups_ok_Cons group_ok_def)
  from Cons.prems(3) consider "ks = [from..<lg_startLine g]" "w = None"
    | "ks = [lg_startLine g..<lg_endLine g]" "w \<noteq> None" | "(ks, w) \<in> set (group_blocks lines (lg_endLine g) gs)"
    by auto
  then show ?case
  proof cases
    case 3
    then have "lg_endLine g \<le> k \<and> (w \<noteq> None \<longleftrightarrow> (\<exists>g \<in> set gs. lg_startLine g \<le> k \<and> k < lg_endLine g))"
      using Cons.prems g by (intro Cons.IH) (auto simp: groups_ok_Cons)
    then show ?thesis using g by auto
  qed (use Cons.prems g in \<open>force+\<close>)
qed simp

text \<open>Copying the untouched lines of another text with as many lines.\<close>

lemma sort_ordered: "ordered_from p rs \<Longrightarrow> sort_key rp_matchIndex rs = rs"
proof (induction rs arbitrary: p)
  case (Cons r rs)
  then have "\<forall>q \<in> set rs. rp_matchIndex r \<le> rp_matchIndex q"
    using ordered_starts[of "rp_end r" rs] by fastforce
  then show ?case using Cons by (cases rs) auto
qed simp

lemma unchanged_lines_kept:
  assumes "applyReplacementsPreservingUnchangedLines original base rs = Inr new" and ordered: "ordered_from 0 rs"
  shows "\<exists>blocks. length (splitLinesWithEndings original) = length (splitLinesWithEndings base) \<and>
    concat (map fst blocks) = [0..<length (splitLinesWithEndings base)] \<and>
    new = concat (map (block_text (splitLinesWithEndings original)) blocks) \<and>
    replace_from 0 base rs = concat (map (block_text (splitLinesWithEndings base)) blocks) \<and>
    (\<forall>(ks, w) \<in> set blocks. \<forall>k \<in> set ks. w \<noteq> None \<longleftrightarrow> (\<exists>r \<in> set rs. touches (splitLinesWithEndings base) r k))"
proof -
  let ?os = "splitLinesWithEndings original" and ?bs = "splitLinesWithEndings base"
  obtain gs where len: "length ?os = length ?bs" and gs: "group_replacements (spans_from 0 ?bs) rs [] = Inr gs"
    and new: "new = write_groups ?os base (spans_from 0 ?bs) 0 gs"
    using assms(1) by (auto simp: applyReplacementsPreservingUnchangedLines_def Let_def getLineSpans_def
        sort_ordered[OF ordered] split: if_splits sum.splits)
  have ok: "groups_ok ?bs gs" and reps: "concat (map lg_replacements gs) = rs"
    using group_all[OF gs, of 0] ordered by (auto simp: groups_ok_def)
  have zero: "\<forall>g \<in> set gs. 0 \<le> lg_startLine g" "0 \<le> length ?bs" by auto
  have lines: "concat (map fst (group_blocks ?bs 0 gs)) = [0..<length ?bs]"
    using blocks_lines[OF ok zero] .
  have "w \<noteq> None \<longleftrightarrow> (\<exists>r \<in> set rs. touches ?bs r k)" if b: "(ks, w) \<in> set (group_blocks ?bs 0 gs)" and k: "k \<in> set ks" for ks w k
  proof -
    have "k \<in> set (concat (map fst (group_blocks ?bs 0 gs)))" using b k by force
    then have "k < length ?bs" by (simp add: lines)
    then have "w \<noteq> None \<longleftrightarrow> (\<exists>g \<in> set gs. lg_startLine g \<le> k \<and> k < lg_endLine g)"
      using blocks_touched[OF ok zero(1) b k] by simp
    also have "\<dots> \<longleftrightarrow> (\<exists>g \<in> set gs. \<exists>r \<in> set (lg_replacements g). touches ?bs r k)"
      using ok by (auto simp: groups_ok_def group_ok_def list_all_iff)
    finally show ?thesis by (auto simp flip: reps)
  qed
  then have "\<forall>(ks, w) \<in> set (group_blocks ?bs 0 gs). \<forall>k \<in> set ks. w \<noteq> None \<longleftrightarrow> (\<exists>r \<in> set rs. touches ?bs r k)"
    by blast
  moreover have "new = concat (map (block_text ?os) (group_blocks ?bs 0 gs))"
    using new blocks_written[OF len ok zero] by (simp add: lines_concat)
  moreover have "replace_from 0 base rs = concat (map (block_text ?bs) (group_blocks ?bs 0 gs))"
    using blocks_replaced[OF ok zero] by (simp add: lines_concat reps)
  ultimately show ?thesis using len lines by blast
qed

section \<open>Normalization\<close>

lemma split_at_free: "l \<in> set (split_at c s) \<Longrightarrow> c \<notin> set l"
  by (induction s arbitrary: l rule: split_at.induct) (auto split: if_splits list.splits)

lemma split_at_none: "c \<notin> set l \<Longrightarrow> split_at c l = [l]"
  by (induction l) auto

lemma split_at_sep: "c \<notin> set l \<Longrightarrow> split_at c (l @ c # s) = l # split_at c s"
  by (induction l) auto

lemma split_join: "ls \<noteq> [] \<Longrightarrow> \<forall>l \<in> set ls. c \<notin> set l \<Longrightarrow> split_at c (js_join [c] ls) = ls"
  by (induction "[c]" ls rule: js_join.induct) (auto simp: split_at_none split_at_sep)

lemma map_join: "map f (js_join sep ls) = js_join (map f sep) (map (map f) ls)"
  by (induction sep ls rule: js_join.induct) auto

lemma plain_unit_line_feed: "plain_unit u = line_feed \<longleftrightarrow> u = line_feed"
  by (auto simp: plain_unit_def line_feed_def)

lemma plain_line_feed [simp]: "plain_unit line_feed = line_feed"
  by (simp add: plain_unit_line_feed)

lemma plain_unit_twice: "plain_unit (plain_unit u) = plain_unit u"
  by (simp add: plain_unit_def)

lemma plain_unit_space: "white_space (plain_unit u) \<Longrightarrow> white_space u"
  by (auto simp: plain_unit_def white_space_def split: if_splits)

lemma trimEnd_id: "l = [] \<or> \<not> white_space (last l) \<Longrightarrow> trimEnd l = l"
  by (cases l rule: rev_cases) (auto simp: trimEnd_def)

lemma trimEnd_last: "trimEnd l \<noteq> [] \<Longrightarrow> \<not> white_space (last (trimEnd l))"
  unfolding trimEnd_def by (metis hd_dropWhile last_rev rev_is_Nil_conv)

lemma trimEnd_free: "c \<notin> set l \<Longrightarrow> c \<notin> set (trimEnd l)"
  unfolding trimEnd_def using set_dropWhileD by fastforce

lemma trimEnd_plain: "trimEnd (map plain_unit (trimEnd l)) = map plain_unit (trimEnd l)"
  using trimEnd_last[of l] plain_unit_space by (intro trimEnd_id) (auto simp: last_map)

text \<open>Where the normal form is stable under the rest of the normalization, the whole is idempotent.\<close>

lemma normalize_twice:
  assumes stable: "nfkc (normalizeForFuzzyMatch nfkc t) = normalizeForFuzzyMatch nfkc t"
  shows "normalizeForFuzzyMatch nfkc (normalizeForFuzzyMatch nfkc t) = normalizeForFuzzyMatch nfkc t"
proof -
  define ls where "ls = map (\<lambda>l. map plain_unit (trimEnd l)) (split_at line_feed (nfkc t))"
  have t: "normalizeForFuzzyMatch nfkc t = js_join [line_feed] ls"
    by (simp add: normalizeForFuzzyMatch_def ls_def map_join comp_def plain_unit_line_feed)
  have "line_feed \<notin> set (map plain_unit (trimEnd l))" if "l \<in> set (split_at line_feed (nfkc t))" for l
    using trimEnd_free[OF split_at_free[OF that]] by (metis (no_types) image_iff list.set_map plain_unit_line_feed)
  then have "\<forall>l \<in> set ls. line_feed \<notin> set l" unfolding ls_def by (metis (no_types, lifting) imageE list.set_map)
  moreover have "ls \<noteq> []" by (simp add: ls_def)
  ultimately have "ls \<noteq> []" "\<forall>l \<in> set ls. line_feed \<notin> set l" by blast+
  then have "split_at line_feed (js_join [line_feed] ls) = ls" by (rule split_join)
  moreover have "map trimEnd ls = ls" "map (map plain_unit) ls = ls"
    by (auto simp: ls_def trimEnd_plain plain_unit_twice comp_def)
  ultimately show ?thesis using stable
    by (simp add: t normalizeForFuzzyMatch_def[of nfkc "js_join [line_feed] ls"] map_join plain_unit_line_feed)
qed

section \<open>Matching\<close>

text \<open>What an edit is matched as: its old text, or the normalized one where the old text does not occur.\<close>

definition needle :: "(utf16 \<Rightarrow> utf16) \<Rightarrow> utf16 \<Rightarrow> utf16 \<Rightarrow> utf16" where
  "needle nfkc t old = (if indexOf t old = None then normalizeForFuzzyMatch nfkc old else old)"

lemma fuzzyFindText_ok:
  assumes "fm_found (fuzzyFindText nfkc t old)" and "indexOf t old \<noteq> None \<or> normalizeForFuzzyMatch nfkc t = t"
  shows "fm_index (fuzzyFindText nfkc t old) + fm_matchLength (fuzzyFindText nfkc t old) \<le> length t \<and>
    take (fm_matchLength (fuzzyFindText nfkc t old)) (drop (fm_index (fuzzyFindText nfkc t old)) t) = needle nfkc t old"
  using assms by (auto simp: fuzzyFindText_def needle_def Let_def dest: indexOf_Some split: option.splits)

lemma match_edits_ok:
  assumes "match_edits nfkc t path n i es = Inr ms"
    and "\<forall>e \<in> set es. indexOf t (ed_oldText e) \<noteq> None \<or> normalizeForFuzzyMatch nfkc t = t"
  shows "map (\<lambda>r. (found_text t r, rp_newText r)) ms = map (\<lambda>e. (needle nfkc t (ed_oldText e), ed_newText e)) es \<and>
    (\<forall>r \<in> set ms. rp_end r \<le> length t) \<and> (\<forall>e \<in> set es. countOccurrences nfkc t (ed_oldText e) \<le> 1)"
  using assms
proof (induction es arbitrary: i ms)
  case (Cons e es)
  let ?m = "fuzzyFindText nfkc t (ed_oldText e)"
  obtain rs where m: "fm_found ?m" "countOccurrences nfkc t (ed_oldText e) \<le> 1"
    and rs: "match_edits nfkc t path n (Suc i) es = Inr rs"
    and ms: "ms = \<lparr>rp_matchIndex = fm_index ?m, rp_matchLength = fm_matchLength ?m, rp_newText = ed_newText e, me_editIndex = i\<rparr> # rs"
    using Cons.prems(1) by (auto simp: Let_def split: if_splits sum.splits)
  show ?case using Cons.IH[OF rs] Cons.prems(2) fuzzyFindText_ok[OF m(1)] m(2) by (auto simp: ms found_text_def)
qed simp

lemma exact_matched:
  assumes "match_edits nfkc t path n i es = Inr ms" and "\<forall>e \<in> set es. \<not> fm_usedFuzzyMatch (fuzzyFindText nfkc t (ed_oldText e))"
  shows "\<forall>e \<in> set es. indexOf t (ed_oldText e) \<noteq> None"
  using assms
proof (induction es arbitrary: i ms)
  case (Cons e es)
  then obtain rs where "match_edits nfkc t path n (Suc i) es = Inr rs" "fm_found (fuzzyFindText nfkc t (ed_oldText e))"
    by (auto simp: Let_def split: if_splits sum.splits)
  then show ?case using Cons by (auto simp: fuzzyFindText_def Let_def split: option.splits)
qed simp

lemma overlap_ordered: "check_overlap path ms = Inr () \<Longrightarrow> ordered_from 0 ms"
proof (induction path ms rule: check_overlap.induct)
  case (1 path previous current ms)
  then show ?case by (auto split: if_splits)
qed auto

section \<open>Properties\<close>

text \<open>
  C40: Successful edits are all applied at once to the same text. The text that is searched is the
  content itself where every old text occurs in it, and otherwise the normalized content. It
  consists of gaps and of one occurrence of each (matched) old text, which do not overlap; the
  result of the edits has the same gaps around the new texts. In the first case this result is the
  new content. In the other one the new content is made of blocks of lines: exactly the lines a
  replacement reaches into are taken from that result, all others are those of the original content. No
  old text is empty, none occurs twice in the normalized form of the text, and the content changes.
  The normal form is assumed to be stable under trimming line ends and replacing quotes, dashes and
  spaces by their ASCII forms.
\<close>

theorem edits_applied:
  assumes "applyEditsToNormalizedContent nfkc content edits path = Inr (base, new)"
    and "nfkc (normalizeForFuzzyMatch nfkc content) = normalizeForFuzzyMatch nfkc content"
  shows "base = content \<and> new \<noteq> content \<and>
    (\<exists>exact t (rs :: matched_edit list) gaps wanted.
       (exact \<longleftrightarrow> list_all (\<lambda>e. indexOf content (normalizeToLF (ed_oldText e)) \<noteq> None) edits) \<and>
       t = (if exact then content else normalizeForFuzzyMatch nfkc content) \<and>
       mset (map (\<lambda>r. (found_text t r, rp_newText r)) rs) =
         mset (map (\<lambda>e. (needle nfkc t (normalizeToLF (ed_oldText e)), normalizeToLF (ed_newText e))) edits) \<and>
       list_all (\<lambda>e. normalizeToLF (ed_oldText e) \<noteq> [] \<and> countOccurrences nfkc t (normalizeToLF (ed_oldText e)) \<le> 1) edits \<and>
       ordered_from 0 rs \<and> list_all (\<lambda>r. rp_end r \<le> length t) rs \<and> length gaps = Suc (length rs) \<and>
       t = weave gaps (map (found_text t) rs) \<and> wanted = weave gaps (map rp_newText rs) \<and>
       (exact \<longrightarrow> new = wanted) \<and>
       (\<not> exact \<longrightarrow> (\<exists>blocks. length (splitLinesWithEndings content) = length (splitLinesWithEndings t) \<and>
          concat (map fst blocks) = [0..<length (splitLinesWithEndings t)] \<and>
          wanted = concat (map (block_text (splitLinesWithEndings t)) blocks) \<and>
          new = concat (map (block_text (splitLinesWithEndings content)) blocks) \<and>
          (\<forall>(ks, w) \<in> set blocks. \<forall>k \<in> set ks. w \<noteq> None \<longleftrightarrow> (\<exists>r \<in> set rs. touches (splitLinesWithEndings t) r k)))))"
proof -
  define es where "es = map normalize_edit edits"
  define fuzzy where "fuzzy = list_ex (\<lambda>e. fm_usedFuzzyMatch (fuzzyFindText nfkc content (ed_oldText e))) es"
  define t where "t = (if fuzzy then normalizeForFuzzyMatch nfkc content else content)"
  obtain ms where none: "find (\<lambda>i. ed_oldText (es ! i) = []) [0..<length es] = None"
    and ms: "match_edits nfkc t path (length es) 0 es = Inr ms"
    and overlap: "check_overlap path (sort_key rp_matchIndex ms) = Inr ()"
    and written: "(if fuzzy then applyReplacementsPreservingUnchangedLines content t (sort_key rp_matchIndex ms)
        else Inr (applyReplacements t (sort_key rp_matchIndex ms) 0)) = Inr new"
    and result: "base = content" "new \<noteq> content"
    using assms(1) by (auto simp: applyEditsToNormalizedContent_def Let_def bind_result_Inr_iff
        es_def[symmetric] fuzzy_def[symmetric] t_def simp del: upt_Suc split: option.splits if_splits)
  let ?rs = "sort_key rp_matchIndex ms"
  have old: "\<forall>e \<in> set es. ed_oldText e \<noteq> []"
    using none by (auto simp: find_None_iff in_set_conv_nth)
  have exact: "\<not> fuzzy \<longleftrightarrow> (\<forall>e \<in> set es. indexOf content (ed_oldText e) \<noteq> None)"
  proof
    assume "\<not> fuzzy"
    then show "\<forall>e \<in> set es. indexOf content (ed_oldText e) \<noteq> None"
      using exact_matched[OF ms] by (auto simp: t_def fuzzy_def list_ex_iff)
  qed (auto simp: fuzzy_def list_ex_iff fuzzyFindText_def)
  have "\<forall>e \<in> set es. indexOf t (ed_oldText e) \<noteq> None \<or> normalizeForFuzzyMatch nfkc t = t"
    using exact normalize_twice[OF assms(2)] by (auto simp: t_def)
  note matched = match_edits_ok[OF ms this]
  have ordered: "ordered_from 0 ?rs" using overlap by (rule overlap_ordered)
  have ends: "\<forall>r \<in> set ?rs. rp_end r \<le> length t" using matched by simp
  obtain gaps where gaps: "length gaps = Suc (length ?rs)" "t = weave gaps (map (found_text t) ?rs)"
    "replace_from 0 t ?rs = weave gaps (map rp_newText ?rs)"
    using replace_weave[OF ordered ends] by auto
  have "mset (map (\<lambda>r. (found_text t r, rp_newText r)) ?rs) = mset (map (\<lambda>r. (found_text t r, rp_newText r)) ms)"
    by (simp only: mset_map mset_sort)
  also have "\<dots> = mset (map (\<lambda>e. (needle nfkc t (ed_oldText e), ed_newText e)) es)"
    by (simp only: matched)
  finally have edits: "mset (map (\<lambda>r. (found_text t r, rp_newText r)) ?rs) =
      mset (map (\<lambda>e. (needle nfkc t (normalizeToLF (ed_oldText e)), normalizeToLF (ed_newText e))) edits)"
    by (simp add: es_def comp_def normalize_edit_def)
  have plain: "new = weave gaps (map rp_newText ?rs)" if "\<not> fuzzy"
    using written that gaps(3) apply_is_replace[OF ordered, of t] ends by simp
  have lines: "\<exists>blocks. length (splitLinesWithEndings content) = length (splitLinesWithEndings t) \<and>
      concat (map fst blocks) = [0..<length (splitLinesWithEndings t)] \<and>
      weave gaps (map rp_newText ?rs) = concat (map (block_text (splitLinesWithEndings t)) blocks) \<and>
      new = concat (map (block_text (splitLinesWithEndings content)) blocks) \<and>
      (\<forall>(ks, w) \<in> set blocks. \<forall>k \<in> set ks. w \<noteq> None \<longleftrightarrow> (\<exists>r \<in> set ?rs. touches (splitLinesWithEndings t) r k))" if fuzzy
    using unchanged_lines_kept[of content t ?rs new] written that ordered gaps(3) by (simp only: if_True) blast
  have conditions: "\<not> fuzzy \<longleftrightarrow> list_all (\<lambda>e. indexOf content (normalizeToLF (ed_oldText e)) \<noteq> None) edits"
    "list_all (\<lambda>e. normalizeToLF (ed_oldText e) \<noteq> [] \<and> countOccurrences nfkc t (normalizeToLF (ed_oldText e)) \<le> 1) edits"
    using exact old matched by (auto simp: es_def list_all_iff normalize_edit_def)
  have "t = (if \<not> fuzzy then content else normalizeForFuzzyMatch nfkc content)" "list_all (\<lambda>r. rp_end r \<le> length t) ?rs"
    using ends by (simp_all add: t_def list_all_iff)
  note facts = result conditions this edits ordered gaps(1,2) plain
  show ?thesis
    by (rule conjI[OF result(1)], rule conjI[OF result(2)], rule exI[of _ "\<not> fuzzy"], rule exI[of _ t], rule exI[of _ ?rs],
        rule exI[of _ gaps], rule exI[of _ "weave gaps (map rp_newText ?rs)"], intro conjI impI)
      (assumption | rule refl | rule facts | (rule lines, erule notnotD))+
qed

text \<open>A fuzzy edit: the quotes differ, and the other lines keep their trailing spaces.\<close>

definition sample_content :: utf16 where
  "sample_content = [97, 32, line_feed, 0x2018, 98, 0x2019, line_feed, 99, 32, line_feed]"

definition sample_edit :: edit where
  "sample_edit = \<lparr>ed_oldText = [39, 98, 39], ed_newText = [88]\<rparr>"

definition sample_plain :: utf16 where
  "sample_plain = [97, line_feed, 39, 98, 39, line_feed, 99, line_feed]"

definition sample_match :: matched_edit where
  "sample_match = \<lparr>rp_matchIndex = 2, rp_matchLength = 3, rp_newText = [88], me_editIndex = 0\<rparr>"

lemma sample_normalized: "normalize_edit sample_edit = sample_edit" by code_simp

lemma sample_old: "ed_oldText sample_edit \<noteq> []" by code_simp

lemma sample_fuzzy: "fm_usedFuzzyMatch (fuzzyFindText (\<lambda>s. s) sample_content (ed_oldText sample_edit))" by code_simp

lemma sample_plain_content: "normalizeForFuzzyMatch (\<lambda>s. s) sample_content = sample_plain" by code_simp

lemma sample_matched: "match_edits (\<lambda>s. s) sample_plain [] (Suc 0) 0 [sample_edit] = Inr [sample_match]" by code_simp

lemma sample_replaced:
  "applyReplacementsPreservingUnchangedLines sample_content sample_plain [sample_match] =
     Inr [97, 32, line_feed, 88, line_feed, 99, 32, line_feed]" by code_simp

lemma sample_edited:
  "applyEditsToNormalizedContent (\<lambda>s. s) sample_content [sample_edit] [] =
     Inr (sample_content, [97, 32, line_feed, 88, line_feed, 99, 32, line_feed])"
  using sample_normalized sample_old sample_fuzzy sample_plain_content sample_matched sample_replaced
  by (simp add: applyEditsToNormalizedContent_def bind_result_def) (simp add: sample_content_def)

theorem edits_applied_witness:
  "\<exists>new t rs gaps. applyEditsToNormalizedContent (\<lambda>s. s) sample_content [sample_edit] [] = Inr (sample_content, new) \<and>
     new \<noteq> sample_content \<and> t = weave gaps (map (found_text t) (rs :: matched_edit list)) \<and>
     mset (map (\<lambda>r. (found_text t r, rp_newText r)) rs) = {#(needle (\<lambda>s. s) t [39, 98, 39], [88])#}"
proof -
  have "normalizeToLF [39, 98, 39] = [39, 98, 39]" "normalizeToLF [88] = [88]"
    by (simp_all add: carriage_return_def)
  moreover obtain t and rs :: "matched_edit list" and gaps where "t = weave gaps (map (found_text t) rs)"
    "mset (map (\<lambda>r. (found_text t r, rp_newText r)) rs) =
       mset (map (\<lambda>e. (needle (\<lambda>s. s) t (normalizeToLF (ed_oldText e)), normalizeToLF (ed_newText e))) [sample_edit])"
    using edits_applied[OF sample_edited] by blast
  ultimately show ?thesis using sample_edited edits_applied[OF sample_edited]
    by (intro exI[of _ "[97, 32, line_feed, 88, line_feed, 99, 32, line_feed]"] exI[of _ t] exI[of _ rs] exI[of _ gaps])
      (simp add: sample_edit_def sample_content_def)
qed

section \<open>Line endings\<close>

lemma normalizeToLF_id: "carriage_return \<notin> set s \<Longrightarrow> normalizeToLF s = s"
  by (induction s rule: normalizeToLF.induct) auto

lemma normalizeToLF_crlf:
  "carriage_return \<notin> set l \<Longrightarrow> normalizeToLF (l @ carriage_return # line_feed # s) = l @ line_feed # normalizeToLF s"
proof (induction l rule: normalizeToLF.induct)
  case (2 u)
  then show ?case by (simp add: carriage_return_def)
qed auto

text \<open>A text whose line ends are all CRLF has them again behind the edit.\<close>

lemma crlf_round_trip:
  assumes "\<forall>l \<in> set ls. carriage_return \<notin> set l \<and> line_feed \<notin> set l"
  shows "normalizeToLF (js_join [carriage_return, line_feed] ls) = js_join [line_feed] ls"
    "restoreLineEndings (js_join [line_feed] ls) [carriage_return, line_feed] = js_join [carriage_return, line_feed] ls"
proof -
  show "normalizeToLF (js_join [carriage_return, line_feed] ls) = js_join [line_feed] ls"
    using assms by (induction "[carriage_return, line_feed]" ls rule: js_join.induct)
      (auto simp: normalizeToLF_id normalizeToLF_crlf)
  have plain: "concat (map (\<lambda>u. if u = line_feed then [carriage_return, line_feed] else [u]) l) = l" if "line_feed \<notin> set l" for l
    using that by (induction l) auto
  show "restoreLineEndings (js_join [line_feed] ls) [carriage_return, line_feed] = js_join [carriage_return, line_feed] ls"
    using assms by (induction "[line_feed]" ls rule: js_join.induct) (auto simp: restoreLineEndings_def plain)
qed

section \<open>The tool\<close>

lemma io_bind_Inr:
  "io_bind f g w = (Inr y, w2) \<longleftrightarrow> (\<exists>x w1. f w = (Inr x, w1) \<and> g x w1 = (Inr y, w2))"
  by (auto simp: io_bind_def split: prod.splits sum.splits)

lemma io_steps_Inr:
  "io_result r w = (Inr y, w2) \<longleftrightarrow> r = Inr y \<and> w2 = w"
  "check_signal env w = (Inr u, w2) \<longleftrightarrow> \<not> fe_aborted env w \<and> w2 = w"
  "access path act w = (Inr x, w2) \<longleftrightarrow> act w = (Inr x, w2)"
  "io_return x w = (Inr z, w2) \<longleftrightarrow> z = x \<and> w2 = w"
  "io_throw e w \<noteq> (Inr z, w2)"
  by (auto simp: io_result_def check_signal_def access_def io_return_def io_throw_def split: prod.splits sum.splits)

text \<open>A call that succeeds has written the edited form of what it has read, in the state behind the reading.\<close>

lemma edit_tool_writes:
  assumes "edit_tool env nfkc diffLines createPatch path absolutePath edits w = (Inr out, w')"
  shows "\<exists>raw final base new w1 w2. fe_readTextFile env absolutePath w1 = (Inr raw, w2) \<and>
    edited_content nfkc raw edits path = Inr (final, base, new) \<and>
    fe_writeFile env absolutePath final w2 = (Inr (), w') \<and> \<not> fe_aborted env w'"
  using assms unfolding edit_tool_def
  by (auto simp: io_bind_Inr io_steps_Inr validateEditInput_def split: if_splits prod.splits) (metis prod.exhaust)+

section \<open>Old texts of white space\<close>

text \<open>
  An old text of white space alone is empty in normalized form. It is then counted as often as the
  content has places between two code units, so that a text that occurs once is reported as a duplicate; and it is
  found at the beginning of a content of one unit, where the new text is inserted although the old
  one does not occur.
\<close>

lemma blank_counted: "indexOf [97, 32, 98 :: 16 word] [32] = Some 1 \<and> countOccurrences (\<lambda>s. s) [97, 32, 98] [32] = 2"
  by (intro conjI) code_simp+

definition blank_edit :: edit where
  "blank_edit = \<lparr>ed_oldText = [32], ed_newText = [88]\<rparr>"

definition blank_match :: matched_edit where
  "blank_match = \<lparr>rp_matchIndex = 0, rp_matchLength = 0, rp_newText = [88], me_editIndex = 0\<rparr>"

lemma blank_normalized: "normalize_edit blank_edit = blank_edit" by code_simp

lemma blank_old: "ed_oldText blank_edit \<noteq> []" by code_simp

lemma blank_fuzzy: "fm_usedFuzzyMatch (fuzzyFindText (\<lambda>s. s) [97] (ed_oldText blank_edit))" by code_simp

lemma blank_content: "normalizeForFuzzyMatch (\<lambda>s. s) [97] = [97]" by code_simp

lemma blank_matched: "match_edits (\<lambda>s. s) [97] [] (Suc 0) 0 [blank_edit] = Inr [blank_match]" by code_simp

lemma blank_replaced: "applyReplacementsPreservingUnchangedLines [97] [97] [blank_match] = Inr [88, 97]" by code_simp

lemma blank_inserted: "applyEditsToNormalizedContent (\<lambda>s. s) [97] [blank_edit] [] = Inr ([97], [88, 97])"
  using blank_normalized blank_old blank_fuzzy blank_content blank_matched blank_replaced
  by (simp add: applyEditsToNormalizedContent_def bind_result_def Let_def del: match_edits.simps)

end
