(* ===== verification/Spec2Isabelle.thy ===== *)
theory Spec2Isabelle
  imports Reducer_Results Session_Facade Protocol_Codec Agent_Properties Jsonl_Properties Truncate_Properties
    Compaction_Properties Branch_Summary Edit_Diff_Properties
begin

text \<open>
  Verification library of the agent core of pi-codex: how a session is stored and recovered, how
  the agent loop runs, how a conversation is shortened, how tools cut and edit text, and how messages
  travel between processes. All paths below are under \<open>packages/\<close>.

  \<^bold>\<open>The program and how its parts interact.\<close> A session is a tree of entries with named lanes that
  point at leaves, and a log of records of what a lane is doing. Every storage drives the same state
  (\<open>agent/src/harness/session/state.ts\<close>) by mutations: \<open>memory.ts\<close> keeps it in memory, \<open>jsonl/\<close> writes
  each mutation as a line of a file before it applies it, and rebuilds the state from the lines.
  \<open>session.ts\<close> is the interface the agent uses; \<open>context.ts\<close> turns a branch into the conversation
  that is sent to the model; \<open>reducer.ts\<close> reconstructs from the records of a lane what an interrupted
  run was doing. The loop (\<open>agent/src/agent-loop.ts\<close>) streams responses, executes tool calls and
  announces everything as events. When the conversation grows too long,
  \<open>harness/compaction/\<close> replaces its beginning by a summary, stored as one more entry, which
  \<open>context.ts\<close> knows how to read. \<open>protocol/src/\<close> carries messages as CBOR payloads in frames.

  \<^bold>\<open>Theories and sources.\<close>
  \<^item> \<open>Prelude\<close>: results (\<open>Inl\<close> is a throw), insertion-ordered maps, the steps on a world (\<open>io\<close>), decimal
    numbers, the collections \<open>map_simps\<close>, \<open>step_simps\<close> and \<open>inv_intros\<close>.
  \<^item> \<open>Messages\<close> (\<open>ai/src/types.ts\<close>, \<open>agent/src/harness/messages.ts\<close>), \<open>Session_Types\<close>
    (\<open>session/types.ts\<close>): messages, entries, records, queries and errors as records and datatypes
    with the names of the source.
  \<^item> \<open>Session_State\<close> (\<open>session/state.ts\<close>): \<open>session_state\<close> is the class with its maps; \<open>applyMutation\<close>
    is the reducer of mutations; the queries and \<open>createForkMutations\<close> follow. \<open>Session_Invariant\<close> has
    the invariant \<open>wf_state\<close> and its preservation, \<open>Session_Branch\<close> the walk to the root and the replay of
    forks, \<open>Session_Storage\<close> (\<open>session/memory.ts\<close>) the storage operations, the reachable states and
    the repository.
  \<^item> \<open>Session_Context\<close> (\<open>session/context.ts\<close>), \<open>Json_Payload\<close> and \<open>Session_Facade\<close> (\<open>session/session.ts\<close>):
    the conversation of a branch; the payload check on a heap of JavaScript objects; the session
    methods over a record of storage operations.
  \<^item> \<open>Record_Reducer\<close>, \<open>Reducer_Validation\<close>, \<open>Reducer_Results\<close> (\<open>harness/reducer.ts\<close>).
  \<^item> \<open>Json_Text\<close>, \<open>Json_Objects\<close>, \<open>Record_Objects\<close>, \<open>Json_Round_Trip\<close>, \<open>Json_Prefix\<close>: JSON text, and the typed data as
    JavaScript objects.
  \<^item> \<open>Jsonl_Codec\<close> (\<open>jsonl/codec.ts\<close>), \<open>Jsonl_Lines\<close>, \<open>Jsonl_Storage\<close> (\<open>jsonl/storage.ts\<close>), \<open>Jsonl_Recovery\<close>,
    \<open>Jsonl_Operations\<close>, \<open>Jsonl_Repo\<close> (\<open>jsonl/repo.ts\<close>), \<open>Jsonl_Forks\<close>, \<open>Jsonl_Creation\<close>, \<open>Jsonl_Disk\<close>,
    \<open>Jsonl_Properties\<close>: session files, crash recovery, forks and concurrent creations.
  \<^item> \<open>Text_Codec\<close>, \<open>Cbor\<close>, \<open>Cbor_Round_Trip\<close>, \<open>Cbor_Canonical\<close> (\<open>protocol/src/cbor/\<close>), \<open>Framing\<close>,
    \<open>Framing_Stream\<close> (\<open>protocol/src/framing.ts\<close>), \<open>Protocol_Codec\<close> (\<open>protocol/src/codec.ts\<close>).
  \<^item> \<open>Agent_Types\<close> (\<open>agent/src/types.ts\<close>), \<open>Agent_Tools\<close> and \<open>Agent_Loop\<close> (\<open>agent/src/agent-loop.ts\<close>);
    \<open>Agent_Trace\<close>, \<open>Agent_Batches\<close>, \<open>Agent_Runs\<close>, \<open>Agent_Properties\<close>.
  \<^item> \<open>Compaction\<close>, \<open>Compaction_Properties\<close> (\<open>harness/compaction/compaction.ts\<close>, \<open>utils.ts\<close>),
    \<open>Branch_Summary\<close> (\<open>harness/compaction/branch-summarization.ts\<close>).
  \<^item> \<open>Truncate\<close>, \<open>Truncate_Properties\<close> (\<open>harness/utils/truncate.ts\<close>), \<open>Edit_Diff\<close>, \<open>Edit_Diff_Properties\<close>
    (\<open>harness/tools/edit-diff.ts\<close>, the execution of \<open>edit.ts\<close>).

  \<^bold>\<open>What is shown.\<close>
  \<^item> Sessions (C1 to C7, C15): every reachable state is well formed; appending extends exactly one
    branch; a branch query is the filtered unique path to the root; forks rebuild what they copy;
    the repository is a map from ids to sessions, each operation of which touches one of them; a
    session reads what it writes.
  \<^item> Context and recovery (C8 to C13): the conversation is built entry by entry, under the latest
    configuration; the validator accepts exactly the logs described record by record; the
    reconstruction does not depend on the order of the records, says what became of every queued
    input (after an abort, outstanding steering and follow-up items are dropped), has exactly the starts and
    results of the newest tool calls, and agrees with the context on the configuration.
  \<^item> Payloads and protocol (C14, C16 to C23): the payload check accepts exactly the acyclic JSON values; the CBOR
    encoder writes exactly the canonical bytes of encodable values, the decoder inverts it, stays
    within its limits and re-encodes; frames and messages come out in order however the bytes are cut.
  \<^item> Agent loop (C24 to C27, C29): events are well bracketed, the returned messages are the announced
    ones, every call is answered in order, in sequence and in parallel, truncated calls are not
    executed, and a limit on the turns makes a run return.
  \<^item> Session files (C30 to C36): headers and mutations read back from their lines and no part of a
    line does (\<open>parse_stringify\<close> is the round trip of JSON below them); a crash loses at most the
    torn mutation; every operation of the file storage refines the one in memory; a fork is whole or
    absent; concurrent creations do not create the same id twice.
  \<^item> Text (C37, C38, C40): truncation returns the longest whole lines within the limits; edits are
    applied at once, and fuzzy edits touch only the lines they must.
  \<^item> Compaction (C39): no message is lost or moved. The recent part begins at the first cut point of the
    shortest part of the path that reaches the token budget, or, when there is none, at the first
    cut point of the path. So the messages behind its first entry are within a positive budget
    whenever there is an earlier cut point, and what is kept as a whole, with the entries that are no
    messages directly in front of the cut, may exceed it. \<open>compacted_context\<close> gives the conversation
    behind a compaction.
  \<^item> Branch summaries (C28): what is collected is exactly the part of the old branch that is not on
    the branch of the target; \<open>select_messages_ok\<close> says which of its messages are summarized.

  \<^bold>\<open>Interfaces.\<close> The laws a session relies on are the locale \<open>session_storage\<close>, interpreted as \<open>memory\<close> on
  the storage in memory. What the file storage relies on is \<open>durable_files\<close>: a read returns what
  was written, a failed append leaves a part of its text, a rename is atomic and other files are
  untouched. \<open>listed_files\<close> adds that created files are listed. Both are interpreted in
  \<open>Jsonl_Disk\<close> on a disk with a schedule of faults, so that crashes at every character are possible.

  \<^bold>\<open>Outside the sources.\<close> The model provider, tools, hooks, event sink, clock, identifiers, abort
  signal and file system are functions on a world, arguments of the definitions. Parameters are
  also the deep equality and the schema check of typebox, the byte counter of the runtime, NFKC
  normalization, and the line comparison and the patch of the diff package. Where a property needs a
  law of such a parameter, it is a named hypothesis and the witness instantiates it.

  \<^bold>\<open>Loops and fuel.\<close> Loops over data are structural or have a measure. The loops that may not
  end (the agent loop, the frame decoder, the walk of a branch summary) are partial functions: not
  returning is \<open>None\<close>, and C21, C28 and C29 state that they return. The JSON reader has fuel of twice the
  length of its text, which is enough (\<open>read_enough_fuel\<close>).

  \<^bold>\<open>Limits of the model.\<close> Strings of sessions, messages and JSON are lists of 8-bit characters, those of the
  protocol and of the text tools are UTF-16 code units; torn multi-byte characters in a session
  file are therefore not modelled. Numbers are integers or exact rationals, except in CBOR, where floats
  are bit patterns; sequence numbers and counters are unbounded; products such as
  \<open>0.8 * reserveTokens\<close> are exact. Text limits are natural numbers. Promises are steps in the order the source awaits them; interleavings are modelled
  where operations of different callers can meet: the parallel tool batch and concurrent creations,
  there in coarser steps than the single awaits. Objects are values: copies made with
  \<open>structuredClone\<close> are what makes this faithful, and sharing of an object between callers is not
  modelled. A line that is accepted but does not fit the types leaves the model; unknown
  fields of one that fits are dropped. The deep equality of the reducer ignores the order of keys,
  and is taken as equality of key-ordered objects.

  \<^bold>\<open>Not modelled.\<close> The \<open>Agent\<close> class and the harness around the loop, prompt templates, skills,
  telemetry, the Node environment, the other tools and the capture of shell output, which are wiring and input or
  output; the client and the server, which are sockets around the modelled codec; the SQLite backend, whose
  meaning is that of SQL; the providers, the command-line application and the terminal interface.
\<close>

end
